(* ===== verification/Prelude.thy ===== *)
theory Prelude
  imports Main "HOL-Library.Word" "HOL-Library.Signed_Division"
begin

text \<open>
  The prelude of the development: the integer types and conversions of C that the
  modelled sources rely on, the decimal notation in which ids, sizes and lengths travel
  between the components (printf \<open>%d\<close> and \<open>%lld\<close>), and generic lemmas on
  lists, maps and options. Nothing here models a file of the repository by itself.
\<close>

unbundle bit_operations_syntax

named_theorems frame_simps \<open>what an operation leaves unchanged\<close>

section \<open>C integers\<close>

text \<open>
  \<open>int\<close> and \<open>long long\<close> values are mathematical integers, and a conversion of the
  source that can lose bits is written out: \<open>c_int\<close> is the conversion to a 32-bit
  signed \<open>int\<close>. \<open>size_t\<close> values are 64-bit words, whose arithmetic wraps.
\<close>

type_synonym size_t = "64 word"
type_synonym cflags = "32 word"

definition c_int :: "int \<Rightarrow> int" where
  "c_int x = (x + 2 ^ 31) mod 2 ^ 32 - 2 ^ 31"

definition c_llong :: "int \<Rightarrow> int" where
  \<comment> \<open>the same for 64 bits\<close>
  "c_llong x = (x + 2 ^ 63) mod 2 ^ 64 - 2 ^ 63"

definition int_range :: "int \<Rightarrow> bool" where
  "int_range x \<longleftrightarrow> - (2 ^ 31) \<le> x \<and> x < 2 ^ 31"

definition llong_range :: "int \<Rightarrow> bool" where
  "llong_range x \<longleftrightarrow> - (2 ^ 63) \<le> x \<and> x < 2 ^ 63"

lemma c_int_range: "int_range (c_int x)"
  by (simp add: c_int_def int_range_def)

lemma c_int_id: "int_range x \<Longrightarrow> c_int x = x"
  by (simp add: c_int_def int_range_def)

lemma c_int_cong_mod: "(c_int x) mod 2 ^ 32 = x mod 2 ^ 32"
  unfolding c_int_def by (metis add_diff_cancel_right' mod_diff_left_eq)

lemma c_llong_id: "llong_range x \<Longrightarrow> c_llong x = x"
  by (simp add: c_llong_def llong_range_def)

lemma int_range_llong: "int_range x \<Longrightarrow> llong_range x"
  by (simp add: int_range_def llong_range_def)

lemma smod_nonneg: "0 \<le> a \<Longrightarrow> 0 < b \<Longrightarrow> a smod b = a mod (b :: int)"
  by (cases "a = 0") (simp_all add: signed_modulo_int_def signed_divide_int_def minus_div_mult_eq_mod sgn_if)

section \<open>Undefined behaviour\<close>

text \<open>An operation of the source that C leaves undefined is a value of \<open>c_fault\<close> on the
  left of a sum.\<close>

datatype c_fault = BufferOverflow | NullDeref | UseAfterFree

definition strcpy_buf :: "nat \<Rightarrow> string \<Rightarrow> c_fault + string" where
  \<comment> \<open>\<open>strcpy\<close> into a \<open>char\<close> array of \<open>n\<close> bytes\<close>
  "strcpy_buf n s = (if length s < n then Inr s else Inl BufferOverflow)"

text \<open>Sequencing of computations that may fault.\<close>

definition bindE :: "'e + 'a \<Rightarrow> ('a \<Rightarrow> 'e + 'b) \<Rightarrow> 'e + 'b" where
  "bindE x f = (case x of Inl e \<Rightarrow> Inl e | Inr y \<Rightarrow> f y)"

lemma bindE_simps [simp]: "bindE (Inl e) f = Inl e" "bindE (Inr y) f = f y"
  by (simp_all add: bindE_def)

lemma bindE_eq_Inr: "bindE x f = Inr z \<longleftrightarrow> (\<exists>y. x = Inr y \<and> f y = Inr z)"
  by (cases x) simp_all

section \<open>Decimal notation\<close>

definition digit :: "nat \<Rightarrow> char" where
  "digit d = char_of (48 + d)"

fun dec_nat :: "nat \<Rightarrow> string" where
  "dec_nat n = (if n < 10 then [digit n] else dec_nat (n div 10) @ [digit (n mod 10)])"

declare dec_nat.simps [simp del]

definition dec_int :: "int \<Rightarrow> string" where
  "dec_int i = (if i < 0 then CHR ''-'' # dec_nat (nat (- i)) else dec_nat (nat i))"

definition digit_val :: "char \<Rightarrow> nat" where
  "digit_val c = of_char c - 48"

definition is_dec :: "char \<Rightarrow> bool" where
  "is_dec c \<longleftrightarrow> 48 \<le> (of_char c :: nat) \<and> (of_char c :: nat) < 58"

definition dec_val :: "string \<Rightarrow> nat" where
  "dec_val s = foldl (\<lambda>n c. 10 * n + digit_val c) 0 s"

definition parse_dec :: "string \<Rightarrow> int option" where
  "parse_dec s =
     (case s of
        [] \<Rightarrow> None
      | c # cs \<Rightarrow>
          if c = CHR ''-'' then
            (if cs \<noteq> [] \<and> list_all is_dec cs then Some (- int (dec_val cs)) else None)
          else if list_all is_dec s then Some (int (dec_val s)) else None)"

lemma of_char_digit: "d < 10 \<Longrightarrow> (of_char (digit d) :: nat) = 48 + d"
  by (simp add: digit_def of_char_of)

lemma digit_val_digit [simp]: "d < 10 \<Longrightarrow> digit_val (digit d) = d"
  by (simp add: digit_val_def of_char_digit)

lemma is_dec_digit [simp]: "d < 10 \<Longrightarrow> is_dec (digit d)"
  by (simp add: is_dec_def of_char_digit)

lemma is_dec_minus [simp]: "\<not> is_dec (CHR ''-'')"
  by (simp add: is_dec_def)

lemma dec_nat_nonempty [simp]: "dec_nat n \<noteq> []"
  by (subst dec_nat.simps) simp

lemma dec_nat_digits [simp]: "list_all is_dec (dec_nat n)"
proof (induction n rule: dec_nat.induct)
  case (1 n)
  then show ?case by (simp add: dec_nat.simps [of n])
qed

lemma dec_val_dec_nat [simp]: "dec_val (dec_nat n) = n"
proof (induction n rule: dec_nat.induct)
  case (1 n)
  then show ?case by (simp add: dec_nat.simps [of n] dec_val_def)
qed

lemma hd_dec_nat [simp]: "hd (dec_nat n) \<noteq> CHR ''-''"
proof
  assume "hd (dec_nat n) = CHR ''-''"
  moreover have "is_dec (hd (dec_nat n))"
    using dec_nat_digits [of n] dec_nat_nonempty [of n] by (cases "dec_nat n") auto
  ultimately show False by simp
qed

lemma parse_dec_dec_nat [simp]: "parse_dec (dec_nat n) = Some (int n)"
  using hd_dec_nat [of n] dec_nat_digits [of n] dec_val_dec_nat [of n]
  by (cases "dec_nat n") (auto simp: parse_dec_def simp del: dec_nat_digits dec_val_dec_nat hd_dec_nat)

lemma parse_dec_dec_int [simp]: "parse_dec (dec_int i) = Some i"
  by (cases "i < 0") (simp_all add: dec_int_def, simp add: parse_dec_def)

lemma dec_int_inject [simp]: "dec_int i = dec_int j \<longleftrightarrow> i = j"
  by (metis option.inject parse_dec_dec_int)

lemma dec_int_nonempty [simp]: "dec_int i \<noteq> []"
  by (simp add: dec_int_def)

lemma dec_int_0 [simp]: "dec_int 0 = ''0''"
  by code_simp

lemma dec_int_1 [simp]: "dec_int 1 = ''1''"
  by code_simp

section \<open>Lists and maps\<close>

lemma sum_list_remove1:
  fixes f :: "'a \<Rightarrow> 'b :: ab_group_add"
  shows "x \<in> set xs \<Longrightarrow> sum_list (map f (remove1 x xs)) = sum_list (map f xs) - f x"
  by (induction xs) (auto simp: algebra_simps)

lemma map_upd_comp_option: "m k = Some v \<Longrightarrow> m(k \<mapsto> v) = m"
  by (auto simp: fun_eq_iff)

text \<open>The sum of a weight over the entries of a finite map.\<close>

definition map_total :: "('v \<Rightarrow> int) \<Rightarrow> ('k \<rightharpoonup> 'v) \<Rightarrow> int" where
  "map_total f m = (\<Sum>k\<in>dom m. f (the (m k)))"

abbreviation weight_at :: "('v \<Rightarrow> int) \<Rightarrow> 'v option \<Rightarrow> int" where
  "weight_at f \<equiv> case_option 0 f"

lemma map_total_empty [simp]: "map_total f Map.empty = 0"
  by (simp add: map_total_def)

lemma map_total_split:
  assumes "finite (dom m)"
  shows "map_total f m = weight_at f (m k) + (\<Sum>j\<in>dom m - {k}. f (the (m j)))"
proof (cases "m k")
  case None
  then have "dom m - {k} = dom m" by auto
  with None show ?thesis by (simp add: map_total_def)
next
  case (Some v)
  then have "k \<in> dom m" by auto
  with assms Some show ?thesis by (simp add: map_total_def sum.remove)
qed

lemma map_total_upd:
  assumes "finite (dom m)"
  shows "map_total f (m(k \<mapsto> v)) = map_total f m - weight_at f (m k) + f v"
proof -
  have "(\<Sum>j\<in>dom m - {k}. f (the ((m(k \<mapsto> v)) j))) = (\<Sum>j\<in>dom m - {k}. f (the (m j)))"
    by (rule sum.cong) auto
  moreover have "dom (m(k \<mapsto> v)) - {k} = dom m - {k}" by auto
  ultimately show ?thesis
    using map_total_split [OF assms, of f k] map_total_split [of "m(k \<mapsto> v)" f k] assms by simp
qed

lemma map_total_del:
  assumes "finite (dom m)"
  shows "map_total f (m(k := None)) = map_total f m - weight_at f (m k)"
proof -
  have "(\<Sum>j\<in>dom m - {k}. f (the ((m(k := None)) j))) = (\<Sum>j\<in>dom m - {k}. f (the (m j)))"
    by (rule sum.cong) auto
  moreover have "dom (m(k := None)) - {k} = dom m - {k}" by auto
  ultimately show ?thesis
    using map_total_split [OF assms, of f k] map_total_split [of "m(k := None)" f k] assms by simp
qed

lemma map_total_ge:
  assumes "finite (dom m)" and "\<And>k v. m k = Some v \<Longrightarrow> 0 \<le> f v" and "m k = Some v"
  shows "f v \<le> map_total f m"
proof -
  have "0 \<le> (\<Sum>j\<in>dom m - {k}. f (the (m j)))"
    by (rule sum_nonneg) (use assms(2) in fastforce)
  with map_total_split [OF assms(1), of f k] assms(3) show ?thesis by simp
qed

lemma map_total_nonneg:
  assumes "\<And>k v. m k = Some v \<Longrightarrow> 0 \<le> f v"
  shows "0 \<le> map_total f m"
  unfolding map_total_def by (rule sum_nonneg) (use assms in fastforce)

lemma sum_list_split_nth:
  fixes f :: "'a \<Rightarrow> int"
  assumes "i < length xs"
  shows "sum_list (map f xs) = f (xs ! i) + sum_list (map f (take i xs @ drop (Suc i) xs))"
  by (subst id_take_nth_drop [OF assms]) simp

lemma sum_list_ge:
  fixes f :: "'a \<Rightarrow> int"
  shows "x \<in> set xs \<Longrightarrow> (\<And>y. y \<in> set xs \<Longrightarrow> 0 \<le> f y) \<Longrightarrow> f x \<le> sum_list (map f xs)"
  by (rule member_le_sum_list) auto

section \<open>Machine words\<close>

lemma uint_of_int_id: "0 \<le> z \<Longrightarrow> z < 2 ^ 64 \<Longrightarrow> uint (word_of_int z :: size_t) = z"
  by (simp add: uint_word_of_int)

lemma uint_add_size: "0 \<le> z \<Longrightarrow> uint (x :: size_t) + z < 2 ^ 64 \<Longrightarrow> uint (x + word_of_int z) = uint x + z"
  by (simp add: uint_word_ariths uint_word_of_int mod_add_right_eq)

lemma uint_sub_size: "0 \<le> z \<Longrightarrow> z \<le> uint (x :: size_t) \<Longrightarrow> uint (x - word_of_int z) = uint x - z"
  using uint_lt2p [of x] by (simp add: uint_word_ariths uint_word_of_int mod_diff_right_eq)

lemma and_not_mask_int: "(x :: int) AND NOT (mask n) = x - x mod 2 ^ n"
proof -
  have "x AND NOT (mask n) = push_bit n (drop_bit n x)"
    by (rule bit_eqI) (auto simp: bit_simps)
  with bits_ident [of n x] show ?thesis by (simp add: take_bit_eq_mod)
qed

end
