(* ===== verification/Redis_State.thy ===== *)
theory Redis_State
  imports Prelude
begin

text \<open>
  The state of the modified Redis server, as far as the modelled code touches it: the
  \<open>client\<close> structure, the string objects of its reply list, the share memory
  descriptor \<open>struct smem_t\<close> and the fields of \<open>struct redisServer\<close>
  (\<open>redis/src/server.h\<close>). A client pointer is a number; \<open>clients\<close> gives the
  structure it points to and \<open>allocated\<close> the pointers that are not freed. A Redis
  \<open>dict\<close> is the finite map of its entries; the order in which an iterator visits them
  is an argument of the operations that iterate. A Redis \<open>list\<close> is the list of its
  node values.
\<close>

section \<open>Flags\<close>

text \<open>A client flag is the number of its bit in \<open>flags\<close>.\<close>

abbreviation (input) "CLIENT_SLAVE \<equiv> (0 :: nat)"
abbreviation (input) "CLIENT_MASTER \<equiv> (1 :: nat)"
abbreviation (input) "CLIENT_MONITOR \<equiv> (2 :: nat)"
abbreviation (input) "CLIENT_MULTI \<equiv> (3 :: nat)"
abbreviation (input) "CLIENT_BLOCKED \<equiv> (4 :: nat)"
abbreviation (input) "CLIENT_CLOSE_AFTER_REPLY \<equiv> (6 :: nat)"
abbreviation (input) "CLIENT_UNBLOCKED \<equiv> (7 :: nat)"
abbreviation (input) "CLIENT_LUA \<equiv> (8 :: nat)"
abbreviation (input) "CLIENT_ASKING \<equiv> (9 :: nat)"
abbreviation (input) "CLIENT_CLOSE_ASAP \<equiv> (10 :: nat)"
abbreviation (input) "CLIENT_UNIX_SOCKET \<equiv> (11 :: nat)"
abbreviation (input) "CLIENT_DIRTY_EXEC \<equiv> (12 :: nat)"
abbreviation (input) "CLIENT_MASTER_FORCE_REPLY \<equiv> (13 :: nat)"
abbreviation (input) "CLIENT_FORCE_AOF \<equiv> (14 :: nat)"
abbreviation (input) "CLIENT_FORCE_REPL \<equiv> (15 :: nat)"
abbreviation (input) "CLIENT_PUBSUB \<equiv> (18 :: nat)"
abbreviation (input) "CLIENT_PREVENT_AOF_PROP \<equiv> (19 :: nat)"
abbreviation (input) "CLIENT_PREVENT_REPL_PROP \<equiv> (20 :: nat)"
abbreviation (input) "CLIENT_PENDING_WRITE \<equiv> (21 :: nat)"
abbreviation (input) "CLIENT_REPLY_OFF \<equiv> (22 :: nat)"
abbreviation (input) "CLIENT_REPLY_SKIP_NEXT \<equiv> (23 :: nat)"
abbreviation (input) "CLIENT_REPLY_SKIP \<equiv> (24 :: nat)"

lemma bit_set_flag [simp]: "bit (set_bit m (f :: cflags)) n \<longleftrightarrow> bit f n \<or> (m = n \<and> n < 32)"
  by (auto simp: bit_set_bit_iff)

lemma bit_unset_flag [simp]: "bit (unset_bit m (f :: cflags)) n \<longleftrightarrow> bit f n \<and> m \<noteq> n"
  by (auto simp: bit_unset_bit_iff)

section \<open>Objects, clients, the server\<close>

text \<open>A string object: the raw encoding (whose pointer is NULL in the placeholder of a
  deferred length), the embedded encoding and the integer encoding.\<close>

datatype robj = Raw "string option" | EmbStr string | IntEnc int

record client =
  fd :: int
  name :: "string option"
  querybuf :: string
  argv :: "string list"
  cmd :: "string option"
  reqtype :: int
  multibulklen :: int
  bulklen :: int
  reply :: "robj list"
  reply_bytes :: size_t
  sentlen :: nat
  lastinteraction :: int
  obuf_soft_limit_reached_time :: int
  flags :: cflags
  authenticated :: bool
  replstate :: int
  repl_put_online_on_ack :: bool
  client_channels :: "string set"
  buf :: string

text \<open>\<open>buf\<close> is the used part of the static buffer, so that \<open>bufpos\<close> is its
  length; \<open>cmd\<close> is the name of the command table entry; \<open>client_channels\<close> is the key set of the client's \<open>smempubsub_channels\<close>.\<close>

abbreviation bufpos :: "client \<Rightarrow> nat" where
  "bufpos c \<equiv> length (buf c)"

abbreviation (input) "SMEM_T_STATE_AVAILAVLE \<equiv> (0 :: int)"
abbreviation (input) "SMEM_T_STATE_USED \<equiv> (1 :: int)"

record smem_t =
  smem_id :: int
  smem_size :: int
  smem_state :: int
  smem_cnt :: int
  smem_free_cnt :: int
  last_time :: int

record server =
  unixtime :: int
  clients :: "nat \<Rightarrow> client"
  allocated :: "nat set"
  current_client :: "nat option"
  client_list :: "nat list"
  clients_pending_write :: "nat list"
  clients_to_close :: "nat list"
  unblocked_clients :: "nat list"
  obuf_hard_limit :: "int \<Rightarrow> size_t"
  obuf_soft_limit :: "int \<Rightarrow> size_t"
  obuf_soft_seconds :: "int \<Rightarrow> int"
  smempubsub_channels :: "string \<rightharpoonup> nat list"
  smempubsub_memorys :: "string \<rightharpoonup> smem_t"
  smempubsub_memorys_available :: "string \<rightharpoonup> smem_t list"
  smem_list_available :: "smem_t list"
  share_memory_size :: size_t
  share_memory_limit :: size_t
  aborted :: bool

text \<open>A failed \<open>serverAssert\<close> or \<open>serverPanic\<close> aborts the process.\<close>

definition panic :: "server \<Rightarrow> server" where
  "panic s = s\<lparr>aborted := True\<rparr>"

definition update_client :: "nat \<Rightarrow> (client \<Rightarrow> client) \<Rightarrow> server \<Rightarrow> server" where
  "update_client c f s = s\<lparr>clients := (clients s)(c := f (clients s c))\<rparr>"

lemma clients_update_client [simp]:
  "clients (update_client c f s) c' = (if c' = c then f (clients s c) else clients s c')"
  by (simp add: update_client_def)

lemma update_client_frame [simp]:
  "unixtime (update_client c f s) = unixtime s"
  "allocated (update_client c f s) = allocated s"
  "current_client (update_client c f s) = current_client s"
  "client_list (update_client c f s) = client_list s"
  "clients_pending_write (update_client c f s) = clients_pending_write s"
  "clients_to_close (update_client c f s) = clients_to_close s"
  "unblocked_clients (update_client c f s) = unblocked_clients s"
  "obuf_hard_limit (update_client c f s) = obuf_hard_limit s"
  "obuf_soft_limit (update_client c f s) = obuf_soft_limit s"
  "obuf_soft_seconds (update_client c f s) = obuf_soft_seconds s"
  "smempubsub_channels (update_client c f s) = smempubsub_channels s"
  "smempubsub_memorys (update_client c f s) = smempubsub_memorys s"
  "smempubsub_memorys_available (update_client c f s) = smempubsub_memorys_available s"
  "smem_list_available (update_client c f s) = smem_list_available s"
  "share_memory_size (update_client c f s) = share_memory_size s"
  "share_memory_limit (update_client c f s) = share_memory_limit s"
  "aborted (update_client c f s) = aborted s"
  by (simp_all add: update_client_def)

section \<open>What the reply functions may change\<close>

text \<open>
  \<open>out_frame s t\<close>: between \<open>s\<close> and \<open>t\<close> only output buffers, the pending-write
  and close-as-soon-as-possible flags and the two queues that go with them have changed.
\<close>

definition same_control :: "client \<Rightarrow> client \<Rightarrow> bool" where
  "same_control a b \<longleftrightarrow>
     fd b = fd a \<and> name b = name a \<and> querybuf b = querybuf a \<and> argv b = argv a \<and> cmd b = cmd a \<and>
     reqtype b = reqtype a \<and> multibulklen b = multibulklen a \<and> bulklen b = bulklen a \<and>
     lastinteraction b = lastinteraction a \<and> authenticated b = authenticated a \<and>
     replstate b = replstate a \<and> repl_put_online_on_ack b = repl_put_online_on_ack a \<and>
     client_channels b = client_channels a \<and> sentlen b = sentlen a \<and>
     (\<forall>n. n \<noteq> CLIENT_PENDING_WRITE \<longrightarrow> n \<noteq> CLIENT_CLOSE_ASAP \<longrightarrow> bit (flags b) n = bit (flags a) n)"

definition out_frame :: "server \<Rightarrow> server \<Rightarrow> bool" where
  "out_frame s t \<longleftrightarrow>
     unixtime t = unixtime s \<and> allocated t = allocated s \<and> current_client t = current_client s \<and> client_list t = client_list s \<and>
     unblocked_clients t = unblocked_clients s \<and>
     obuf_hard_limit t = obuf_hard_limit s \<and> obuf_soft_limit t = obuf_soft_limit s \<and>
     obuf_soft_seconds t = obuf_soft_seconds s \<and>
     smempubsub_channels t = smempubsub_channels s \<and>
     smempubsub_memorys t = smempubsub_memorys s \<and>
     smempubsub_memorys_available t = smempubsub_memorys_available s \<and>
     smem_list_available t = smem_list_available s \<and>
     share_memory_size t = share_memory_size s \<and>
     share_memory_limit t = share_memory_limit s \<and>
     (\<forall>c. same_control (clients s c) (clients t c))"

lemma same_control_refl [simp]: "same_control a a"
  by (simp add: same_control_def)

lemma same_control_trans: "same_control a b \<Longrightarrow> same_control b c \<Longrightarrow> same_control a c"
  by (simp add: same_control_def)

lemma out_frame_refl [simp]: "out_frame s s"
  by (simp add: out_frame_def)

lemma out_frame_trans [trans]: "out_frame s t \<Longrightarrow> out_frame t u \<Longrightarrow> out_frame s u"
  unfolding out_frame_def by (auto intro: same_control_trans)

lemma out_frame_update_client: "same_control (clients s c) (f (clients s c)) \<Longrightarrow> out_frame s (update_client c f s)"
  by (simp add: out_frame_def)

lemma out_frame_simps:
  assumes "out_frame s t"
  shows "unixtime t = unixtime s" "allocated t = allocated s" "client_list t = client_list s"
    "smempubsub_channels t = smempubsub_channels s"
    "smempubsub_memorys t = smempubsub_memorys s"
    "smempubsub_memorys_available t = smempubsub_memorys_available s"
    "smem_list_available t = smem_list_available s"
    "share_memory_size t = share_memory_size s" "share_memory_limit t = share_memory_limit s"
    "client_channels (clients t c) = client_channels (clients s c)"
    "name (clients t c) = name (clients s c)" "fd (clients t c) = fd (clients s c)"
    "current_client t = current_client s" "unblocked_clients t = unblocked_clients s"
  using assms by (simp_all add: out_frame_def same_control_def)

end
