(* ===== verification/Redis_Reply.thy ===== *)
theory Redis_Reply
  imports Redis_State
begin

text \<open>
  The output side of \<open>redis/src/networking.c\<close>: queueing reply bytes in the static
  buffer and the reply list of a client, the output buffer limits, and the reply
  formatting functions the commands call. The allocator is a parameter: how many bytes a
  string takes (\<open>sdsZmallocSize\<close>, \<open>zmalloc_size\<close>) and which strings
  \<open>createStringObject\<close> embeds in their object.
\<close>

section \<open>Objects\<close>

record alloc =
  emb_encoded :: "string \<Rightarrow> bool"
  sds_mem :: "string \<Rightarrow> size_t"
  emb_mem :: "string \<Rightarrow> size_t"

abbreviation (input) crlf :: string where "crlf \<equiv> [CHR 0x0D, CHR 0x0A]"
abbreviation (input) "PROTO_REPLY_CHUNK_BYTES \<equiv> (16 * 1024 :: nat)"
abbreviation (input) "OBJ_SHARED_BULKHDR_LEN \<equiv> (32 :: int)"

definition createStringObject :: "alloc \<Rightarrow> string \<Rightarrow> robj" where
  "createStringObject A str = (if emb_encoded A str then EmbStr str else Raw (Some str))"

text \<open>\<open>sdslen(o->ptr)\<close> and the bytes themselves; an object without a string has none.\<close>

fun robj_bytes :: "robj \<Rightarrow> string" where
  "robj_bytes (Raw None) = []"
| "robj_bytes (Raw (Some str)) = str"
| "robj_bytes (EmbStr str) = str"
| "robj_bytes (IntEnc i) = dec_int i"

fun sdsEncodedObject :: "robj \<Rightarrow> bool" where
  "sdsEncodedObject (IntEnc i) = False"
| "sdsEncodedObject _ = True"

fun getStringObjectSdsUsedMemory :: "alloc \<Rightarrow> robj \<Rightarrow> size_t" where
  "getStringObjectSdsUsedMemory A (Raw None) = 0"
| "getStringObjectSdsUsedMemory A (Raw (Some str)) = sds_mem A str"
| "getStringObjectSdsUsedMemory A (EmbStr str) = emb_mem A str"
| "getStringObjectSdsUsedMemory A (IntEnc i) = 0"

section \<open>Shared objects\<close>

definition shared_crlf :: robj where "shared_crlf = Raw (Some crlf)"
definition shared_czero :: robj where "shared_czero = Raw (Some ('':0'' @ crlf))"
definition shared_cone :: robj where "shared_cone = Raw (Some ('':1'' @ crlf))"
definition shared_nullbulk :: robj where "shared_nullbulk = Raw (Some (''$-1'' @ crlf))"
definition shared_messagebulk :: "alloc \<Rightarrow> robj" where
  "shared_messagebulk A = createStringObject A (''$7'' @ crlf @ ''message'' @ crlf)"
definition shared_subscribebulk :: "alloc \<Rightarrow> robj" where
  "shared_subscribebulk A = createStringObject A (''$9'' @ crlf @ ''subscribe'' @ crlf)"
definition shared_unsubscribebulk :: "alloc \<Rightarrow> robj" where
  "shared_unsubscribebulk A = createStringObject A (''$11'' @ crlf @ ''unsubscribe'' @ crlf)"
definition shared_mbulkhdr :: "nat \<Rightarrow> robj" where
  "shared_mbulkhdr j = Raw (Some (''*'' @ dec_nat j @ crlf))"
definition shared_bulkhdr :: "nat \<Rightarrow> robj" where
  "shared_bulkhdr j = Raw (Some (''$'' @ dec_nat j @ crlf))"

section \<open>Output buffer limits\<close>

abbreviation (input) "CLIENT_TYPE_NORMAL \<equiv> (0 :: int)"
abbreviation (input) "CLIENT_TYPE_SLAVE \<equiv> (1 :: int)"
abbreviation (input) "CLIENT_TYPE_PUBSUB \<equiv> (2 :: int)"
abbreviation (input) "CLIENT_TYPE_MASTER \<equiv> (3 :: int)"

text \<open>\<open>sizeof(listNode)+sizeof(robj)\<close> on a 64-bit target.\<close>

definition getClientOutputBufferMemoryUsage :: "client \<Rightarrow> size_t" where
  "getClientOutputBufferMemoryUsage c = reply_bytes c + (24 + 16) * of_nat (length (reply c))"

definition getClientType :: "client \<Rightarrow> int" where
  "getClientType c =
     (if bit (flags c) CLIENT_MASTER then CLIENT_TYPE_MASTER
      else if bit (flags c) CLIENT_SLAVE \<and> \<not> bit (flags c) CLIENT_MONITOR then CLIENT_TYPE_SLAVE
      else if bit (flags c) CLIENT_PUBSUB then CLIENT_TYPE_PUBSUB
      else CLIENT_TYPE_NORMAL)"

definition checkClientOutputBufferLimits :: "server \<Rightarrow> client \<Rightarrow> bool \<times> client" where
  "checkClientOutputBufferLimits s c =
     (let used_mem = getClientOutputBufferMemoryUsage c;
          cls = (if getClientType c = CLIENT_TYPE_MASTER then CLIENT_TYPE_NORMAL else getClientType c);
          hard = (obuf_hard_limit s cls \<noteq> 0 \<and> obuf_hard_limit s cls \<le> used_mem);
          soft = (obuf_soft_limit s cls \<noteq> 0 \<and> obuf_soft_limit s cls \<le> used_mem)
      in if soft then
           (if obuf_soft_limit_reached_time c = 0 then
              (hard, c\<lparr>obuf_soft_limit_reached_time := unixtime s\<rparr>)
            else if unixtime s - obuf_soft_limit_reached_time c \<le> obuf_soft_seconds s cls then (hard, c)
            else (True, c))
         else (hard, c\<lparr>obuf_soft_limit_reached_time := 0\<rparr>))"

definition freeClientAsync :: "nat \<Rightarrow> server \<Rightarrow> server" where
  "freeClientAsync c s =
     (if bit (flags (clients s c)) CLIENT_CLOSE_ASAP \<or> bit (flags (clients s c)) CLIENT_LUA then s
      else (update_client c (\<lambda>cl. cl\<lparr>flags := set_bit CLIENT_CLOSE_ASAP (flags cl)\<rparr>) s)
             \<lparr>clients_to_close := clients_to_close s @ [c]\<rparr>)"

definition asyncCloseClientOnOutputBufferLimitReached :: "nat \<Rightarrow> server \<Rightarrow> server" where
  "asyncCloseClientOnOutputBufferLimitReached c s =
     (if \<not> reply_bytes (clients s c) < - 1 - 1024 * 64 then panic s
      else if reply_bytes (clients s c) = 0 \<or> bit (flags (clients s c)) CLIENT_CLOSE_ASAP then s
      else
        (case checkClientOutputBufferLimits s (clients s c) of
           (over, cl) \<Rightarrow>
             (let s1 = update_client c (\<lambda>_. cl) s
              in if over then freeClientAsync c s1 else s1)))"

section \<open>Queueing bytes\<close>

definition clientHasPendingReplies :: "client \<Rightarrow> bool" where
  "clientHasPendingReplies c \<longleftrightarrow> bufpos c \<noteq> 0 \<or> reply c \<noteq> []"

abbreviation (input) "REPL_STATE_NONE \<equiv> (0 :: int)"
abbreviation (input) "SLAVE_STATE_ONLINE \<equiv> (9 :: int)"

definition prepareClientToWrite :: "nat \<Rightarrow> server \<Rightarrow> bool \<times> server" where
  "prepareClientToWrite c s =
     (let cl = clients s c
      in if bit (flags cl) CLIENT_LUA then (True, s)
         else if bit (flags cl) CLIENT_REPLY_OFF \<or> bit (flags cl) CLIENT_REPLY_SKIP then (False, s)
         else if bit (flags cl) CLIENT_MASTER \<and> \<not> bit (flags cl) CLIENT_MASTER_FORCE_REPLY then (False, s)
         else if fd cl \<le> 0 then (False, s)
         else if \<not> clientHasPendingReplies cl \<and> \<not> bit (flags cl) CLIENT_PENDING_WRITE \<and>
                 (replstate cl = REPL_STATE_NONE \<or>
                  (replstate cl = SLAVE_STATE_ONLINE \<and> \<not> repl_put_online_on_ack cl))
         then (True,
               (update_client c (\<lambda>cl. cl\<lparr>flags := set_bit CLIENT_PENDING_WRITE (flags cl)\<rparr>) s)
                 \<lparr>clients_pending_write := c # clients_pending_write s\<rparr>)
         else (True, s))"

definition addReplyToBuffer :: "client \<Rightarrow> string \<Rightarrow> bool \<times> client" where
  "addReplyToBuffer c str =
     (let available = PROTO_REPLY_CHUNK_BYTES - bufpos c
      in if bit (flags c) CLIENT_CLOSE_AFTER_REPLY then (True, c)
         else if length (reply c) > 0 then (False, c)
         else if length str > available then (False, c)
         else (True, c\<lparr>buf := buf c @ str\<rparr>))"

text \<open>Whether bytes can be appended to the last object of the reply list.\<close>

fun glue_tail :: "robj \<Rightarrow> string \<Rightarrow> string option" where
  "glue_tail (Raw (Some str)) x =
     (if length str + length x \<le> PROTO_REPLY_CHUNK_BYTES then Some (str @ x) else None)"
| "glue_tail _ x = None"

definition addReplyObjectToList :: "alloc \<Rightarrow> client \<Rightarrow> robj \<Rightarrow> client" where
  "addReplyObjectToList A c obj =
     (if reply c = [] then
        c\<lparr>reply := [obj], reply_bytes := reply_bytes c + getStringObjectSdsUsedMemory A obj\<rparr>
      else
        (case glue_tail (last (reply c)) (robj_bytes obj) of
           Some str \<Rightarrow>
             c\<lparr>reply := butlast (reply c) @ [Raw (Some str)],
               reply_bytes := reply_bytes c - sds_mem A (robj_bytes (last (reply c))) + sds_mem A str\<rparr>
         | None \<Rightarrow>
             c\<lparr>reply := reply c @ [obj],
               reply_bytes := reply_bytes c + getStringObjectSdsUsedMemory A obj\<rparr>))"

definition addReplyObjectToList_s :: "alloc \<Rightarrow> nat \<Rightarrow> robj \<Rightarrow> server \<Rightarrow> server" where
  "addReplyObjectToList_s A c obj s =
     (if bit (flags (clients s c)) CLIENT_CLOSE_AFTER_REPLY then s
      else asyncCloseClientOnOutputBufferLimitReached c
             (update_client c (\<lambda>cl. addReplyObjectToList A cl obj) s))"

text \<open>The same step with an sds string (which becomes a raw object) and with a C buffer
  (which becomes an object of \<open>createStringObject\<close>).\<close>

definition addReplySdsToList_s :: "alloc \<Rightarrow> nat \<Rightarrow> string \<Rightarrow> server \<Rightarrow> server" where
  "addReplySdsToList_s A c str s =
     (if bit (flags (clients s c)) CLIENT_CLOSE_AFTER_REPLY then s
      else asyncCloseClientOnOutputBufferLimitReached c
             (update_client c (\<lambda>cl. addReplyObjectToList A cl (Raw (Some str))) s))"

definition addReplyStringToList_s :: "alloc \<Rightarrow> nat \<Rightarrow> string \<Rightarrow> server \<Rightarrow> server" where
  "addReplyStringToList_s A c str s =
     (if bit (flags (clients s c)) CLIENT_CLOSE_AFTER_REPLY then s
      else asyncCloseClientOnOutputBufferLimitReached c
             (update_client c (\<lambda>cl. addReplyObjectToList A cl (createStringObject A str)) s))"

section \<open>Reply functions\<close>

definition addReplyBytes ::
    "(nat \<Rightarrow> server \<Rightarrow> server) \<Rightarrow> nat \<Rightarrow> string \<Rightarrow> server \<Rightarrow> server" where
  \<comment> \<open>try the static buffer, else run \<open>to_list\<close>\<close>
  "addReplyBytes to_list c str s =
     (case addReplyToBuffer (clients s c) str of
        (ok, cl) \<Rightarrow> if ok then update_client c (\<lambda>_. cl) s else to_list c s)"

definition addReply :: "alloc \<Rightarrow> nat \<Rightarrow> robj \<Rightarrow> server \<Rightarrow> server" where
  "addReply A c obj s =
     (case prepareClientToWrite c s of
        (ok, s1) \<Rightarrow>
          if \<not> ok then s1
          else if sdsEncodedObject obj then
            addReplyBytes (\<lambda>c. addReplyObjectToList_s A c obj) c (robj_bytes obj) s1
          else if length (reply (clients s1 c)) = 0 \<and>
                  PROTO_REPLY_CHUNK_BYTES - bufpos (clients s1 c) \<ge> 32 \<and>
                  fst (addReplyToBuffer (clients s1 c) (robj_bytes obj)) then
            update_client c (\<lambda>_. snd (addReplyToBuffer (clients s1 c) (robj_bytes obj))) s1
          else
            (let dec = createStringObject A (robj_bytes obj)
             in addReplyBytes (\<lambda>c. addReplyObjectToList_s A c dec) c (robj_bytes dec) s1))"

definition addReplySds :: "alloc \<Rightarrow> nat \<Rightarrow> string \<Rightarrow> server \<Rightarrow> server" where
  "addReplySds A c str s =
     (case prepareClientToWrite c s of
        (ok, s1) \<Rightarrow>
          if \<not> ok then s1
          else addReplyBytes (\<lambda>c. addReplySdsToList_s A c str) c str s1)"

definition addReplyString :: "alloc \<Rightarrow> nat \<Rightarrow> string \<Rightarrow> server \<Rightarrow> server" where
  "addReplyString A c str s =
     (case prepareClientToWrite c s of
        (ok, s1) \<Rightarrow>
          if \<not> ok then s1
          else addReplyBytes (\<lambda>c. addReplyStringToList_s A c str) c str s1)"

definition addReplyErrorLength :: "alloc \<Rightarrow> nat \<Rightarrow> string \<Rightarrow> server \<Rightarrow> server" where
  "addReplyErrorLength A c str s =
     addReplyString A c crlf (addReplyString A c str (addReplyString A c ''-ERR '' s))"

definition addReplyError :: "alloc \<Rightarrow> nat \<Rightarrow> string \<Rightarrow> server \<Rightarrow> server" where
  "addReplyError A c e s = addReplyErrorLength A c e s"

text \<open>The formatted variant gets the formatted string and blanks line breaks.\<close>

definition addReplyErrorFormat :: "alloc \<Rightarrow> nat \<Rightarrow> string \<Rightarrow> server \<Rightarrow> server" where
  "addReplyErrorFormat A c str s =
     addReplyErrorLength A c
       (map (\<lambda>ch. if ch = CHR 0x0D \<or> ch = CHR 0x0A then CHR '' '' else ch) str) s"

definition addReplyStatusLength :: "alloc \<Rightarrow> nat \<Rightarrow> string \<Rightarrow> server \<Rightarrow> server" where
  "addReplyStatusLength A c str s =
     addReplyString A c crlf (addReplyString A c str (addReplyString A c ''+'' s))"

definition addReplyLongLongWithPrefix :: "alloc \<Rightarrow> nat \<Rightarrow> int \<Rightarrow> char \<Rightarrow> server \<Rightarrow> server" where
  "addReplyLongLongWithPrefix A c ll prefix s =
     (if prefix = CHR ''*'' \<and> ll < OBJ_SHARED_BULKHDR_LEN \<and> ll \<ge> 0 then
        addReply A c (shared_mbulkhdr (nat ll)) s
      else if prefix = CHR ''$'' \<and> ll < OBJ_SHARED_BULKHDR_LEN \<and> ll \<ge> 0 then
        addReply A c (shared_bulkhdr (nat ll)) s
      else addReplyString A c (prefix # dec_int ll @ crlf) s)"

definition addReplyLongLong :: "alloc \<Rightarrow> nat \<Rightarrow> int \<Rightarrow> server \<Rightarrow> server" where
  "addReplyLongLong A c ll s =
     (if ll = 0 then addReply A c shared_czero s
      else if ll = 1 then addReply A c shared_cone s
      else addReplyLongLongWithPrefix A c ll (CHR '':'') s)"

text \<open>The loop that counts the decimal digits of a \<open>long\<close>.\<close>

fun count_digits :: "nat \<Rightarrow> nat" where
  "count_digits n = (if n div 10 = 0 then 1 else Suc (count_digits (n div 10)))"

declare count_digits.simps [simp del]

fun bulk_len :: "robj \<Rightarrow> nat" where
  "bulk_len (IntEnc n) = (if n < 0 then Suc (count_digits (nat (- n))) else count_digits (nat n))"
| "bulk_len obj = length (robj_bytes obj)"

definition addReplyBulkLen :: "alloc \<Rightarrow> nat \<Rightarrow> robj \<Rightarrow> server \<Rightarrow> server" where
  "addReplyBulkLen A c obj s =
     (if int (bulk_len obj) < OBJ_SHARED_BULKHDR_LEN then addReply A c (shared_bulkhdr (bulk_len obj)) s
      else addReplyLongLongWithPrefix A c (int (bulk_len obj)) (CHR ''$'') s)"

definition addReplyBulk :: "alloc \<Rightarrow> nat \<Rightarrow> robj \<Rightarrow> server \<Rightarrow> server" where
  "addReplyBulk A c obj s =
     addReply A c shared_crlf (addReply A c obj (addReplyBulkLen A c obj s))"

definition addReplyBulkCBuffer :: "alloc \<Rightarrow> nat \<Rightarrow> string \<Rightarrow> server \<Rightarrow> server" where
  "addReplyBulkCBuffer A c p s =
     addReply A c shared_crlf
       (addReplyString A c p (addReplyLongLongWithPrefix A c (int (length p)) (CHR ''$'') s))"

definition addReplyBulkSds :: "alloc \<Rightarrow> nat \<Rightarrow> string \<Rightarrow> server \<Rightarrow> server" where
  "addReplyBulkSds A c str s =
     addReply A c shared_crlf
       (addReplySds A c str (addReplySds A c (''$'' @ dec_nat (length str) @ crlf) s))"

definition addReplyBulkCString :: "alloc \<Rightarrow> nat \<Rightarrow> string option \<Rightarrow> server \<Rightarrow> server" where
  "addReplyBulkCString A c str s =
     (case str of
        None \<Rightarrow> addReply A c shared_nullbulk s
      | Some p \<Rightarrow> addReplyBulkCBuffer A c p s)"

definition addReplyBulkLongLong :: "alloc \<Rightarrow> nat \<Rightarrow> int \<Rightarrow> server \<Rightarrow> server" where
  "addReplyBulkLongLong A c ll s = addReplyBulkCBuffer A c (dec_int ll) s"

section \<open>Deferred lengths\<close>

text \<open>\<open>addDeferredMultiBulkLength\<close> returns the node it appended, here its position in the
  reply list, or NULL.\<close>

definition addDeferredMultiBulkLength :: "nat \<Rightarrow> server \<Rightarrow> nat option \<times> server" where
  "addDeferredMultiBulkLength c s =
     (case prepareClientToWrite c s of
        (ok, s1) \<Rightarrow>
          if \<not> ok then (None, s1)
          else (Some (length (reply (clients s1 c))),
                update_client c (\<lambda>cl. cl\<lparr>reply := reply cl @ [Raw None]\<rparr>) s1))"

definition has_ptr :: "robj \<Rightarrow> bool" where
  "has_ptr obj \<longleftrightarrow> obj \<noteq> Raw None"

definition setDeferredMultiBulkLength :: "alloc \<Rightarrow> nat \<Rightarrow> nat option \<Rightarrow> int \<Rightarrow> server \<Rightarrow> server" where
  "setDeferredMultiBulkLength A c node len s =
     (case node of
        None \<Rightarrow> s
      | Some i \<Rightarrow>
          (let hdr = ''*'' @ dec_int len @ crlf;
               cl = clients s c;
               s1 = (if Suc i < length (reply cl) \<and> has_ptr (reply cl ! Suc i) then
                       (let glued = hdr @ robj_bytes (reply cl ! Suc i)
                        in update_client c (\<lambda>cl. cl
                             \<lparr>reply := take i (reply cl) @ [Raw (Some glued)] @ drop (i + 2) (reply cl),
                              reply_bytes := reply_bytes cl + sds_mem A hdr - sds_mem A hdr
                                - getStringObjectSdsUsedMemory A (reply cl ! Suc i) + sds_mem A glued\<rparr>) s)
                     else
                       update_client c (\<lambda>cl. cl
                         \<lparr>reply := (reply cl)[i := Raw (Some hdr)],
                          reply_bytes := reply_bytes cl + sds_mem A hdr\<rparr>) s)
           in asyncCloseClientOnOutputBufferLimitReached c s1))"

definition copyClientOutputBuffer :: "client \<Rightarrow> client \<Rightarrow> client" where
  "copyClientOutputBuffer dst src =
     dst\<lparr>reply := reply src, buf := buf src, reply_bytes := reply_bytes src\<rparr>"

section \<open>The output stream\<close>

text \<open>What a client's buffers hold, as one byte stream, and the part not sent yet.\<close>

definition out_bytes :: "client \<Rightarrow> string" where
  "out_bytes c = buf c @ concat (map robj_bytes (reply c))"

definition pending :: "client \<Rightarrow> string" where
  "pending c = drop (sentlen c) (out_bytes c)"

definition obuf_wf :: "client \<Rightarrow> bool" where
  "obuf_wf c \<longleftrightarrow> bufpos c \<le> PROTO_REPLY_CHUNK_BYTES \<and> sentlen c \<le> length (out_bytes c)"

text \<open>The clients \<open>prepareClientToWrite\<close> lets write, and those whose buffers are closed to
  further data.\<close>

definition accepts :: "client \<Rightarrow> bool" where
  "accepts c \<longleftrightarrow> bit (flags c) CLIENT_LUA \<or>
     (\<not> bit (flags c) CLIENT_REPLY_OFF \<and> \<not> bit (flags c) CLIENT_REPLY_SKIP \<and>
      \<not> (bit (flags c) CLIENT_MASTER \<and> \<not> bit (flags c) CLIENT_MASTER_FORCE_REPLY) \<and> 0 < fd c)"

definition writable :: "client \<Rightarrow> bool" where
  "writable c \<longleftrightarrow> accepts c \<and> \<not> bit (flags c) CLIENT_CLOSE_AFTER_REPLY"

text \<open>\<open>appends c x s t\<close>: going from \<open>s\<close> to \<open>t\<close> adds exactly \<open>x\<close> to the stream
  of client \<open>c\<close> if it can be written to, and nothing otherwise; no other client and
  nothing but output state changes.\<close>

definition appends :: "nat \<Rightarrow> string \<Rightarrow> server \<Rightarrow> server \<Rightarrow> bool" where
  "appends c x s t \<longleftrightarrow>
     out_frame s t \<and> (\<forall>c'. c' \<noteq> c \<longrightarrow> clients t c' = clients s c') \<and>
     out_bytes (clients t c) = out_bytes (clients s c) @ (if writable (clients s c) then x else []) \<and>
     (bufpos (clients s c) \<le> PROTO_REPLY_CHUNK_BYTES \<longrightarrow> bufpos (clients t c) \<le> PROTO_REPLY_CHUNK_BYTES)"

lemma writable_same_control: "same_control a b \<Longrightarrow> writable b = writable a"
  by (simp add: writable_def accepts_def same_control_def)

lemma appends_writable:
  "appends c x s t \<Longrightarrow> writable (clients t c') = writable (clients s c')"
  by (rule writable_same_control) (simp add: appends_def out_frame_def)

lemma appends_trans:
  "appends c x s t \<Longrightarrow> appends c y t u \<Longrightarrow> appends c (x @ y) s u"
  using appends_writable [of c x s t c]
  unfolding appends_def by (auto intro: out_frame_trans)

lemma appends_out_frame: "appends c x s t \<Longrightarrow> out_frame s t"
  by (simp add: appends_def)

lemma appends_pending:
  assumes "appends c x s t" "obuf_wf (clients s c)"
  shows "pending (clients t c) = pending (clients s c) @ (if writable (clients s c) then x else [])"
    and "obuf_wf (clients t c)"
proof -
  have "sentlen (clients t c) = sentlen (clients s c)"
    using assms(1) by (simp add: appends_def out_frame_def same_control_def)
  with assms show "pending (clients t c) = pending (clients s c) @ (if writable (clients s c) then x else [])"
    and "obuf_wf (clients t c)"
    by (simp_all add: appends_def pending_def obuf_wf_def)
qed

subsection \<open>The low level functions\<close>

definition same_output :: "client \<Rightarrow> client \<Rightarrow> bool" where
  "same_output a b \<longleftrightarrow> buf b = buf a \<and> reply b = reply a"

definition out_silent :: "nat \<Rightarrow> server \<Rightarrow> server \<Rightarrow> bool" where
  "out_silent c s t \<longleftrightarrow> out_frame s t \<and> (\<forall>c'. c' \<noteq> c \<longrightarrow> clients t c' = clients s c') \<and>
     same_output (clients s c) (clients t c)"

lemma out_silent_refl [simp]: "out_silent c s s"
  by (simp add: out_silent_def same_output_def)

lemma out_silent_trans: "out_silent c s t \<Longrightarrow> out_silent c t u \<Longrightarrow> out_silent c s u"
  unfolding out_silent_def same_output_def by (auto intro: out_frame_trans)

lemma out_silent_appends:
  "out_silent c s t \<Longrightarrow> appends c [] s t"
  by (simp add: out_silent_def appends_def same_output_def out_bytes_def)

lemma prepare_cases:
  assumes "prepareClientToWrite c s = (ok, s1)"
  shows "ok = accepts (clients s c)" and "out_silent c s s1"
proof -
  show "ok = accepts (clients s c)"
    using assms by (auto simp: prepareClientToWrite_def accepts_def Let_def split: if_splits)
  show "out_silent c s s1"
    using assms
    by (auto simp: prepareClientToWrite_def out_silent_def out_frame_def same_control_def
        same_output_def Let_def split: if_splits)
qed

lemma freeClientAsync_silent: "out_silent c s (freeClientAsync c s)"
  by (auto simp: freeClientAsync_def out_silent_def out_frame_def same_control_def same_output_def)

lemma check_limits_silent:
  assumes "checkClientOutputBufferLimits s cl = (over, cl')"
  shows "same_control cl cl' \<and> same_output cl cl'"
  using assms
  by (auto simp: checkClientOutputBufferLimits_def same_control_def same_output_def Let_def split: if_splits)

lemma asyncClose_silent: "out_silent c s (asyncCloseClientOnOutputBufferLimitReached c s)"
proof -
  obtain over cl where chk: "checkClientOutputBufferLimits s (clients s c) = (over, cl)"
    by (cases "checkClientOutputBufferLimits s (clients s c)")
  have "out_silent c s (update_client c (\<lambda>_. cl) s)"
    using check_limits_silent [OF chk] by (simp add: out_silent_def out_frame_update_client)
  moreover from this have "out_silent c s (freeClientAsync c (update_client c (\<lambda>_. cl) s))"
    by (rule out_silent_trans) (rule freeClientAsync_silent)
  moreover have "out_silent c s (panic s)"
    by (simp add: panic_def out_silent_def out_frame_def same_output_def)
  ultimately show ?thesis
    by (simp add: asyncCloseClientOnOutputBufferLimitReached_def chk Let_def)
qed

lemma robj_bytes_createStringObject [simp]: "robj_bytes (createStringObject A x) = x"
  by (simp add: createStringObject_def)

lemma glue_tail_Some: "glue_tail obj x = Some y \<Longrightarrow> y = robj_bytes obj @ x"
  by (induction obj x rule: glue_tail.induct) (auto split: if_splits)

lemma addReplyObjectToList_bytes:
  "out_bytes (addReplyObjectToList A cl obj) = out_bytes cl @ robj_bytes obj"
proof (cases "reply cl = []")
  case False
  then have r: "reply cl = butlast (reply cl) @ [last (reply cl)]" by simp
  have c: "concat (map robj_bytes (reply cl)) =
      concat (map robj_bytes (butlast (reply cl))) @ robj_bytes (last (reply cl))"
    by (subst r) simp
  show ?thesis
    using False c
    by (auto simp: addReplyObjectToList_def out_bytes_def split: option.splits dest: glue_tail_Some)
qed (simp add: addReplyObjectToList_def out_bytes_def)

lemma addReplyObjectToList_control:
  "same_control cl (addReplyObjectToList A cl obj) \<and> buf (addReplyObjectToList A cl obj) = buf cl"
  by (auto simp: addReplyObjectToList_def same_control_def split: option.splits)

lemma to_list_appends:
  assumes "accepts (clients s c)"
  shows "appends c (robj_bytes obj) s
    (if bit (flags (clients s c)) CLIENT_CLOSE_AFTER_REPLY then s
     else asyncCloseClientOnOutputBufferLimitReached c
            (update_client c (\<lambda>cl. addReplyObjectToList A cl obj) s))" (is "appends c ?x s ?t")
proof (cases "bit (flags (clients s c)) CLIENT_CLOSE_AFTER_REPLY")
  case True
  then show ?thesis by (simp add: appends_def writable_def)
next
  case False
  let ?u = "update_client c (\<lambda>cl. addReplyObjectToList A cl obj) s"
  have "appends c ?x s ?u"
    using False assms addReplyObjectToList_control [of "clients s c" A obj]
    by (simp add: appends_def out_frame_update_client addReplyObjectToList_bytes writable_def)
  from appends_trans [OF this out_silent_appends [OF asyncClose_silent]] False show ?thesis by simp
qed

lemma addReplyToBuffer_ok:
  assumes "addReplyToBuffer cl x = (True, cl')"
  shows "same_control cl cl' \<and> reply cl' = reply cl \<and>
    out_bytes cl' = out_bytes cl @ (if bit (flags cl) CLIENT_CLOSE_AFTER_REPLY then [] else x) \<and>
    (bufpos cl \<le> PROTO_REPLY_CHUNK_BYTES \<longrightarrow> bufpos cl' \<le> PROTO_REPLY_CHUNK_BYTES)"
  using assms
  by (auto simp: addReplyToBuffer_def same_control_def out_bytes_def Let_def split: if_splits)

lemma addReplyBytes_appends:
  assumes "accepts (clients s c)" and "appends c x s (to_list c s)"
  shows "appends c x s (addReplyBytes to_list c x s)"
proof (cases "addReplyToBuffer (clients s c) x")
  case (Pair ok cl)
  show ?thesis
  proof (cases ok)
    case True
    with Pair assms(1) addReplyToBuffer_ok [of "clients s c" x cl] show ?thesis
      by (auto simp: addReplyBytes_def appends_def out_frame_update_client writable_def)
  next
    case False
    with Pair assms(2) show ?thesis by (simp add: addReplyBytes_def)
  qed
qed

lemma prepared_appends:
  assumes "prepareClientToWrite c s = (ok, s1)"
    and "\<And>s1. accepts (clients s1 c) \<Longrightarrow> appends c x s1 (f s1)"
  shows "appends c x s (if \<not> ok then s1 else f s1)"
proof -
  have ok: "ok = accepts (clients s c)" and sil: "out_silent c s s1"
    using prepare_cases [OF assms(1)] by auto
  have acc: "accepts (clients s1 c) = accepts (clients s c)"
    using sil by (simp add: out_silent_def out_frame_def same_control_def accepts_def)
  show ?thesis
  proof (cases ok)
    case True
    with ok acc assms(2) have "appends c x s1 (f s1)" by simp
    from appends_trans [OF out_silent_appends [OF sil] this] True show ?thesis by simp
  next
    case False
    with ok have "\<not> writable (clients s c)" by (simp add: writable_def)
    with False out_silent_appends [OF sil] show ?thesis by (simp add: appends_def)
  qed
qed

subsection \<open>The contract of a reply function\<close>

text \<open>\<open>put\<close> queues a value whose bytes are \<open>enc\<close> of it, and nothing else happens.
  What the formatting functions do follows from this alone.\<close>

locale reply_sink =
  fixes put :: "nat \<Rightarrow> 'v \<Rightarrow> server \<Rightarrow> server"
    and enc :: "'v \<Rightarrow> string"
  assumes put_appends: "appends c (enc v) s (put c v s)"
begin

lemma put_all_appends: "appends c (concat (map enc vs)) s (fold (put c) vs s)"
proof (induction vs arbitrary: s)
  case Nil
  then show ?case by (simp add: out_silent_appends)
next
  case (Cons v vs)
  from appends_trans [OF put_appends Cons.IH] show ?case by simp
qed

lemma put_pending:
  "obuf_wf (clients s c) \<Longrightarrow> writable (clients s c) \<Longrightarrow>
     pending (clients (put c v s) c) = pending (clients s c) @ enc v"
  using appends_pending(1) [OF put_appends, of s c v] by simp

lemma put_frame: "out_frame s (put c v s)"
  using put_appends by (rule appends_out_frame)

end

lemma addReply_appends: "appends c (robj_bytes obj) s (addReply A c obj s)"
proof (cases "prepareClientToWrite c s")
  case (Pair ok s1)
  let ?f = "\<lambda>s1. if sdsEncodedObject obj then
            addReplyBytes (\<lambda>c. addReplyObjectToList_s A c obj) c (robj_bytes obj) s1
          else if length (reply (clients s1 c)) = 0 \<and>
                  PROTO_REPLY_CHUNK_BYTES - bufpos (clients s1 c) \<ge> 32 \<and>
                  fst (addReplyToBuffer (clients s1 c) (robj_bytes obj)) then
            update_client c (\<lambda>_. snd (addReplyToBuffer (clients s1 c) (robj_bytes obj))) s1
          else
            (let dec = createStringObject A (robj_bytes obj)
             in addReplyBytes (\<lambda>c. addReplyObjectToList_s A c dec) c (robj_bytes dec) s1)"
  have "appends c (robj_bytes obj) s1 (?f s1)" if acc: "accepts (clients s1 c)" for s1
  proof -
    have l: "appends c (robj_bytes q) s1 (addReplyObjectToList_s A c q s1)" for q
      using to_list_appends [OF acc, of q A] by (simp add: addReplyObjectToList_s_def)
    have "appends c (robj_bytes obj) s1
        (update_client c (\<lambda>_. snd (addReplyToBuffer (clients s1 c) (robj_bytes obj))) s1)"
      if "fst (addReplyToBuffer (clients s1 c) (robj_bytes obj))"
      using addReplyBytes_appends [OF acc, of "robj_bytes obj" "\<lambda>c. addReplyObjectToList_s A c obj"]
        l that by (simp add: addReplyBytes_def split: prod.splits)
    moreover have "appends c (robj_bytes q) s1
        (addReplyBytes (\<lambda>c. addReplyObjectToList_s A c q) c (robj_bytes q) s1)" for q
      by (rule addReplyBytes_appends [OF acc]) (rule l)
    from this [of obj] this [of "createStringObject A (robj_bytes obj)"]
    have "appends c (robj_bytes obj) s1
        (addReplyBytes (\<lambda>c. addReplyObjectToList_s A c obj) c (robj_bytes obj) s1)"
      and "appends c (robj_bytes obj) s1
        (addReplyBytes (\<lambda>c. addReplyObjectToList_s A c (createStringObject A (robj_bytes obj))) c
           (robj_bytes obj) s1)" by simp_all
    ultimately show ?thesis by (simp add: Let_def)
  qed
  from prepared_appends [OF Pair this] Pair show ?thesis by (simp add: addReply_def Let_def)
qed

lemma addReplySds_appends: "appends c x s (addReplySds A c x s)"
proof (cases "prepareClientToWrite c s")
  case (Pair ok s1)
  have "appends c x s1 (addReplyBytes (\<lambda>c. addReplySdsToList_s A c x) c x s1)"
    if acc: "accepts (clients s1 c)" for s1
    using to_list_appends [OF acc, of "Raw (Some x)" A]
    by (intro addReplyBytes_appends acc) (simp add: addReplySdsToList_s_def)
  from prepared_appends [OF Pair this] Pair show ?thesis by (simp add: addReplySds_def)
qed

lemma addReplyString_appends: "appends c x s (addReplyString A c x s)"
proof (cases "prepareClientToWrite c s")
  case (Pair ok s1)
  have "appends c x s1 (addReplyBytes (\<lambda>c. addReplyStringToList_s A c x) c x s1)"
    if acc: "accepts (clients s1 c)" for s1
    using to_list_appends [OF acc, of "createStringObject A x" A]
    by (intro addReplyBytes_appends acc) (simp add: addReplyStringToList_s_def)
  from prepared_appends [OF Pair this] Pair show ?thesis by (simp add: addReplyString_def)
qed

interpretation obj_sink: reply_sink "addReply A" robj_bytes for A
  by unfold_locales (rule addReply_appends)

interpretation sds_sink: reply_sink "addReplySds A" "\<lambda>x. x" for A
  by unfold_locales (rule addReplySds_appends)

interpretation str_sink: reply_sink "addReplyString A" "\<lambda>x. x" for A
  by unfold_locales (rule addReplyString_appends)

subsection \<open>The formats\<close>

lemma addReplyLongLongWithPrefix_appends:
  "appends c (prefix # dec_int ll @ crlf) s (addReplyLongLongWithPrefix A c ll prefix s)"
  using obj_sink.put_appends [where v = "shared_mbulkhdr (nat ll)"]
    obj_sink.put_appends [where v = "shared_bulkhdr (nat ll)"]
    str_sink.put_appends [where v = "prefix # dec_int ll @ crlf"]
  by (auto simp: addReplyLongLongWithPrefix_def shared_mbulkhdr_def shared_bulkhdr_def dec_int_def)

lemma addReplyLongLong_appends: "appends c (CHR '':'' # dec_int ll @ crlf) s (addReplyLongLong A c ll s)"
  using obj_sink.put_appends [where v = shared_czero] obj_sink.put_appends [where v = shared_cone]
    addReplyLongLongWithPrefix_appends [where prefix = "CHR '':''"]
  by (auto simp: addReplyLongLong_def shared_czero_def shared_cone_def)

lemma count_digits_length: "count_digits n = length (dec_nat n)"
proof (induction n rule: count_digits.induct)
  case (1 n)
  then show ?case
    by (cases "n < 10") (simp_all add: count_digits.simps [of n] dec_nat.simps [of n] div_eq_0_iff)
qed

lemma bulk_len_length: "bulk_len obj = length (robj_bytes obj)"
  by (cases obj rule: bulk_len.cases) (simp_all add: count_digits_length dec_int_def)

lemma addReplyBulkLen_appends:
  "appends c (CHR ''$'' # dec_nat (length (robj_bytes obj)) @ crlf) s (addReplyBulkLen A c obj s)"
  using obj_sink.put_appends [where v = "shared_bulkhdr (bulk_len obj)"]
    addReplyLongLongWithPrefix_appends [where prefix = "CHR ''$''" and ll = "int (bulk_len obj)"]
  by (auto simp: addReplyBulkLen_def shared_bulkhdr_def dec_int_def bulk_len_length)

definition bulk :: "string \<Rightarrow> string" where
  "bulk x = CHR ''$'' # dec_nat (length x) @ crlf @ x @ crlf"

lemma addReplyBulk_appends: "appends c (bulk (robj_bytes obj)) s (addReplyBulk A c obj s)"
  using appends_trans [OF appends_trans [OF addReplyBulkLen_appends obj_sink.put_appends]
      obj_sink.put_appends [where v = shared_crlf]]
  by (simp add: addReplyBulk_def bulk_def shared_crlf_def)

lemma addReplyBulkCBuffer_appends: "appends c (bulk x) s (addReplyBulkCBuffer A c x s)"
  using appends_trans [OF appends_trans [OF
        addReplyLongLongWithPrefix_appends [where prefix = "CHR ''$''" and ll = "int (length x)"]
        str_sink.put_appends [where v = x]] obj_sink.put_appends [where v = shared_crlf]]
  by (simp add: addReplyBulkCBuffer_def bulk_def shared_crlf_def dec_int_def)

lemma addReplyBulkSds_appends: "appends c (bulk x) s (addReplyBulkSds A c x s)"
  using appends_trans [OF appends_trans [OF
        sds_sink.put_appends [where v = "''$'' @ dec_nat (length x) @ crlf"]
        sds_sink.put_appends [where v = x]] obj_sink.put_appends [where v = shared_crlf]]
  by (simp add: addReplyBulkSds_def bulk_def shared_crlf_def)

lemma three_strings_append:
  "appends c (x @ y @ z) s (addReplyString A c z (addReplyString A c y (addReplyString A c x s)))"
  by (rule appends_trans [OF str_sink.put_appends appends_trans [OF str_sink.put_appends str_sink.put_appends]])

lemma addReplyErrorLength_appends:
  "appends c (''-ERR '' @ x @ crlf) s (addReplyErrorLength A c x s)"
  unfolding addReplyErrorLength_def by (rule three_strings_append)

lemma addReplyError_appends: "appends c (''-ERR '' @ x @ crlf) s (addReplyError A c x s)"
  unfolding addReplyError_def by (rule addReplyErrorLength_appends)

lemma addReplyStatusLength_appends:
  "appends c (''+'' @ x @ crlf) s (addReplyStatusLength A c x s)"
  unfolding addReplyStatusLength_def by (rule three_strings_append)

subsection \<open>Deferred lengths\<close>

lemma addDeferred_silent_bytes:
  assumes "addDeferredMultiBulkLength c s = (node, t)"
  shows "appends c [] s t" and "node = Some i \<Longrightarrow> i < length (reply (clients t c)) \<and> reply (clients t c) ! i = Raw None"
proof -
  obtain ok s1 where p: "prepareClientToWrite c s = (ok, s1)" by (cases "prepareClientToWrite c s")
  have "appends c [] s1 (update_client c (\<lambda>cl. cl\<lparr>reply := reply cl @ [Raw None]\<rparr>) s1)"
    by (simp add: appends_def out_frame_update_client same_control_def out_bytes_def)
  with out_silent_appends [OF prepare_cases(2) [OF p]] assms p show "appends c [] s t"
    by (auto simp: addDeferredMultiBulkLength_def split: if_splits dest: appends_trans)
  show "node = Some i \<Longrightarrow> i < length (reply (clients t c)) \<and> reply (clients t c) ! i = Raw None"
    using assms p by (auto simp: addDeferredMultiBulkLength_def nth_append split: if_splits)
qed

lemma concat_split_at:
  assumes "i < length xs"
  shows "concat (map f xs) = concat (map f (take i xs)) @ f (xs ! i) @ concat (map f (drop (Suc i) xs))"
proof -
  have "xs = take i xs @ xs ! i # drop (Suc i) xs" using assms by (rule id_take_nth_drop)
  then have "concat (map f xs) = concat (map f (take i xs @ xs ! i # drop (Suc i) xs))" by simp
  then show ?thesis by simp
qed

section \<open>Properties\<close>


text \<open>A client with nothing queued, as \<open>createClient\<close> leaves it, and a server around it.\<close>

definition blank_client :: "int \<Rightarrow> client" where
  "blank_client h =
     \<lparr>fd = h, name = None, querybuf = [], argv = [], cmd = None, reqtype = 0, multibulklen = 0, bulklen = -1,
      reply = [], reply_bytes = 0, sentlen = 0, lastinteraction = 0, obuf_soft_limit_reached_time = 0,
      flags = 0, authenticated = False, replstate = 0, repl_put_online_on_ack = False,
      client_channels = {}, buf = []\<rparr>"

definition blank_server :: server where
  "blank_server =
     \<lparr>unixtime = 0, clients = (\<lambda>c. blank_client (int c + 3)), allocated = {}, current_client = None, client_list = [],
      clients_pending_write = [], clients_to_close = [], unblocked_clients = [],
      obuf_hard_limit = (\<lambda>_. 0), obuf_soft_limit = (\<lambda>_. 0), obuf_soft_seconds = (\<lambda>_. 0),
      smempubsub_channels = Map.empty, smempubsub_memorys = Map.empty,
      smempubsub_memorys_available = Map.empty, smem_list_available = [],
      share_memory_size = 0, share_memory_limit = 1073741824, aborted = False\<rparr>"

definition blank_alloc :: alloc where
  "blank_alloc = \<lparr>emb_encoded = (\<lambda>x. length x \<le> 44), sds_mem = (\<lambda>x. of_nat (length x)), emb_mem = (\<lambda>x. of_nat (length x))\<rparr>"

lemma blank_writable: "obuf_wf (clients blank_server c)" "writable (clients blank_server c)"
  by (simp_all add: blank_server_def blank_client_def obuf_wf_def writable_def accepts_def)

lemma blank_pending [simp]: "pending (clients blank_server c) = []"
  by (simp add: blank_server_def blank_client_def pending_def out_bytes_def)


text \<open>A bulk reply of an object, a C buffer or an sds string is the decimal length of its
  bytes between a dollar sign and a line break, the bytes, and a line break; for an
  integer-encoded object the length the digit-counting loop computes is that of its decimal
  notation.\<close>

theorem bulk_reply_format:
  assumes "obuf_wf (clients s c)" and "writable (clients s c)"
  shows "pending (clients (addReplyBulk A c obj s) c) = pending (clients s c) @ bulk (robj_bytes obj) \<and>
         pending (clients (addReplyBulkCBuffer A c x s) c) = pending (clients s c) @ bulk x \<and>
         pending (clients (addReplyBulkSds A c x s) c) = pending (clients s c) @ bulk x \<and>
         bulk_len obj = length (robj_bytes obj)"
  using appends_pending(1) [OF addReplyBulk_appends assms(1), of A obj]
    appends_pending(1) [OF addReplyBulkCBuffer_appends assms(1), of A x]
    appends_pending(1) [OF addReplyBulkSds_appends assms(1), of A x] assms(2) bulk_len_length
  by simp

theorem bulk_reply_format_witness:
  "pending (clients (addReplyBulk blank_alloc 1 (IntEnc (-17)) blank_server) 1) = bulk (dec_int (-17)) \<and>
   bulk_len (IntEnc (-17)) = length (dec_int (-17))"
  using bulk_reply_format [OF blank_writable, where c = 1 and A = blank_alloc and obj = "IntEnc (-17)"] by simp

text \<open>Filling in a deferred multi bulk length puts the header exactly where its
  placeholder was queued, before the elements that follow, whether or not it is glued to the
  next object.\<close>

theorem deferred_length_in_place:
  assumes "i < length (reply (clients s c))" and "reply (clients s c) ! i = Raw None"
  shows "out_bytes (clients (setDeferredMultiBulkLength A c (Some i) n s) c) =
     buf (clients s c) @ concat (map robj_bytes (take i (reply (clients s c)))) @
     (''*'' @ dec_int n @ crlf) @ concat (map robj_bytes (drop (Suc i) (reply (clients s c))))"
proof -
  let ?cl = "clients s c"
  have sil: "out_bytes (clients (asyncCloseClientOnOutputBufferLimitReached c t) c) = out_bytes (clients t c)" for t
    using asyncClose_silent [of c t] by (simp add: out_silent_def same_output_def out_bytes_def)
  have "drop (Suc i) (reply ?cl) = reply ?cl ! Suc i # drop (i + 2) (reply ?cl)" if "Suc i < length (reply ?cl)"
    using that by (simp add: Cons_nth_drop_Suc)
  moreover have "concat (map robj_bytes ((reply ?cl)[i := Raw (Some h)])) =
      concat (map robj_bytes (take i (reply ?cl))) @ h @ concat (map robj_bytes (drop (Suc i) (reply ?cl)))" for h
    using assms(1) concat_split_at [of i "(reply ?cl)[i := Raw (Some h)]" robj_bytes]
    by simp
  ultimately show ?thesis
    by (simp add: setDeferredMultiBulkLength_def sil Let_def) (simp add: out_bytes_def)
qed

theorem deferred_length_in_place_witness:
  "out_bytes (clients (setDeferredMultiBulkLength blank_alloc 0 (Some 0) 2
     (update_client 0 (\<lambda>cl. cl\<lparr>reply := [Raw None, Raw (Some ''ab'')]\<rparr>) blank_server)) 0) =
   (''*'' @ dec_int 2 @ crlf) @ ''ab''"
proof -
  let ?s = "update_client 0 (\<lambda>cl. cl\<lparr>reply := [Raw None, Raw (Some ''ab'')]\<rparr>) blank_server"
  have "0 < length (reply (clients ?s 0))" and "reply (clients ?s 0) ! 0 = Raw None" by simp_all
  from deferred_length_in_place [OF this, of blank_alloc 2] show ?thesis
    by (simp add: blank_server_def blank_client_def)
qed

end
