(* ===== verification/Smem_Shm.thy ===== *)
theory Smem_Shm
  imports Prelude
begin

text \<open>
  The share memory library \<open>redis/src/smem.c\<close> (the copy in \<open>shareMemory/smem.c\<close>
  differs in type spellings only): creating and removing System V segments, and listing
  them from \<open>/proc/sysvipc/shm\<close> or, without it, by \<open>shmctl\<close>. The kernel is a
  parameter \<open>'k shm_ops\<close> over a kernel state \<open>'k\<close>. The small allocations of list
  nodes are taken to succeed.
\<close>

section \<open>The kernel interface\<close>

record shm_row =
  row_key :: int
  row_id :: int
  row_mode :: int
  row_segsz :: int
  row_cpid :: int
  row_lpid :: int
  row_nattch :: int
  row_uid :: int
  row_gid :: int
  row_cuid :: int
  row_cgid :: int
  row_atime :: int
  row_dtime :: int
  row_ctime :: int
  row_rss :: int
  row_swp :: int

text \<open>
  \<open>shmget sz\<close> is \<open>shmget(IPC_PRIVATE, sz, 0666)\<close>; \<open>rmid i\<close> is
  \<open>shmctl(i, IPC_RMID, 0)\<close>; \<open>procfs\<close> is what the successive \<open>fscanf\<close> calls
  read from the open file (\<open>None\<close> for a call that does not convert 16 fields), or
  \<open>None\<close> when the file cannot be opened; \<open>maxid\<close> and \<open>stat\<close> are the
  \<open>SHM_INFO\<close> and \<open>SHM_STAT\<close> requests.
\<close>

record 'k shm_ops =
  shmget :: "int \<Rightarrow> 'k \<Rightarrow> int \<times> 'k"
  rmid :: "int \<Rightarrow> 'k \<Rightarrow> int \<times> 'k"
  procfs :: "'k \<Rightarrow> shm_row option list option"
  maxid :: "'k \<Rightarrow> int"
  stat :: "'k \<Rightarrow> int \<Rightarrow> shm_row option"

text \<open>What the manual pages promise: a successful \<open>shmget\<close> returns an id that is not in
  use, a successful removal ends the use of an id in use, and nothing else changes the set
  of ids in use.\<close>

definition shm_contract :: "'k shm_ops \<Rightarrow> ('k \<Rightarrow> int set) \<Rightarrow> bool" where
  "shm_contract K live \<longleftrightarrow>
     (\<forall>sz k. case shmget K sz k of (i, k') \<Rightarrow>
        int_range i \<and>
        (if i = -1 then live k' = live k else 0 \<le> i \<and> i \<notin> live k \<and> live k' = insert i (live k))) \<and>
     (\<forall>i k. case rmid K i k of (r, k') \<Rightarrow>
        (if r = 0 then i \<in> live k \<and> live k' = live k - {i} else live k' = live k))"

lemma shmget_contract:
  assumes "shm_contract K live" "shmget K sz k = (i, k')"
  shows "int_range i" and "i = -1 \<Longrightarrow> live k' = live k"
    and "i \<noteq> -1 \<Longrightarrow> 0 \<le> i \<and> i \<notin> live k \<and> live k' = insert i (live k)"
proof -
  have "case shmget K sz k of (i, k') \<Rightarrow> int_range i \<and>
      (if i = -1 then live k' = live k else 0 \<le> i \<and> i \<notin> live k \<and> live k' = insert i (live k))"
    using assms(1) unfolding shm_contract_def by (elim conjE allE)
  with assms(2) have "int_range i \<and>
      (if i = -1 then live k' = live k else 0 \<le> i \<and> i \<notin> live k \<and> live k' = insert i (live k))" by simp
  then show "int_range i" and "i = -1 \<Longrightarrow> live k' = live k"
    and "i \<noteq> -1 \<Longrightarrow> 0 \<le> i \<and> i \<notin> live k \<and> live k' = insert i (live k)" by simp_all
qed

lemma rmid_contract:
  assumes "shm_contract K live" "rmid K i k = (r, k')"
  shows "r = 0 \<Longrightarrow> i \<in> live k \<and> live k' = live k - {i}" and "r \<noteq> 0 \<Longrightarrow> live k' = live k"
proof -
  have "case rmid K i k of (r, k') \<Rightarrow> if r = 0 then i \<in> live k \<and> live k' = live k - {i} else live k' = live k"
    using assms(1) unfolding shm_contract_def by (elim conjE allE)
  with assms(2) have "if r = 0 then i \<in> live k \<and> live k' = live k - {i} else live k' = live k" by simp
  then show "r = 0 \<Longrightarrow> i \<in> live k \<and> live k' = live k - {i}" and "r \<noteq> 0 \<Longrightarrow> live k' = live k"
    by simp_all
qed

section \<open>Buffers\<close>

abbreviation (input) "MAX_SMEM_SIZE \<equiv> (26542080 :: int)"

definition smem_get_buffer :: "'k shm_ops \<Rightarrow> int \<Rightarrow> 'k \<Rightarrow> int \<times> 'k" where
  "smem_get_buffer K sz k = (if sz > 0 \<and> sz \<le> MAX_SMEM_SIZE then shmget K sz k else (-1, k))"

definition smem_free_buffer :: "'k shm_ops \<Rightarrow> int \<Rightarrow> 'k \<Rightarrow> int \<times> 'k" where
  "smem_free_buffer K i k = rmid K i k"

section \<open>Listing\<close>

text \<open>A linked list of \<open>struct shm_data\<close> is the list of its nodes. A node that
  \<open>calloc\<close> has just returned is all zero.\<close>

definition shm_data_zero :: shm_row where
  "shm_data_zero =
     \<lparr>row_key = 0, row_id = 0, row_mode = 0, row_segsz = 0, row_cpid = 0, row_lpid = 0, row_nattch = 0,
      row_uid = 0, row_gid = 0, row_cuid = 0, row_cgid = 0, row_atime = 0, row_dtime = 0, row_ctime = 0,
      row_rss = 0, row_swp = 0\<rparr>"

text \<open>The scanning loop: \<open>done\<close> are the finished nodes, \<open>p\<close> is the node being
  filled. A line that does not scan leaves \<open>p\<close> partly written, which the next line or the
  end of the list overwrites or ignores.\<close>

fun scan_shm :: "int \<Rightarrow> shm_row option list \<Rightarrow> int \<Rightarrow> shm_row list \<Rightarrow> shm_row \<Rightarrow> int \<times> shm_row list" where
  "scan_shm i [] n xs p = (n, xs @ [p])"
| "scan_shm i (None # rows) n xs p = scan_shm i rows n xs p"
| "scan_shm i (Some r # rows) n xs p =
     (if i > -1 then
        (if i = row_id r then (1, xs @ [r]) else scan_shm i rows n xs r)
      else scan_shm i rows (n + 1) (xs @ [r]) shm_data_zero)"

text \<open>A row as the fallback copies it: the creator's user id also becomes its group id, and
  the resident and swapped sizes are placeholders.\<close>

definition stat_row :: "shm_row \<Rightarrow> shm_row" where
  "stat_row r = r\<lparr>row_cgid := row_cuid r, row_rss := 0xdead, row_swp := 0xdead\<rparr>"

text \<open>The fallback loop over kernel slots \<open>i\<close> to \<open>maxid\<close>, \<open>n\<close> of them left. The
  result \<open>None\<close> for the list stands for a freed list.\<close>

fun stat_shm :: "(int \<Rightarrow> shm_row option) \<Rightarrow> int \<Rightarrow> int \<Rightarrow> nat \<Rightarrow> shm_row list \<Rightarrow>
    int \<times> shm_row list option" where
  "stat_shm st req i 0 xs = (i, Some (xs @ [shm_data_zero]))"
| "stat_shm st req i (Suc n) xs =
     (case st i of
        None \<Rightarrow> if -1 < req then (0, None) else stat_shm st req (i + 1) n xs
      | Some r \<Rightarrow>
          if req < 0 then stat_shm st req (i + 1) n (xs @ [stat_row r])
          else (1, Some (xs @ [stat_row r])))"

definition ipc_shm_get_info :: "'k shm_ops \<Rightarrow> int \<Rightarrow> 'k \<Rightarrow> int \<times> shm_row list option" where
  "ipc_shm_get_info K req k =
     (case procfs K k of
        Some rows \<Rightarrow>
          (case scan_shm req rows 0 [] shm_data_zero of
             (n, xs) \<Rightarrow> if n = 0 then (0, None) else (n, Some xs))
      | None \<Rightarrow>
          (let i = (if req < 0 then 0 else req)
           in if maxid K k < 0 then (0, Some [shm_data_zero])
              else stat_shm (stat K k) req i (nat (maxid K k + 1 - i)) []))"

record smem_info =
  info_id :: int
  info_size :: int
  info_uid :: int
  info_mode :: int

definition smem_info_zero :: smem_info where
  "smem_info_zero = \<lparr>info_id = 0, info_size = 0, info_uid = 0, info_mode = 0\<rparr>"

definition info_of :: "shm_row \<Rightarrow> smem_info" where
  "info_of r = \<lparr>info_id = row_id r, info_size = c_int (row_segsz r), info_uid = row_uid r, info_mode = row_mode r\<rparr>"

text \<open>The copying loop visits every node that has a successor and leaves one more zero node
  behind; the list is NULL when the loop body never ran.\<close>

definition smem_get_info :: "'k shm_ops \<Rightarrow> int \<Rightarrow> 'k \<Rightarrow> int \<times> smem_info list" where
  "smem_get_info K req k =
     (case ipc_shm_get_info K req k of
        (cnt, shmds) \<Rightarrow>
          if cnt > 0 then
            (case shmds of
               None \<Rightarrow> (cnt, [])
             | Some xs \<Rightarrow>
                 (cnt + int (length (butlast xs)),
                  if butlast xs = [] then [] else map info_of (butlast xs) @ [smem_info_zero]))
          else (cnt, []))"

definition free_step :: "'k shm_ops \<Rightarrow> smem_info \<Rightarrow> 'k \<Rightarrow> 'k" where
  "free_step K info k = snd (smem_free_buffer K (info_id info) k)"

definition smem_free_all_buffers :: "'k shm_ops \<Rightarrow> 'k \<Rightarrow> c_fault + 'k" where
  "smem_free_all_buffers K k =
     (case smem_get_info K (-1) k of
        (cnt, infos) \<Rightarrow>
          if cnt < 0 then Inr k
          else if infos = [] then Inl NullDeref
          else Inr (fold (free_step K) (butlast infos) k))"

section \<open>Properties\<close>

lemma scan_all:
  "i \<le> -1 \<Longrightarrow> scan_shm i (map Some rows) n xs p =
     (n + int (length rows), xs @ rows @ [if rows = [] then p else shm_data_zero])"
  by (induction rows arbitrary: n xs p) auto

lemma smem_get_info_all:
  assumes "procfs K k = Some (map Some rows)"
  shows "smem_get_info K (-1) k =
     (2 * int (length rows), if rows = [] then [] else map info_of rows @ [smem_info_zero])"
  using assms by (auto simp: smem_get_info_def ipc_shm_get_info_def scan_all butlast_append)

lemma smem_get_buffer_contract:
  assumes "shm_contract K live" "smem_get_buffer K sz k = (i, k')"
  shows "int_range i" and "i = -1 \<Longrightarrow> live k' = live k"
    and "i \<noteq> -1 \<Longrightarrow> 0 < sz \<and> sz \<le> 26542080 \<and> 0 \<le> i \<and> i \<notin> live k \<and> live k' = insert i (live k)"
proof -
  have "int_range i \<and> (i = -1 \<longrightarrow> live k' = live k) \<and>
     (i \<noteq> -1 \<longrightarrow> 0 < sz \<and> sz \<le> 26542080 \<and> 0 \<le> i \<and> i \<notin> live k \<and> live k' = insert i (live k))"
  proof (cases "sz > 0 \<and> sz \<le> 26542080")
    case True
    with assms(2) have "shmget K sz k = (i, k')" by (simp add: smem_get_buffer_def)
    from shmget_contract [OF assms(1) this] True show ?thesis by blast
  next
    case False
    with assms(2) have "i = -1" "k' = k" by (auto simp: smem_get_buffer_def)
    then show ?thesis by (simp add: int_range_def)
  qed
  then show "int_range i" and "i = -1 \<Longrightarrow> live k' = live k"
    and "i \<noteq> -1 \<Longrightarrow> 0 < sz \<and> sz \<le> 26542080 \<and> 0 \<le> i \<and> i \<notin> live k \<and> live k' = insert i (live k)"
    by blast+
qed

lemma smem_free_buffer_contract:
  assumes "shm_contract K live" "smem_free_buffer K i k = (r, k')"
  shows "r = 0 \<Longrightarrow> i \<in> live k \<and> live k' = live k - {i}" and "r \<noteq> 0 \<Longrightarrow> live k' = live k"
  using rmid_contract [OF assms(1) assms(2) [unfolded smem_free_buffer_def]] by simp_all

text \<open>A kernel that keeps the set of ids in use and hands out the successor of the largest:
  the reference instance of the contract.\<close>

definition list_kernel :: "(int list) shm_ops" where
  "list_kernel =
     \<lparr>shmget = (\<lambda>sz k. let i = 1 + Max (insert 0 (set k)) in
                 if i < 2 ^ 31 then (i, i # k) else (-1, k)),
      rmid = (\<lambda>i k. if i \<in> set k then (0, removeAll i k) else (-1, k)),
      procfs = (\<lambda>k. Some (map (\<lambda>i. Some (shm_data_zero\<lparr>row_id := i\<rparr>)) k)),
      maxid = (\<lambda>k. int (length k) - 1),
      stat = (\<lambda>k i. None)\<rparr>"

lemma shm_contractI:
  assumes "\<And>sz k i k'. shmget K sz k = (i, k') \<Longrightarrow> int_range i \<and>
        (if i = -1 then live k' = live k else 0 \<le> i \<and> i \<notin> live k \<and> live k' = insert i (live k))"
    and "\<And>i k r k'. rmid K i k = (r, k') \<Longrightarrow>
        (if r = 0 then i \<in> live k \<and> live k' = live k - {i} else live k' = live k)"
  shows "shm_contract K live"
  unfolding shm_contract_def by (intro conjI allI; (split prod.split; intro allI impI; erule assms))

lemma fresh_id: "1 + Max (insert 0 (set k)) \<notin> set k" "0 < 1 + Max (insert 0 (set k))" for k :: "int list"
proof -
  have m: "i \<le> Max (insert 0 (set k))" if "i \<in> insert 0 (set k)" for i
    by (rule Max_ge) (use that in auto)
  have "0 \<le> Max (insert 0 (set k))" by (rule m) simp
  then show "0 < 1 + Max (insert 0 (set k))" by linarith
  show "1 + Max (insert 0 (set k)) \<notin> set k" using m [of "1 + Max (insert 0 (set k))"] by (auto simp del: Max_insert)
qed

lemma list_kernel_contract: "shm_contract list_kernel set"
proof (rule shm_contractI)
  fix sz i :: int and k k' :: "int list"
  define j where "j = 1 + Max (insert 0 (set k))"
  assume a: "shmget list_kernel sz k = (i, k')"
  have "shmget list_kernel sz k = (if j < 2 ^ 31 then (j, j # k) else (-1, k))"
    unfolding list_kernel_def j_def Let_def by (simp only: shm_ops.select_convs)
  with a fresh_id [of k, folded j_def]
  show "int_range i \<and> (if i = -1 then set k' = set k else 0 \<le> i \<and> i \<notin> set k \<and> set k' = insert i (set k))"
    by (auto simp: int_range_def split: if_splits)
next
  fix i r :: int and k k' :: "int list"
  assume "rmid list_kernel i k = (r, k')"
  then show "if r = 0 then i \<in> set k \<and> set k' = set k - {i} else set k' = set k"
    by (auto simp: list_kernel_def split: if_splits)
qed

text \<open>Listing all segments through \<open>/proc\<close> returns their descriptions in order followed by
  one zero entry, but reports twice their number; asking for one existing segment reports 1
  and returns no description at all.\<close>

theorem smem_get_info_counts:
  assumes "procfs K k = Some (map Some rows)" and "rows \<noteq> []"
    and "0 \<le> i" and "procfs K2 k2 = Some (map Some (pre @ r # post))"
    and "row_id r = i" and "i \<notin> row_id ` set pre"
  shows "smem_get_info K (-1) k = (2 * int (length rows), map info_of rows @ [smem_info_zero]) \<and>
         smem_get_info K2 i k2 = (1, [])"
proof
  show "smem_get_info K (-1) k = (2 * int (length rows), map info_of rows @ [smem_info_zero])"
    using assms(1,2) by (simp add: smem_get_info_all)
  have "scan_shm i (map Some (pre @ r # post)) 0 [] p = (1, [r])" for p
    using assms(3,5,6) by (induction pre arbitrary: p) auto
  then show "smem_get_info K2 i k2 = (1, [])"
    using assms(4) by (simp add: smem_get_info_def ipc_shm_get_info_def)
qed

theorem smem_get_info_counts_witness:
  "fst (smem_get_info list_kernel (-1) [7, 9]) = 4 \<and> smem_get_info list_kernel 9 [7, 9] = (1, [])"
proof -
  let ?r = "\<lambda>i. shm_data_zero\<lparr>row_id := i\<rparr>"
  have "procfs list_kernel [7, 9] = Some (map Some [?r 7, ?r 9])" by (simp add: list_kernel_def)
  moreover from this have "procfs list_kernel [7, 9] = Some (map Some ([?r 7] @ ?r 9 # []))" by simp
  ultimately show ?thesis
    using smem_get_info_counts [of list_kernel "[7, 9]" "[?r 7, ?r 9]" 9 list_kernel "[7, 9]" "[?r 7]" "?r 9" "[]"]
    by simp
qed

lemma fold_free_live:
  assumes "shm_contract K live" and "\<And>i k. i \<in> live k \<Longrightarrow> fst (rmid K i k) = 0"
  shows "distinct (map info_id xs) \<Longrightarrow> info_id ` set xs \<subseteq> live k \<Longrightarrow>
    live (fold (free_step K) xs k) = live k - info_id ` set xs"
proof (induction xs arbitrary: k)
  case (Cons x xs)
  obtain r k' where f: "smem_free_buffer K (info_id x) k = (r, k')" by (cases "smem_free_buffer K (info_id x) k")
  with assms(2) [of "info_id x" k] Cons.prems have "r = 0" by (simp add: smem_free_buffer_def)
  with smem_free_buffer_contract(1) [OF assms(1) f] have l: "live k' = live k - {info_id x}" by simp
  have "info_id ` set xs \<subseteq> live k'" using Cons.prems l by (simp add: subset_Diff_insert)
  with Cons.IH [of k'] Cons.prems l f show ?case by (auto simp: free_step_def)
qed simp

text \<open>When the listing shows exactly the segments in use and removals of segments in use
  succeed, \<open>smem_free_all_buffers\<close> removes every segment, unless there is none, when it
  dereferences a NULL list.\<close>

theorem smem_free_all_buffers_frees_all:
  assumes "shm_contract K live" and "\<And>i k. i \<in> live k \<Longrightarrow> fst (rmid K i k) = 0"
    and "procfs K k = Some (map Some rows)" and "distinct (map row_id rows)"
    and "row_id ` set rows = live k"
  shows "(live k \<noteq> {} \<longrightarrow> (\<exists>k'. smem_free_all_buffers K k = Inr k' \<and> live k' = {})) \<and>
         (live k = {} \<longrightarrow> smem_free_all_buffers K k = Inl NullDeref)"
proof -
  have id: "info_id \<circ> info_of = row_id" by (simp add: fun_eq_iff info_of_def)
  have "distinct (map info_id (map info_of rows))" and "info_id ` set (map info_of rows) = live k"
    using assms(4,5) by (simp_all add: id image_comp [symmetric] image_image info_of_def comp_def)
  then have "live (fold (free_step K) (map info_of rows) k) = {}"
    using fold_free_live [OF assms(1,2), of "map info_of rows" k] by simp
  then show ?thesis
    using assms(5) by (auto simp: smem_free_all_buffers_def smem_get_info_all [OF assms(3)])
qed

theorem smem_free_all_buffers_frees_all_witness:
  "\<exists>k'. smem_free_all_buffers list_kernel [3, 8] = Inr k' \<and> set k' = {}"
proof -
  have "(set [3, 8 :: int] \<noteq> {} \<longrightarrow> (\<exists>k'. smem_free_all_buffers list_kernel [3, 8] = Inr k' \<and> set k' = {})) \<and>
     (set [3, 8 :: int] = {} \<longrightarrow> smem_free_all_buffers list_kernel [3, 8] = Inl NullDeref)"
    by (rule smem_free_all_buffers_frees_all [OF list_kernel_contract,
          where rows = "[shm_data_zero\<lparr>row_id := 3\<rparr>, shm_data_zero\<lparr>row_id := 8\<rparr>]"])
      (simp_all add: list_kernel_def)
  then show ?thesis by simp
qed

end
