(* ===== verification/Smem_Store.thy ===== *)
theory Smem_Store
  imports Redis_Reply Smem_Shm
begin

text \<open>
  The buffer pool of \<open>redis/src/smem4redis.c\<close>: the commands \<open>SMEMGET\<close>,
  \<open>SMEMFREE\<close> and \<open>SMEMRM\<close> and the periodic \<open>smemFreeShareMemory\<close>. Buffers in
  use are the entries of \<open>smempubsub_memorys\<close> under the decimal id; idle buffers are
  kept in one list per size in \<open>smempubsub_memorys_available\<close>.

  Every command works on the server and the kernel state. The environment collects what the
  code takes from outside: the allocator of the reply objects, the kernel, the number
  parser \<open>getLongLongFromObject\<close>, whether \<open>zmalloc\<close> succeeds, and the cluster bus. Reference counts
  are mathematical integers: they count clients of one server and stay far below
  \<open>2^31\<close>.
\<close>

section \<open>The environment\<close>

record 'k env =
  obj_alloc :: alloc
  kernel :: "'k shm_ops"
  getLongLong :: "string \<Rightarrow> int option"
  zmalloc_ok :: bool
  cluster_enabled :: bool
  clusterPropagatePublish :: "string \<Rightarrow> string \<Rightarrow> server \<Rightarrow> server"

text \<open>\<open>dictAdd\<close> leaves an existing entry alone.\<close>

definition dictAdd :: "('a \<rightharpoonup> 'b) \<Rightarrow> 'a \<Rightarrow> 'b \<Rightarrow> 'a \<rightharpoonup> 'b" where
  "dictAdd m k v = (case m k of None \<Rightarrow> m(k \<mapsto> v) | Some _ \<Rightarrow> m)"

section \<open>SMEMGET\<close>

definition SMEMALIGN :: "int \<Rightarrow> int \<Rightarrow> int" where
  "SMEMALIGN x a = c_int (x + a - 1) AND NOT (a - 1)"

definition smemlistMoveNodeToDict ::
    "smem_t list \<Rightarrow> (string \<rightharpoonup> smem_t) \<Rightarrow> nat \<Rightarrow> smem_t list \<times> (string \<rightharpoonup> smem_t)" where
  "smemlistMoveNodeToDict list_src dict_dst i =
     (take i list_src @ drop (Suc i) list_src,
      dictAdd dict_dst (dec_int (smem_id (list_src ! i))) (list_src ! i))"

text \<open>The position of the first idle buffer that is large enough.\<close>

fun first_available :: "int \<Rightarrow> smem_t list \<Rightarrow> nat option" where
  "first_available sz [] = None"
| "first_available sz (p # ps) =
     (if smem_state p = SMEM_T_STATE_AVAILAVLE \<and> sz \<le> smem_size p then Some 0
      else map_option Suc (first_available sz ps))"

definition smemget_reuse :: "int \<Rightarrow> server \<Rightarrow> int \<times> server" where
  "smemget_reuse sz s =
     (case smempubsub_memorys_available s (dec_int sz) of
        None \<Rightarrow> (-1, s)
      | Some available_list \<Rightarrow>
          (case first_available sz available_list of
             None \<Rightarrow> (-1, s)
           | Some i \<Rightarrow>
               (let p = (available_list ! i)\<lparr>smem_state := SMEM_T_STATE_USED, smem_cnt := 1,
                          smem_free_cnt := 0, last_time := unixtime s\<rparr>
                in (case smemlistMoveNodeToDict (available_list[i := p]) (smempubsub_memorys s) i of
                      (l', m') \<Rightarrow>
                        (smem_id p,
                         s\<lparr>smempubsub_memorys_available := (smempubsub_memorys_available s)(dec_int sz \<mapsto> l'),
                           smempubsub_memorys := m'\<rparr>)))))"

definition smemget_new :: "'k env \<Rightarrow> int \<Rightarrow> server \<Rightarrow> 'k \<Rightarrow> int \<times> server \<times> 'k" where
  "smemget_new E sz s k =
     (if share_memory_size s + word_of_int sz \<le> share_memory_limit s then
        (case smem_get_buffer (kernel E) sz k of
           (i1, k1) \<Rightarrow>
             (case (if i1 = 0 then smem_get_buffer (kernel E) sz (snd (smem_free_buffer (kernel E) i1 k1))
                    else (i1, k1)) of
                (mem_id, k2) \<Rightarrow>
                  if mem_id \<noteq> -1 then
                    (if \<not> zmalloc_ok E then (-1, s, k2)
                     else
                       (mem_id,
                        s\<lparr>smempubsub_memorys :=
                            dictAdd (smempubsub_memorys s) (dec_int mem_id)
                              \<lparr>smem_id = mem_id, smem_size = sz, smem_state = SMEM_T_STATE_USED, smem_cnt = 1,
                               smem_free_cnt = 0, last_time = unixtime s\<rparr>,
                          share_memory_size := share_memory_size s + word_of_int sz\<rparr>, k2))
                  else (-1, s, k2)))
      else (-1, s, k))"

definition smemget_size :: "'k env \<Rightarrow> int \<Rightarrow> server \<Rightarrow> 'k \<Rightarrow> int \<times> server \<times> 'k" where
  \<comment> \<open>the body for an aligned size\<close>
  "smemget_size E sz s k =
     (case smemget_reuse sz s of
        (mem_id, s1) \<Rightarrow> if mem_id = -1 then smemget_new E sz s1 k else (mem_id, s1, k))"

definition smemgetCommand :: "'k env \<Rightarrow> nat \<Rightarrow> server \<Rightarrow> 'k \<Rightarrow> server \<times> 'k" where
  "smemgetCommand E c s k =
     (case (case getLongLong E (argv (clients s c) ! 1) of
              None \<Rightarrow> (-1, s, k)
            | Some ll_size \<Rightarrow> smemget_size E (SMEMALIGN (c_int ll_size) 4096) s k) of
        (mem_id, s1, k1) \<Rightarrow> (addReplyLongLong (obj_alloc E) c mem_id s1, k1))"

section \<open>SMEMFREE\<close>

text \<open>What both \<open>SMEMFREE\<close> and \<open>SMEMPUBLISH\<close> do with a buffer whose count has
  reached zero: back to the idle list of its size, or to the system when that list already
  has more than 20 entries.\<close>

definition make_available :: "'k env \<Rightarrow> string \<Rightarrow> smem_t \<Rightarrow> server \<Rightarrow> 'k \<Rightarrow> server \<times> 'k" where
  "make_available E key p s k =
     (let p' = p\<lparr>smem_state := SMEM_T_STATE_AVAILAVLE, smem_cnt := 0, last_time := unixtime s\<rparr>;
          key_obj = dec_int (smem_size p');
          available_list = (case smempubsub_memorys_available s key_obj of Some l \<Rightarrow> l | None \<Rightarrow> [])
      in if length available_list > 20 then
           (s\<lparr>smempubsub_memorys_available := (smempubsub_memorys_available s)(key_obj \<mapsto> available_list),
              share_memory_size := share_memory_size s - word_of_int (smem_size p'),
              smempubsub_memorys := (smempubsub_memorys s)(key := None)\<rparr>,
            snd (smem_free_buffer (kernel E) (smem_id p') k))
         else
           (s\<lparr>smempubsub_memorys_available := (smempubsub_memorys_available s)(key_obj \<mapsto> available_list @ [p']),
              smempubsub_memorys := (smempubsub_memorys s)(key := None)\<rparr>, k))"

definition smemfree_one :: "'k env \<Rightarrow> string \<Rightarrow> int \<times> server \<times> 'k \<Rightarrow> int \<times> server \<times> 'k" where
  "smemfree_one E key st =
     (case st of
        (free_cnt, s, k) \<Rightarrow>
          (case smempubsub_memorys s key of
             None \<Rightarrow> (free_cnt, s, k)
           | Some p \<Rightarrow>
               (let p1 = p\<lparr>smem_cnt := smem_cnt p - 1\<rparr>
                in if smem_cnt p1 \<le> 0 \<and> smem_state p1 = SMEM_T_STATE_USED then
                     (free_cnt + 1, make_available E key p1 s k)
                   else
                     (free_cnt + 1, s\<lparr>smempubsub_memorys := (smempubsub_memorys s)(key \<mapsto> p1)\<rparr>, k))))"

definition smemfreeCommand :: "'k env \<Rightarrow> nat \<Rightarrow> server \<Rightarrow> 'k \<Rightarrow> server \<times> 'k" where
  "smemfreeCommand E c s k =
     (case fold (smemfree_one E) (tl (argv (clients s c))) (0, s, k) of
        (free_cnt, s1, k1) \<Rightarrow> (addReplyLongLong (obj_alloc E) c free_cnt s1, k1))"

section \<open>SMEMRM\<close>

definition smemListMatch :: "smem_t \<Rightarrow> int \<Rightarrow> bool" where
  "smemListMatch p i \<longleftrightarrow> smem_id p = i"

definition smemrm_one :: "'k env \<Rightarrow> string \<Rightarrow> int \<times> server \<times> 'k \<Rightarrow> int \<times> server \<times> 'k" where
  "smemrm_one E arg st =
     (case st of
        (free_cnt, s, k) \<Rightarrow>
          (case getLongLong E arg of
             None \<Rightarrow> (free_cnt, s, k)
           | Some ll_var \<Rightarrow>
               (let mem_id = c_int ll_var;
                    s1 = (case find (\<lambda>p. smemListMatch p mem_id) (smem_list_available s) of
                            None \<Rightarrow> s
                          | Some p \<Rightarrow>
                              s\<lparr>share_memory_size := share_memory_size s - word_of_int (smem_size p),
                                smem_list_available := remove1 p (smem_list_available s)\<rparr>)
                in (case smem_free_buffer (kernel E) mem_id k of
                      (r, k1) \<Rightarrow> (if r = 0 then free_cnt + 1 else free_cnt, s1, k1)))))"

definition smemrmCommand :: "'k env \<Rightarrow> nat \<Rightarrow> server \<Rightarrow> 'k \<Rightarrow> server \<times> 'k" where
  "smemrmCommand E c s k =
     (case fold (smemrm_one E) (tl (argv (clients s c))) (0, s, k) of
        (free_cnt, s1, k1) \<Rightarrow> (addReplyLongLong (obj_alloc E) c free_cnt s1, k1))"

section \<open>The periodic sweep\<close>

text \<open>One visit of a buffer by the sweep: the total is reduced and the segment removed; a
  buffer whose removal has failed more than five times is forgotten. The result \<open>None\<close>
  means that the entry is deleted.\<close>

definition reclaim :: "'k env \<Rightarrow> smem_t \<Rightarrow> server \<Rightarrow> 'k \<Rightarrow> smem_t option \<times> server \<times> 'k" where
  "reclaim E p s k =
     (let s1 = s\<lparr>share_memory_size := share_memory_size s - word_of_int (smem_size p)\<rparr>
      in (case smem_free_buffer (kernel E) (smem_id p) k of
            (ret, k1) \<Rightarrow>
              if ret = 0 then (None, s1, k1)
              else if smem_free_cnt p + 1 > 5 then (None, s1, k1)
              else (Some (p\<lparr>smem_free_cnt := smem_free_cnt p + 1\<rparr>), s1, k1)))"

fun sweep_list :: "'k env \<Rightarrow> int \<Rightarrow> smem_t list \<Rightarrow> server \<Rightarrow> 'k \<Rightarrow> smem_t list \<times> server \<times> 'k" where
  "sweep_list E timeout [] s k = ([], s, k)"
| "sweep_list E timeout (p # ps) s k =
     (if unixtime s - last_time p > timeout then
        (case reclaim E p s k of
           (keep, s1, k1) \<Rightarrow>
             (case sweep_list E timeout ps s1 k1 of
                (l, s2, k2) \<Rightarrow> ((case keep of None \<Rightarrow> l | Some q \<Rightarrow> q # l), s2, k2)))
      else
        (case sweep_list E timeout ps s k of (l, s2, k2) \<Rightarrow> (p # l, s2, k2)))"

definition sweep_available :: "'k env \<Rightarrow> int \<Rightarrow> string \<Rightarrow> server \<times> 'k \<Rightarrow> server \<times> 'k" where
  "sweep_available E timeout key st =
     (case st of
        (s, k) \<Rightarrow>
          (case smempubsub_memorys_available s key of
             None \<Rightarrow> (s, k)
           | Some l \<Rightarrow>
               (case sweep_list E timeout l s k of
                  (l', s1, k1) \<Rightarrow>
                    (s1\<lparr>smempubsub_memorys_available := (smempubsub_memorys_available s1)(key \<mapsto> l')\<rparr>, k1))))"

definition sweep_used :: "'k env \<Rightarrow> int \<Rightarrow> string \<Rightarrow> server \<times> 'k \<Rightarrow> server \<times> 'k" where
  "sweep_used E timeout key st =
     (case st of
        (s, k) \<Rightarrow>
          (case smempubsub_memorys s key of
             None \<Rightarrow> (s, k)
           | Some p \<Rightarrow>
               if unixtime s - last_time p > timeout then
                 (case reclaim E p s k of
                    (keep, s1, k1) \<Rightarrow>
                      (s1\<lparr>smempubsub_memorys := (smempubsub_memorys s1)(key := keep)\<rparr>, k1))
               else (s, k)))"

text \<open>\<open>ks_available\<close> and \<open>ks_used\<close> are the keys in the order in which the two safe
  iterators visit them. The counters that are only logged are left out.\<close>

definition smemFreeShareMemory_cron ::
    "'k env \<Rightarrow> int \<Rightarrow> string list \<Rightarrow> string list \<Rightarrow> server \<Rightarrow> 'k \<Rightarrow> server \<times> 'k" where
  "smemFreeShareMemory_cron E timeout ks_available ks_used s k =
     fold (sweep_used E timeout) ks_used (fold (sweep_available E timeout) ks_available (s, k))"

section \<open>The invariant\<close>

text \<open>
  \<open>weigh g\<close> sums a quantity of ids and sizes over all buffers the server tracks, in use
  and idle. Two instances carry the invariant: the total size, which
  \<open>share_memory_size\<close> must be equal to, and the number of entries with a given id,
  which is at most one and zero unless the segment exists.
\<close>

abbreviation wt :: "(int \<Rightarrow> int \<Rightarrow> int) \<Rightarrow> smem_t \<Rightarrow> int" where
  "wt g p \<equiv> g (smem_id p) (smem_size p)"

abbreviation wts :: "(int \<Rightarrow> int \<Rightarrow> int) \<Rightarrow> smem_t list \<Rightarrow> int" where
  "wts g l \<equiv> sum_list (map (wt g) l)"

definition weigh :: "(int \<Rightarrow> int \<Rightarrow> int) \<Rightarrow> server \<Rightarrow> int" where
  "weigh g s = map_total (wt g) (smempubsub_memorys s) + map_total (wts g) (smempubsub_memorys_available s)"

abbreviation total_size :: "server \<Rightarrow> int" where
  "total_size \<equiv> weigh (\<lambda>i z. z)"

abbreviation has_id :: "int \<Rightarrow> int \<Rightarrow> int \<Rightarrow> int" where
  "has_id i \<equiv> \<lambda>j z. if j = i then 1 else 0"

definition size_ok :: "int \<Rightarrow> bool" where
  "size_ok z \<longleftrightarrow> 0 < z \<and> z \<le> MAX_SMEM_SIZE \<and> 4096 dvd z"

definition shape :: "server \<Rightarrow> bool" where
  "shape s \<longleftrightarrow>
     finite (dom (smempubsub_memorys s)) \<and> finite (dom (smempubsub_memorys_available s)) \<and>
     (\<forall>key p. smempubsub_memorys s key = Some p \<longrightarrow>
        key = dec_int (smem_id p) \<and> size_ok (smem_size p) \<and>
        smem_state p = SMEM_T_STATE_USED \<and> 1 \<le> smem_cnt p) \<and>
     (\<forall>key l. smempubsub_memorys_available s key = Some l \<longrightarrow>
        length l \<le> 21 \<and>
        (\<forall>p\<in>set l. key = dec_int (smem_size p) \<and> size_ok (smem_size p) \<and>
           smem_state p = SMEM_T_STATE_AVAILAVLE \<and> smem_cnt p = 0))"

definition accounts :: "int set \<Rightarrow> server \<Rightarrow> bool" where
  "accounts ids s \<longleftrightarrow>
     (\<forall>i. weigh (has_id i) s \<le> (if i \<in> ids \<and> 0 \<le> i then 1 else 0)) \<and>
     uint (share_memory_size s) = total_size s \<and>
     share_memory_size s \<le> share_memory_limit s \<and>
     uint (share_memory_limit s) < 2 ^ 63"

definition store_inv :: "int set \<Rightarrow> server \<Rightarrow> bool" where
  "store_inv ids s \<longleftrightarrow> shape s \<and> accounts ids s"

subsection \<open>Weights\<close>

lemma weigh_frame:
  "smempubsub_memorys t = smempubsub_memorys s \<Longrightarrow>
   smempubsub_memorys_available t = smempubsub_memorys_available s \<Longrightarrow> weigh g t = weigh g s"
  by (simp add: weigh_def)

lemma shape_frame:
  "smempubsub_memorys t = smempubsub_memorys s \<Longrightarrow>
   smempubsub_memorys_available t = smempubsub_memorys_available s \<Longrightarrow> shape t = shape s"
  by (simp add: shape_def)

lemma store_inv_out_frame: "out_frame s t \<Longrightarrow> store_inv ids t = store_inv ids s"
  unfolding store_inv_def accounts_def
  using weigh_frame [of t s] shape_frame [of t s] by (simp add: out_frame_simps)

lemma shape_used:
  assumes "shape s" and "smempubsub_memorys s key = Some p"
  shows "key = dec_int (smem_id p)" "size_ok (smem_size p)" "smem_state p = SMEM_T_STATE_USED" "1 \<le> smem_cnt p"
  using assms unfolding shape_def by blast+

lemma shape_available:
  assumes "shape s" and "smempubsub_memorys_available s key = Some l"
  shows "length l \<le> 21"
    and "p \<in> set l \<Longrightarrow> key = dec_int (smem_size p) \<and> size_ok (smem_size p) \<and>
           smem_state p = SMEM_T_STATE_AVAILAVLE \<and> smem_cnt p = 0"
  using assms unfolding shape_def by blast+

lemma size_ok_pos: "size_ok z \<Longrightarrow> 0 \<le> z"
  by (simp add: size_ok_def)

text \<open>A weight that is not negative on the sizes that occur.\<close>

definition nonneg_weight :: "(int \<Rightarrow> int \<Rightarrow> int) \<Rightarrow> bool" where
  "nonneg_weight g \<longleftrightarrow> (\<forall>i z. 0 \<le> z \<longrightarrow> 0 \<le> g i z)"

lemma nonneg_has_id [simp]: "nonneg_weight (has_id i)"
  by (simp add: nonneg_weight_def)

lemma nonneg_size [simp]: "nonneg_weight (\<lambda>i z. z)"
  by (simp add: nonneg_weight_def)

lemma wt_nonneg: "nonneg_weight g \<Longrightarrow> size_ok (smem_size p) \<Longrightarrow> 0 \<le> wt g p"
  by (simp add: nonneg_weight_def size_ok_def)

lemma available_weights_nonneg:
  assumes "shape s" "nonneg_weight g" "smempubsub_memorys_available s key = Some l"
  shows "0 \<le> wts g l"
  by (rule sum_list_nonneg) (use shape_available(2) [OF assms(1,3)] wt_nonneg [OF assms(2)] in auto)

lemma weigh_nonneg:
  assumes "shape s" "nonneg_weight g"
  shows "0 \<le> map_total (wt g) (smempubsub_memorys s)"
    and "0 \<le> map_total (wts g) (smempubsub_memorys_available s)" and "0 \<le> weigh g s"
proof -
  show u: "0 \<le> map_total (wt g) (smempubsub_memorys s)"
    by (rule map_total_nonneg) (use assms shape_used wt_nonneg in blast)
  show a: "0 \<le> map_total (wts g) (smempubsub_memorys_available s)"
    by (rule map_total_nonneg) (use assms available_weights_nonneg in blast)
  from u a show "0 \<le> weigh g s" by (simp add: weigh_def)
qed

lemma weigh_used_ge:
  assumes "shape s" "nonneg_weight g" "smempubsub_memorys s key = Some p"
  shows "wt g p + map_total (wts g) (smempubsub_memorys_available s) \<le> weigh g s"
proof -
  have "wt g p \<le> map_total (wt g) (smempubsub_memorys s)"
  proof (rule map_total_ge [where m = "smempubsub_memorys s" and k = key, OF _ _ assms(3)])
    show "finite (dom (smempubsub_memorys s))" using assms(1) by (simp add: shape_def)
    show "0 \<le> wt g v" if "smempubsub_memorys s j = Some v" for j v
      using wt_nonneg [OF assms(2) shape_used(2) [OF assms(1) that]] .
  qed
  then show ?thesis by (simp add: weigh_def)
qed

lemma weigh_available_ge:
  assumes "shape s" "nonneg_weight g" "smempubsub_memorys_available s key = Some l"
  shows "wts g l + map_total (wt g) (smempubsub_memorys s) \<le> weigh g s"
proof -
  have "wts g l \<le> map_total (wts g) (smempubsub_memorys_available s)"
  proof (rule map_total_ge [where m = "smempubsub_memorys_available s" and k = key, OF _ _ assms(3)])
    show "finite (dom (smempubsub_memorys_available s))" using assms(1) by (simp add: shape_def)
    show "0 \<le> wts g v" if "smempubsub_memorys_available s j = Some v" for j v
      using available_weights_nonneg [OF assms(1,2) that] .
  qed
  then show ?thesis by (simp add: weigh_def)
qed

subsection \<open>What the accounts say about ids\<close>

lemma accounts_id:
  assumes "accounts ids s"
  shows "weigh (has_id i) s \<le> 1" and "1 \<le> weigh (has_id i) s \<Longrightarrow> i \<in> ids \<and> 0 \<le> i"
proof -
  have b: "weigh (has_id i) s \<le> (if i \<in> ids \<and> 0 \<le> i then 1 else 0)"
    using assms unfolding accounts_def by blast
  show "weigh (has_id i) s \<le> 1" using b by (cases "i \<in> ids \<and> 0 \<le> i") simp_all
  show "i \<in> ids \<and> 0 \<le> i" if "1 \<le> weigh (has_id i) s"
    using b that by (cases "i \<in> ids \<and> 0 \<le> i") simp_all
qed

lemma used_id:
  assumes "store_inv ids s" "smempubsub_memorys s key = Some p"
  shows "smem_id p \<in> ids" "0 \<le> smem_id p"
proof -
  have sh: "shape s" and ac: "accounts ids s" using assms(1) by (simp_all add: store_inv_def)
  have "1 \<le> weigh (has_id (smem_id p)) s"
    using weigh_used_ge [OF sh nonneg_has_id assms(2), of "smem_id p"]
      weigh_nonneg(2) [OF sh nonneg_has_id, of "smem_id p"] by simp
  with accounts_id(2) [OF ac] show "smem_id p \<in> ids" "0 \<le> smem_id p" by blast+
qed

lemma has_id_wts: "p \<in> set l \<Longrightarrow> 1 \<le> wts (has_id (smem_id p)) l"
  using sum_list_ge [of p l "\<lambda>q. wt (has_id (smem_id p)) q"] by simp

lemma available_id:
  assumes "store_inv ids s" "smempubsub_memorys_available s key = Some l" "p \<in> set l"
  shows "smem_id p \<in> ids" "0 \<le> smem_id p" "smempubsub_memorys s (dec_int (smem_id p)) = None"
proof -
  let ?i = "smem_id p"
  have sh: "shape s" and ac: "accounts ids s" using assms(1) by (simp_all add: store_inv_def)
  have w: "1 + map_total (wt (has_id ?i)) (smempubsub_memorys s) \<le> weigh (has_id ?i) s"
    using weigh_available_ge [OF sh nonneg_has_id assms(2), of ?i] has_id_wts [OF assms(3)] by linarith
  with weigh_nonneg(1) [OF sh nonneg_has_id, of ?i] have "1 \<le> weigh (has_id ?i) s" by linarith
  with accounts_id(2) [OF ac] show "?i \<in> ids" "0 \<le> ?i" by blast+
  show "smempubsub_memorys s (dec_int ?i) = None"
  proof (rule ccontr)
    assume "\<not> ?thesis"
    then obtain q where q: "smempubsub_memorys s (dec_int ?i) = Some q" by auto
    with shape_used(1) [OF sh q] have "smem_id q = ?i" by simp
    moreover have "wt (has_id ?i) q \<le> map_total (wt (has_id ?i)) (smempubsub_memorys s)"
      by (rule map_total_ge [where m = "smempubsub_memorys s" and k = "dec_int ?i", OF _ _ q]) (use sh in \<open>auto simp: shape_def\<close>)
    ultimately show False using w accounts_id(1) [OF ac, of ?i] by simp
  qed
qed

lemma distinct_by_weights:
  "(\<And>i. wts (has_id i) l \<le> 1) \<Longrightarrow> distinct (map smem_id l)"
proof (induction l)
  case (Cons p l)
  have nn: "0 \<le> wts (has_id i) l" for i by (rule sum_list_nonneg) auto
  have "wts (has_id i) l \<le> 1" for i
  proof -
    have "wts (has_id i) l \<le> wts (has_id i) (p # l)" by simp
    with Cons.prems [of i] show ?thesis by linarith
  qed
  with Cons.IH have "distinct (map smem_id l)" .
  moreover have "smem_id p \<notin> smem_id ` set l"
  proof
    assume "smem_id p \<in> smem_id ` set l"
    then obtain q where "q \<in> set l" "smem_id q = smem_id p" by auto
    with has_id_wts [of q l] Cons.prems [of "smem_id p"] show False by simp
  qed
  ultimately show ?case by simp
qed simp

lemma available_distinct:
  assumes "store_inv ids s" "smempubsub_memorys_available s key = Some l"
  shows "distinct (map smem_id l)"
proof (rule distinct_by_weights)
  fix i
  have sh: "shape s" and ac: "accounts ids s" using assms(1) by (simp_all add: store_inv_def)
  show "wts (has_id i) l \<le> 1"
    using weigh_available_ge [OF sh nonneg_has_id assms(2), of i] accounts_id(1) [OF ac, of i]
      weigh_nonneg(1) [OF sh nonneg_has_id, of i] by linarith
qed

subsection \<open>Keeping the accounts\<close>

lemma accounts_remove:
  assumes ac: "accounts ids s" and sh: "shape t"
    and w: "\<And>g. weigh g t = weigh g s - wts g R"
    and sz: "share_memory_size t = share_memory_size s - word_of_int (wts (\<lambda>i z. z) R)"
    and lim: "share_memory_limit t = share_memory_limit s"
    and pos: "\<And>p. p \<in> set R \<Longrightarrow> 0 \<le> smem_size p"
    and live: "ids - smem_id ` set R \<subseteq> ids'"
  shows "accounts ids' t"
proof -
  let ?z = "wts (\<lambda>i z. z) R"
  have z: "0 \<le> ?z" by (rule sum_list_nonneg) (use pos in auto)
  have tot: "uint (share_memory_size s) = total_size s" using ac by (simp add: accounts_def)
  have "?z \<le> total_size s" using weigh_nonneg(3) [OF sh nonneg_size] w [of "\<lambda>i z. z"] by simp
  with z tot have u: "uint (share_memory_size t) = uint (share_memory_size s) - ?z"
    unfolding sz by (intro uint_sub_size) simp_all
  have "weigh (has_id i) t \<le> (if i \<in> ids' \<and> 0 \<le> i then 1 else 0)" for i
  proof (cases "i \<in> smem_id ` set R")
    case True
    then obtain p where "p \<in> set R" "smem_id p = i" by auto
    with has_id_wts [of p R] have "1 \<le> wts (has_id i) R" by simp
    with w [of "has_id i"] accounts_id(1) [OF ac, of i] show ?thesis by simp
  next
    case False
    have "0 \<le> wts (has_id i) R" by (rule sum_list_nonneg) auto
    then have le: "weigh (has_id i) t \<le> weigh (has_id i) s" using w [of "has_id i"] by simp
    have "i \<in> ids' \<and> 0 \<le> i" if "1 \<le> weigh (has_id i) s"
      using accounts_id(2) [OF ac that] False live by blast
    with le accounts_id(1) [OF ac, of i] show ?thesis by (cases "1 \<le> weigh (has_id i) s") auto
  qed
  moreover have "share_memory_size t \<le> share_memory_limit t"
    using ac u z unfolding accounts_def lim word_le_def by linarith
  ultimately show ?thesis
    using ac u tot w [of "\<lambda>i z. z"] unfolding accounts_def lim by simp
qed

lemma accounts_add:
  assumes ac: "accounts ids s" and sh: "shape s"
    and w: "\<And>g. weigh g t = weigh g s + g i z"
    and sz: "share_memory_size t = share_memory_size s + word_of_int z"
    and lim: "share_memory_limit t = share_memory_limit s"
    and le: "share_memory_size s + word_of_int z \<le> share_memory_limit s"
    and z: "0 \<le> z" "z \<le> MAX_SMEM_SIZE"
    and new: "i \<notin> ids" "0 \<le> i" "insert i ids \<subseteq> ids'"
  shows "accounts ids' t"
proof -
  have l63: "uint (share_memory_limit s) < 2 ^ 63" and s_le: "uint (share_memory_size s) \<le> uint (share_memory_limit s)"
    and tot: "uint (share_memory_size s) = total_size s"
    using ac unfolding accounts_def word_le_def by blast+
  have u: "uint (share_memory_size t) = uint (share_memory_size s) + z"
    unfolding sz using z l63 s_le by (intro uint_add_size) simp_all
  have "weigh (has_id j) t \<le> (if j \<in> ids' \<and> 0 \<le> j then 1 else 0)" for j
  proof (cases "j = i")
    case True
    have "\<not> 1 \<le> weigh (has_id i) s" using accounts_id(2) [OF ac, of i] new(1) by blast
    with True new w [of "has_id i"] show ?thesis by auto
  next
    case False
    then have "weigh (has_id j) t = weigh (has_id j) s" using w [of "has_id j"] by simp
    moreover have "weigh (has_id j) s \<le> (if j \<in> ids \<and> 0 \<le> j then 1 else 0)"
      using ac unfolding accounts_def by blast
    moreover have "(if j \<in> ids \<and> 0 \<le> j then 1 else 0) \<le> (if j \<in> ids' \<and> 0 \<le> j then 1 else (0 :: int))"
      using new(3) by auto
    ultimately show ?thesis by linarith
  qed
  moreover have "share_memory_size t \<le> share_memory_limit t" using le unfolding sz lim .
  ultimately show ?thesis
    using u tot l63 w [of "\<lambda>i z. z"] unfolding accounts_def lim by simp
qed

lemma accounts_same:
  assumes "accounts ids s" and "\<And>g. weigh g t = weigh g s" and "share_memory_size t = share_memory_size s"
    and "share_memory_limit t = share_memory_limit s" and "ids \<subseteq> ids'"
  shows "accounts ids' t"
proof -
  have "(if i \<in> ids \<and> 0 \<le> i then 1 else 0) \<le> (if i \<in> ids' \<and> 0 \<le> i then 1 else (0 :: int))" for i
    using assms(5) by auto
  then have "weigh (has_id i) s \<le> (if i \<in> ids' \<and> 0 \<le> i then 1 else 0)" for i
    using assms(1) unfolding accounts_def by (meson order_trans)
  with assms(1) show ?thesis unfolding accounts_def assms(2-4) by blast
qed

section \<open>SMEMGET keeps the invariant\<close>

lemma SMEMALIGN_mod: "SMEMALIGN x 4096 = c_int (x + 4095) - c_int (x + 4095) mod 4096"
proof -
  have "(4096 - 1 :: int) = mask 12" by (simp add: mask_eq_exp_minus_1)
  then show ?thesis unfolding SMEMALIGN_def using and_not_mask_int [of "c_int (x + 4095)" 12] by (simp add: add.commute)
qed

lemma SMEMALIGN_dvd: "4096 dvd SMEMALIGN x 4096"
  unfolding SMEMALIGN_mod by (metis dvd_minus_mod)

lemma SMEMALIGN_bounds:
  assumes "int_range (x + 4095)"
  shows "x \<le> SMEMALIGN x 4096" and "SMEMALIGN x 4096 < x + 4096"
proof -
  have "0 \<le> (x + 4095) mod 4096" "(x + 4095) mod 4096 < 4096" by simp_all
  then show "x \<le> SMEMALIGN x 4096" and "SMEMALIGN x 4096 < x + 4096"
    unfolding SMEMALIGN_mod c_int_id [OF assms] by linarith+
qed

abbreviation used_entry :: "int \<Rightarrow> int \<Rightarrow> int \<Rightarrow> smem_t" where
  "used_entry i z now \<equiv> \<lparr>smem_id = i, smem_size = z, smem_state = SMEM_T_STATE_USED, smem_cnt = 1,
     smem_free_cnt = 0, last_time = now\<rparr>"

lemma smem_t_eq:
  "p\<lparr>smem_state := a, smem_cnt := b, smem_free_cnt := d, last_time := e\<rparr> =
   \<lparr>smem_id = smem_id p, smem_size = smem_size p, smem_state = a, smem_cnt = b, smem_free_cnt = d, last_time = e\<rparr>"
  by (cases p) simp

lemma smemget_reuse_cases:
  assumes inv: "store_inv ids s"
  obtains
    (none) "smemget_reuse sz s = (-1, s)"
      "case smempubsub_memorys_available s (dec_int sz) of None \<Rightarrow> True | Some l \<Rightarrow> l = []"
  | (some) p l where "smempubsub_memorys_available s (dec_int sz) = Some (p # l)"
      "smemget_reuse sz s = (smem_id p,
         s\<lparr>smempubsub_memorys_available := (smempubsub_memorys_available s)(dec_int sz \<mapsto> l),
           smempubsub_memorys := (smempubsub_memorys s)(dec_int (smem_id p) \<mapsto> used_entry (smem_id p) sz (unixtime s))\<rparr>)"
proof (cases "smempubsub_memorys_available s (dec_int sz)")
  case None
  with none show ?thesis by (simp add: smemget_reuse_def)
next
  case (Some l0)
  show ?thesis
  proof (cases l0)
    case Nil
    with Some none show ?thesis by (simp add: smemget_reuse_def)
  next
    case (Cons p l)
    with Some have l0: "smempubsub_memorys_available s (dec_int sz) = Some (p # l)" by simp
    have sh: "shape s" using inv by (simp add: store_inv_def)
    have "smem_size p = sz" "smem_state p = SMEM_T_STATE_AVAILAVLE"
      using shape_available(2) [OF sh l0, of p] by simp_all
    moreover have "smempubsub_memorys s (dec_int (smem_id p)) = None"
      using available_id(3) [OF inv l0] by simp
    ultimately show ?thesis
      by (intro some [OF l0]) (simp add: smemget_reuse_def l0 smemlistMoveNodeToDict_def dictAdd_def smem_t_eq Let_def)
  qed
qed

lemma store_inv_take:
  assumes inv: "store_inv ids s" and l: "smempubsub_memorys_available s (dec_int sz) = Some (p # l)"
  shows "store_inv ids
    (s\<lparr>smempubsub_memorys_available := (smempubsub_memorys_available s)(dec_int sz \<mapsto> l),
       smempubsub_memorys := (smempubsub_memorys s)(dec_int (smem_id p) \<mapsto> used_entry (smem_id p) sz now)\<rparr>)"
    (is "store_inv ids ?t")
proof -
  have sh: "shape s" and ac: "accounts ids s" using inv by (simp_all add: store_inv_def)
  have p: "smem_size p = sz" "size_ok sz" using shape_available(2) [OF sh l, of p] by simp_all
  have n: "smempubsub_memorys s (dec_int (smem_id p)) = None" using available_id(3) [OF inv l] by simp
  have fin: "finite (dom (smempubsub_memorys s))" "finite (dom (smempubsub_memorys_available s))"
    using sh by (simp_all add: shape_def)
  have "weigh g ?t = weigh g s" for g
    using map_total_upd [OF fin(1), of "wt g" "dec_int (smem_id p)" "used_entry (smem_id p) sz now"]
      map_total_upd [OF fin(2), of "wts g" "dec_int sz" l] n l p by (simp add: weigh_def)
  then have "accounts ids ?t" using ac by (intro accounts_same [OF ac]) simp_all
  moreover have "shape ?t"
    using sh p l shape_available(1) [OF sh l] shape_available(2) [OF sh l]
    unfolding shape_def by auto
  ultimately show ?thesis by (simp add: store_inv_def)
qed

lemma shape_add_used:
  assumes "shape s" "size_ok z"
  shows "shape (s\<lparr>smempubsub_memorys := (smempubsub_memorys s)(dec_int i \<mapsto> used_entry i z now), share_memory_size := y\<rparr>)"
  using assms unfolding shape_def by auto

lemma smem_reget_contract:
  assumes c: "shm_contract K live" and g: "smem_get_buffer K sz k = (i1, k1)"
    and r: "(if i1 = 0 then smem_get_buffer K sz (snd (smem_free_buffer K i1 k1)) else (i1, k1)) = (i, k2)"
  shows "live k \<subseteq> live k2"
    and "i \<noteq> -1 \<Longrightarrow> 0 < sz \<and> sz \<le> MAX_SMEM_SIZE \<and> 0 \<le> i \<and> i \<notin> live k \<and> i \<in> live k2"
proof -
  note G = smem_get_buffer_contract [OF c g]
  have sub: "live k \<subseteq> live k1" using G(2,3) by (cases "i1 = -1") auto
  have "live k \<subseteq> live k2 \<and> (i \<noteq> -1 \<longrightarrow> 0 < sz \<and> sz \<le> MAX_SMEM_SIZE \<and> 0 \<le> i \<and> i \<notin> live k \<and> i \<in> live k2)"
  proof (cases "i1 = 0")
    case True
    obtain x k1' where f: "smem_free_buffer K i1 k1 = (x, k1')" by (cases "smem_free_buffer K i1 k1")
    with r True have g2: "smem_get_buffer K sz k1' = (i, k2)" by simp
    have "live k \<subseteq> live k1'"
      using smem_free_buffer_contract [OF c f] G(3) True sub by (cases "x = 0") auto
    moreover note G2 = smem_get_buffer_contract [OF c g2]
    ultimately show ?thesis by (cases "i = -1") auto
  next
    case False
    with r have "i = i1" "k2 = k1" by simp_all
    with G(3) sub show ?thesis by auto
  qed
  then show "live k \<subseteq> live k2"
    and "i \<noteq> -1 \<Longrightarrow> 0 < sz \<and> sz \<le> MAX_SMEM_SIZE \<and> 0 \<le> i \<and> i \<notin> live k \<and> i \<in> live k2" by blast+
qed

lemma smemget_new_cases:
  assumes inv: "store_inv (live k) s" and c: "shm_contract (kernel E) live" and d: "4096 dvd sz"
    and r: "smemget_new E sz s k = (i, s', k')"
  shows "store_inv (live k') s' \<and>
    (if i = -1 then s' = s
     else 0 \<le> i \<and> i \<in> live k' \<and> i \<notin> live k \<and>
       s' = s\<lparr>smempubsub_memorys := (smempubsub_memorys s)(dec_int i \<mapsto> used_entry i sz (unixtime s)),
             share_memory_size := share_memory_size s + word_of_int sz\<rparr>)"
proof -
  have sh: "shape s" and ac: "accounts (live k) s" using inv by (simp_all add: store_inv_def)
  have grow: "store_inv (live k2) s" if "live k \<subseteq> live k2" for k2
    using accounts_same [OF ac _ _ _ that] sh by (simp add: store_inv_def)
  obtain i1 k1 where g: "smem_get_buffer (kernel E) sz k = (i1, k1)" by (cases "smem_get_buffer (kernel E) sz k")
  obtain i2 k2 where g2: "(if i1 = 0 then smem_get_buffer (kernel E) sz (snd (smem_free_buffer (kernel E) i1 k1)) else (i1, k1)) = (i2, k2)"
    by (meson surj_pair)
  note R = smem_reget_contract [OF c g g2]
  show ?thesis
  proof (cases "share_memory_size s + word_of_int sz \<le> share_memory_limit s \<and> i2 \<noteq> -1 \<and> zmalloc_ok E")
    case False
    with r g g2 have "i = -1" "s' = s" "k' = k \<or> k' = k2"
      by (auto simp: smemget_new_def split: if_splits)
    with grow [of k] grow [OF R(1)] show ?thesis by auto
  next
    case True
    with R(2) have z: "0 < sz" "sz \<le> MAX_SMEM_SIZE" and i2: "0 \<le> i2" "i2 \<notin> live k" "i2 \<in> live k2" by auto
    have n: "smempubsub_memorys s (dec_int i2) = None"
    proof (cases "smempubsub_memorys s (dec_int i2)")
      case (Some q)
      with shape_used(1) [OF sh Some] used_id(1) [OF inv Some] i2(2) show ?thesis by simp
    qed
    let ?t = "s\<lparr>smempubsub_memorys := (smempubsub_memorys s)(dec_int i2 \<mapsto> used_entry i2 sz (unixtime s)),
             share_memory_size := share_memory_size s + word_of_int sz\<rparr>"
    have res: "i = i2" "k' = k2" "s' = ?t"
      using True r g g2 n by (auto simp: smemget_new_def dictAdd_def)
    have fin: "finite (dom (smempubsub_memorys s))" using sh by (simp add: shape_def)
    have "weigh g ?t = weigh g s + g i2 sz" for g
      using map_total_upd [OF fin, of "wt g" "dec_int i2" "used_entry i2 sz (unixtime s)"] n by (simp add: weigh_def)
    then have "accounts (live k2) ?t"
      using True z i2 R(1) by (intro accounts_add [OF ac sh]) simp_all
    moreover have "shape ?t"
      by (rule shape_add_used [OF sh]) (use z d in \<open>simp add: size_ok_def\<close>)
    ultimately show ?thesis using res i2 True by (simp add: store_inv_def)
  qed
qed

lemma smemget_size_cases:
  assumes inv: "store_inv (live k) s" and c: "shm_contract (kernel E) live" and d: "4096 dvd sz"
    and r: "smemget_size E sz s k = (i, s', k')"
  shows "store_inv (live k') s'"
    and "i = -1 \<Longrightarrow> s' = s"
    and "i \<noteq> -1 \<Longrightarrow> 0 \<le> i \<and> i \<in> live k' \<and> smempubsub_memorys s (dec_int i) = None \<and>
        smempubsub_memorys s' = (smempubsub_memorys s)(dec_int i \<mapsto> used_entry i sz (unixtime s))"
    and "clients s' = clients s" and "unixtime s' = unixtime s"
proof -
  have "store_inv (live k') s' \<and> (i = -1 \<longrightarrow> s' = s) \<and>
    (i \<noteq> -1 \<longrightarrow> 0 \<le> i \<and> i \<in> live k' \<and> smempubsub_memorys s (dec_int i) = None \<and>
        smempubsub_memorys s' = (smempubsub_memorys s)(dec_int i \<mapsto> used_entry i sz (unixtime s))) \<and>
    clients s' = clients s \<and> unixtime s' = unixtime s"
    using inv
  proof (cases rule: smemget_reuse_cases [where sz = sz])
    case none
    with r have "smemget_new E sz s k = (i, s', k')" by (simp add: smemget_size_def)
    note N = smemget_new_cases [OF inv c d this]
    have "smempubsub_memorys s (dec_int i) = None" if "i \<notin> live k"
      using used_id(1) [OF inv, of "dec_int i"] shape_used(1) [of s "dec_int i"] inv that
      by (cases "smempubsub_memorys s (dec_int i)") (auto simp: store_inv_def)
    with N show ?thesis by (cases "i = -1") (simp_all, metis+)
  next
    case (some p l)
    from available_id [OF inv some(1), of p]
    have p: "smem_id p \<in> live k" "0 \<le> smem_id p" "smempubsub_memorys s (dec_int (smem_id p)) = None" by simp_all
    with r some(2) have "i = smem_id p" "k' = k"
      "s' = s\<lparr>smempubsub_memorys_available := (smempubsub_memorys_available s)(dec_int sz \<mapsto> l),
           smempubsub_memorys := (smempubsub_memorys s)(dec_int (smem_id p) \<mapsto> used_entry (smem_id p) sz (unixtime s))\<rparr>"
      by (auto simp: smemget_size_def)
    with p store_inv_take [OF inv some(1)] show ?thesis by simp
  qed
  then show "store_inv (live k') s'" "i = -1 \<Longrightarrow> s' = s"
    "i \<noteq> -1 \<Longrightarrow> 0 \<le> i \<and> i \<in> live k' \<and> smempubsub_memorys s (dec_int i) = None \<and>
        smempubsub_memorys s' = (smempubsub_memorys s)(dec_int i \<mapsto> used_entry i sz (unixtime s))"
    "clients s' = clients s" "unixtime s' = unixtime s" by blast+
qed

lemma smemgetCommand_eq:
  assumes "getLongLong E (argv (clients s c) ! 1) = Some n"
    and "smemget_size E (SMEMALIGN (c_int n) 4096) s k = (i, s1, k1)"
  shows "smemgetCommand E c s k = (addReplyLongLong (obj_alloc E) c i s1, k1)"
  using assms by (simp add: smemgetCommand_def)

lemma addReplyLongLong_frame: "out_frame s (addReplyLongLong A c n s)"
  using addReplyLongLong_appends by (rule appends_out_frame)

section \<open>SMEMFREE keeps the invariant\<close>

text \<open>The list of a size to which a returned buffer belongs.\<close>

definition idle_list :: "server \<Rightarrow> smem_t \<Rightarrow> smem_t list" where
  "idle_list s p = (case smempubsub_memorys_available s (dec_int (smem_size p)) of Some l \<Rightarrow> l | None \<Rightarrow> [])"

lemma idle_list_facts:
  assumes "shape s"
  shows "weight_at (wts g) (smempubsub_memorys_available s (dec_int (smem_size p))) = wts g (idle_list s p)" "length (idle_list s p) \<le> 21"
    "x \<in> set (idle_list s p) \<Longrightarrow> dec_int (smem_size p) = dec_int (smem_size x) \<and> size_ok (smem_size x) \<and>
      smem_state x = SMEM_T_STATE_AVAILAVLE \<and> smem_cnt x = 0"
  using shape_available [OF assms, of "dec_int (smem_size p)"]
  by (cases "smempubsub_memorys_available s (dec_int (smem_size p))"; force simp: idle_list_def)+

text \<open>A buffer whose list is full is removed.\<close>

lemma drop_buffer_inv:
  assumes inv: "store_inv L s" and m: "smempubsub_memorys s key = Some p" and k': "L - {smem_id p} \<subseteq> L'"
  shows "store_inv L' (s\<lparr>smempubsub_memorys_available := (smempubsub_memorys_available s)(dec_int (smem_size p) \<mapsto> idle_list s p),
     share_memory_size := share_memory_size s - word_of_int (smem_size p), smempubsub_memorys := (smempubsub_memorys s)(key := None)\<rparr>)"
    (is "store_inv _ ?t")
proof -
  have sh: "shape s" and ac: "accounts L s" using inv by (simp_all add: store_inv_def)
  have fin: "finite (dom (smempubsub_memorys s))" "finite (dom (smempubsub_memorys_available s))" using sh by (simp_all add: shape_def)
  note l = idle_list_facts [OF sh, where p = p]
  have sh1: "shape ?t" using sh l(2,3) fin unfolding shape_def by auto
  have "weigh g ?t = weigh g s - wts g [p]" for g
    using map_total_del [OF fin(1), of "wt g" key] map_total_upd [OF fin(2), of "wts g" "dec_int (smem_size p)" "idle_list s p"] l(1) [of g] m
    by (simp add: weigh_def)
  then have "accounts L' ?t"
    using size_ok_pos [OF shape_used(2) [OF sh m]] k' sh1 by (intro accounts_remove [where R = "[p]", OF ac]) simp_all
  with sh1 show ?thesis by (simp add: store_inv_def)
qed

text \<open>Otherwise it is appended to the list.\<close>

lemma keep_buffer_inv:
  assumes inv: "store_inv L s" and m: "smempubsub_memorys s key = Some p" and n: "length (idle_list s p) \<le> 20"
    and q: "smem_id q = smem_id p" "smem_size q = smem_size p" "smem_state q = SMEM_T_STATE_AVAILAVLE" "smem_cnt q = 0"
  shows "store_inv L (s\<lparr>smempubsub_memorys_available := (smempubsub_memorys_available s)(dec_int (smem_size p) \<mapsto> idle_list s p @ [q]),
     smempubsub_memorys := (smempubsub_memorys s)(key := None)\<rparr>)"
    (is "store_inv _ ?t")
proof -
  have sh: "shape s" and ac: "accounts L s" using inv by (simp_all add: store_inv_def)
  have fin: "finite (dom (smempubsub_memorys s))" "finite (dom (smempubsub_memorys_available s))" using sh by (simp_all add: shape_def)
  note l = idle_list_facts [OF sh, where p = p]
  have q_ok: "dec_int (smem_size p) = dec_int (smem_size q) \<and> size_ok (smem_size q) \<and> smem_state q = SMEM_T_STATE_AVAILAVLE \<and> smem_cnt q = 0"
    using q shape_used(2) [OF sh m] by simp
  have "shape ?t" using sh l(3) n q_ok fin unfolding shape_def by auto
  moreover have "weigh g ?t = weigh g s" for g
    using map_total_del [OF fin(1), of "wt g" key] map_total_upd [OF fin(2), of "wts g" "dec_int (smem_size p)" "idle_list s p @ [q]"] l(1) [of g] m q(1,2)
    by (simp add: weigh_def)
  then have "accounts L ?t" by (intro accounts_same [OF ac]) simp_all
  ultimately show ?thesis by (simp add: store_inv_def)
qed

lemma make_available_inv:
  assumes inv: "store_inv (live k) s" and c: "shm_contract (kernel E) live"
    and m: "smempubsub_memorys s key = Some p" and q: "smem_id q = smem_id p" "smem_size q = smem_size p"
    and r: "make_available E key q s k = (s', k')"
  shows "store_inv (live k') s'" and "smempubsub_memorys s' = (smempubsub_memorys s)(key := None)"
    and "clients s' = clients s" and "unixtime s' = unixtime s"
    and "smempubsub_channels s' = smempubsub_channels s"
proof -
  obtain x k1 where f: "smem_free_buffer (kernel E) (smem_id p) k = (x, k1)" by fastforce
  have live: "live k - {smem_id p} \<subseteq> live k1" using smem_free_buffer_contract [OF c f] by (cases "x = 0") auto
  show "store_inv (live k') s'"
  proof (cases "length (idle_list s p) > 20")
    case True
    then show ?thesis using r q f drop_buffer_inv [OF inv m live] by (auto simp: make_available_def Let_def idle_list_def [of s p])
  next
    case False
    then show ?thesis
      using r q keep_buffer_inv [OF inv m, of "q\<lparr>smem_state := SMEM_T_STATE_AVAILAVLE, smem_cnt := 0, last_time := unixtime s\<rparr>"]
      by (auto simp: make_available_def Let_def idle_list_def [of s p])
  qed
  show "smempubsub_memorys s' = (smempubsub_memorys s)(key := None)" "clients s' = clients s" "unixtime s' = unixtime s"
    "smempubsub_channels s' = smempubsub_channels s"
    using r by (auto simp: make_available_def Let_def split: if_splits)
qed

lemma recount_inv:
  assumes inv: "store_inv ids s" and m: "smempubsub_memorys s key = Some p" and n: "1 \<le> n"
  shows "store_inv ids (s\<lparr>smempubsub_memorys := (smempubsub_memorys s)(key \<mapsto> p\<lparr>smem_cnt := n\<rparr>)\<rparr>)"
    (is "store_inv ids ?t")
proof -
  have sh: "shape s" and ac: "accounts ids s" using inv by (simp_all add: store_inv_def)
  have fin: "finite (dom (smempubsub_memorys s))" using sh by (simp add: shape_def)
  have "weigh g ?t = weigh g s" for g
    using map_total_upd [OF fin, of "wt g" key "p\<lparr>smem_cnt := n\<rparr>"] m by (simp add: weigh_def)
  then have "accounts ids ?t" by (intro accounts_same [OF ac]) simp_all
  moreover have "shape ?t" using sh shape_used [OF sh m] n unfolding shape_def by auto
  ultimately show ?thesis by (simp add: store_inv_def)
qed

text \<open>The reference count of a key as the clients see it; an untracked buffer has none.\<close>

definition refs :: "server \<Rightarrow> string \<Rightarrow> int" where
  "refs s key = (case smempubsub_memorys s key of None \<Rightarrow> 0 | Some p \<Rightarrow> smem_cnt p)"

lemma refs_nonneg: "store_inv ids s \<Longrightarrow> 0 \<le> refs s key"
  using shape_used(4) [of s key] by (auto simp: refs_def store_inv_def split: option.split)

lemma refs_pos: "store_inv ids s \<Longrightarrow> smempubsub_memorys s key = Some p \<longleftrightarrow> 1 \<le> refs s key \<and> the (smempubsub_memorys s key) = p"
  using shape_used(4) [of s key] by (auto simp: refs_def store_inv_def split: option.splits)

lemma smemfree_one_cases:
  assumes inv: "store_inv (live k) s" and c: "shm_contract (kernel E) live"
    and r: "smemfree_one E key (n, s, k) = (n', s', k')"
  shows "store_inv (live k') s'" and "refs s' = (refs s)(key := max 0 (refs s key - 1))"
    and "n' = n + (if 1 \<le> refs s key then 1 else 0)"
    and "clients s' = clients s" and "unixtime s' = unixtime s"
proof -
  have sh: "shape s" using inv by (simp add: store_inv_def)
  have "store_inv (live k') s' \<and> refs s' = (refs s)(key := max 0 (refs s key - 1)) \<and>
     n' = n + (if 1 \<le> refs s key then 1 else 0) \<and> clients s' = clients s \<and> unixtime s' = unixtime s"
  proof (cases "smempubsub_memorys s key")
    case None
    with r have "n' = n" "s' = s" "k' = k" by (simp_all add: smemfree_one_def)
    with inv None show ?thesis by (auto simp: refs_def)
  next
    case (Some p)
    note u = shape_used [OF sh Some]
    show ?thesis
    proof (cases "smem_cnt p = 1")
      case True
      with r Some u have ma: "make_available E key (p\<lparr>smem_cnt := smem_cnt p - 1\<rparr>) s k = (s', k')" "n' = n + 1"
        by (simp_all add: smemfree_one_def Let_def)
      note M = make_available_inv [OF inv c Some _ _ ma(1)]
      have "refs s' = (refs s)(key := 0)" using M(2) by (auto simp: refs_def fun_eq_iff)
      moreover have "refs s key = 1" using Some True by (simp add: refs_def)
      ultimately show ?thesis using M ma(2) by simp
    next
      case False
      with u(4) have n: "1 \<le> smem_cnt p - 1" by simp
      with r Some have res: "k' = k" "n' = n + 1"
        "s' = s\<lparr>smempubsub_memorys := (smempubsub_memorys s)(key \<mapsto> p\<lparr>smem_cnt := smem_cnt p - 1\<rparr>)\<rparr>"
        by (simp_all add: smemfree_one_def Let_def)
      have "refs s' = (refs s)(key := smem_cnt p - 1)" using res(3) by (auto simp: refs_def fun_eq_iff)
      moreover have "refs s key = smem_cnt p" using Some by (simp add: refs_def)
      ultimately show ?thesis using recount_inv [OF inv Some n] n res by simp
    qed
  qed
  then show "store_inv (live k') s'" "refs s' = (refs s)(key := max 0 (refs s key - 1))"
    "n' = n + (if 1 \<le> refs s key then 1 else 0)" "clients s' = clients s" "unixtime s' = unixtime s" by blast+
qed

lemma smemfree_all_cases:
  assumes "store_inv (live k) s" and c: "shm_contract (kernel E) live"
    and "fold (smemfree_one E) keys (n, s, k) = (n', s', k')"
  shows "store_inv (live k') s' \<and> (\<forall>key. refs s' key = max 0 (refs s key - int (count_list keys key))) \<and>
     clients s' = clients s \<and> unixtime s' = unixtime s"
  using assms(1,3)
proof (induction keys arbitrary: n s k)
  case Nil
  then show ?case using refs_nonneg [OF Nil.prems(1)] by auto
next
  case (Cons x keys)
  obtain n1 s1 k1 where f: "smemfree_one E x (n, s, k) = (n1, s1, k1)" by (cases "smemfree_one E x (n, s, k)") auto
  note F = smemfree_one_cases [OF Cons.prems(1) c f]
  from Cons.prems(2) f have "fold (smemfree_one E) keys (n1, s1, k1) = (n', s', k')" by simp
  from Cons.IH [OF F(1) this] F(2,4,5) show ?case by auto
qed

section \<open>The sweep keeps the invariant\<close>

text \<open>Removing a segment in use succeeds.\<close>

definition rmid_succeeds :: "'k shm_ops \<Rightarrow> ('k \<Rightarrow> int set) \<Rightarrow> bool" where
  "rmid_succeeds K live \<longleftrightarrow> (\<forall>i k. i \<in> live k \<longrightarrow> fst (rmid K i k) = 0)"

lemma reclaim_ok:
  assumes c: "shm_contract (kernel E) live" and ok: "rmid_succeeds (kernel E) live" and l: "smem_id p \<in> live k"
  obtains k' where "live k' = live k - {smem_id p}"
    "reclaim E p s k = (None, s\<lparr>share_memory_size := share_memory_size s - word_of_int (smem_size p)\<rparr>, k')"
proof -
  obtain r k' where f: "smem_free_buffer (kernel E) (smem_id p) k = (r, k')"
    by (cases "smem_free_buffer (kernel E) (smem_id p) k")
  have "fst (rmid (kernel E) (smem_id p) k) = 0" using ok l unfolding rmid_succeeds_def by blast
  with f have "r = 0" by (simp add: smem_free_buffer_def)
  with smem_free_buffer_contract(1) [OF c f] f show ?thesis by (intro that [of k']) (simp_all add: reclaim_def Let_def)
qed

abbreviation expired :: "int \<Rightarrow> int \<Rightarrow> smem_t \<Rightarrow> bool" where
  "expired now timeout p \<equiv> now - last_time p > timeout"

lemma sweep_list_ok:
  assumes c: "shm_contract (kernel E) live" and ok: "rmid_succeeds (kernel E) live"
  shows "distinct (map smem_id l) \<Longrightarrow> smem_id ` set l \<subseteq> live k \<Longrightarrow>
    \<exists>k'. live k' = live k - smem_id ` set (filter (expired (unixtime s) timeout) l) \<and>
      sweep_list E timeout l s k =
        (filter (\<lambda>p. \<not> expired (unixtime s) timeout p) l,
         s\<lparr>share_memory_size := share_memory_size s -
             word_of_int (wts (\<lambda>i z. z) (filter (expired (unixtime s) timeout) l))\<rparr>, k')"
proof (induction l arbitrary: s k)
  case Nil
  then show ?case by simp
next
  case (Cons p l)
  show ?case
  proof (cases "expired (unixtime s) timeout p")
    case True
    from Cons.prems have "smem_id p \<in> live k" by simp
    from reclaim_ok [OF c ok this, of s] obtain k1 where k1: "live k1 = live k - {smem_id p}"
      "reclaim E p s k = (None, s\<lparr>share_memory_size := share_memory_size s - word_of_int (smem_size p)\<rparr>, k1)" by blast
    have "smem_id ` set l \<subseteq> live k1" using Cons.prems k1(1) by (simp add: subset_Diff_insert)
    with Cons.IH [of k1 "s\<lparr>share_memory_size := share_memory_size s - word_of_int (smem_size p)\<rparr>"] Cons.prems(1)
    obtain k' where "live k' = live k1 - smem_id ` set (filter (expired (unixtime s) timeout) l)"
      "sweep_list E timeout l (s\<lparr>share_memory_size := share_memory_size s - word_of_int (smem_size p)\<rparr>) k1 =
        (filter (\<lambda>p. \<not> expired (unixtime s) timeout p) l,
         s\<lparr>share_memory_size := share_memory_size s - word_of_int (smem_size p) -
             word_of_int (wts (\<lambda>i z. z) (filter (expired (unixtime s) timeout) l))\<rparr>, k')" by auto
    with True k1 show ?thesis by (intro exI [of _ k']) (auto simp: algebra_simps)
  next
    case False
    with Cons.IH [of k s] Cons.prems show ?thesis by auto
  qed
qed

lemma sum_list_filter_split:
  fixes f :: "'a \<Rightarrow> int"
  shows "sum_list (map f (filter P l)) + sum_list (map f (filter (\<lambda>x. \<not> P x) l)) = sum_list (map f l)"
  by (induction l) auto

lemma sweep_available_inv:
  assumes inv: "store_inv (live k) s" and c: "shm_contract (kernel E) live" and ok: "rmid_succeeds (kernel E) live"
    and r: "sweep_available E timeout key (s, k) = (s', k')"
  shows "store_inv (live k') s' \<and> unixtime s' = unixtime s \<and> smempubsub_memorys s' = smempubsub_memorys s \<and>
    clients s' = clients s \<and>
    smempubsub_memorys_available s' = (smempubsub_memorys_available s)
      (key := map_option (filter (\<lambda>p. \<not> expired (unixtime s) timeout p)) (smempubsub_memorys_available s key))"
proof (cases "smempubsub_memorys_available s key")
  case None
  with r inv show ?thesis by (auto simp: sweep_available_def)
next
  case (Some l)
  have sh: "shape s" and ac: "accounts (live k) s" using inv by (simp_all add: store_inv_def)
  let ?R = "filter (expired (unixtime s) timeout) l"
  let ?l = "filter (\<lambda>p. \<not> expired (unixtime s) timeout p) l"
  have "smem_id ` set l \<subseteq> live k" using available_id(1) [OF inv Some] by auto
  from sweep_list_ok [OF c ok available_distinct [OF inv Some] this, where s = s and timeout = timeout] obtain k1
    where k1: "live k1 = live k - smem_id ` set ?R"
      "sweep_list E timeout l s k = (?l, s\<lparr>share_memory_size := share_memory_size s - word_of_int (wts (\<lambda>i z. z) ?R)\<rparr>, k1)"
    by blast
  let ?t = "s\<lparr>share_memory_size := share_memory_size s - word_of_int (wts (\<lambda>i z. z) ?R),
      smempubsub_memorys_available := (smempubsub_memorys_available s)(key \<mapsto> ?l)\<rparr>"
  have res: "s' = ?t" "k' = k1" using r Some k1(2) by (simp_all add: sweep_available_def)
  have fin: "finite (dom (smempubsub_memorys_available s))" using sh by (simp add: shape_def)
  have "length ?l \<le> 21" using shape_available(1) [OF sh Some] length_filter_le [of "\<lambda>p. \<not> expired (unixtime s) timeout p" l] by linarith
  then have sht: "shape ?t" using sh shape_available(2) [OF sh Some] unfolding shape_def by auto
  moreover have "weigh g ?t = weigh g s - wts g ?R" for g
    using map_total_upd [OF fin, of "wts g" key ?l] Some
      sum_list_filter_split [of "wt g" "expired (unixtime s) timeout" l] by (simp add: weigh_def)
  moreover have "0 \<le> smem_size p" if "p \<in> set ?R" for p
    using shape_available(2) [OF sh Some, of p] that size_ok_pos by simp
  ultimately have "accounts (live k1) ?t"
    using k1(1) by (intro accounts_remove [where R = ?R, OF ac]) simp_all
  with sht res Some show ?thesis by (simp add: store_inv_def)
qed

lemma sweep_used_inv:
  assumes inv: "store_inv (live k) s" and c: "shm_contract (kernel E) live" and ok: "rmid_succeeds (kernel E) live"
    and r: "sweep_used E timeout key (s, k) = (s', k')"
  shows "store_inv (live k') s' \<and> unixtime s' = unixtime s \<and> clients s' = clients s \<and>
    smempubsub_memorys_available s' = smempubsub_memorys_available s \<and>
    smempubsub_memorys s' = (smempubsub_memorys s)
      (key := (case smempubsub_memorys s key of None \<Rightarrow> None
               | Some p \<Rightarrow> if expired (unixtime s) timeout p then None else Some p))"
proof (cases "smempubsub_memorys s key")
  case None
  with r inv show ?thesis by (auto simp: sweep_used_def)
next
  case (Some p)
  show ?thesis
  proof (cases "expired (unixtime s) timeout p")
    case False
    with Some r inv show ?thesis by (auto simp: sweep_used_def)
  next
    case True
    have sh: "shape s" and ac: "accounts (live k) s" using inv by (simp_all add: store_inv_def)
    from reclaim_ok [OF c ok used_id(1) [OF inv Some], of s] obtain k1 where k1: "live k1 = live k - {smem_id p}"
      "reclaim E p s k = (None, s\<lparr>share_memory_size := share_memory_size s - word_of_int (smem_size p)\<rparr>, k1)" by blast
    let ?t = "s\<lparr>share_memory_size := share_memory_size s - word_of_int (smem_size p),
        smempubsub_memorys := (smempubsub_memorys s)(key := None)\<rparr>"
    have res: "s' = ?t" "k' = k1" using r Some True k1(2) by (simp_all add: sweep_used_def)
    have fin: "finite (dom (smempubsub_memorys s))" using sh by (simp add: shape_def)
    have sht: "shape ?t" using sh unfolding shape_def by auto
    moreover have "weigh g ?t = weigh g s - wts g [p]" for g
      using map_total_del [OF fin, of "wt g" key] Some by (simp add: weigh_def)
    ultimately have "accounts (live k1) ?t"
      using k1(1) size_ok_pos [OF shape_used(2) [OF sh Some]]
      by (intro accounts_remove [where R = "[p]", OF ac]) simp_all
    with sht res Some True show ?thesis by (simp add: store_inv_def)
  qed
qed

lemma sweep_all_available:
  assumes c: "shm_contract (kernel E) live" and ok: "rmid_succeeds (kernel E) live"
  shows "store_inv (live k) s \<Longrightarrow> fold (sweep_available E timeout) ks (s, k) = (s', k') \<Longrightarrow>
    store_inv (live k') s' \<and> unixtime s' = unixtime s \<and> smempubsub_memorys s' = smempubsub_memorys s \<and>
    clients s' = clients s \<and>
    (\<forall>key. smempubsub_memorys_available s' key =
       (if key \<in> set ks then map_option (filter (\<lambda>p. \<not> expired (unixtime s) timeout p)) (smempubsub_memorys_available s key)
        else smempubsub_memorys_available s key))"
proof (induction ks arbitrary: s k)
  case Nil
  then show ?case by simp
next
  case (Cons x ks)
  obtain s1 k1 where f: "sweep_available E timeout x (s, k) = (s1, k1)" by (cases "sweep_available E timeout x (s, k)")
  note A = sweep_available_inv [OF Cons.prems(1) c ok f]
  have "fold (sweep_available E timeout) ks (s1, k1) = (s', k')" using Cons.prems(2) f by simp
  with Cons.IH [of k1 s1] A show ?case by (auto simp: option.map_comp comp_def)
qed

lemma sweep_all_used:
  assumes c: "shm_contract (kernel E) live" and ok: "rmid_succeeds (kernel E) live"
  shows "store_inv (live k) s \<Longrightarrow> fold (sweep_used E timeout) ks (s, k) = (s', k') \<Longrightarrow>
    store_inv (live k') s' \<and> unixtime s' = unixtime s \<and> clients s' = clients s \<and>
    smempubsub_memorys_available s' = smempubsub_memorys_available s \<and>
    (\<forall>key. smempubsub_memorys s' key =
       (case smempubsub_memorys s key of None \<Rightarrow> None
        | Some p \<Rightarrow> if key \<in> set ks \<and> expired (unixtime s) timeout p then None else Some p))"
proof (induction ks arbitrary: s k)
  case Nil
  then show ?case by (simp split: option.split)
next
  case (Cons x ks)
  obtain s1 k1 where f: "sweep_used E timeout x (s, k) = (s1, k1)" by (cases "sweep_used E timeout x (s, k)")
  note A = sweep_used_inv [OF Cons.prems(1) c ok f]
  have "fold (sweep_used E timeout) ks (s1, k1) = (s', k')" using Cons.prems(2) f by simp
  with Cons.IH [of k1 s1] A show ?case by (auto split: option.splits)
qed

section \<open>Properties\<close>

text \<open>States for the witnesses: a server with one idle buffer and one in use, on the kernel
  that keeps a list of ids.\<close>

definition demo_env :: "int list env" where
  "demo_env = \<lparr>obj_alloc = blank_alloc, kernel = list_kernel, getLongLong = parse_dec, zmalloc_ok = True,
     cluster_enabled = False, clusterPropagatePublish = (\<lambda>_ _ s. s)\<rparr>"

definition idle_entry :: "int \<Rightarrow> int \<Rightarrow> smem_t" where
  "idle_entry i z = \<lparr>smem_id = i, smem_size = z, smem_state = SMEM_T_STATE_AVAILAVLE, smem_cnt = 0,
     smem_free_cnt = 0, last_time = 0\<rparr>"

definition with_args :: "nat \<Rightarrow> string list \<Rightarrow> server \<Rightarrow> server" where
  "with_args c args s = update_client c (\<lambda>cl. cl\<lparr>argv := args\<rparr>) s"

definition demo_server :: server where
  "demo_server = blank_server\<lparr>
     smempubsub_memorys := [dec_int 7 \<mapsto> used_entry 7 4096 0],
     smempubsub_memorys_available := [dec_int 8192 \<mapsto> [idle_entry 9 8192]],
     share_memory_size := 12288\<rparr>"

lemma demo_env_simps [simp]:
  "obj_alloc demo_env = blank_alloc" "kernel demo_env = list_kernel" "getLongLong demo_env = parse_dec"
  "zmalloc_ok demo_env" "\<not> cluster_enabled demo_env"
  by (simp_all add: demo_env_def)

lemma demo_server_simps [simp]:
  "smempubsub_memorys demo_server = [dec_int 7 \<mapsto> used_entry 7 4096 0]"
  "smempubsub_memorys_available demo_server = [dec_int 8192 \<mapsto> [idle_entry 9 8192]]"
  "smem_id (idle_entry i z) = i" "smem_size (idle_entry i z) = z" "last_time (idle_entry i z) = 0"
  "smem_list_available demo_server = []" "share_memory_size demo_server = 12288"
  by (simp_all add: demo_server_def idle_entry_def blank_server_def)

lemma store_inv_update_client: "store_inv ids (update_client c f s) = store_inv ids s"
  unfolding store_inv_def accounts_def
  using weigh_frame [of "update_client c f s" s] shape_frame [of "update_client c f s" s] by simp

lemma store_inv_with_args [simp]: "store_inv ids (with_args c args s) = store_inv ids s"
  by (simp add: with_args_def store_inv_update_client)

lemma argv_with_args [simp]: "argv (clients (with_args c args s) c) = args"
  by (simp add: with_args_def)

lemma refs_with_args: "refs (with_args c args s) = refs s"
  by (simp add: refs_def with_args_def fun_eq_iff)

lemma blank_store_inv: "store_inv {} blank_server"
  by (simp add: store_inv_def shape_def accounts_def weigh_def blank_server_def)

lemma weigh_demo: "weigh g demo_server = g 7 4096 + g 9 8192"
  using map_total_upd [of Map.empty "wt g" "dec_int 7" "used_entry 7 4096 0"]
    map_total_upd [of Map.empty "wts g" "dec_int 8192" "[idle_entry 9 8192]"]
  by (simp add: weigh_def demo_server_def idle_entry_def)

lemma demo_store_inv: "store_inv (set [7, 9]) demo_server"
proof -
  have "shape demo_server"
    by (auto simp: shape_def demo_server_def blank_server_def idle_entry_def size_ok_def)
  moreover have "accounts (set [7, 9]) demo_server"
    by (auto simp: accounts_def weigh_demo) (simp_all add: demo_server_def blank_server_def)
  ultimately show ?thesis by (simp add: store_inv_def)
qed

lemma demo_writable: "obuf_wf (clients (with_args c args demo_server) c)" "writable (clients (with_args c args demo_server) c)"
  "pending (clients (with_args c args demo_server) c) = []"
  by (simp_all add: with_args_def demo_server_def blank_server_def blank_client_def obuf_wf_def writable_def
      accepts_def pending_def out_bytes_def)

lemma rmid_succeeds_list_kernel: "rmid_succeeds list_kernel set"
  by (simp add: rmid_succeeds_def list_kernel_def)

text \<open>C5: \<open>SMEMGET\<close> keeps the buffer pool consistent. It answers with a decimal number that is
  either -1, and then no reference count has changed, or the id of an existing segment that
  no client held, now held once; its buffer has the requested size rounded up to a
  multiple of 4096.\<close>

theorem smemget_safe:
  assumes inv: "store_inv (live k) s" and c: "shm_contract (kernel E) live"
    and arg: "getLongLong E (argv (clients s c) ! 1) = Some n"
    and w: "obuf_wf (clients s c)" "writable (clients s c)"
    and r: "smemgetCommand E c s k = (s', k')"
  shows "store_inv (live k') s' \<and>
    (\<exists>i. pending (clients s' c) = pending (clients s c) @ '':'' @ dec_int i @ crlf \<and>
       (if i = -1 then refs s' = refs s
        else i \<in> live k' \<and> refs s (dec_int i) = 0 \<and> refs s' = (refs s)(dec_int i := 1) \<and>
             map_option smem_size (smempubsub_memorys s' (dec_int i)) = Some (SMEMALIGN (c_int n) 4096)))"
proof -
  obtain i s1 k1 where g: "smemget_size E (SMEMALIGN (c_int n) 4096) s k = (i, s1, k1)"
    by (cases "smemget_size E (SMEMALIGN (c_int n) 4096) s k") auto
  note G = smemget_size_cases [OF inv c SMEMALIGN_dvd g]
  have res: "s' = addReplyLongLong (obj_alloc E) c i s1" "k' = k1"
    using r smemgetCommand_eq [where c = c, OF arg g] by simp_all
  note fr = addReplyLongLong_frame [of s1 "obj_alloc E" c i, folded res(1)]
  have refs: "refs s' = refs s1" by (simp add: refs_def out_frame_simps [OF fr] fun_eq_iff)
  have "pending (clients s' c) = pending (clients s c) @ '':'' @ dec_int i @ crlf"
    unfolding res(1) using appends_pending(1) [OF addReplyLongLong_appends, of s1 c "obj_alloc E" i] w G(4) by simp
  moreover have "if i = -1 then refs s' = refs s
      else i \<in> live k1 \<and> refs s (dec_int i) = 0 \<and> refs s' = (refs s)(dec_int i := 1) \<and>
           map_option smem_size (smempubsub_memorys s' (dec_int i)) = Some (SMEMALIGN (c_int n) 4096)"
    using G(2,3) by (auto simp: refs) (auto simp: refs_def out_frame_simps [OF fr] fun_eq_iff)
  moreover have "store_inv (live k1) s'" using G(1) store_inv_out_frame [OF fr] by simp
  ultimately show ?thesis unfolding res(2) by blast
qed

theorem smemget_safe_witness:
  "store_inv (set (snd (smemgetCommand demo_env 1 (with_args 1 [''smemget'', dec_int 5000] demo_server) [7, 9])))
     (fst (smemgetCommand demo_env 1 (with_args 1 [''smemget'', dec_int 5000] demo_server) [7, 9]))"
  using smemget_safe [where live = set and E = demo_env and c = 1 and n = 5000 and k = "[7, 9]"
      and s = "with_args 1 [''smemget'', dec_int 5000] demo_server", OF _ _ _ demo_writable(1,2) surjective_pairing]
    demo_store_inv list_kernel_contract
  by simp



text \<open>C7: \<open>SMEMFREE\<close> with any list of keys, repeated ones included, keeps the pool consistent
  and takes one reference per occurrence from each buffer that has one, never below zero.\<close>

theorem smemfree_counts:
  assumes inv: "store_inv (live k) s" and c: "shm_contract (kernel E) live"
    and r: "smemfreeCommand E c s k = (s', k')"
  shows "store_inv (live k') s' \<and>
    (\<forall>key. refs s' key = max 0 (refs s key - int (count_list (tl (argv (clients s c))) key)))"
proof -
  obtain n s1 k1 where f: "fold (smemfree_one E) (tl (argv (clients s c))) (0, s, k) = (n, s1, k1)"
    by (cases "fold (smemfree_one E) (tl (argv (clients s c))) (0, s, k)") auto
  note F = smemfree_all_cases [OF inv c f]
  have res: "s' = addReplyLongLong (obj_alloc E) c n s1" "k' = k1"
    using r f by (simp_all add: smemfreeCommand_def)
  note fr = addReplyLongLong_frame [of s1 "obj_alloc E" c n, folded res(1)]
  have "refs s' = refs s1" by (simp add: refs_def out_frame_simps [OF fr] fun_eq_iff)
  with F store_inv_out_frame [OF fr] res(2) show ?thesis by simp
qed

theorem smemfree_counts_witness:
  "refs (fst (smemfreeCommand demo_env 1 (with_args 1 [''smemfree'', dec_int 7, dec_int 7] demo_server) [7, 9])) (dec_int 7) = 0"
  using smemfree_counts [where live = set and E = demo_env and c = 1 and k = "[7, 9]"
      and s = "with_args 1 [''smemfree'', dec_int 7, dec_int 7] demo_server", OF _ _ surjective_pairing]
    demo_store_inv list_kernel_contract
  by (simp add: refs_with_args) (simp add: refs_def)

lemma sweep_effect:
  assumes inv: "store_inv (live k) s" and c: "shm_contract (kernel E) live" and ok: "rmid_succeeds (kernel E) live"
    and keys: "set ks = dom (smempubsub_memorys_available s)" "set ks' = dom (smempubsub_memorys s)"
    and r: "smemFreeShareMemory_cron E timeout ks ks' s k = (s', k')"
  shows "store_inv (live k') s' \<and>
    (\<forall>key p. smempubsub_memorys s' key = Some p \<longleftrightarrow>
       smempubsub_memorys s key = Some p \<and> unixtime s - last_time p \<le> timeout) \<and>
    (\<forall>key. smempubsub_memorys_available s' key =
       map_option (filter (\<lambda>p. unixtime s - last_time p \<le> timeout)) (smempubsub_memorys_available s key))"
proof -
  obtain s1 k1 where f: "fold (sweep_available E timeout) ks (s, k) = (s1, k1)"
    by (cases "fold (sweep_available E timeout) ks (s, k)")
  note A = sweep_all_available [OF c ok inv f]
  have f2: "fold (sweep_used E timeout) ks' (s1, k1) = (s', k')"
    using r f by (simp add: smemFreeShareMemory_cron_def)
  note B = sweep_all_used [OF c ok _ f2]
  have used: "smempubsub_memorys s' key = Some p \<longleftrightarrow>
       smempubsub_memorys s key = Some p \<and> unixtime s - last_time p \<le> timeout" for key p
    using A B keys(2) by (cases "smempubsub_memorys s key") auto
  have avail: "smempubsub_memorys_available s' key =
       map_option (filter (\<lambda>p. unixtime s - last_time p \<le> timeout)) (smempubsub_memorys_available s key)" for key
    using A B keys(1) by (cases "smempubsub_memorys_available s key") (auto simp: not_less)
  show ?thesis using A B used avail by blast
qed

text \<open>C8: when removals of existing segments succeed, the periodic sweep keeps the pool
  consistent, in particular \<open>share_memory_size\<close>, and removes exactly the buffers, idle or
  in use, whose last change of state is more than \<open>timeout\<close> seconds old.\<close>

theorem sweep_removes_expired:
  assumes inv: "store_inv (live k) s" and c: "shm_contract (kernel E) live" and ok: "rmid_succeeds (kernel E) live"
    and keys: "set ks = dom (smempubsub_memorys_available s)" "set ks' = dom (smempubsub_memorys s)"
    and r: "smemFreeShareMemory_cron E timeout ks ks' s k = (s', k')"
  shows "store_inv (live k') s' \<and>
    (\<forall>key p. smempubsub_memorys s' key = Some p \<longleftrightarrow>
       smempubsub_memorys s key = Some p \<and> unixtime s - last_time p \<le> timeout) \<and>
    (\<forall>key. smempubsub_memorys_available s' key =
       map_option (filter (\<lambda>p. unixtime s - last_time p \<le> timeout)) (smempubsub_memorys_available s key))"
  by (rule sweep_effect [OF assms])

theorem sweep_removes_expired_witness:
  "smempubsub_memorys (fst (smemFreeShareMemory_cron demo_env 5 [dec_int 8192] [dec_int 7]
     (demo_server\<lparr>unixtime := 6\<rparr>) [7, 9])) (dec_int 7) = None"
proof -
  let ?s = "demo_server\<lparr>unixtime := 6\<rparr>"
  have "store_inv (set [7, 9]) ?s"
    using demo_store_inv weigh_frame [of ?s demo_server] shape_frame [of ?s demo_server]
    by (simp add: store_inv_def accounts_def)
  from sweep_removes_expired [where live = set and E = demo_env and timeout = 5 and ks = "[dec_int 8192]"
      and ks' = "[dec_int 7]", OF this _ _ _ _ surjective_pairing]
  have "\<forall>p. smempubsub_memorys (fst (smemFreeShareMemory_cron demo_env 5 [dec_int 8192] [dec_int 7] ?s [7, 9])) (dec_int 7) = Some p
      \<longleftrightarrow> smempubsub_memorys ?s (dec_int 7) = Some p \<and> 6 - last_time p \<le> 5"
    using list_kernel_contract rmid_succeeds_list_kernel
    by simp
  note * = this
  show ?thesis
  proof (rule ccontr)
    assume "\<not> ?thesis"
    then obtain p where "smempubsub_memorys (fst (smemFreeShareMemory_cron demo_env 5 [dec_int 8192] [dec_int 7] ?s [7, 9])) (dec_int 7) = Some p"
      by blast
    with * [rule_format, of p] show False by auto
  qed
qed

text \<open>The sweep reduces \<open>share_memory_size\<close> also when the removal of an expired buffer fails
  and the buffer stays in the table, up to five times; after two such sweeps of the only
  buffer of the server the total is \<open>2^64\<close> minus its size.\<close>

theorem sweep_total_underflows:
  assumes m: "smempubsub_memorys s = [key \<mapsto> p]" and a: "smempubsub_memorys_available s = Map.empty"
    and tot: "share_memory_size s = word_of_int (smem_size p)"
    and z: "0 < smem_size p" "smem_size p < 2 ^ 63"
    and old: "unixtime s - last_time p > timeout" and fc: "smem_free_cnt p = 0"
    and fails: "\<And>k. rmid (kernel E) (smem_id p) k = (-1, k)"
  shows "case smemFreeShareMemory_cron E timeout [] [key] s k of
     (s1, k1) \<Rightarrow> case smemFreeShareMemory_cron E timeout [] [key] s1 k1 of
       (s2, k2) \<Rightarrow> smempubsub_memorys s2 = [key \<mapsto> p\<lparr>smem_free_cnt := 2\<rparr>] \<and>
          uint (share_memory_size s2) = 2 ^ 64 - smem_size p"
proof -
  have r: "reclaim E q t k = (Some (q\<lparr>smem_free_cnt := smem_free_cnt q + 1\<rparr>),
      t\<lparr>share_memory_size := share_memory_size t - word_of_int (smem_size q)\<rparr>, k)"
    if "smem_id q = smem_id p" "smem_free_cnt q < 5" for q t k
    using that fails by (simp add: reclaim_def smem_free_buffer_def)
  have one: "smemFreeShareMemory_cron E timeout [] [key] s k =
      (s\<lparr>share_memory_size := 0, smempubsub_memorys := [key \<mapsto> p\<lparr>smem_free_cnt := 1\<rparr>]\<rparr>, k)"
    using m old fc tot by (simp add: smemFreeShareMemory_cron_def sweep_used_def r)
  let ?s = "s\<lparr>share_memory_size := 0, smempubsub_memorys := [key \<mapsto> p\<lparr>smem_free_cnt := 1\<rparr>]\<rparr>"
  have two: "smemFreeShareMemory_cron E timeout [] [key] ?s k =
      (?s\<lparr>share_memory_size := - word_of_int (smem_size p), smempubsub_memorys := [key \<mapsto> p\<lparr>smem_free_cnt := 2\<rparr>]\<rparr>, k)"
    using old by (simp add: smemFreeShareMemory_cron_def sweep_used_def r)
  have "uint (- (word_of_int (smem_size p) :: size_t)) = 2 ^ 64 - smem_size p"
    using z by (simp add: uint_word_ariths uint_word_of_int zmod_zminus1_eq_if)
  then show ?thesis by (simp add: one two)
qed

definition stuck_kernel :: "unit shm_ops" where
  "stuck_kernel = \<lparr>shmget = (\<lambda>sz k. (-1, k)), rmid = (\<lambda>i k. (-1, k)), procfs = (\<lambda>k. None), maxid = (\<lambda>k. -1), stat = (\<lambda>k i. None)\<rparr>"

theorem sweep_total_underflows_witness:
  "case smemFreeShareMemory_cron \<lparr>obj_alloc = blank_alloc, kernel = stuck_kernel, getLongLong = parse_dec, zmalloc_ok = True,
     cluster_enabled = False, clusterPropagatePublish = (\<lambda>_ _ s. s)\<rparr> 5 []
      [dec_int 7] (blank_server\<lparr>unixtime := 9, share_memory_size := 4096, smempubsub_memorys := [dec_int 7 \<mapsto> used_entry 7 4096 0]\<rparr>) () of
     (s1, k1) \<Rightarrow> case smemFreeShareMemory_cron \<lparr>obj_alloc = blank_alloc, kernel = stuck_kernel, getLongLong = parse_dec, zmalloc_ok = True,
     cluster_enabled = False, clusterPropagatePublish = (\<lambda>_ _ s. s)\<rparr> 5 []
        [dec_int 7] s1 k1 of
       (s2, k2) \<Rightarrow> uint (share_memory_size s2) = 2 ^ 64 - 4096"
  using sweep_total_underflows [where timeout = 5 and key = "dec_int 7" and p = "used_entry 7 4096 0" and k = "()"
      and E = "\<lparr>obj_alloc = blank_alloc, kernel = stuck_kernel, getLongLong = parse_dec, zmalloc_ok = True,
     cluster_enabled = False, clusterPropagatePublish = (\<lambda>_ _ s. s)\<rparr>"
      and s = "blank_server\<lparr>unixtime := 9, share_memory_size := 4096, smempubsub_memorys := [dec_int 7 \<mapsto> used_entry 7 4096 0]\<rparr>"]
  by (simp add: stuck_kernel_def blank_server_def split: prod.splits)

text \<open>C40: \<open>SMEMRM\<close> of a pooled buffer removes the segment but not the pool entry, because it looks
  for the id in \<open>smem_list_available\<close>, which nothing fills; the next \<open>SMEMGET\<close> of that
  size then hands out the id of a segment that no longer exists.\<close>

theorem smemrm_leaves_dead_buffer:
  assumes inv: "store_inv (live k) s" and c: "shm_contract (kernel E) live" and ok: "rmid_succeeds (kernel E) live"
    and l: "smempubsub_memorys_available s (dec_int z) = Some (p # l)"
    and old: "smem_list_available s = []"
    and arg: "getLongLong E x = Some (smem_id p)" and i: "int_range (smem_id p)"
    and r: "smemrm_one E x (n, s, k) = (n', s', k')"
  shows "n' = n + 1 \<and> s' = s \<and> smem_id p \<notin> live k' \<and>
    fst (smemget_size E z s' k') = smem_id p \<and> snd (snd (smemget_size E z s' k')) = k'"
proof -
  have pl: "smem_id p \<in> live k" "0 \<le> smem_id p" using available_id [OF inv l, of p] by simp_all
  obtain y k1 where f: "smem_free_buffer (kernel E) (smem_id p) k = (y, k1)"
    by (cases "smem_free_buffer (kernel E) (smem_id p) k")
  have "fst (rmid (kernel E) (smem_id p) k) = 0" using ok pl(1) unfolding rmid_succeeds_def by blast
  with f have y: "y = 0" by (simp add: smem_free_buffer_def)
  have res: "n' = n + 1" "s' = s" "k' = k1"
    using r arg old f y c_int_id [OF i] by (simp_all add: smemrm_one_def)
  have "smem_id p \<notin> live k1" using smem_free_buffer_contract(1) [OF c f y] by simp
  moreover have "fst (smemget_size E z s k1) = smem_id p \<and> snd (snd (smemget_size E z s k1)) = k1"
    using inv
  proof (cases rule: smemget_reuse_cases [where sz = z])
    case none
    with l show ?thesis by simp
  next
    case (some q l')
    with l have "q = p" by simp
    with some(2) pl(2) show ?thesis by (simp add: smemget_size_def)
  qed
  ultimately show ?thesis using res by simp
qed

theorem smemrm_leaves_dead_buffer_witness:
  "fst (smemget_size demo_env 8192 demo_server (snd (snd (smemrm_one demo_env (dec_int 9) (0, demo_server, [7, 9]))))) = 9"
proof -
  let ?r = "smemrm_one demo_env (dec_int 9) (0, demo_server, [7, 9])"
  have e: "?r = (fst ?r, fst (snd ?r), snd (snd ?r))" by simp
  from smemrm_leaves_dead_buffer [where live = set and E = demo_env and z = 8192 and p = "idle_entry 9 8192"
      and l = "[]", OF _ _ _ _ _ _ _ e]
  show ?thesis
    using demo_store_inv list_kernel_contract rmid_succeeds_list_kernel by (simp add: int_range_def) metis
qed

end
