(* ===== verification/Smem_Pubsub.thy ===== *)
theory Smem_Pubsub
  imports Smem_Store
begin

text \<open>
  The publish/subscribe half of \<open>redis/src/smem4redis.c\<close>: subscriptions, delivery of
  buffer ids to subscribers, and \<open>SMEMSWITCH\<close>, which moves a named subscriber to
  another channel. Subscriptions are kept twice, in the channel set of each client and in
  the client list of each channel. The order in which a safe iterator visits a table is an
  argument. A failed assertion sets \<open>aborted\<close>.
\<close>

section \<open>Subscriptions\<close>

definition drop_channel :: "nat \<Rightarrow> string \<Rightarrow> server \<Rightarrow> server" where
  "drop_channel c channel s =
     update_client c (\<lambda>cl. cl\<lparr>client_channels := client_channels cl - {channel}\<rparr>) s"

definition add_channel :: "nat \<Rightarrow> string \<Rightarrow> server \<Rightarrow> server" where
  "add_channel c channel s =
     update_client c (\<lambda>cl. cl\<lparr>client_channels := insert channel (client_channels cl)\<rparr>) s"

definition unsubscribe_core :: "nat \<Rightarrow> string \<Rightarrow> server \<Rightarrow> int \<times> server" where
  "unsubscribe_core c channel s =
     (if channel \<in> client_channels (clients s c) then
        (1,
         (let s1 = drop_channel c channel s
          in case smempubsub_channels s1 channel of
               None \<Rightarrow> panic s1
             | Some l \<Rightarrow>
                 if c \<notin> set l then panic s1
                 else s1\<lparr>smempubsub_channels := (smempubsub_channels s1)
                           (channel := (if length (remove1 c l) = 0 then None else Some (remove1 c l)))\<rparr>))
      else (0, s))"

definition channel_count :: "nat \<Rightarrow> server \<Rightarrow> int" where
  "channel_count c s = int (card (client_channels (clients s c)))"

definition smempubsubUnsubscribeChannel :: "alloc \<Rightarrow> nat \<Rightarrow> string \<Rightarrow> bool \<Rightarrow> server \<Rightarrow> int \<times> server" where
  "smempubsubUnsubscribeChannel A c channel notify s =
     (case unsubscribe_core c channel s of
        (retval, s1) \<Rightarrow>
          (retval,
           if notify then
             addReplyLongLong A c (channel_count c s1)
               (addReplyBulk A c (createStringObject A channel)
                 (addReply A c (shared_unsubscribebulk A)
                   (addReply A c (shared_mbulkhdr 3) s1)))
           else s1))"

definition unsubscribe_step :: "alloc \<Rightarrow> nat \<Rightarrow> bool \<Rightarrow> string \<Rightarrow> int \<times> server \<Rightarrow> int \<times> server" where
  "unsubscribe_step A c notify channel st =
     (case smempubsubUnsubscribeChannel A c channel notify (snd st) of (r, s1) \<Rightarrow> (fst st + r, s1))"

definition smempubsubUnsubscribeAllChannels ::
    "alloc \<Rightarrow> nat \<Rightarrow> bool \<Rightarrow> string list \<Rightarrow> server \<Rightarrow> int \<times> server" where
  "smempubsubUnsubscribeAllChannels A c notify order s =
     (case fold (unsubscribe_step A c notify) order (0, s) of
        (count, s1) \<Rightarrow>
          (count,
           if notify \<and> count = 0 then
             addReplyLongLong A c (channel_count c s1)
               (addReply A c shared_nullbulk
                 (addReply A c (shared_unsubscribebulk A)
                   (addReply A c (shared_mbulkhdr 3) s1)))
           else s1))"

definition subscribe_core :: "nat \<Rightarrow> string \<Rightarrow> server \<Rightarrow> int \<times> server" where
  "subscribe_core c channel s =
     (if channel \<notin> client_channels (clients s c) then
        (1,
         (let s1 = add_channel c channel s;
              l = (case smempubsub_channels s1 channel of None \<Rightarrow> [] | Some l \<Rightarrow> l)
          in s1\<lparr>smempubsub_channels := (smempubsub_channels s1)(channel \<mapsto> l @ [c])\<rparr>))
      else (0, s))"

definition smempubsubSubscribeChannel :: "alloc \<Rightarrow> nat \<Rightarrow> string \<Rightarrow> server \<Rightarrow> int \<times> server" where
  "smempubsubSubscribeChannel A c channel s =
     (case subscribe_core c channel s of
        (retval, s1) \<Rightarrow>
          (retval,
           addReplyLongLong A c (channel_count c s1)
             (addReplyBulk A c (createStringObject A channel)
               (addReply A c (shared_subscribebulk A)
                 (addReply A c (shared_mbulkhdr 3) s1)))))"

definition smemsubscribeCommand :: "alloc \<Rightarrow> nat \<Rightarrow> server \<Rightarrow> server" where
  "smemsubscribeCommand A c s =
     update_client c (\<lambda>cl. cl\<lparr>flags := set_bit CLIENT_PUBSUB (flags cl)\<rparr>)
       (fold (\<lambda>channel s. snd (smempubsubSubscribeChannel A c channel s)) (tl (argv (clients s c))) s)"

section \<open>Publishing\<close>

definition send_message :: "alloc \<Rightarrow> string \<Rightarrow> string \<Rightarrow> nat \<Rightarrow> server \<Rightarrow> server" where
  "send_message A channel message c s =
     addReplyBulk A c (createStringObject A message)
       (addReplyBulk A c (createStringObject A channel)
         (addReply A c (shared_messagebulk A)
           (addReply A c (shared_mbulkhdr 3) s)))"

text \<open>The table entry of the message is looked up before the loop and its count is changed
  through the pointer.\<close>

definition add_ref :: "string \<Rightarrow> int \<Rightarrow> server \<Rightarrow> server" where
  "add_ref message n s =
     (case smempubsub_memorys s message of
        None \<Rightarrow> s
      | Some p \<Rightarrow> s\<lparr>smempubsub_memorys := (smempubsub_memorys s)(message \<mapsto> p\<lparr>smem_cnt := smem_cnt p + n\<rparr>)\<rparr>)"

definition deliver_step :: "alloc \<Rightarrow> string \<Rightarrow> string \<Rightarrow> nat \<Rightarrow> int \<times> server \<Rightarrow> int \<times> server" where
  "deliver_step A channel message c st =
     (fst st + 1, add_ref message 1 (send_message A channel message c (snd st)))"

definition smempubsubPublishMessage ::
    "'k env \<Rightarrow> string \<Rightarrow> string \<Rightarrow> server \<Rightarrow> 'k \<Rightarrow> int \<times> server \<times> 'k" where
  "smempubsubPublishMessage E channel message s k =
     (case (case smempubsub_channels s channel of
              None \<Rightarrow> (0, s)
            | Some l \<Rightarrow> fold (deliver_step (obj_alloc E) channel message) l (0, s)) of
        (receivers, s1) \<Rightarrow>
          (case smempubsub_memorys s1 message of
             None \<Rightarrow> (receivers, s1, k)
           | Some p \<Rightarrow>
               (let p1 = p\<lparr>smem_cnt := smem_cnt p - 1\<rparr>
                in if smem_cnt p1 \<le> 0 then (receivers, make_available E message p1 s1 k)
                   else (receivers, s1\<lparr>smempubsub_memorys := (smempubsub_memorys s1)(message \<mapsto> p1)\<rparr>, k))))"

definition smempublishCommand :: "'k env \<Rightarrow> nat \<Rightarrow> server \<Rightarrow> 'k \<Rightarrow> server \<times> 'k" where
  "smempublishCommand E c s k =
     (let channel = argv (clients s c) ! 1; message = argv (clients s c) ! 2
      in case smempubsubPublishMessage E channel message s k of
           (receivers, s1, k1) \<Rightarrow>
             (addReplyLongLong (obj_alloc E) c receivers
                (if cluster_enabled E then clusterPropagatePublish E channel message s1
                 else update_client c (\<lambda>cl. cl\<lparr>flags := set_bit CLIENT_FORCE_REPL (flags cl)\<rparr>) s1), k1))"

section \<open>SMEMSWITCH\<close>

text \<open>\<open>strcmp\<close> compares up to the first NUL byte.\<close>

definition cstr :: "string \<Rightarrow> string" where
  "cstr x = takeWhile (\<lambda>ch. ch \<noteq> CHR 0x00) x"

text \<open>The scan of one client list: \<open>(sub_channel_client, node to move, server)\<close>, where a
  node is a channel and a position in its list.\<close>

fun switch_list ::
    "string \<Rightarrow> string \<Rightarrow> nat \<Rightarrow> nat list \<Rightarrow> nat option \<times> (string \<times> nat) option \<times> server \<Rightarrow>
     nat option \<times> (string \<times> nat) option \<times> server" where
  "switch_list nm ch i [] st = st"
| "switch_list nm ch i (x # xs) (sub, mv, s) =
     (case name (clients s x) of
        None \<Rightarrow> switch_list nm ch (Suc i) xs (sub, mv, s)
      | Some n \<Rightarrow>
          if cstr n = cstr nm then
            (if ch \<in> client_channels (clients s x) then (Some x, Some (ch, i), drop_channel x ch s)
             else switch_list nm ch (Suc i) xs (Some x, mv, s))
          else switch_list nm ch (Suc i) xs (sub, mv, s))"

definition switch_channel ::
    "string \<Rightarrow> string \<Rightarrow> nat option \<times> (string \<times> nat) option \<times> server \<Rightarrow>
     nat option \<times> (string \<times> nat) option \<times> server" where
  "switch_channel nm ch st =
     (case smempubsub_channels (snd (snd st)) ch of
        None \<Rightarrow> st
      | Some l \<Rightarrow> switch_list nm ch 0 l st)"

text \<open>Moving a node to the head of the list of another (or the same) channel.\<close>

definition moveNode :: "string \<Rightarrow> nat \<Rightarrow> string \<Rightarrow> (string \<rightharpoonup> nat list) \<Rightarrow> (string \<rightharpoonup> nat list)" where
  "moveNode src i dst m =
     (let l = the (m src);
          m1 = m(src \<mapsto> take i l @ drop (Suc i) l)
      in m1(dst \<mapsto> l ! i # the (m1 dst)))"

definition smemswitchCommand :: "alloc \<Rightarrow> nat \<Rightarrow> string list \<Rightarrow> server \<Rightarrow> server" where
  "smemswitchCommand A c order s =
     (let pub_channel = argv (clients s c) ! 1; sub_channel = argv (clients s c) ! 2
      in addReplyLongLong A c 0
           (case fold (switch_channel sub_channel) order (None, None, s) of
              (None, mv, s1) \<Rightarrow> s1
            | (Some x, mv, s1) \<Rightarrow>
                if pub_channel \<in> client_channels (clients s1 x) then s1
                else
                  (let s2 = add_channel x pub_channel s1;
                       m = (case smempubsub_channels s2 pub_channel of
                              None \<Rightarrow> (smempubsub_channels s2)(pub_channel \<mapsto> [])
                            | Some _ \<Rightarrow> smempubsub_channels s2)
                   in s2\<lparr>smempubsub_channels :=
                           (case mv of None \<Rightarrow> m | Some (ch, i) \<Rightarrow> moveNode ch i pub_channel m)\<rparr>)))"

section \<open>Consistency of the two tables\<close>

definition subs_ok :: "server \<Rightarrow> bool" where
  "subs_ok s \<longleftrightarrow>
     (\<forall>c. finite (client_channels (clients s c))) \<and>
     (\<forall>ch l. smempubsub_channels s ch = Some l \<longrightarrow> distinct l) \<and>
     (\<forall>c ch. ch \<in> client_channels (clients s c) \<longleftrightarrow> (\<exists>l. smempubsub_channels s ch = Some l \<and> c \<in> set l))"

lemma subs_okD:
  assumes "subs_ok s"
  shows "finite (client_channels (clients s c))" and "smempubsub_channels s ch = Some l \<Longrightarrow> distinct l"
    and "ch \<in> client_channels (clients s c) \<longleftrightarrow> (\<exists>l. smempubsub_channels s ch = Some l \<and> c \<in> set l)"
  using assms unfolding subs_ok_def by blast+

lemma subs_ok_frame:
  assumes "smempubsub_channels t = smempubsub_channels s"
    and "\<And>c. client_channels (clients t c) = client_channels (clients s c)"
  shows "subs_ok t = subs_ok s"
  unfolding subs_ok_def assms ..

lemma subs_ok_out_frame: "out_frame s t \<Longrightarrow> subs_ok t = subs_ok s"
  by (rule subs_ok_frame) (simp_all add: out_frame_simps)

lemma subs_ok_flags: "subs_ok (update_client c (\<lambda>cl. cl\<lparr>flags := f cl\<rparr>) s) = subs_ok s"
  by (rule subs_ok_frame) simp_all

lemma drop_channel_simps [simp]:
  "client_channels (clients (drop_channel c ch s) d) =
     (if d = c then client_channels (clients s c) - {ch} else client_channels (clients s d))"
  "smempubsub_channels (drop_channel c ch s) = smempubsub_channels s"
  "name (clients (drop_channel c ch s) d) = name (clients s d)"
  "aborted (drop_channel c ch s) = aborted s"
  by (simp_all add: drop_channel_def)

lemma add_channel_simps [simp]:
  "client_channels (clients (add_channel c ch s) d) =
     (if d = c then insert ch (client_channels (clients s c)) else client_channels (clients s d))"
  "smempubsub_channels (add_channel c ch s) = smempubsub_channels s"
  "aborted (add_channel c ch s) = aborted s"
  by (simp_all add: add_channel_def)

lemma store_frame_channels:
  "store_inv ids (drop_channel c ch s) = store_inv ids s"
  "store_inv ids (add_channel c ch s) = store_inv ids s"
  "store_inv ids (s\<lparr>smempubsub_channels := m\<rparr>) = store_inv ids s"
  unfolding store_inv_def accounts_def drop_channel_def add_channel_def
  using weigh_frame [of "update_client c (\<lambda>cl. cl\<lparr>client_channels := client_channels cl - {ch}\<rparr>) s" s]
    shape_frame [of "update_client c (\<lambda>cl. cl\<lparr>client_channels := client_channels cl - {ch}\<rparr>) s" s]
    weigh_frame [of "update_client c (\<lambda>cl. cl\<lparr>client_channels := insert ch (client_channels cl)\<rparr>) s" s]
    shape_frame [of "update_client c (\<lambda>cl. cl\<lparr>client_channels := insert ch (client_channels cl)\<rparr>) s" s]
    weigh_frame [of "s\<lparr>smempubsub_channels := m\<rparr>" s] shape_frame [of "s\<lparr>smempubsub_channels := m\<rparr>" s]
  by simp_all

subsection \<open>Unsubscribing\<close>

lemma unsubscribe_core_cases:
  assumes ok: "subs_ok s" and r: "unsubscribe_core c ch s = (n, s')"
  shows "subs_ok s'" and "n = (if ch \<in> client_channels (clients s c) then 1 else 0)"
    and "client_channels (clients s' d) = (if d = c then client_channels (clients s c) - {ch} else client_channels (clients s d))"
    and "aborted s' = aborted s"
proof -
  have "subs_ok s' \<and> n = (if ch \<in> client_channels (clients s c) then 1 else 0) \<and>
    (\<forall>d. client_channels (clients s' d) = (if d = c then client_channels (clients s c) - {ch} else client_channels (clients s d))) \<and>
    aborted s' = aborted s"
  proof (cases "ch \<in> client_channels (clients s c)")
    case False
    with r ok show ?thesis by (auto simp: unsubscribe_core_def)
  next
    case True
    with subs_okD(3) [OF ok] obtain l where l: "smempubsub_channels s ch = Some l" "c \<in> set l" by blast
    have d: "distinct l" using subs_okD(2) [OF ok l(1)] .
    from True l r have res: "n = 1"
      "s' = (drop_channel c ch s)\<lparr>smempubsub_channels := (smempubsub_channels s)
          (ch := (if length (remove1 c l) = 0 then None else Some (remove1 c l)))\<rparr>"
      by (auto simp: unsubscribe_core_def Let_def)
    have "subs_ok s'"
      unfolding subs_ok_def
    proof (intro conjI allI impI)
      fix e show "finite (client_channels (clients s' e))" using subs_okD(1) [OF ok] res(2) by simp
    next
      fix ch' l' assume "smempubsub_channels s' ch' = Some l'"
      then show "distinct l'" using res(2) d subs_okD(2) [OF ok] by (auto split: if_splits)
    next
      fix e ch'
      show "ch' \<in> client_channels (clients s' e) \<longleftrightarrow> (\<exists>l. smempubsub_channels s' ch' = Some l \<and> e \<in> set l)"
      proof (cases "ch' = ch")
        case True
        have "e \<in> set (remove1 c l) \<longleftrightarrow> e \<in> set l \<and> e \<noteq> c" using d by (simp add: set_remove1_eq)
        moreover have "(\<exists>l'. smempubsub_channels s' ch = Some l' \<and> e \<in> set l') \<longleftrightarrow> e \<in> set (remove1 c l)"
          using res(2) by auto
        moreover have "ch \<in> client_channels (clients s' e) \<longleftrightarrow> e \<in> set l \<and> e \<noteq> c"
          using subs_okD(3) [OF ok, of ch e] l(1) res(2) by auto
        ultimately show ?thesis using True by blast
      next
        case False
        then show ?thesis using subs_okD(3) [OF ok, of ch' e] res(2) by auto
      qed
    qed
    with True res show ?thesis by auto
  qed
  then show "subs_ok s'" "n = (if ch \<in> client_channels (clients s c) then 1 else 0)"
    "client_channels (clients s' d) = (if d = c then client_channels (clients s c) - {ch} else client_channels (clients s d))"
    "aborted s' = aborted s" by blast+
qed

lemma unsubscribe_other: "a \<noteq> ch \<Longrightarrow> smempubsub_channels (snd (unsubscribe_core c ch s)) a = smempubsub_channels s a"
  by (simp add: unsubscribe_core_def panic_def Let_def split: option.split)

lemma unsubscribe_reply_frame:
  assumes "smempubsubUnsubscribeChannel A c ch notify s = (n, s')"
  obtains s1 where "unsubscribe_core c ch s = (n, s1)" "out_frame s1 s'"
proof -
  obtain n1 s1 where u: "unsubscribe_core c ch s = (n1, s1)" by (cases "unsubscribe_core c ch s")
  have "out_frame s1 (addReplyLongLong A c x (addReplyBulk A c o1 (addReply A c o2 (addReply A c o3 s1))))" for x o1 o2 o3
    by (rule out_frame_trans [OF out_frame_trans [OF out_frame_trans [OF obj_sink.put_frame obj_sink.put_frame]
          addReplyBulk_appends [THEN appends_out_frame]] addReplyLongLong_frame])
  with assms u that show ?thesis by (cases notify) (auto simp: smempubsubUnsubscribeChannel_def)
qed

lemma unsubscribe_fold:
  assumes "subs_ok s" and "fold (unsubscribe_step A c notify) order (n, s) = (n', s')"
  shows "subs_ok s' \<and> client_channels (clients s' c) = client_channels (clients s c) - set order \<and>
    (\<forall>d. d \<noteq> c \<longrightarrow> client_channels (clients s' d) = client_channels (clients s d))"
  using assms
proof (induction order arbitrary: n s)
  case Nil
  then show ?case by simp
next
  case (Cons ch order)
  obtain r s1 where u: "smempubsubUnsubscribeChannel A c ch notify s = (r, s1)"
    by (cases "smempubsubUnsubscribeChannel A c ch notify s")
  from unsubscribe_reply_frame [OF u] obtain s0 where s0: "unsubscribe_core c ch s = (r, s0)" "out_frame s0 s1" .
  note U = unsubscribe_core_cases [OF Cons.prems(1) s0(1)]
  have "subs_ok s1" using U(1) subs_ok_out_frame [OF s0(2)] by simp
  moreover have "client_channels (clients s1 d) = (if d = c then client_channels (clients s c) - {ch} else client_channels (clients s d))" for d
    using U(3) [of d] out_frame_simps(10) [OF s0(2)] by simp
  moreover have "unsubscribe_step A c notify ch (n, s) = (n + r, s1)" using u by (simp add: unsubscribe_step_def)
  with Cons.prems(2) have "fold (unsubscribe_step A c notify) order (n + r, s1) = (n', s')" by simp
  ultimately show ?case using Cons.IH [of s1 "n + r"] by auto
qed

lemma unsubscribe_all_frame:
  assumes "smempubsubUnsubscribeAllChannels A c notify order s = (n, s')"
  obtains s1 where "fold (unsubscribe_step A c notify) order (0, s) = (n, s1)" "out_frame s1 s'"
proof -
  obtain n1 s1 where u: "fold (unsubscribe_step A c notify) order (0, s) = (n1, s1)"
    by (cases "fold (unsubscribe_step A c notify) order (0, s)")
  have "out_frame s1 (addReplyLongLong A c x (addReply A c o1 (addReply A c o2 (addReply A c o3 s1))))" for x o1 o2 o3
    by (rule out_frame_trans [OF out_frame_trans [OF out_frame_trans [OF obj_sink.put_frame obj_sink.put_frame]
          obj_sink.put_frame] addReplyLongLong_frame])
  with assms u that show ?thesis
    by (cases "notify \<and> n1 = 0") (auto simp: smempubsubUnsubscribeAllChannels_def)
qed

subsection \<open>Subscribing\<close>

lemma subscribe_core_cases:
  assumes ok: "subs_ok s" and r: "subscribe_core c ch s = (n, s')"
  shows "subs_ok s'" and "n = (if ch \<in> client_channels (clients s c) then 0 else 1)"
    and "client_channels (clients s' d) = (if d = c then insert ch (client_channels (clients s c)) else client_channels (clients s d))"
proof -
  have "subs_ok s' \<and> n = (if ch \<in> client_channels (clients s c) then 0 else 1) \<and>
    (\<forall>d. client_channels (clients s' d) = (if d = c then insert ch (client_channels (clients s c)) else client_channels (clients s d)))"
  proof (cases "ch \<in> client_channels (clients s c)")
    case True
    with r ok show ?thesis by (auto simp: subscribe_core_def)
  next
    case False
    define l where "l = (case smempubsub_channels s ch of None \<Rightarrow> [] | Some l \<Rightarrow> l)"
    from False r have res: "n = 1"
      "s' = (add_channel c ch s)\<lparr>smempubsub_channels := (smempubsub_channels s)(ch \<mapsto> l @ [c])\<rparr>"
      by (auto simp: subscribe_core_def Let_def l_def)
    have mem: "ch \<in> client_channels (clients s e) \<longleftrightarrow> e \<in> set l" for e
      using subs_okD(3) [OF ok, of ch e] by (cases "smempubsub_channels s ch") (simp_all add: l_def)
    have "distinct l" using subs_okD(2) [OF ok, of ch] by (cases "smempubsub_channels s ch") (simp_all add: l_def)
    with mem [of c] False have d: "distinct (l @ [c])" by auto
    have "subs_ok s'"
      unfolding subs_ok_def
    proof (intro conjI allI impI)
      fix e show "finite (client_channels (clients s' e))" using subs_okD(1) [OF ok] res(2) by simp
    next
      fix ch' l' assume "smempubsub_channels s' ch' = Some l'"
      then show "distinct l'" using res(2) d subs_okD(2) [OF ok] by (auto split: if_splits)
    next
      fix e ch'
      show "ch' \<in> client_channels (clients s' e) \<longleftrightarrow> (\<exists>l. smempubsub_channels s' ch' = Some l \<and> e \<in> set l)"
      proof (cases "ch' = ch")
        case True
        with mem [of e] res(2) show ?thesis by auto
      next
        case False
        then show ?thesis using subs_okD(3) [OF ok, of ch' e] res(2) by auto
      qed
    qed
    with False res show ?thesis by auto
  qed
  then show "subs_ok s'" "n = (if ch \<in> client_channels (clients s c) then 0 else 1)"
    "client_channels (clients s' d) = (if d = c then insert ch (client_channels (clients s c)) else client_channels (clients s d))"
    by blast+
qed

lemma subscribe_reply_frame:
  assumes "smempubsubSubscribeChannel A c ch s = (n, s')"
  obtains s1 where "subscribe_core c ch s = (n, s1)" "out_frame s1 s'"
proof -
  obtain n1 s1 where u: "subscribe_core c ch s = (n1, s1)" by (cases "subscribe_core c ch s")
  have "out_frame s1 (addReplyLongLong A c x (addReplyBulk A c o1 (addReply A c o2 (addReply A c o3 s1))))" for x o1 o2 o3
    by (rule out_frame_trans [OF out_frame_trans [OF out_frame_trans [OF obj_sink.put_frame obj_sink.put_frame]
          addReplyBulk_appends [THEN appends_out_frame]] addReplyLongLong_frame])
  with assms u that show ?thesis by (auto simp: smempubsubSubscribeChannel_def)
qed

lemma subscribe_fold:
  assumes "subs_ok s"
  shows "subs_ok (fold (\<lambda>ch s. snd (smempubsubSubscribeChannel A c ch s)) chs s) \<and>
    (\<forall>d. client_channels (clients (fold (\<lambda>ch s. snd (smempubsubSubscribeChannel A c ch s)) chs s) d) =
       (if d = c then client_channels (clients s c) \<union> set chs else client_channels (clients s d)))"
  using assms
proof (induction chs arbitrary: s)
  case Nil
  then show ?case by simp
next
  case (Cons ch chs)
  obtain r s1 where u: "smempubsubSubscribeChannel A c ch s = (r, s1)" by (cases "smempubsubSubscribeChannel A c ch s")
  from subscribe_reply_frame [OF u] obtain s0 where s0: "subscribe_core c ch s = (r, s0)" "out_frame s0 s1" .
  note U = subscribe_core_cases [OF Cons.prems s0(1)]
  have "subs_ok s1" using U(1) subs_ok_out_frame [OF s0(2)] by simp
  moreover have "client_channels (clients s1 d) = (if d = c then insert ch (client_channels (clients s c)) else client_channels (clients s d))" for d
    using U(3) [of d] out_frame_simps(10) [OF s0(2)] by simp
  ultimately show ?case using Cons.IH [of s1] u by auto
qed

section \<open>Delivery\<close>

text \<open>The bytes a subscriber receives for one message.\<close>

definition message_bytes :: "string \<Rightarrow> string \<Rightarrow> string" where
  "message_bytes channel message =
     (''*3'' @ crlf) @ (''$7'' @ crlf @ ''message'' @ crlf) @ bulk channel @ bulk message"

lemma dec_nat_3 [simp]: "dec_nat 3 = ''3''"
  by code_simp

lemma send_message_appends: "appends c (message_bytes channel message) s (send_message A channel message c s)"
  using appends_trans [OF appends_trans [OF appends_trans [OF
      obj_sink.put_appends [where v = "shared_mbulkhdr 3" and A = A and c = c and s = s]
      obj_sink.put_appends [where v = "shared_messagebulk A"]]
      addReplyBulk_appends [where obj = "createStringObject A channel"]]
      addReplyBulk_appends [where obj = "createStringObject A message"]]
  by (simp add: send_message_def message_bytes_def shared_mbulkhdr_def shared_messagebulk_def)

text \<open>What delivery leaves alone.\<close>

definition pub_frame :: "server \<Rightarrow> server \<Rightarrow> bool" where
  "pub_frame s t \<longleftrightarrow>
     unixtime t = unixtime s \<and> smempubsub_channels t = smempubsub_channels s \<and>
     smempubsub_memorys_available t = smempubsub_memorys_available s \<and>
     share_memory_size t = share_memory_size s \<and> share_memory_limit t = share_memory_limit s \<and>
     (\<forall>c. same_control (clients s c) (clients t c))"

lemma pub_frame_trans: "pub_frame s t \<Longrightarrow> pub_frame t u \<Longrightarrow> pub_frame s u"
  unfolding pub_frame_def by (metis same_control_trans)

lemma add_ref_simps [simp]:
  "clients (add_ref m n s) = clients s" "smempubsub_channels (add_ref m n s) = smempubsub_channels s"
  "smempubsub_memorys (add_ref m n s) = (smempubsub_memorys s)
     (m := map_option (\<lambda>p. p\<lparr>smem_cnt := smem_cnt p + n\<rparr>) (smempubsub_memorys s m))"
  "pub_frame s (add_ref m n s)"
  by (auto simp: add_ref_def pub_frame_def fun_eq_iff split: option.split)

lemma deliver_fold:
  assumes "fold (deliver_step A ch m) l (n, s) = (n', s')"
  shows "n' = n + int (length l) \<and> pub_frame s s' \<and>
    smempubsub_memorys s' = (smempubsub_memorys s)
      (m := map_option (\<lambda>p. p\<lparr>smem_cnt := smem_cnt p + int (length l)\<rparr>) (smempubsub_memorys s m)) \<and>
    (\<forall>c. c \<notin> set l \<longrightarrow> clients s' c = clients s c) \<and>
    (\<forall>c. distinct l \<longrightarrow> c \<in> set l \<longrightarrow> obuf_wf (clients s c) \<longrightarrow> writable (clients s c) \<longrightarrow>
       pending (clients s' c) = pending (clients s c) @ message_bytes ch m)"
  using assms
proof (induction l arbitrary: n s)
  case Nil
  then show ?case by (auto simp: pub_frame_def option.map_ident fun_eq_iff map_option_case split: option.split)
next
  case (Cons x l)
  let ?s0 = "send_message A ch m x s" and ?s1 = "add_ref m 1 (send_message A ch m x s)"
  note a = send_message_appends [of x ch m s A]
  have o0: "out_frame s ?s0" using a by (rule appends_out_frame)
  have p1: "pub_frame s ?s1"
    using o0 by (intro pub_frame_trans [OF _ add_ref_simps(4)]) (simp add: pub_frame_def out_frame_def)
  have "deliver_step A ch m x (n, s) = (n + 1, ?s1)" by (simp add: deliver_step_def)
  with Cons.prems have f: "fold (deliver_step A ch m) l (n + 1, ?s1) = (n', s')" by simp
  note IH = Cons.IH [OF f]
  have m1: "smempubsub_memorys ?s1 = (smempubsub_memorys s)
     (m := map_option (\<lambda>p. p\<lparr>smem_cnt := smem_cnt p + 1\<rparr>) (smempubsub_memorys s m))"
    by (simp add: out_frame_simps [OF o0])
  have "smempubsub_memorys s' = (smempubsub_memorys s)
      (m := map_option (\<lambda>p. p\<lparr>smem_cnt := smem_cnt p + int (length (x # l))\<rparr>) (smempubsub_memorys s m))"
    using conjunct1 [OF conjunct2 [OF conjunct2 [OF IH]]] unfolding m1
    by (auto simp: fun_eq_iff option.map_comp comp_def algebra_simps)
  moreover have "clients s' c = clients s c" if "c \<notin> set (x # l)" for c
    using IH a that by (simp add: appends_def)
  moreover have "pending (clients s' c) = pending (clients s c) @ message_bytes ch m"
    if d: "distinct (x # l)" and c: "c \<in> set (x # l)" and w: "obuf_wf (clients s c)" "writable (clients s c)" for c
  proof (cases "c = x")
    case True
    with d IH have "clients s' c = clients ?s0 c" by simp
    with appends_pending(1) [OF a, unfolded True [symmetric], OF w(1)] w(2) True show ?thesis by simp
  next
    case False
    with a have "clients ?s1 c = clients s c" by (simp add: appends_def)
    with IH d c False w show ?thesis by simp
  qed
  ultimately show ?case using IH pub_frame_trans [OF p1] by simp
qed

lemma store_inv_pub:
  assumes inv: "store_inv ids s" and fr: "pub_frame s t"
    and m: "smempubsub_memorys t = (smempubsub_memorys s)
      (key := map_option (\<lambda>p. p\<lparr>smem_cnt := smem_cnt p + int n\<rparr>) (smempubsub_memorys s key))"
  shows "store_inv ids t"
proof -
  have *: "store_inv ids t = store_inv ids (s\<lparr>smempubsub_memorys := smempubsub_memorys t\<rparr>)"
    unfolding store_inv_def accounts_def
    using fr weigh_frame [of t "s\<lparr>smempubsub_memorys := smempubsub_memorys t\<rparr>"]
      shape_frame [of t "s\<lparr>smempubsub_memorys := smempubsub_memorys t\<rparr>"]
    by (simp add: pub_frame_def)
  show ?thesis
  proof (cases "smempubsub_memorys s key")
    case None
    with m have "smempubsub_memorys t = smempubsub_memorys s" by auto
    with * inv show ?thesis by simp
  next
    case (Some p)
    have "1 \<le> smem_cnt p + int n" using shape_used(4) [OF _ Some] inv by (simp add: store_inv_def)
    with recount_inv [OF inv Some] Some m * show ?thesis by simp
  qed
qed

text \<open>After the deliveries the publisher gives up its own reference.\<close>

lemma publish_settles:
  assumes inv: "store_inv (live k) s" and inv1: "store_inv (live k) s1" and c: "shm_contract (kernel E) live"
    and r: "smempubsubPublishMessage E ch m s k = (n, s', k')"
    and pre: "(case smempubsub_channels s ch of None \<Rightarrow> (0, s) | Some l \<Rightarrow> fold (deliver_step (obj_alloc E) ch m) l (0, s)) = (n1, s1)"
    and D: "smempubsub_memorys s1 = (smempubsub_memorys s)(m := map_option (\<lambda>p. p\<lparr>smem_cnt := smem_cnt p + int d\<rparr>) (smempubsub_memorys s m))"
  shows "n = n1 \<and> store_inv (live k') s' \<and> clients s' = clients s1 \<and> smempubsub_channels s' = smempubsub_channels s1 \<and>
     refs s' = (refs s)(m := if refs s m = 0 then 0 else refs s m - 1 + int d)"
proof (cases "smempubsub_memorys s m")
  case None
  with D have m1: "smempubsub_memorys s1 = smempubsub_memorys s" by auto
  with r pre None have "n = n1" "s' = s1" "k' = k" by (simp_all add: smempubsubPublishMessage_def)
  with None m1 inv1 show ?thesis by (simp add: refs_def fun_eq_iff)
next
  case (Some p0)
  let ?p = "p0\<lparr>smem_cnt := smem_cnt p0 + int d\<rparr>"
  have s1: "smempubsub_memorys s1 = (smempubsub_memorys s)(m \<mapsto> ?p)" using D Some by simp
  then have s1m: "smempubsub_memorys s1 m = Some ?p" by simp
  have pos: "1 \<le> smem_cnt p0" using shape_used(4) [OF _ Some] inv by (simp add: store_inv_def)
  have r0: "refs s m = smem_cnt p0" using Some by (simp add: refs_def)
  let ?q = "?p\<lparr>smem_cnt := smem_cnt ?p - 1\<rparr>"
  show ?thesis
  proof (cases "smem_cnt ?q \<le> 0")
    case True
    with r pre s1m have ma: "n = n1" "make_available E m ?q s1 k = (s', k')"
      by (simp_all add: smempubsubPublishMessage_def Let_def)
    note M = make_available_inv [OF inv1 c s1m _ _ ma(2)]
    have "refs s' = (refs s)(m := 0)" using M(2) s1 by (auto simp: refs_def fun_eq_iff)
    moreover have "smem_cnt p0 - 1 + int d = 0" using True pos by simp
    ultimately show ?thesis using M ma r0 pos by simp
  next
    case False
    with r pre s1m have res: "n = n1" "k' = k" "s' = s1\<lparr>smempubsub_memorys := (smempubsub_memorys s1)(m \<mapsto> ?q)\<rparr>"
      by (simp_all add: smempubsubPublishMessage_def Let_def)
    have "store_inv (live k) s'" using recount_inv [OF inv1 s1m, of "smem_cnt ?p - 1"] False res by simp
    moreover have "refs s' = (refs s)(m := smem_cnt p0 - 1 + int d)"
      using res(3) s1 by (auto simp: refs_def fun_eq_iff)
    ultimately show ?thesis using res r0 pos by simp
  qed
qed

lemma publish_cases:
  assumes inv: "store_inv (live k) s" and c: "shm_contract (kernel E) live"
    and r: "smempubsubPublishMessage E ch m s k = (n, s', k')"
    and l: "l = (case smempubsub_channels s ch of None \<Rightarrow> [] | Some l \<Rightarrow> l)"
  shows "n = int (length l)" and "store_inv (live k') s'"
    and "refs s' = (refs s)(m := if refs s m = 0 then 0 else refs s m - 1 + int (length l))"
    and "smempubsub_channels s' = smempubsub_channels s"
    and "c' \<notin> set l \<Longrightarrow> clients s' c' = clients s c'"
    and "same_control (clients s c') (clients s' c')"
    and "distinct l \<Longrightarrow> c' \<in> set l \<Longrightarrow> obuf_wf (clients s c') \<Longrightarrow> writable (clients s c') \<Longrightarrow>
       pending (clients s' c') = pending (clients s c') @ message_bytes ch m"
proof -
  obtain n1 s1 where f: "fold (deliver_step (obj_alloc E) ch m) l (0, s) = (n1, s1)"
    by (cases "fold (deliver_step (obj_alloc E) ch m) l (0, s)")
  have pre: "(case smempubsub_channels s ch of None \<Rightarrow> (0, s)
       | Some l \<Rightarrow> fold (deliver_step (obj_alloc E) ch m) l (0, s)) = (n1, s1)"
    using f l by (cases "smempubsub_channels s ch") simp_all
  note D = deliver_fold [OF f]
  have inv1: "store_inv (live k) s1" using store_inv_pub [OF inv, of s1 m "length l"] D by blast
  have main: "n = n1 \<and> store_inv (live k') s' \<and> clients s' = clients s1 \<and> smempubsub_channels s' = smempubsub_channels s1 \<and>
     refs s' = (refs s)(m := if refs s m = 0 then 0 else refs s m - 1 + int (length l))"
    by (rule publish_settles [OF inv inv1 c r pre]) (use D in simp)
  show "n = int (length l)" using main D by simp
  show "store_inv (live k') s'" using main by blast
  show "refs s' = (refs s)(m := if refs s m = 0 then 0 else refs s m - 1 + int (length l))" using main by blast
  show "smempubsub_channels s' = smempubsub_channels s" using main D by (simp add: pub_frame_def)
  show "clients s' c' = clients s c'" if "c' \<notin> set l" using main D that by simp
  show "same_control (clients s c') (clients s' c')" using main D by (simp add: pub_frame_def)
  show "pending (clients s' c') = pending (clients s c') @ message_bytes ch m"
    if "distinct l" "c' \<in> set l" "obuf_wf (clients s c')" "writable (clients s c')"
    using main D that by simp
qed

section \<open>The buffer store as an interface\<close>

text \<open>What the users of the buffers rely on: \<open>get\<close> hands out ids nobody holds, with one
  reference; \<open>free\<close> takes one reference; \<open>publish\<close> exchanges the publisher's
  reference for one per receiver.\<close>

locale buffer_store =
  fixes inv :: "'st \<Rightarrow> bool"
    and refcount :: "'st \<Rightarrow> string \<Rightarrow> int"
    and get :: "int \<Rightarrow> 'st \<Rightarrow> int \<times> 'st"
    and free :: "string \<Rightarrow> 'st \<Rightarrow> 'st"
    and publish :: "string \<Rightarrow> string \<Rightarrow> 'st \<Rightarrow> int \<times> 'st"
  assumes get_inv: "inv s \<Longrightarrow> inv (snd (get z s))"
    and get_new: "inv s \<Longrightarrow> fst (get z s) \<noteq> -1 \<Longrightarrow>
      refcount s (dec_int (fst (get z s))) = 0 \<and>
      refcount (snd (get z s)) = (refcount s)(dec_int (fst (get z s)) := 1)"
    and free_inv: "inv s \<Longrightarrow> inv (free key s)"
    and free_refs: "inv s \<Longrightarrow> refcount (free key s) = (refcount s)(key := max 0 (refcount s key - 1))"
    and publish_inv: "inv s \<Longrightarrow> inv (snd (publish ch key s))"
    and publish_refs: "inv s \<Longrightarrow> refcount (snd (publish ch key s)) =
      (refcount s)(key := if refcount s key = 0 then 0 else refcount s key - 1 + fst (publish ch key s))"
    and publish_count: "0 \<le> fst (publish ch key s)"
begin

lemma frees:
  assumes "inv s"
  shows "inv ((free key ^^ m) s)" and "int m \<le> refcount s key \<Longrightarrow>
    refcount ((free key ^^ m) s) = (refcount s)(key := refcount s key - int m)"
proof -
  have "inv ((free key ^^ m) s) \<and> (int m \<le> refcount s key \<longrightarrow>
    refcount ((free key ^^ m) s) = (refcount s)(key := refcount s key - int m))"
    using assms by (induction m) (auto simp: free_inv free_refs)
  then show "inv ((free key ^^ m) s)" and "int m \<le> refcount s key \<Longrightarrow>
    refcount ((free key ^^ m) s) = (refcount s)(key := refcount s key - int m)" by blast+
qed

text \<open>The life of a buffer: handed out, published once, freed by its receivers. It stays held
  until the last of them frees it.\<close>

lemma life_cycle:
  assumes i: "inv s" and g: "get z s = (i, s1)" "i \<noteq> -1" and p: "publish ch (dec_int i) s1 = (n, s2)" and m: "int m \<le> n"
  shows "inv ((free (dec_int i) ^^ m) s2) \<and> refcount s (dec_int i) = 0 \<and>
    refcount ((free (dec_int i) ^^ m) s2) = (refcount s)(dec_int i := n - int m)"
proof -
  have i1: "inv s1" using get_inv [OF i, of z] g by simp
  have r0: "refcount s (dec_int i) = 0" and r1: "refcount s1 = (refcount s)(dec_int i := 1)"
    using get_new [OF i, of z] g by simp_all
  have i2: "inv s2" using publish_inv [OF i1, of ch "dec_int i"] p by simp
  have r2: "refcount s2 = (refcount s)(dec_int i := n)" using publish_refs [OF i1, of ch "dec_int i"] p r1 by simp
  from frees(1) [OF i2] frees(2) [OF i2, of m "dec_int i"] r0 r2 m show ?thesis by simp
qed

end

text \<open>The pool of the server is such a store, for every environment and kernel that keeps
  the contract.\<close>

definition pool_get :: "'k env \<Rightarrow> int \<Rightarrow> server \<times> 'k \<Rightarrow> int \<times> server \<times> 'k" where
  "pool_get E n st = smemget_size E (SMEMALIGN (c_int n) 4096) (fst st) (snd st)"

definition pool_free :: "'k env \<Rightarrow> string \<Rightarrow> server \<times> 'k \<Rightarrow> server \<times> 'k" where
  "pool_free E key st = snd (smemfree_one E key (0, st))"

definition pool_publish :: "'k env \<Rightarrow> string \<Rightarrow> string \<Rightarrow> server \<times> 'k \<Rightarrow> int \<times> server \<times> 'k" where
  "pool_publish E ch key st = smempubsubPublishMessage E ch key (fst st) (snd st)"

definition pool_inv :: "'k env \<Rightarrow> ('k \<Rightarrow> int set) \<Rightarrow> server \<times> 'k \<Rightarrow> bool" where
  "pool_inv E live st \<longleftrightarrow> shm_contract (kernel E) live \<and> store_inv (live (snd st)) (fst st)"

interpretation pool: buffer_store "pool_inv E live" "\<lambda>st. refs (fst st)" "pool_get E" "pool_free E" "pool_publish E"
  for E :: "'k env" and live :: "'k \<Rightarrow> int set"
proof
  fix st :: "server \<times> 'k" and z :: int and key ch :: string
  obtain s k where st: "st = (s, k)" by (cases st)
  obtain i s1 k1 where g: "smemget_size E (SMEMALIGN (c_int z) 4096) s k = (i, s1, k1)"
    by (cases "smemget_size E (SMEMALIGN (c_int z) 4096) s k") auto
  obtain n s2 k2 where f: "smemfree_one E key (0, s, k) = (n, s2, k2)"
    by (cases "smemfree_one E key (0, s, k)") auto
  obtain n3 s3 k3 where p: "smempubsubPublishMessage E ch key s k = (n3, s3, k3)"
    by (cases "smempubsubPublishMessage E ch key s k") auto
  {
    assume "pool_inv E live st"
    then have c: "shm_contract (kernel E) live" and inv: "store_inv (live k) s" by (simp_all add: pool_inv_def st)
    note G = smemget_size_cases [OF inv c SMEMALIGN_dvd g] and F = smemfree_one_cases [OF inv c f]
      and P = publish_cases [OF inv c p refl]
    show "pool_inv E live (snd (pool_get E z st))" using c G(1) g by (simp add: pool_inv_def pool_get_def st)
    show "fst (pool_get E z st) \<noteq> -1 \<Longrightarrow> refs (fst st) (dec_int (fst (pool_get E z st))) = 0 \<and>
        refs (fst (snd (pool_get E z st))) = (refs (fst st))(dec_int (fst (pool_get E z st)) := 1)"
      using G(3) g by (auto simp: pool_get_def st refs_def fun_eq_iff)
    show "pool_inv E live (pool_free E key st)" using c F(1) f by (simp add: pool_inv_def pool_free_def st)
    show "refs (fst (pool_free E key st)) = (refs (fst st))(key := max 0 (refs (fst st) key - 1))"
      using F(2) f by (simp add: pool_free_def st)
    show "pool_inv E live (snd (pool_publish E ch key st))" using c P(2) p by (simp add: pool_inv_def pool_publish_def st)
    show "refs (fst (snd (pool_publish E ch key st))) = (refs (fst st))
       (key := if refs (fst st) key = 0 then 0 else refs (fst st) key - 1 + fst (pool_publish E ch key st))"
      using P(1,3) p by (simp add: pool_publish_def st)
  }
  obtain l where l: "l = (case smempubsub_channels s ch of None \<Rightarrow> [] | Some l \<Rightarrow> l)" by blast
  obtain n1 s1' where fo: "fold (deliver_step (obj_alloc E) ch key) l (0, s) = (n1, s1')"
    by (cases "fold (deliver_step (obj_alloc E) ch key) l (0, s)")
  have "(case smempubsub_channels s ch of None \<Rightarrow> (0, s)
       | Some l \<Rightarrow> fold (deliver_step (obj_alloc E) ch key) l (0, s)) = (n1, s1')"
    using fo l by (cases "smempubsub_channels s ch") simp_all
  then have "n3 = n1" using p
    by (auto simp: smempubsubPublishMessage_def Let_def split: option.splits if_splits)
  with deliver_fold [OF fo] p show "0 \<le> fst (pool_publish E ch key st)" by (simp add: pool_publish_def st)
qed

section \<open>Switching\<close>

definition has_name :: "server \<Rightarrow> nat \<Rightarrow> string \<Rightarrow> bool" where
  "has_name s d nm \<longleftrightarrow> (\<exists>n. name (clients s d) = Some n \<and> cstr n = cstr nm)"

lemma has_name_drop [simp]: "has_name (drop_channel c ch s) d nm = has_name s d nm"
  by (simp add: has_name_def)

lemma switch_list_nomatch:
  "\<forall>d\<in>set l. \<not> has_name s d nm \<Longrightarrow> switch_list nm ch i l (sub, mv, s) = (sub, mv, s)"
  by (induction l arbitrary: i) (auto simp: has_name_def split: option.split)

lemma switch_list_match:
  assumes "\<forall>d\<in>set pre. \<not> has_name s d nm" "has_name s x nm" "ch \<in> client_channels (clients s x)"
  shows "switch_list nm ch i (pre @ x # post) (sub, mv, s) = (Some x, Some (ch, i + length pre), drop_channel x ch s)"
  using assms by (induction pre arbitrary: i) (auto simp: has_name_def split: option.split)

lemma switch_fold_nomatch:
  assumes "\<And>ch l d. ch \<in> set order \<Longrightarrow> smempubsub_channels s ch = Some l \<Longrightarrow> d \<in> set l \<Longrightarrow> \<not> has_name s d nm"
  shows "fold (switch_channel nm) order (sub, mv, s) = (sub, mv, s)"
  using assms
proof (induction order)
  case (Cons ch order)
  have "switch_channel nm ch (sub, mv, s) = (sub, mv, s)"
    using Cons.prems [of ch] by (auto simp: switch_channel_def switch_list_nomatch split: option.split)
  moreover have "fold (switch_channel nm) order (sub, mv, s) = (sub, mv, s)"
    by (rule Cons.IH) (rule Cons.prems, auto)
  ultimately show ?case by simp
qed simp

lemma switch_channel_match:
  assumes ok: "distinct l" and l: "smempubsub_channels s ch = Some l" "x \<in> set l"
    and only: "\<And>d. d \<in> set l \<Longrightarrow> has_name s d nm \<longleftrightarrow> d = x" and sub: "ch \<in> client_channels (clients s x)"
  obtains i where "i < length l" "l ! i = x"
    "\<And>sb mv. switch_channel nm ch (sb, mv, s) = (Some x, Some (ch, i), drop_channel x ch s)"
proof -
  from l(2) obtain pre post where pp: "l = pre @ x # post" by (meson split_list)
  have "\<forall>d\<in>set pre. \<not> has_name s d nm" using ok only pp by auto
  moreover have "has_name s x nm" using only l(2) by blast
  ultimately have "switch_list nm ch 0 l (sb, mv, s) = (Some x, Some (ch, length pre), drop_channel x ch s)" for sb mv
    unfolding pp using switch_list_match [where i = 0] sub by simp
  with l(1) show ?thesis by (intro that [of "length pre"]) (simp_all add: pp switch_channel_def)
qed

lemma remove_nth_distinct:
  assumes "distinct l" "i < length l"
  shows "take i l @ drop (Suc i) l = remove1 (l ! i) l"
proof -
  have e: "l = take i l @ l ! i # drop (Suc i) l" using assms(2) by (rule id_take_nth_drop)
  with assms(1) have "l ! i \<notin> set (take i l)" by (metis distinct_append distinct.simps(2) disjoint_iff list.set_intros(1))
  then have "remove1 (l ! i) (take i l @ l ! i # drop (Suc i) l) = take i l @ drop (Suc i) l"
    by (simp add: remove1_append)
  with e show ?thesis by simp
qed

section \<open>Properties\<close>

lemma refs_channels [simp]: "refs (s\<lparr>smempubsub_channels := m\<rparr>) = refs s"
  by (simp add: refs_def fun_eq_iff)

definition demo_subs :: server where
  "demo_subs = (add_channel 2 ''cam'' (add_channel 1 ''cam'' demo_server))\<lparr>smempubsub_channels := [''cam'' \<mapsto> [1, 2]]\<rparr>"

lemma demo_subs_ok: "subs_ok demo_subs"
  by (auto simp: subs_ok_def demo_subs_def demo_server_def blank_server_def blank_client_def)

lemma demo_subs_inv: "store_inv (set [7, 9]) demo_subs"
  using demo_store_inv by (simp add: demo_subs_def store_frame_channels)

lemma demo_subs_simps [simp]:
  "smempubsub_channels demo_subs = [''cam'' \<mapsto> [1, 2]]" "refs demo_subs (dec_int 7) = 1"
  "client_channels (clients demo_subs c) = (if c = 1 \<or> c = 2 then {''cam''} else {})"
  by (auto simp: demo_subs_def refs_def add_channel_def)
    (auto simp: demo_server_def blank_server_def blank_client_def)

text \<open>C6: a published buffer id reaches every subscriber of the channel, exactly once and as one
  well-formed message, and no other client; the publisher's reference is exchanged for one
  per receiver, and with no receiver the buffer goes back to the pool.\<close>

theorem smempublish_delivers:
  assumes inv: "store_inv (live k) s" and c: "shm_contract (kernel E) live" and ok: "subs_ok s"
    and l: "smempubsub_channels s ch = Some l"
    and w: "\<forall>d\<in>set l. obuf_wf (clients s d) \<and> writable (clients s d)"
    and r: "smempubsubPublishMessage E ch m s k = (n, s', k')"
  shows "n = int (length l) \<and> store_inv (live k') s' \<and> subs_ok s' \<and>
    refs s' = (refs s)(m := if refs s m = 0 then 0 else refs s m - 1 + int (length l)) \<and>
    (\<forall>d. pending (clients s' d) =
       pending (clients s d) @ (if ch \<in> client_channels (clients s d) then message_bytes ch m else []))"
proof -
  have "l = (case smempubsub_channels s ch of None \<Rightarrow> [] | Some l \<Rightarrow> l)" using l by simp
  note P = publish_cases [OF inv c r this]
  have d: "distinct l" using subs_okD(2) [OF ok l] .
  have mem: "ch \<in> client_channels (clients s e) \<longleftrightarrow> e \<in> set l" for e using subs_okD(3) [OF ok, of ch e] l by simp
  have "pending (clients s' e) = pending (clients s e) @ (if e \<in> set l then message_bytes ch m else [])" for e
    using P(5) [of e] P(7) [OF d, of e] w by (cases "e \<in> set l") auto
  moreover have "subs_ok s'"
    using ok subs_ok_frame [of s' s] P(4) P(6) by (simp add: same_control_def)
  ultimately show ?thesis using P(1-3) mem by simp
qed

theorem smempublish_delivers_witness:
  "refs (fst (snd (smempubsubPublishMessage demo_env ''cam'' (dec_int 7) demo_subs [7, 9]))) (dec_int 7) = 2"
proof -
  let ?r = "smempubsubPublishMessage demo_env ''cam'' (dec_int 7) demo_subs [7, 9]"
  have e: "?r = (fst ?r, fst (snd ?r), snd (snd ?r))" by simp
  have "\<forall>d\<in>set [1, 2]. obuf_wf (clients demo_subs d) \<and> writable (clients demo_subs d)"
    by (auto simp: demo_subs_def add_channel_def demo_server_def blank_server_def blank_client_def
        obuf_wf_def writable_def accepts_def out_bytes_def)
  from smempublish_delivers [where live = set and E = demo_env and ch = "''cam''" and l = "[1, 2]", OF demo_subs_inv _ demo_subs_ok _ this e]
    list_kernel_contract show ?thesis by simp
qed

text \<open>C4: the life of a buffer: after \<open>SMEMGET\<close> has handed out an id nobody held and the id
  has been published to \<open>n\<close> receivers, \<open>m\<close> of \<open>n\<close> frees leave \<open>n - m\<close> references, so the
  buffer is held until the last receiver frees it; no other buffer is affected and the pool
  stays consistent.\<close>

theorem buffer_life_cycle:
  assumes "pool_inv E live st" and "pool_get E z st = (i, st1)" and "i \<noteq> -1"
    and "pool_publish E ch (dec_int i) st1 = (n, st2)" and "int m \<le> n"
  shows "pool_inv E live ((pool_free E (dec_int i) ^^ m) st2) \<and> refs (fst st) (dec_int i) = 0 \<and>
    refs (fst ((pool_free E (dec_int i) ^^ m) st2)) = (refs (fst st))(dec_int i := n - int m)"
  using pool.life_cycle [OF assms] .

theorem buffer_life_cycle_witness:
  "refs (fst (snd (pool_publish demo_env ''cam'' (dec_int 9) (snd (pool_get demo_env 5000 (demo_subs, [7, 9])))))) (dec_int 9) =
     fst (pool_publish demo_env ''cam'' (dec_int 9) (snd (pool_get demo_env 5000 (demo_subs, [7, 9]))))"
proof -
  let ?g = "pool_get demo_env 5000 (demo_subs, [7, 9])"
  let ?p = "pool_publish demo_env ''cam'' (dec_int 9) (snd ?g)"
  have inv: "pool_inv demo_env set (demo_subs, [7, 9])" using demo_subs_inv list_kernel_contract by (simp add: pool_inv_def)
  have "fst ?g = 9"
    by (simp add: pool_get_def SMEMALIGN_mod c_int_def smemget_size_def smemget_reuse_def demo_subs_def add_channel_def
        idle_entry_def smemlistMoveNodeToDict_def)
  then have g: "?g = (9, snd ?g)" by (metis prod.collapse)
  have "?p = (fst ?p, snd ?p)" by simp
  with buffer_life_cycle [OF inv g _ this, of 0] pool.publish_count [of demo_env "''cam''" "dec_int 9" "snd ?g"]
  show ?thesis by simp
qed

text \<open>C9: the two subscription tables stay consistent: subscribing and unsubscribing (with or
  without notification) keep them in step, and the assertions in the unsubscribe code never
  fail. Unsubscribing a client from all its channels removes it from every list.\<close>

theorem subscriptions_consistent:
  assumes ok: "subs_ok s"
    and order: "set order = client_channels (clients s c)"
  shows "subs_ok (smemsubscribeCommand A c s) \<and>
    subs_ok (snd (smempubsubUnsubscribeChannel A c ch notify s)) \<and>
    aborted (snd (smempubsubUnsubscribeChannel A c ch False s)) = aborted s \<and>
    subs_ok (snd (smempubsubUnsubscribeAllChannels A c notify order s)) \<and>
    (\<forall>ch l. smempubsub_channels (snd (smempubsubUnsubscribeAllChannels A c notify order s)) ch = Some l \<longrightarrow> c \<notin> set l)"
proof -
  have 1: "subs_ok (smemsubscribeCommand A c s)"
    using subscribe_fold [OF ok, of A c "tl (argv (clients s c))"] unfolding smemsubscribeCommand_def
    by (simp add: subs_ok_flags)
  obtain n s' where u: "smempubsubUnsubscribeChannel A c ch notify s = (n, s')"
    by (cases "smempubsubUnsubscribeChannel A c ch notify s")
  from unsubscribe_reply_frame [OF u] obtain s0 where s0: "unsubscribe_core c ch s = (n, s0)" "out_frame s0 s'" .
  have 2: "subs_ok s'" using unsubscribe_core_cases(1) [OF ok s0(1)] subs_ok_out_frame [OF s0(2)] by simp
  have 3: "aborted (snd (smempubsubUnsubscribeChannel A c ch False s)) = aborted s"
    using unsubscribe_core_cases(4) [OF ok s0(1)] s0(1) by (simp add: smempubsubUnsubscribeChannel_def)
  obtain n2 t where a: "smempubsubUnsubscribeAllChannels A c notify order s = (n2, t)"
    by (cases "smempubsubUnsubscribeAllChannels A c notify order s")
  from unsubscribe_all_frame [OF a] obtain t0 where t0: "fold (unsubscribe_step A c notify) order (0, s) = (n2, t0)" "out_frame t0 t" .
  note F = unsubscribe_fold [OF ok t0(1)]
  have 4: "subs_ok t" using F subs_ok_out_frame [OF t0(2)] by simp
  have "client_channels (clients t c) = {}" using F order out_frame_simps(10) [OF t0(2)] by simp
  with subs_okD(3) [OF 4, of _ c] have "c \<notin> set l" if "smempubsub_channels t ch' = Some l" for ch' l
    using that by blast
  with 1 2 3 4 u a show ?thesis by simp
qed

theorem subscriptions_consistent_witness:
  "subs_ok (snd (smempubsubUnsubscribeAllChannels blank_alloc 1 True [''cam''] demo_subs))"
  using subscriptions_consistent [OF demo_subs_ok, of "[''cam'']" 1 blank_alloc _ True] by simp

text \<open>Unsubscribing right after subscribing to a new channel restores both tables.\<close>

theorem subscribe_unsubscribe_roundtrip:
  assumes ok: "subs_ok s" and new: "ch \<notin> client_channels (clients s c)" and ne: "smempubsub_channels s ch \<noteq> Some []"
  shows "smempubsub_channels (snd (smempubsubUnsubscribeChannel A c ch notify (snd (smempubsubSubscribeChannel A c ch s)))) =
      smempubsub_channels s \<and>
    (\<forall>d. client_channels (clients (snd (smempubsubUnsubscribeChannel A c ch notify (snd (smempubsubSubscribeChannel A c ch s)))) d) =
       client_channels (clients s d))"
proof -
  define l where "l = (case smempubsub_channels s ch of None \<Rightarrow> [] | Some l \<Rightarrow> l)"
  obtain n1 s1 where u1: "smempubsubSubscribeChannel A c ch s = (n1, s1)" by (cases "smempubsubSubscribeChannel A c ch s")
  from subscribe_reply_frame [OF u1] obtain t1 where t1: "subscribe_core c ch s = (n1, t1)" "out_frame t1 s1" .
  obtain n2 s2 where u2: "smempubsubUnsubscribeChannel A c ch notify s1 = (n2, s2)"
    by (cases "smempubsubUnsubscribeChannel A c ch notify s1")
  from unsubscribe_reply_frame [OF u2] obtain t2 where t2: "unsubscribe_core c ch s1 = (n2, t2)" "out_frame t2 s2" .
  have ok1: "subs_ok s1" using subscribe_core_cases(1) [OF ok t1(1)] subs_ok_out_frame [OF t1(2)] by simp
  have ch1: "smempubsub_channels s1 = (smempubsub_channels s)(ch \<mapsto> l @ [c])"
    using t1(1) new out_frame_simps(4) [OF t1(2)] by (auto simp: subscribe_core_def Let_def l_def)
  have cl1: "client_channels (clients s1 d) = (if d = c then insert ch (client_channels (clients s c)) else client_channels (clients s d))" for d
    using subscribe_core_cases(3) [OF ok t1(1), of d] out_frame_simps(10) [OF t1(2), of d] by simp
  have "c \<notin> set l"
    using subs_okD(3) [OF ok, of ch c] new by (cases "smempubsub_channels s ch") (auto simp: l_def)
  then have "remove1 c (l @ [c]) = l" by (simp add: remove1_append)
  then have "smempubsub_channels t2 = (smempubsub_channels s)(ch := if l = [] then None else Some l)"
    using t2(1) ch1 cl1 by (auto simp: unsubscribe_core_def Let_def)
  also have "\<dots> = smempubsub_channels s"
    using ne by (cases "smempubsub_channels s ch") (auto simp: l_def fun_eq_iff)
  finally have "smempubsub_channels s2 = smempubsub_channels s" using out_frame_simps(4) [OF t2(2)] by simp
  moreover have "client_channels (clients s2 d) = client_channels (clients s d)" for d
    using unsubscribe_core_cases(3) [OF ok1 t2(1), of d] out_frame_simps(10) [OF t2(2), of d] cl1 new by auto
  ultimately show ?thesis using u1 u2 by simp
qed

theorem subscribe_unsubscribe_roundtrip_witness:
  "smempubsub_channels (snd (smempubsubUnsubscribeChannel blank_alloc 3 ''cam'' True
     (snd (smempubsubSubscribeChannel blank_alloc 3 ''cam'' demo_subs)))) = [''cam'' \<mapsto> [1, 2]]"
  using subscribe_unsubscribe_roundtrip [OF demo_subs_ok, of "''cam''" 3 blank_alloc True] by simp

text \<open>The search of \<open>SMEMSWITCH\<close> for a subscriber with one channel and a name of its own, and the tables after the move.\<close>

lemma switch_search:
  assumes ok: "subs_ok s" and x: "client_channels (clients s x) = {ch}" "smempubsub_channels s ch = Some l"
    and only: "\<And>ch' l' d. smempubsub_channels s ch' = Some l' \<Longrightarrow> d \<in> set l' \<Longrightarrow> has_name s d nm \<longleftrightarrow> d = x"
    and order: "order = o1 @ ch # o2" "ch \<notin> set o1" "ch \<notin> set o2"
  obtains i where "i < length l" "l ! i = x" "fold (switch_channel nm) order (None, None, s) = (Some x, Some (ch, i), drop_channel x ch s)"
proof -
  have xl: "x \<in> set l" using subs_okD(3) [OF ok, of ch x] x by simp
  have notin: "x \<notin> set l'" if "smempubsub_channels s ch' = Some l'" "ch' \<noteq> ch" for ch' l'
    using subs_okD(3) [OF ok, of ch' x] that x(1) by auto
  from switch_channel_match [OF subs_okD(2) [OF ok x(2)] x(2) xl only [OF x(2)]] x(1)
  obtain i where i: "i < length l" "l ! i = x"
    "\<And>sb mv. switch_channel nm ch (sb, mv, s) = (Some x, Some (ch, i), drop_channel x ch s)" by auto
  have "fold (switch_channel nm) o1 (None, None, s) = (None, None, s)"
    by (rule switch_fold_nomatch) (use only notin order(2) in blast)
  moreover have "fold (switch_channel nm) o2 (Some x, Some (ch, i), drop_channel x ch s) = (Some x, Some (ch, i), drop_channel x ch s)"
    by (rule switch_fold_nomatch) (simp, use only notin order(3) in blast)
  ultimately show ?thesis using that [OF i(1,2)] order(1) i(3) by simp
qed

definition switched :: "nat \<Rightarrow> string \<Rightarrow> string \<Rightarrow> nat list \<Rightarrow> server \<Rightarrow> server" where
  "switched x ch pub l s = (add_channel x pub (drop_channel x ch s))\<lparr>smempubsub_channels :=
     (smempubsub_channels s)(ch \<mapsto> remove1 x l, pub \<mapsto> x # (case smempubsub_channels s pub of None \<Rightarrow> [] | Some l' \<Rightarrow> l'))\<rparr>"

lemma switched_subs_ok:
  assumes ok: "subs_ok s" and x: "client_channels (clients s x) = {ch}" "smempubsub_channels s ch = Some l" and pub: "pub \<noteq> ch"
  shows "subs_ok (switched x ch pub l s)"
  unfolding subs_ok_def
proof (intro conjI allI impI)
  fix e show "finite (client_channels (clients (switched x ch pub l s) e))" using subs_okD(1) [OF ok] by (simp add: switched_def)
next
  fix ch' l' assume "smempubsub_channels (switched x ch pub l s) ch' = Some l'"
  then show "distinct l'"
    using subs_okD(2) [OF ok] subs_okD(2) [OF ok x(2)] subs_okD(3) [OF ok, of pub x] x(1) pub
    by (auto simp: switched_def split: if_splits option.splits)
next
  let ?lp = "case smempubsub_channels s pub of None \<Rightarrow> [] | Some l' \<Rightarrow> l'"
  fix e ch'
  have mem: "a \<in> client_channels (clients s e) \<longleftrightarrow> (\<exists>l. smempubsub_channels s a = Some l \<and> e \<in> set l)" for a
    by (rule subs_okD(3) [OF ok])
  have "pub \<in> client_channels (clients s e) \<longleftrightarrow> e \<in> set ?lp" using mem [of pub] by (auto split: option.split)
  moreover have "e \<in> set (remove1 x l) \<longleftrightarrow> e \<in> set l \<and> e \<noteq> x"
    using subs_okD(2) [OF ok x(2)] by (simp add: set_remove1_eq)
  ultimately show "ch' \<in> client_channels (clients (switched x ch pub l s) e) \<longleftrightarrow>
      (\<exists>l1. smempubsub_channels (switched x ch pub l s) ch' = Some l1 \<and> e \<in> set l1)"
    using mem [of ch'] mem [of ch] x pub by (auto simp: switched_def)
qed

lemma switch_result:
  assumes ok: "subs_ok s" and args: "argv (clients s c) = [cm, pub, nm]"
    and x: "client_channels (clients s x) = {ch}" "smempubsub_channels s ch = Some l"
    and only: "\<And>ch' l' d. smempubsub_channels s ch' = Some l' \<Longrightarrow> d \<in> set l' \<Longrightarrow> has_name s d nm \<longleftrightarrow> d = x"
    and order: "order = o1 @ ch # o2" "ch \<notin> set o1" "ch \<notin> set o2" and pub: "pub \<noteq> ch"
  shows "smemswitchCommand A c order s = addReplyLongLong A c 0 (switched x ch pub l s)"
proof -
  let ?lp = "case smempubsub_channels s pub of None \<Rightarrow> [] | Some l' \<Rightarrow> l'"
  obtain i where i: "i < length l" "l ! i = x" "fold (switch_channel nm) order (None, None, s) = (Some x, Some (ch, i), drop_channel x ch s)"
    by (rule switch_search [OF ok x _ order, of nm]) (use only in auto)
  have mv: "moveNode ch i pub (case smempubsub_channels s pub of None \<Rightarrow> (smempubsub_channels s)(pub \<mapsto> []) | Some _ \<Rightarrow> smempubsub_channels s)
      = (smempubsub_channels s)(ch \<mapsto> remove1 x l, pub \<mapsto> x # ?lp)"
    using x(2) pub i remove_nth_distinct [OF subs_okD(2) [OF ok x(2)] i(1)]
    by (cases "smempubsub_channels s pub") (auto simp: moveNode_def Let_def fun_eq_iff)
  show ?thesis
    unfolding smemswitchCommand_def switched_def using i(3) x(1) pub mv by (simp add: args Let_def cong: option.case_cong)
qed

text \<open>C27: \<open>SMEMSWITCH\<close> of a subscriber that has one channel and a name no other subscriber has
  moves it to the head of the list of the new channel and keeps the two tables consistent,
  but always answers 0, the counter that nothing increments.\<close>

theorem smemswitch_moves:
  assumes ok: "subs_ok s" and args: "argv (clients s c) = [cm, pub, nm]"
    and x: "client_channels (clients s x) = {ch}" "smempubsub_channels s ch = Some l"
    and only: "\<And>ch' l' d. smempubsub_channels s ch' = Some l' \<Longrightarrow> d \<in> set l' \<Longrightarrow> has_name s d nm \<longleftrightarrow> d = x"
    and order: "order = o1 @ ch # o2" "ch \<notin> set o1" "ch \<notin> set o2" and pub: "pub \<noteq> ch"
    and w: "obuf_wf (clients s c)" "writable (clients s c)" "c \<noteq> x"
    and r: "s' = smemswitchCommand A c order s"
  shows "subs_ok s' \<and> client_channels (clients s' x) = {pub} \<and>
    smempubsub_channels s' = (smempubsub_channels s)
      (ch \<mapsto> remove1 x l, pub \<mapsto> x # (case smempubsub_channels s pub of None \<Rightarrow> [] | Some l' \<Rightarrow> l')) \<and>
    pending (clients s' c) = pending (clients s c) @ '':0'' @ crlf"
proof -
  let ?t = "switched x ch pub l s"
  have s': "s' = addReplyLongLong A c 0 ?t" unfolding r by (rule switch_result [OF ok args x _ order pub]) (rule only)
  have fr: "out_frame ?t s'" unfolding s' by (rule addReplyLongLong_frame)
  have "clients ?t c = clients s c" using w(3) by (simp add: switched_def add_channel_def drop_channel_def)
  moreover from this have "pending (clients s' c) = pending (clients s c) @ '':0'' @ crlf"
    unfolding s' using appends_pending(1) [OF addReplyLongLong_appends, of ?t c A 0] w by simp
  ultimately show ?thesis
    using switched_subs_ok [OF ok x pub] subs_ok_out_frame [OF fr] out_frame_simps(4,10) [OF fr] x(1) by (simp add: switched_def)
qed

definition demo_names :: server where
  "demo_names = with_args 3 [''smemswitch'', ''new'', ''tv''] (update_client 2 (\<lambda>cl. cl\<lparr>name := Some ''tv''\<rparr>) demo_subs)"

lemma demo_names_ok: "subs_ok demo_names"
  using demo_subs_ok by (subst subs_ok_frame [of _ demo_subs]) (simp_all add: demo_names_def with_args_def)

lemma demo_names_simps [simp]:
  "smempubsub_channels demo_names = [''cam'' \<mapsto> [1, 2]]" "argv (clients demo_names 3) = [''smemswitch'', ''new'', ''tv'']"
  "client_channels (clients demo_names c) = (if c = 1 \<or> c = 2 then {''cam''} else {})"
  "has_name demo_names c ''tv'' \<longleftrightarrow> c = 2"
  "obuf_wf (clients demo_names 3)" "writable (clients demo_names 3)"
  by (auto simp: demo_names_def with_args_def has_name_def demo_subs_def add_channel_def demo_server_def blank_server_def
      blank_client_def obuf_wf_def writable_def accepts_def out_bytes_def)

theorem smemswitch_moves_witness:
  "smempubsub_channels (smemswitchCommand blank_alloc 3 [''cam''] demo_names) = [''cam'' \<mapsto> [1], ''new'' \<mapsto> [2]]"
  using smemswitch_moves [OF demo_names_ok, where c = 3 and x = 2 and ch = "''cam''" and l = "[1, 2]" and ?o1.0 = "[]" and ?o2.0 = "[]"
      and order = "[''cam'']" and nm = "''tv''" and pub = "''new''" and A = blank_alloc and cm = "''smemswitch''"]
  by simp

text \<open>C39: when the subscriber has two channels, \<open>SMEMSWITCH\<close> deletes both from its channel set but
  moves only the list node found last; the other list keeps a node for the client that the
  client no longer knows of, so that disconnecting it, which unsubscribes it from the
  channels in its set, leaves the freed client in that list.\<close>

theorem smemswitch_leaves_stale_node:
  assumes ok: "subs_ok s" and args: "argv (clients s c) = [cm, pub, nm]"
    and x: "client_channels (clients s x) = {a, b}" "a \<noteq> b" "pub \<notin> {a, b}"
      "smempubsub_channels s a = Some la" "smempubsub_channels s b = Some lb"
    and only: "\<And>ch' l' d. smempubsub_channels s ch' = Some l' \<Longrightarrow> d \<in> set l' \<Longrightarrow> has_name s d nm \<longleftrightarrow> d = x"
    and r: "s' = smemswitchCommand A c [a, b] s"
  shows "client_channels (clients s' x) = {pub} \<and> smempubsub_channels s' a = Some la \<and> x \<in> set la \<and> \<not> subs_ok s' \<and>
    smempubsub_channels (snd (smempubsubUnsubscribeAllChannels A x False [pub] s')) a = Some la"
proof -
  have xa: "x \<in> set la" and xb: "x \<in> set lb" using subs_okD(3) [OF ok, of a x] subs_okD(3) [OF ok, of b x] x by auto
  have "a \<in> client_channels (clients s x)" using x(1) by simp
  from switch_channel_match [OF subs_okD(2) [OF ok x(4)] x(4) xa only [OF x(4)] this]
  obtain i where i: "\<And>sb mv. switch_channel nm a (sb, mv, s) = (Some x, Some (a, i), drop_channel x a s)" by blast
  have "smempubsub_channels (drop_channel x a s) b = Some lb" using x(5) by simp
  from switch_channel_match [OF subs_okD(2) [OF ok x(5)] this xb] only [OF x(5)] x(1,2)
  obtain j where j: "j < length lb" "lb ! j = x" "\<And>sb mv. switch_channel nm b (sb, mv, drop_channel x a s) =
      (Some x, Some (b, j), drop_channel x b (drop_channel x a s))" by auto
  let ?m = "case smempubsub_channels s pub of None \<Rightarrow> (smempubsub_channels s)(pub \<mapsto> []) | Some _ \<Rightarrow> smempubsub_channels s"
  define t where "t = (add_channel x pub (drop_channel x b (drop_channel x a s)))\<lparr>smempubsub_channels := moveNode b j pub ?m\<rparr>"
  have s': "s' = addReplyLongLong A c 0 t"
    unfolding r smemswitchCommand_def t_def using i j x by (simp add: args Let_def cong: option.case_cong)
  have fr: "out_frame t s'" unfolding s' by (rule addReplyLongLong_frame)
  have cx: "client_channels (clients t x) = {pub}" using x by (auto simp: t_def)
  have ta: "smempubsub_channels t a = Some la"
    using x(2-5) by (cases "smempubsub_channels s pub") (auto simp: t_def moveNode_def Let_def)
  have s'c: "client_channels (clients s' x) = {pub}" "smempubsub_channels s' = smempubsub_channels t"
    using cx out_frame_simps(4,10) [OF fr] by simp_all
  have "\<not> subs_ok s'" using subs_okD(3) [of s' a x] s'c ta xa x(3) by auto
  moreover have "smempubsub_channels (snd (smempubsubUnsubscribeAllChannels A x False [pub] s')) a = Some la"
    using s'c(2) ta x(3) unsubscribe_other [of a pub x s']
    by (simp add: smempubsubUnsubscribeAllChannels_def unsubscribe_step_def smempubsubUnsubscribeChannel_def
        split: prod.split prod.split_asm) blast
  ultimately show ?thesis using s'c ta xa by simp
qed

definition demo_two :: server where
  "demo_two = (add_channel 2 ''aux'' demo_names)\<lparr>smempubsub_channels := [''cam'' \<mapsto> [1, 2], ''aux'' \<mapsto> [2]]\<rparr>"

lemma demo_two_ok: "subs_ok demo_two"
  by (auto simp: subs_ok_def demo_two_def)

theorem smemswitch_leaves_stale_node_witness:
  "smempubsub_channels (snd (smempubsubUnsubscribeAllChannels blank_alloc 2 False [''new'']
     (smemswitchCommand blank_alloc 3 [''cam'', ''aux''] demo_two))) ''cam'' = Some [1, 2]"
proof -
  have h: "has_name demo_two d ''tv'' \<longleftrightarrow> d = 2" for d
  proof -
    have "name (clients demo_two d) = name (clients demo_names d)" by (simp add: demo_two_def add_channel_def)
    then show ?thesis using demo_names_simps(4) [of d] unfolding has_name_def by simp
  qed
  have a: "argv (clients demo_two 3) = [''smemswitch'', ''new'', ''tv'']" by (simp add: demo_two_def add_channel_def)
  show ?thesis
    using smemswitch_leaves_stale_node [OF demo_two_ok a, where x = 2 and a = "''cam''" and b = "''aux''" and la = "[1, 2]"
        and lb = "[2]" and A = blank_alloc and s' = "smemswitchCommand blank_alloc 3 [''cam'', ''aux''] demo_two"] h
    by (simp add: demo_two_def insert_commute)
qed

end
