(* ===== verification/Redis_List.thy ===== *)
theory Redis_List
  imports Smem_Pubsub
begin

text \<open>
  The three functions of \<open>redis/src/smem4redis.c\<close> that manipulate the nodes of Redis'
  doubly linked lists directly, on an explicit store of nodes and list headers, and their
  refinement to the list operations used in the rest of the development.
\<close>

section \<open>The store\<close>

record lnode =
  nprev :: "nat option"
  nnext :: "nat option"
  nvalue :: nat

record lhdr =
  lhead :: "nat option"
  ltail :: "nat option"
  llen :: size_t

record lstore =
  nodes :: "nat \<Rightarrow> lnode"
  hdrs :: "nat \<Rightarrow> lhdr"

definition upd_node :: "nat \<Rightarrow> (lnode \<Rightarrow> lnode) \<Rightarrow> lstore \<Rightarrow> lstore" where
  "upd_node n f st = st\<lparr>nodes := (nodes st)(n := f (nodes st n))\<rparr>"

definition upd_hdr :: "nat \<Rightarrow> (lhdr \<Rightarrow> lhdr) \<Rightarrow> lstore \<Rightarrow> lstore" where
  "upd_hdr a f st = st\<lparr>hdrs := (hdrs st)(a := f (hdrs st a))\<rparr>"

lemma upd_simps [simp]:
  "nodes (upd_node n f st) m = (if m = n then f (nodes st n) else nodes st m)"
  "hdrs (upd_node n f st) = hdrs st"
  "hdrs (upd_hdr a g st) b = (if b = a then g (hdrs st a) else hdrs st b)"
  "nodes (upd_hdr a g st) = nodes st"
  by (simp_all add: upd_node_def upd_hdr_def)

section \<open>The operations\<close>

text \<open>Deleting a node from its list, the first half of \<open>smemlistMoveNode\<close> and
  \<open>smemlistMoveNodeToDict\<close>.\<close>

definition unlink_node :: "nat \<Rightarrow> nat \<Rightarrow> lstore \<Rightarrow> lstore" where
  "unlink_node list_src node st =
     (let st1 = (case nprev (nodes st node) of
                   Some p \<Rightarrow> upd_node p (\<lambda>x. x\<lparr>nnext := nnext (nodes st node)\<rparr>) st
                 | None \<Rightarrow> upd_hdr list_src (\<lambda>l. l\<lparr>lhead := nnext (nodes st node)\<rparr>) st);
          st2 = (case nnext (nodes st1 node) of
                   Some q \<Rightarrow> upd_node q (\<lambda>x. x\<lparr>nprev := nprev (nodes st1 node)\<rparr>) st1
                 | None \<Rightarrow> upd_hdr list_src (\<lambda>l. l\<lparr>ltail := nprev (nodes st1 node)\<rparr>) st1)
      in upd_hdr list_src (\<lambda>l. l\<lparr>llen := llen l - 1\<rparr>) st2)"

definition smemlistAddNodeTail :: "nat \<Rightarrow> nat \<Rightarrow> lstore \<Rightarrow> lstore" where
  "smemlistAddNodeTail list_dst node st =
     upd_hdr list_dst (\<lambda>l. l\<lparr>llen := llen l + 1\<rparr>)
       (if llen (hdrs st list_dst) = 0 then
          upd_node node (\<lambda>x. x\<lparr>nprev := None, nnext := None\<rparr>)
            (upd_hdr list_dst (\<lambda>l. l\<lparr>lhead := Some node, ltail := Some node\<rparr>) st)
        else
          (let st1 = upd_node node (\<lambda>x. x\<lparr>nprev := None, nnext := lhead (hdrs st list_dst)\<rparr>) st;
               st2 = (case lhead (hdrs st1 list_dst) of
                        Some h \<Rightarrow> upd_node h (\<lambda>x. x\<lparr>nprev := Some node\<rparr>) st1
                      | None \<Rightarrow> st1)
           in upd_hdr list_dst (\<lambda>l. l\<lparr>lhead := Some node\<rparr>) st2))"

definition smemlistMoveNode :: "nat \<Rightarrow> nat \<Rightarrow> nat \<Rightarrow> lstore \<Rightarrow> lstore" where
  "smemlistMoveNode list_src list_dst node st =
     smemlistAddNodeTail list_dst node (unlink_node list_src node st)"

text \<open>The node itself is freed at the end, so only its value and the remaining list matter.\<close>

definition smemlistMoveNodeToDict_ptr :: "nat \<Rightarrow> nat \<Rightarrow> lstore \<Rightarrow> nat \<times> lstore" where
  "smemlistMoveNodeToDict_ptr list_src node st =
     (let st1 = upd_node node (\<lambda>x. x\<lparr>nprev := None, nnext := None\<rparr>) (unlink_node list_src node st)
      in (nvalue (nodes st1 node), st1))"

section \<open>Lists in the store\<close>

text \<open>\<open>chain h p ns q\<close>: the nodes \<open>ns\<close> are linked in both directions, after \<open>p\<close> and before
  \<open>q\<close>.\<close>

fun chain :: "(nat \<Rightarrow> lnode) \<Rightarrow> nat option \<Rightarrow> nat list \<Rightarrow> nat option \<Rightarrow> bool" where
  "chain h p [] q = True"
| "chain h p (n # ns) q \<longleftrightarrow>
     nprev (h n) = p \<and> nnext (h n) = (case ns of [] \<Rightarrow> q | m # _ \<Rightarrow> Some m) \<and> chain h (Some n) ns q"

definition first :: "nat list \<Rightarrow> nat option \<Rightarrow> nat option" where
  "first ns q = (case ns of [] \<Rightarrow> q | m # _ \<Rightarrow> Some m)"

definition final :: "nat option \<Rightarrow> nat list \<Rightarrow> nat option" where
  "final p ns = (if ns = [] then p else Some (last ns))"

definition is_dlist :: "lstore \<Rightarrow> nat \<Rightarrow> nat list \<Rightarrow> bool" where
  "is_dlist st a ns \<longleftrightarrow>
     distinct ns \<and> chain (nodes st) None ns None \<and> length ns < 2 ^ 64 \<and>
     lhead (hdrs st a) = first ns None \<and> ltail (hdrs st a) = final None ns \<and>
     llen (hdrs st a) = of_nat (length ns)"

lemma first_simps [simp]: "first [] q = q" "first (n # ns) q = Some n"
  "first (xs @ ns) q = first xs (first ns q)"
  by (simp_all add: first_def) (cases xs; simp)

lemma final_simps [simp]: "final p [] = p" "final p (ns @ [n]) = Some n" "final p (n # ns) = final (Some n) ns"
  "final p (ns @ ms) = final (final p ns) ms"
  by (simp_all add: final_def)

lemma chain_Cons: "chain h p (n # ns) q \<longleftrightarrow> nprev (h n) = p \<and> nnext (h n) = first ns q \<and> chain h (Some n) ns q"
  by (simp add: first_def)

lemma chain_append: "chain h p (xs @ ys) q \<longleftrightarrow> chain h p xs (first ys q) \<and> chain h (final p xs) ys q"
  by (induction xs arbitrary: p) (auto simp: chain_Cons simp del: chain.simps(2))

lemma chain_cong: "(\<And>n. n \<in> set ns \<Longrightarrow> nprev (h n) = nprev (h' n) \<and> nnext (h n) = nnext (h' n)) \<Longrightarrow> chain h p ns q = chain h' p ns q"
  by (induction ns arbitrary: p) (auto simp: chain_Cons simp del: chain.simps(2))

text \<open>Replacing what follows the last node, and what precedes the first.\<close>

lemma chain_set_next:
  assumes "chain h p (xs @ [a]) q" "a \<notin> set xs"
  shows "chain (h(a := (h a)\<lparr>nnext := q'\<rparr>)) p (xs @ [a]) q'"
proof -
  have "chain h p xs (Some a)" "nprev (h a) = final p xs" using assms(1) by (auto simp: chain_append)
  moreover have "chain (h(a := (h a)\<lparr>nnext := q'\<rparr>)) p xs (Some a) = chain h p xs (Some a)"
    by (rule chain_cong) (use assms(2) in auto)
  ultimately show ?thesis by (simp add: chain_append)
qed

lemma chain_set_prev:
  assumes "chain h p (b # ys) q" "b \<notin> set ys"
  shows "chain (h(b := (h b)\<lparr>nprev := p'\<rparr>)) p' (b # ys) q"
proof -
  have "chain (h(b := (h b)\<lparr>nprev := p'\<rparr>)) (Some b) ys q = chain h (Some b) ys q"
    by (rule chain_cong) (use assms(2) in auto)
  with assms(1) show ?thesis by (simp add: chain_Cons del: chain.simps(2))
qed

lemma is_dlist_frame:
  assumes "is_dlist st a ns" and "hdrs st' a = hdrs st a" and "\<And>n. n \<in> set ns \<Longrightarrow> nodes st' n = nodes st n"
  shows "is_dlist st' a ns"
  using assms chain_cong [of ns "nodes st'" "nodes st" None None] by (simp add: is_dlist_def)

section \<open>Refinement\<close>

definition link_next :: "nat option \<Rightarrow> nat option \<Rightarrow> (nat \<Rightarrow> lnode) \<Rightarrow> (nat \<Rightarrow> lnode)" where
  "link_next p q h = (case p of None \<Rightarrow> h | Some a \<Rightarrow> h(a := (h a)\<lparr>nnext := q\<rparr>))"

definition link_prev :: "nat option \<Rightarrow> nat option \<Rightarrow> (nat \<Rightarrow> lnode) \<Rightarrow> (nat \<Rightarrow> lnode)" where
  "link_prev p q h = (case q of None \<Rightarrow> h | Some b \<Rightarrow> h(b := (h b)\<lparr>nprev := p\<rparr>))"

lemma chain_link_next:
  assumes "chain h None pre (Some n)" "distinct pre"
  shows "chain (link_next (final None pre) q h) None pre q"
proof (cases pre rule: rev_cases)
  case (snoc xs a)
  with assms chain_set_next [of h None xs a "Some n" q] show ?thesis by (simp add: link_next_def)
qed simp

lemma chain_link_prev:
  assumes "chain h (Some n) post None" "distinct post"
  shows "chain (link_prev p (first post None) h) p post None"
proof (cases post)
  case (Cons b ys)
  with assms chain_set_prev [of h "Some n" b ys None p] show ?thesis by (simp add: link_prev_def del: chain.simps(2))
qed simp

lemma link_other:
  "p \<noteq> Some m \<Longrightarrow> link_next p q h m = h m" "q \<noteq> Some m \<Longrightarrow> link_prev p q h m = h m"
  "nvalue (link_next p q h m) = nvalue (h m)" "nvalue (link_prev p q h m) = nvalue (h m)"
  "nprev (link_next p q h m) = nprev (h m)" "nnext (link_prev p q h m) = nnext (h m)"
  by (auto simp: link_next_def link_prev_def split: option.split)

lemma final_in: "final None pre = Some m \<Longrightarrow> m \<in> set pre"
  by (auto simp: final_def split: if_splits)

lemma first_in: "first post None = Some m \<Longrightarrow> m \<in> set post"
  by (auto simp: first_def split: list.splits)

lemma unlink_nodes:
  assumes d: "is_dlist st a (pre @ n # post)"
  shows "nodes (unlink_node a n st) =
      link_prev (final None pre) (first post None) (link_next (final None pre) (first post None) (nodes st))"
    and "hdrs (unlink_node a n st) = (hdrs st)
      (a := \<lparr>lhead = first (pre @ post) None, ltail = final None (pre @ post), llen = llen (hdrs st a) - 1\<rparr>)"
proof -
  have pn: "nprev (nodes st n) = final None pre" "nnext (nodes st n) = first post None"
    using d by (auto simp: is_dlist_def chain_append chain_Cons simp del: chain.simps(2))
  have h: "lhead (hdrs st a) = first (pre @ n # post) None" "ltail (hdrs st a) = final None (pre @ n # post)"
    using d by (simp_all add: is_dlist_def)
  have nn: "final None pre \<noteq> Some n" "first post None \<noteq> Some n"
    using d final_in [of pre n] first_in [of post n] by (auto simp: is_dlist_def)
  let ?h1 = "link_next (final None pre) (first post None) (nodes st)"
  have h1n: "nprev (?h1 n) = final None pre" "nnext (?h1 n) = first post None"
    using link_other(1) [OF nn(1)] pn by simp_all
  show "nodes (unlink_node a n st) = link_prev (final None pre) (first post None) ?h1"
    using pn h1n unfolding unlink_node_def Let_def
    by (cases "final None pre"; cases "first post None")
      (auto simp: link_next_def link_prev_def upd_node_def upd_hdr_def fun_eq_iff)
  have "lhead (hdrs st a) = first (pre @ post) None" if "final None pre \<noteq> None"
    using that h(1) by (cases pre) simp_all
  moreover have "ltail (hdrs st a) = final None (pre @ post)" if "first post None \<noteq> None"
    using that h(2) by (cases post) simp_all
  moreover have "first (pre @ post) None = first post None" if "final None pre = None"
    using that by (cases pre) (auto simp: final_def split: if_splits)
  moreover have "final None (pre @ post) = final None pre" if "first post None = None"
    using that by (cases post) auto
  ultimately show "hdrs (unlink_node a n st) = (hdrs st)
      (a := \<lparr>lhead = first (pre @ post) None, ltail = final None (pre @ post), llen = llen (hdrs st a) - 1\<rparr>)"
    using pn h1n nn unfolding unlink_node_def Let_def
    by (cases "final None pre"; cases "first post None") (auto simp: fun_eq_iff simp del: first_simps(3) final_simps(4))
qed

lemma unlink_ok:
  assumes d: "is_dlist st a (pre @ n # post)"
  shows "is_dlist (unlink_node a n st) a (pre @ post)"
    and "m \<notin> set (pre @ post) \<Longrightarrow> nodes (unlink_node a n st) m = nodes st m"
    and "b \<noteq> a \<Longrightarrow> hdrs (unlink_node a n st) b = hdrs st b"
    and "nvalue (nodes (unlink_node a n st) m) = nvalue (nodes st m)"
proof -
  note U = unlink_nodes [OF d]
  let ?p = "final None pre" and ?q = "first post None"
  have dis: "distinct pre" "distinct post" "set pre \<inter> set post = {}" "length (pre @ post) < 2 ^ 64"
    using d by (auto simp: is_dlist_def)
  have cp: "chain (nodes st) None pre (Some n)" and cq: "chain (nodes st) (Some n) post None"
    using d by (auto simp: is_dlist_def chain_append chain_Cons simp del: chain.simps(2))
  let ?h1 = "link_next ?p ?q (nodes st)"
  have "chain (link_prev ?p ?q ?h1) None pre ?q = chain ?h1 None pre ?q"
    by (rule chain_cong) (metis dis(3) disjoint_iff first_in link_other(2))
  with chain_link_next [OF cp dis(1)] have "chain (link_prev ?p ?q ?h1) None pre ?q" by simp
  moreover have "chain ?h1 (Some n) post None = chain (nodes st) (Some n) post None"
    by (rule chain_cong) (metis dis(3) disjoint_iff final_in link_other(1))
  with chain_link_prev [OF _ dis(2), of ?h1 n ?p] cq have "chain (link_prev ?p ?q ?h1) ?p post None" by simp
  ultimately have "chain (nodes (unlink_node a n st)) None (pre @ post) None" by (simp add: U(1) chain_append)
  moreover have "llen (hdrs st a) - 1 = of_nat (length (pre @ post))" using d by (simp add: is_dlist_def)
  ultimately show "is_dlist (unlink_node a n st) a (pre @ post)"
    using dis by (simp add: is_dlist_def U(2))
  show "nodes (unlink_node a n st) m = nodes st m" if "m \<notin> set (pre @ post)"
  proof -
    have "?p \<noteq> Some m" "?q \<noteq> Some m" using that final_in [of pre m] first_in [of post m] by auto
    then show ?thesis unfolding U(1) by (simp add: link_other)
  qed
  show "b \<noteq> a \<Longrightarrow> hdrs (unlink_node a n st) b = hdrs st b" by (simp add: U(2))
  show "nvalue (nodes (unlink_node a n st) m) = nvalue (nodes st m)" by (simp add: U(1) link_other)
qed

lemma add_ok:
  assumes d: "is_dlist st a ns" and n: "n \<notin> set ns" and len: "Suc (length ns) < 2 ^ 64"
  shows "is_dlist (smemlistAddNodeTail a n st) a (n # ns)"
    and "m \<notin> set (n # ns) \<Longrightarrow> nodes (smemlistAddNodeTail a n st) m = nodes st m"
    and "b \<noteq> a \<Longrightarrow> hdrs (smemlistAddNodeTail a n st) b = hdrs st b"
    and "nvalue (nodes (smemlistAddNodeTail a n st) m) = nvalue (nodes st m)"
proof -
  have l0: "llen (hdrs st a) = 0 \<longleftrightarrow> ns = []"
    using d by (auto simp: is_dlist_def word_of_nat_eq_0_iff dest: nat_dvd_not_less)
  have "is_dlist (smemlistAddNodeTail a n st) a (n # ns) \<and>
    (\<forall>m. m \<notin> set (n # ns) \<longrightarrow> nodes (smemlistAddNodeTail a n st) m = nodes st m) \<and>
    (\<forall>b. b \<noteq> a \<longrightarrow> hdrs (smemlistAddNodeTail a n st) b = hdrs st b) \<and>
    (\<forall>m. nvalue (nodes (smemlistAddNodeTail a n st) m) = nvalue (nodes st m))"
  proof (cases ns)
    case Nil
    with d l0 show ?thesis by (auto simp: smemlistAddNodeTail_def is_dlist_def)
  next
    case (Cons b ys)
    with d have h: "lhead (hdrs st a) = Some b" by (simp add: is_dlist_def)
    let ?st = "upd_node b (\<lambda>x. x\<lparr>nprev := Some n\<rparr>) (upd_node n (\<lambda>x. x\<lparr>nprev := None, nnext := Some b\<rparr>) st)"
    have e: "smemlistAddNodeTail a n st = upd_hdr a (\<lambda>l. l\<lparr>llen := llen l + 1\<rparr>) (upd_hdr a (\<lambda>l. l\<lparr>lhead := Some n\<rparr>) ?st)"
      using l0 Cons h by (simp add: smemlistAddNodeTail_def Let_def)
    have "chain (nodes st) None (b # ys) None" "b \<notin> set ys" using d Cons by (auto simp: is_dlist_def)
    from chain_set_prev [OF this, of "Some n"]
    have "chain (nodes ?st) (Some n) (b # ys) None"
      by (rule chain_cong [THEN iffD1, rotated]) (use n Cons in auto)
    moreover have "nprev (nodes ?st n) = None" "nnext (nodes ?st n) = Some b" using n Cons by auto
    ultimately have "chain (nodes ?st) None (n # ns) None" using Cons by (simp add: chain_Cons del: chain.simps(2))
    with d n len Cons have "is_dlist (smemlistAddNodeTail a n st) a (n # ns)"
      by (auto simp: is_dlist_def e simp del: chain.simps(2))
    then show ?thesis using Cons by (auto simp: e)
  qed
  then show "is_dlist (smemlistAddNodeTail a n st) a (n # ns)"
    "m \<notin> set (n # ns) \<Longrightarrow> nodes (smemlistAddNodeTail a n st) m = nodes st m"
    "b \<noteq> a \<Longrightarrow> hdrs (smemlistAddNodeTail a n st) b = hdrs st b"
    "nvalue (nodes (smemlistAddNodeTail a n st) m) = nvalue (nodes st m)" by blast+
qed

section \<open>Properties\<close>

abbreviation values_of :: "lstore \<Rightarrow> nat list \<Rightarrow> nat list" where
  "values_of st ns \<equiv> map (\<lambda>n. nvalue (nodes st n)) ns"

text \<open>C25: \<open>smemlistMoveNode\<close> on linked nodes takes the node out of its list and puts it at the
  head of the other list, or of the same one, keeping both well-formed; it computes what the
  channel tables of \<open>SMEMSWITCH\<close> are updated with.\<close>

theorem smemlistMoveNode_refines:
  assumes src: "is_dlist st a (pre @ n # post)" and dst: "is_dlist st b ds"
    and ab: "a \<noteq> b" "set ds \<inter> set (pre @ n # post) = {}" "Suc (length ds) < 2 ^ 64"
    and m: "m ch = Some (values_of st (pre @ n # post))" "m ch' = Some (values_of st ds)" "ch \<noteq> ch'"
    and r: "st' = smemlistMoveNode a b n st"
  shows "is_dlist st' a (pre @ post) \<and> is_dlist st' b (n # ds) \<and>
    moveNode ch (length pre) ch' m = m(ch \<mapsto> values_of st' (pre @ post), ch' \<mapsto> values_of st' (n # ds)) \<and>
    is_dlist (smemlistMoveNode a a n st) a (n # pre @ post)"
proof -
  note U = unlink_ok [OF src]
  have b1: "is_dlist (unlink_node a n st) b ds"
    by (rule is_dlist_frame [OF dst]) (use U(2,3) ab in auto)
  have nds: "n \<notin> set ds" using ab(2) by auto
  note A = add_ok [OF b1 nds ab(3)]
  have "is_dlist st' a (pre @ post)"
    unfolding r smemlistMoveNode_def
  proof (rule is_dlist_frame [OF U(1)])
    show "hdrs (smemlistAddNodeTail b n (unlink_node a n st)) a = hdrs (unlink_node a n st) a" using A(3) ab(1) by simp
    fix k assume k: "k \<in> set (pre @ post)"
    have "k \<notin> set (n # ds)" using k src ab(2) by (auto simp: is_dlist_def)
    then show "nodes (smemlistAddNodeTail b n (unlink_node a n st)) k = nodes (unlink_node a n st) k" by (rule A(2))
  qed
  moreover have v: "nvalue (nodes st' k) = nvalue (nodes st k)" for k
    unfolding r smemlistMoveNode_def using A(4) U(4) by simp
  moreover have "moveNode ch (length pre) ch' m = m(ch \<mapsto> values_of st (pre @ post), ch' \<mapsto> values_of st (n # ds))"
    using m by (auto simp: moveNode_def Let_def nth_append)
  moreover have "n \<notin> set (pre @ post)" "Suc (length (pre @ post)) < 2 ^ 64" using src by (auto simp: is_dlist_def)
  ultimately show ?thesis using A(1) add_ok(1) [OF U(1)] by (simp add: r smemlistMoveNode_def)
qed

definition demo_store :: lstore where
  "demo_store = \<lparr>nodes = (\<lambda>n. if n = 1 then \<lparr>nprev = None, nnext = Some 2, nvalue = 10\<rparr>
       else if n = 2 then \<lparr>nprev = Some 1, nnext = None, nvalue = 20\<rparr>
       else \<lparr>nprev = None, nnext = None, nvalue = 30\<rparr>),
     hdrs = (\<lambda>a. if a = 0 then \<lparr>lhead = Some 1, ltail = Some 2, llen = 2\<rparr>
       else \<lparr>lhead = Some 3, ltail = Some 3, llen = 1\<rparr>)\<rparr>"

theorem smemlistMoveNode_refines_witness:
  "is_dlist (smemlistMoveNode 0 5 2 demo_store) 5 [2, 3]"
  using smemlistMoveNode_refines [where st = demo_store and a = 0 and pre = "[1]" and n = 2 and post = "[]" and b = 5 and ds = "[3]"
      and m = "[''a'' \<mapsto> [10, 20], ''b'' \<mapsto> [30]]" and ch = "''a''" and ch' = "''b''"]
  by (simp add: is_dlist_def demo_store_def)

text \<open>\<open>smemlistAddNodeTail\<close>, despite its name and the comment, adds at the head of the list.\<close>

theorem smemlistAddNodeTail_adds_at_head:
  assumes "is_dlist st a ns" and "n \<notin> set ns" and "Suc (length ns) < 2 ^ 64"
  shows "is_dlist (smemlistAddNodeTail a n st) a (n # ns)"
  using add_ok(1) [OF assms] .

theorem smemlistAddNodeTail_adds_at_head_witness:
  "is_dlist (smemlistAddNodeTail 0 3 demo_store) 0 [3, 1, 2]"
  using smemlistAddNodeTail_adds_at_head [where st = demo_store and a = 0 and ns = "[1, 2]" and n = 3]
  by (simp add: is_dlist_def demo_store_def)

text \<open>\<open>smemlistMoveNodeToDict\<close> removes exactly the node and returns its buffer: on values it is
  the removal by position used for \<open>SMEMGET\<close>.\<close>

theorem smemlistMoveNodeToDict_refines:
  assumes src: "is_dlist st a (pre @ n # post)"
    and r: "smemlistMoveNodeToDict_ptr a n st = (v, st')"
  shows "is_dlist st' a (pre @ post) \<and> v = values_of st (pre @ n # post) ! length pre \<and>
    values_of st' (pre @ post) =
      take (length pre) (values_of st (pre @ n # post)) @ drop (Suc (length pre)) (values_of st (pre @ n # post))"
proof -
  note U = unlink_ok [OF src]
  have st': "st' = upd_node n (\<lambda>x. x\<lparr>nprev := None, nnext := None\<rparr>) (unlink_node a n st)"
    and v: "v = nvalue (nodes (unlink_node a n st) n)"
    using r by (auto simp: smemlistMoveNodeToDict_ptr_def Let_def)
  have "n \<notin> set (pre @ post)" using src by (auto simp: is_dlist_def)
  then have "is_dlist st' a (pre @ post)"
    by (intro is_dlist_frame [OF U(1)]) (auto simp: st')
  moreover have "nvalue (nodes st' k) = nvalue (nodes st k)" for k using U(4) by (simp add: st')
  ultimately show ?thesis using v U(4) [of n] by (simp add: nth_append)
qed

theorem smemlistMoveNodeToDict_refines_witness:
  "is_dlist (snd (smemlistMoveNodeToDict_ptr 0 1 demo_store)) 0 [2] \<and> fst (smemlistMoveNodeToDict_ptr 0 1 demo_store) = 10"
  using smemlistMoveNodeToDict_refines [where st = demo_store and a = 0 and pre = "[]" and n = 1 and post = "[2]", OF _ surjective_pairing]
  by (simp add: is_dlist_def demo_store_def)

end
