(* ===== verification/Redis_Write.thy ===== *)
theory Redis_Write
  imports Redis_Reply
begin

text \<open>
  Sending replies: the loop of \<open>writeToClient\<close> in \<open>redis/src/networking.c\<close>, which hands the
  static buffer and then the objects of the reply list to the socket. The results of the
  successive \<open>write\<close> calls are an argument: \<open>ws\<close> lists what the socket would accept; a call
  never accepts more than it is given, and \<open>-1\<close> is an error, also when the list is used up.
\<close>

abbreviation (input) "NET_MAX_WRITES_PER_EVENT \<equiv> (64 * 1024 :: nat)"

definition sys_write :: "int list \<Rightarrow> nat \<Rightarrow> int" where
  "sys_write ws n = (case ws of [] \<Rightarrow> -1 | x # _ \<Rightarrow> min x (int n))"

record write_result =
  sent :: string
  nwritten :: int
  totwritten :: nat
  counted :: nat
  writer :: client
  rest_ws :: "int list"

text \<open>\<open>capped\<close> says whether the limit on the bytes of one call applies (no memory limit is set or
  it is not reached). \<open>counted\<close> is what is added to \<open>server.stat_net_output_bytes\<close>.\<close>

definition advance_buf :: "nat \<Rightarrow> client \<Rightarrow> client" where
  "advance_buf k c =
     (if sentlen c + k = bufpos c then c\<lparr>buf := [], sentlen := 0\<rparr> else c\<lparr>sentlen := sentlen c + k\<rparr>)"

definition pop_reply :: "alloc \<Rightarrow> client \<Rightarrow> client" where
  "pop_reply A c =
     c\<lparr>reply := tl (reply c), reply_bytes := reply_bytes c - getStringObjectSdsUsedMemory A (hd (reply c))\<rparr>"

definition advance_reply :: "alloc \<Rightarrow> nat \<Rightarrow> client \<Rightarrow> client" where
  "advance_reply A k c =
     (if sentlen c + k = length (robj_bytes (hd (reply c))) then (pop_reply A c)\<lparr>sentlen := 0\<rparr>
      else c\<lparr>sentlen := sentlen c + k\<rparr>)"

text \<open>The two branches of the loop body differ in the buffer they send from.\<close>

definition front :: "client \<Rightarrow> string" where
  "front c = (if bufpos c > 0 then buf c else robj_bytes (hd (reply c)))"

definition advance :: "alloc \<Rightarrow> nat \<Rightarrow> client \<Rightarrow> client" where
  "advance A k c = (if bufpos c > 0 then advance_buf k c else advance_reply A k c)"

definition empty_object :: "client \<Rightarrow> bool" where
  "empty_object c \<longleftrightarrow> bufpos c = 0 \<and> length (front c) = 0"

definition add_sent :: "string \<Rightarrow> nat \<Rightarrow> write_result \<Rightarrow> write_result" where
  "add_sent bs t r = r\<lparr>sent := bs @ sent r, counted := t + counted r\<rparr>"

lemma sys_write_le: "0 < sys_write ws n \<Longrightarrow> nat (sys_write ws n) \<le> n"
  by (auto simp: sys_write_def split: list.splits)

function write_loop :: "alloc \<Rightarrow> (client \<Rightarrow> bool) \<Rightarrow> int list \<Rightarrow> int \<Rightarrow> nat \<Rightarrow> client \<Rightarrow> write_result" where
  "write_loop A capped ws nw tot c =
     (if \<not> clientHasPendingReplies c then
        \<lparr>sent = [], nwritten = nw, totwritten = tot, counted = 0, writer = c, rest_ws = ws\<rparr>
      else if empty_object c then write_loop A capped ws nw tot (pop_reply A c)
      else
        (let r = sys_write ws (length (front c) - sentlen c);
             k = nat r;
             c1 = advance A k c;
             bs = take k (drop (sentlen c) (front c))
         in if r \<le> 0 then \<lparr>sent = [], nwritten = r, totwritten = tot, counted = 0, writer = c, rest_ws = tl ws\<rparr>
            else if tot + k > NET_MAX_WRITES_PER_EVENT \<and> capped c1 then
              \<lparr>sent = bs, nwritten = r, totwritten = tot + k, counted = tot + k, writer = c1, rest_ws = tl ws\<rparr>
            else add_sent bs (tot + k) (write_loop A capped (tl ws) r (tot + k) c1)))"
  by pat_completeness auto

definition to_send :: "client \<Rightarrow> nat" where
  "to_send c = length (reply c) + (length (out_bytes c) - sentlen c)"

lemma advance_less:
  assumes "clientHasPendingReplies c" and "0 < k" and "k \<le> length (front c) - sentlen c"
  shows "to_send (advance A k c) < to_send c"
proof (cases "buf c = []")
  case True
  then obtain x xs where "reply c = x # xs" using assms(1) by (cases "reply c") (auto simp: clientHasPendingReplies_def)
  with True assms(2,3) show ?thesis
    by (auto simp: to_send_def front_def advance_def advance_reply_def pop_reply_def out_bytes_def)
next
  case False
  with assms(2,3) show ?thesis
    by (cases "sentlen c + k = bufpos c") (simp_all add: to_send_def front_def advance_def advance_buf_def out_bytes_def)
qed

lemma pop_reply_less:
  "clientHasPendingReplies c \<Longrightarrow> empty_object c \<Longrightarrow> to_send (pop_reply A c) < to_send c"
  by (cases "reply c") (auto simp: empty_object_def clientHasPendingReplies_def to_send_def pop_reply_def front_def out_bytes_def)

termination write_loop
proof (relation "measure (\<lambda>(A, capped, ws, nw, tot, c). to_send c)", goal_cases)
  case 1
  then show ?case by simp
next
  case (2 A capped ws nw tot c)
  then show ?case using pop_reply_less [of c A] by simp
next
  case (3 A capped ws nw tot c r k c1 bs)
  then show ?case using advance_less [of c "nat r" A] sys_write_le [of ws "length (front c) - sentlen c"] by simp
qed

declare write_loop.simps [simp del]

lemma write_loop_none:
  "\<not> clientHasPendingReplies c \<Longrightarrow>
     write_loop A capped ws nw tot c = \<lparr>sent = [], nwritten = nw, totwritten = tot, counted = 0, writer = c, rest_ws = ws\<rparr>"
  by (simp add: write_loop.simps [of A capped ws nw tot c])

lemma write_loop_empty:
  "clientHasPendingReplies c \<Longrightarrow> empty_object c \<Longrightarrow> write_loop A capped ws nw tot c = write_loop A capped ws nw tot (pop_reply A c)"
  by (simp add: write_loop.simps [of A capped ws nw tot c])

lemma write_loop_refused:
  "clientHasPendingReplies c \<Longrightarrow> \<not> empty_object c \<Longrightarrow> r = sys_write ws (length (front c) - sentlen c) \<Longrightarrow> r \<le> 0 \<Longrightarrow>
     write_loop A capped ws nw tot c = \<lparr>sent = [], nwritten = r, totwritten = tot, counted = 0, writer = c, rest_ws = tl ws\<rparr>"
  by (simp add: write_loop.simps [of A capped ws nw tot c])

lemma write_loop_stop:
  "clientHasPendingReplies c \<Longrightarrow> \<not> empty_object c \<Longrightarrow> r = sys_write ws (length (front c) - sentlen c) \<Longrightarrow> 0 < r \<Longrightarrow>
     tot + nat r > NET_MAX_WRITES_PER_EVENT \<and> capped (advance A (nat r) c) \<Longrightarrow>
     write_loop A capped ws nw tot c = \<lparr>sent = take (nat r) (drop (sentlen c) (front c)), nwritten = r, totwritten = tot + nat r,
       counted = tot + nat r, writer = advance A (nat r) c, rest_ws = tl ws\<rparr>"
  by (simp add: write_loop.simps [of A capped ws nw tot c] Let_def)

lemma write_loop_more:
  "clientHasPendingReplies c \<Longrightarrow> \<not> empty_object c \<Longrightarrow> r = sys_write ws (length (front c) - sentlen c) \<Longrightarrow> 0 < r \<Longrightarrow>
     \<not> (tot + nat r > NET_MAX_WRITES_PER_EVENT \<and> capped (advance A (nat r) c)) \<Longrightarrow>
     write_loop A capped ws nw tot c = add_sent (take (nat r) (drop (sentlen c) (front c))) (tot + nat r)
       (write_loop A capped (tl ws) r (tot + nat r) (advance A (nat r) c))"
  by (simp only: write_loop.simps [of A capped ws nw tot c] Let_def if_False if_True simp_thms linorder_not_le [symmetric])

section \<open>What the loop sends\<close>

text \<open>The part already sent lies in the buffer in front: the static one, or else the first object.\<close>

definition send_wf :: "client \<Rightarrow> bool" where
  "send_wf c \<longleftrightarrow>
     (if buf c \<noteq> [] then sentlen c < bufpos c
      else case reply c of [] \<Rightarrow> sentlen c = 0 | x # _ \<Rightarrow> sentlen c = 0 \<or> sentlen c < length (robj_bytes x))"

definition reply_mem :: "alloc \<Rightarrow> client \<Rightarrow> size_t" where
  "reply_mem A c = sum_list (map (getStringObjectSdsUsedMemory A) (reply c))"

lemma advance_sends:
  assumes wf: "send_wf c" and p: "clientHasPendingReplies c" and k: "0 < k" "k \<le> length (front c) - sentlen c"
  shows "take k (drop (sentlen c) (front c)) @ pending (advance A k c) = pending c"
    and "send_wf (advance A k c)"
    and "reply_bytes c = reply_mem A c \<longrightarrow> reply_bytes (advance A k c) = reply_mem A (advance A k c)"
proof -
  have split: "drop (sentlen c) f = take k (drop (sentlen c) f) @ drop (sentlen c + k) f" for f :: string
    by (metis add.commute append_take_drop_id drop_drop)
  consider (buf) "buf c \<noteq> []" | (obj) x xs where "buf c = []" "reply c = x # xs"
    using p by (cases "reply c") (auto simp: clientHasPendingReplies_def)
  then have "take k (drop (sentlen c) (front c)) @ pending (advance A k c) = pending c \<and> send_wf (advance A k c) \<and>
    (reply_bytes c = reply_mem A c \<longrightarrow> reply_bytes (advance A k c) = reply_mem A (advance A k c))"
  proof cases
    case buf
    then show ?thesis using wf k split [of "buf c"]
      by (auto simp: advance_def front_def advance_buf_def pending_def out_bytes_def send_wf_def reply_mem_def split: list.splits)
  next
    case obj
    then show ?thesis using wf k split [of "robj_bytes x"]
      by (auto simp: advance_def front_def advance_reply_def pop_reply_def pending_def out_bytes_def send_wf_def reply_mem_def split: list.splits)
  qed
  then show "take k (drop (sentlen c) (front c)) @ pending (advance A k c) = pending c" "send_wf (advance A k c)"
    "reply_bytes c = reply_mem A c \<longrightarrow> reply_bytes (advance A k c) = reply_mem A (advance A k c)" by blast+
qed

lemma pop_empty_reply:
  assumes "send_wf c" and "clientHasPendingReplies c" and "empty_object c"
  shows "pending (pop_reply A c) = pending c" and "send_wf (pop_reply A c)"
    and "reply_bytes c = reply_mem A c \<longrightarrow> reply_bytes (pop_reply A c) = reply_mem A (pop_reply A c)"
proof -
  obtain x xs where "reply c = x # xs" "buf c = []" using assms(2,3) by (cases "reply c") (auto simp: clientHasPendingReplies_def empty_object_def)
  then show "pending (pop_reply A c) = pending c" "send_wf (pop_reply A c)"
    "reply_bytes c = reply_mem A c \<longrightarrow> reply_bytes (pop_reply A c) = reply_mem A (pop_reply A c)"
    using assms by (auto simp: empty_object_def front_def pop_reply_def pending_def out_bytes_def send_wf_def reply_mem_def split: list.splits)
qed

lemma no_pending_bytes: "\<not> clientHasPendingReplies c \<Longrightarrow> pending c = []"
  by (simp add: clientHasPendingReplies_def pending_def out_bytes_def)

definition sends :: "alloc \<Rightarrow> nat \<Rightarrow> client \<Rightarrow> write_result \<Rightarrow> bool" where
  "sends A tot c r \<longleftrightarrow> sent r @ pending (writer r) = pending c \<and> send_wf (writer r) \<and>
     totwritten r = tot + length (sent r) \<and> (reply_bytes c = reply_mem A c \<longrightarrow> reply_bytes (writer r) = reply_mem A (writer r))"

lemma sends_add:
  assumes "sends A (tot + k) c1 r" and "bs @ pending c1 = pending c" and "length bs = k"
    and "reply_bytes c = reply_mem A c \<longrightarrow> reply_bytes c1 = reply_mem A c1"
  shows "sends A tot c (add_sent bs t r)"
  using assms by (auto simp: sends_def add_sent_def)

lemma write_loop_sends: "send_wf c \<Longrightarrow> sends A tot c (write_loop A capped ws nw tot c)"
proof (induction A capped ws nw tot c rule: write_loop.induct)
  case (1 A capped ws nw tot c)
  let ?r = "sys_write ws (length (front c) - sentlen c)"
  let ?bs = "take (nat ?r) (drop (sentlen c) (front c))" and ?c1 = "advance A (nat ?r) c"
  let ?stop = "tot + nat ?r > NET_MAX_WRITES_PER_EVENT \<and> capped ?c1"
  consider (none) "\<not> clientHasPendingReplies c" | (empty) "clientHasPendingReplies c" "empty_object c"
    | (refused) "clientHasPendingReplies c" "\<not> empty_object c" "?r \<le> 0"
    | (written) "clientHasPendingReplies c" "\<not> empty_object c" "0 < ?r" by linarith
  then show ?case
  proof cases
    case none
    then show ?thesis using 1(3) by (simp add: write_loop_none sends_def)
  next
    case empty
    note p = pop_empty_reply [OF 1(3) empty, of A]
    have "sends A tot (pop_reply A c) (write_loop A capped ws nw tot (pop_reply A c))" using 1(1) empty p(2) by simp
    then show ?thesis using p by (simp add: write_loop_empty [OF empty] sends_def)
  next
    case refused
    then show ?thesis using 1(3) by (simp add: write_loop_refused [OF refused(1,2) refl refused(3)] sends_def)
  next
    case written
    have a: "?bs @ pending ?c1 = pending c" "send_wf ?c1" "length ?bs = nat ?r"
      "reply_bytes c = reply_mem A c \<longrightarrow> reply_bytes ?c1 = reply_mem A ?c1"
      using advance_sends [OF 1(3) written(1), of "nat ?r" A] sys_write_le [of ws "length (front c) - sentlen c"] written(3) by simp_all
    show ?thesis
    proof (cases ?stop)
      case True
      then show ?thesis using a by (simp add: write_loop_stop [where A = A and capped = capped, OF written(1,2) refl written(3) True] sends_def)
    next
      case more: False
      have "sends A (tot + nat ?r) ?c1 (write_loop A capped (tl ws) ?r (tot + nat ?r) ?c1)" using 1(2) written more a(2) by simp
      from sends_add [OF this a(1,3,4)] show ?thesis by (simp only: write_loop_more [where A = A and capped = capped, OF written(1,2) refl written(3) more])
    qed
  qed
qed

text \<open>A socket that takes at least one byte per call empties the buffers in as many calls as there are
  bytes, unless the limit on one call stops the loop.\<close>

lemma write_loop_drains:
  "send_wf c \<Longrightarrow> \<forall>x\<in>set ws. 1 \<le> x \<Longrightarrow> length (pending c) \<le> length ws \<Longrightarrow> \<forall>c. \<not> capped c \<Longrightarrow>
     \<not> clientHasPendingReplies (writer (write_loop A capped ws nw tot c)) \<and>
     (nwritten (write_loop A capped ws nw tot c) = nw \<or> 0 < nwritten (write_loop A capped ws nw tot c))"
proof (induction A capped ws nw tot c rule: write_loop.induct)
  case (1 A capped ws nw tot c)
  let ?r = "sys_write ws (length (front c) - sentlen c)"
  let ?c1 = "advance A (nat ?r) c"
  consider (none) "\<not> clientHasPendingReplies c" | (empty) "clientHasPendingReplies c" "empty_object c"
    | (some) "clientHasPendingReplies c" "\<not> empty_object c" by blast
  then show ?case
  proof cases
    case none
    then show ?thesis by (simp add: write_loop_none)
  next
    case empty
    note p = pop_empty_reply [OF 1(3) empty, of A]
    show ?thesis unfolding write_loop_empty [OF empty] by (rule 1(1)) (use 1(4,5,6) empty p in simp_all)
  next
    case some
    have n: "0 < length (front c) - sentlen c"
      using 1(3) some by (cases "reply c") (auto simp: send_wf_def front_def clientHasPendingReplies_def empty_object_def split: if_splits)
    have "length (front c) - sentlen c \<le> length (pending c)"
      using some by (cases "reply c") (auto simp: front_def pending_def out_bytes_def clientHasPendingReplies_def)
    with n 1(5) obtain x xs where ws: "ws = x # xs" by (cases ws) auto
    with n 1(4) have r: "0 < ?r" by (simp add: sys_write_def)
    note a = advance_sends [OF 1(3) some(1), of "nat ?r" A]
    have k: "0 < nat ?r" "nat ?r \<le> length (front c) - sentlen c" using r sys_write_le by auto
    have less: "length (pending ?c1) < length (pending c)"
      using arg_cong [OF a(1) [OF k], of length] k by (simp del: zero_less_nat_eq)
    have more: "\<not> (tot + nat ?r > NET_MAX_WRITES_PER_EVENT \<and> capped ?c1)" using 1(6) by blast
    have "\<not> clientHasPendingReplies (writer (write_loop A capped (tl ws) ?r (tot + nat ?r) ?c1)) \<and>
        (nwritten (write_loop A capped (tl ws) ?r (tot + nat ?r) ?c1) = ?r \<or> 0 < nwritten (write_loop A capped (tl ws) ?r (tot + nat ?r) ?c1))"
      by (rule 1(2) [OF _ _ refl refl refl]) (use some r more a(2) [OF k] 1(4,5,6) ws less in auto)
    then show ?thesis unfolding write_loop_more [where A = A and capped = capped, OF some refl r more] using r by (auto simp: add_sent_def)
  qed
qed

end
