(* ===== verification/Redis_Proto.thy ===== *)
theory Redis_Proto
  imports Redis_Reply
begin

text \<open>
  The request parser of \<open>redis/src/networking.c\<close>: inline and multi bulk requests, the
  reset between commands and the loop over the query buffer. The parser works on one
  \<open>client\<close>; a protocol error is a value that the caller turns into a reply. Parsed
  arguments are byte strings. Code of other files is a parameter: \<open>string2ll\<close>
  (util.c), \<open>sdssplitargs\<close> (sds.c), \<open>processCommand\<close> and \<open>clientsArePaused\<close>.
\<close>

section \<open>Strings\<close>

text \<open>\<open>strchr\<close>: the first occurrence before the terminating NUL.\<close>

fun strchr :: "char \<Rightarrow> string \<Rightarrow> nat option" where
  "strchr ch [] = None"
| "strchr ch (x # xs) = (if x = ch then Some 0 else if x = CHR 0x00 then None else map_option Suc (strchr ch xs))"

abbreviation (input) "PROTO_INLINE_MAX_SIZE \<equiv> (65536 :: nat)"
abbreviation (input) "PROTO_MBULK_BIG_ARG \<equiv> (32768 :: int)"
abbreviation (input) "PROTO_REQ_INLINE \<equiv> (1 :: int)"
abbreviation (input) "PROTO_REQ_MULTIBULK \<equiv> (2 :: int)"

text \<open>The outcome of a parsing step: a complete request, more data needed, a protocol error
  with its message, or a failed assertion.\<close>

datatype pstatus = POk | PWait | PError string | PAssert

section \<open>Resetting\<close>

definition freeClientArgv :: "client \<Rightarrow> client" where
  "freeClientArgv c = c\<lparr>argv := [], cmd := None\<rparr>"

definition resetClient :: "client \<Rightarrow> client" where
  "resetClient c =
     (let prevcmd = cmd c;
          c1 = (freeClientArgv c)\<lparr>reqtype := 0, multibulklen := 0, bulklen := -1\<rparr>;
          c2 = (if \<not> bit (flags c1) CLIENT_MULTI \<and> prevcmd \<noteq> Some ''asking''
                then c1\<lparr>flags := unset_bit CLIENT_ASKING (flags c1)\<rparr> else c1);
          c3 = c2\<lparr>flags := unset_bit CLIENT_REPLY_SKIP (flags c2)\<rparr>
      in if bit (flags c3) CLIENT_REPLY_SKIP_NEXT
         then c3\<lparr>flags := unset_bit CLIENT_REPLY_SKIP_NEXT (set_bit CLIENT_REPLY_SKIP (flags c3))\<rparr>
         else c3)"

section \<open>Inline requests\<close>

text \<open>The time stamp that a bare newline of a slave refreshes is not modelled.\<close>

definition processInlineBuffer :: "(string \<Rightarrow> string list option) \<Rightarrow> client \<Rightarrow> pstatus \<times> client" where
  "processInlineBuffer sdssplitargs c =
     (case strchr (CHR 0x0A) (querybuf c) of
        None \<Rightarrow>
          if length (querybuf c) > PROTO_INLINE_MAX_SIZE
          then (PError ''Protocol error: too big inline request'', c)
          else (PWait, c)
      | Some newline \<Rightarrow>
          (let querylen = (if newline \<noteq> 0 \<and> querybuf c ! (newline - 1) = CHR 0x0D then newline - 1 else newline)
           in case sdssplitargs (take querylen (querybuf c)) of
                None \<Rightarrow> (PError ''Protocol error: unbalanced quotes in request'', c)
              | Some args \<Rightarrow>
                  (POk, c\<lparr>querybuf := drop (querylen + 2) (querybuf c), argv := filter (\<lambda>x. x \<noteq> []) args\<rparr>)))"

section \<open>Multi bulk requests\<close>

text \<open>The loop over the arguments, \<open>n\<close> of them left; it returns with the position up to
  which the buffer is consumed.\<close>

fun mb_loop :: "(string \<Rightarrow> int option) \<Rightarrow> nat \<Rightarrow> nat \<Rightarrow> client \<Rightarrow> pstatus \<times> nat \<times> client"
  and mb_arg :: "(string \<Rightarrow> int option) \<Rightarrow> nat \<Rightarrow> nat \<Rightarrow> client \<Rightarrow> pstatus \<times> nat \<times> client" where
  "mb_loop string2ll 0 pos c = (POk, pos, c)"
| "mb_loop string2ll (Suc n) pos c =
     (if bulklen c = -1 then
        (case strchr (CHR 0x0D) (drop pos (querybuf c)) of
           None \<Rightarrow>
             if length (querybuf c) > PROTO_INLINE_MAX_SIZE
             then (PError ''Protocol error: too big bulk count string'', 0, c)
             else (PWait, pos, c)
         | Some j \<Rightarrow>
             if int (pos + j) > int (length (querybuf c)) - 2 then (PWait, pos, c)
             else if querybuf c ! pos \<noteq> CHR ''$'' then
               (PError (''Protocol error: expected '' @ [CHR 0x27, CHR ''$'', CHR 0x27] @ '', got '' @
                        [CHR 0x27, querybuf c ! pos, CHR 0x27]), pos, c)
             else
               (case string2ll (take (j - 1) (drop (pos + 1) (querybuf c))) of
                  None \<Rightarrow> (PError ''Protocol error: invalid bulk length'', pos, c)
                | Some ll \<Rightarrow>
                    if ll < 0 \<or> ll > 512 * 1024 * 1024
                    then (PError ''Protocol error: invalid bulk length'', pos, c)
                    else if ll \<ge> PROTO_MBULK_BIG_ARG
                    then mb_arg string2ll n 0 (c\<lparr>querybuf := drop (pos + j + 2) (querybuf c), bulklen := ll\<rparr>)
                    else mb_arg string2ll n (pos + j + 2) (c\<lparr>bulklen := ll\<rparr>)))
      else mb_arg string2ll n pos c)"
| "mb_arg string2ll n pos c =
     (if int (length (querybuf c) - pos) < bulklen c + 2 then (PWait, pos, c)
      else if pos = 0 \<and> bulklen c \<ge> PROTO_MBULK_BIG_ARG \<and> int (length (querybuf c)) = bulklen c + 2
      then mb_loop string2ll n 0
             (c\<lparr>argv := argv c @ [take (length (querybuf c) - 2) (querybuf c)], querybuf := [],
                bulklen := -1, multibulklen := int n\<rparr>)
      else mb_loop string2ll n (pos + nat (bulklen c + 2))
             (c\<lparr>argv := argv c @ [take (nat (bulklen c)) (drop pos (querybuf c))],
                bulklen := -1, multibulklen := int n\<rparr>))"

declare mb_loop.simps(2) [simp del] mb_arg.simps [simp del]

definition mb_args :: "(string \<Rightarrow> int option) \<Rightarrow> nat \<Rightarrow> client \<Rightarrow> pstatus \<times> client" where
  \<comment> \<open>the loop and the trimming of the buffer after it\<close>
  "mb_args string2ll pos c =
     (if \<not> multibulklen c > 0 then (PAssert, c)
      else case mb_loop string2ll (nat (multibulklen c)) pos c of
             (st, pos', c') \<Rightarrow> (st, c'\<lparr>querybuf := drop pos' (querybuf c')\<rparr>))"

definition processMultibulkBuffer :: "(string \<Rightarrow> int option) \<Rightarrow> client \<Rightarrow> pstatus \<times> client" where
  "processMultibulkBuffer string2ll c =
     (if multibulklen c = 0 then
        (if argv c \<noteq> [] then (PAssert, c)
         else case strchr (CHR 0x0D) (querybuf c) of
           None \<Rightarrow>
             if length (querybuf c) > PROTO_INLINE_MAX_SIZE
             then (PError ''Protocol error: too big mbulk count string'', c)
             else (PWait, c)
         | Some newline \<Rightarrow>
             if int newline > int (length (querybuf c)) - 2 then (PWait, c)
             else if querybuf c ! 0 \<noteq> CHR ''*'' then (PAssert, c)
             else
               (case string2ll (take (newline - 1) (drop 1 (querybuf c))) of
                  None \<Rightarrow> (PError ''Protocol error: invalid multibulk length'', c)
                | Some ll \<Rightarrow>
                    if ll > 1024 * 1024 then (PError ''Protocol error: invalid multibulk length'', c)
                    else if ll \<le> 0 then (POk, c\<lparr>querybuf := drop (newline + 2) (querybuf c)\<rparr>)
                    else mb_args string2ll (newline + 2) (c\<lparr>multibulklen := ll\<rparr>)))
      else mb_args string2ll 0 c)"

section \<open>The input loop\<close>

text \<open>The loop runs on the server and whatever other state the command processor has.\<close>

record 'x proto_env =
  penv_alloc :: alloc
  string2ll :: "string \<Rightarrow> int option"
  sdssplitargs :: "string \<Rightarrow> string list option"
  clientsArePaused :: "server \<times> 'x \<Rightarrow> bool \<times> server \<times> 'x"
  processCommand :: "nat \<Rightarrow> server \<times> 'x \<Rightarrow> bool \<times> server \<times> 'x"

text \<open>The error reply and \<open>setProtocolError\<close>, whose trimming of the buffer the parser has
  already done. A message without line breaks is the same in both error functions.\<close>

definition protocolError :: "alloc \<Rightarrow> nat \<Rightarrow> string \<Rightarrow> server \<Rightarrow> server" where
  "protocolError A c msg s =
     update_client c (\<lambda>cl. cl\<lparr>flags := set_bit CLIENT_CLOSE_AFTER_REPLY (flags cl)\<rparr>) (addReplyErrorFormat A c msg s)"

definition parse_request :: "'x proto_env \<Rightarrow> client \<Rightarrow> pstatus \<times> client" where
  "parse_request E cl =
     (let cl1 = (if reqtype cl = 0
                 then cl\<lparr>reqtype := (if querybuf cl ! 0 = CHR ''*'' then PROTO_REQ_MULTIBULK else PROTO_REQ_INLINE)\<rparr>
                 else cl)
      in if reqtype cl1 = PROTO_REQ_INLINE then processInlineBuffer (sdssplitargs E) cl1
         else if reqtype cl1 = PROTO_REQ_MULTIBULK then processMultibulkBuffer (string2ll E) cl1
         else (PAssert, cl1))"

text \<open>\<open>None\<close> means that the fuel did not suffice.\<close>

fun input_loop :: "'x proto_env \<Rightarrow> nat \<Rightarrow> nat \<Rightarrow> server \<times> 'x \<Rightarrow> (server \<times> 'x) option" where
  "input_loop E 0 c st = None"
| "input_loop E (Suc n) c (s, x) =
     (if querybuf (clients s c) = [] then Some (s, x)
      else
        (case (if bit (flags (clients s c)) CLIENT_SLAVE then (False, s, x) else clientsArePaused E (s, x)) of
           (paused, s0, x0) \<Rightarrow>
             if paused then Some (s0, x0)
             else if bit (flags (clients s0 c)) CLIENT_BLOCKED then Some (s0, x0)
             else if bit (flags (clients s0 c)) CLIENT_CLOSE_AFTER_REPLY then Some (s0, x0)
             else
               (case parse_request E (clients s0 c) of
                  (st, cl) \<Rightarrow>
                    (let s1 = update_client c (\<lambda>_. cl) s0
                     in case st of
                          PWait \<Rightarrow> Some (s1, x0)
                        | PError msg \<Rightarrow> Some (protocolError (penv_alloc E) c msg s1, x0)
                        | PAssert \<Rightarrow> Some (panic s1, x0)
                        | POk \<Rightarrow>
                            if argv cl = [] then input_loop E n c (update_client c resetClient s1, x0)
                            else
                              (case processCommand E c (s1, x0) of
                                 (ok, s2, x2) \<Rightarrow>
                                   (let s3 = (if ok then update_client c resetClient s2 else s2)
                                    in if current_client s3 = None then Some (s3, x2)
                                       else input_loop E n c (s3, x2)))))))"

definition processInputBuffer :: "'x proto_env \<Rightarrow> nat \<Rightarrow> nat \<Rightarrow> server \<times> 'x \<Rightarrow> (server \<times> 'x) option" where
  "processInputBuffer E fuel c st =
     map_option (\<lambda>st. ((fst st)\<lparr>current_client := None\<rparr>, snd st)) (input_loop E fuel c ((fst st)\<lparr>current_client := Some c\<rparr>, snd st))"

section \<open>Parsing what was encoded\<close>

definition mbulk :: "string list \<Rightarrow> string" where
  "mbulk args = CHR ''*'' # dec_nat (length args) @ crlf @ concat (map bulk args)"

lemma dec_nat_plain: "x \<in> set (dec_nat n) \<Longrightarrow> x \<noteq> CHR 0x0D \<and> x \<noteq> CHR 0x00"
proof -
  assume "x \<in> set (dec_nat n)"
  then have "is_dec x" using dec_nat_digits [of n] by (simp add: list_all_iff)
  then show ?thesis by (auto simp: is_dec_def)
qed

definition plain :: "string \<Rightarrow> bool" where
  "plain h \<longleftrightarrow> (\<forall>x\<in>set h. x \<noteq> CHR 0x0D \<and> x \<noteq> CHR 0x00)"

lemma strchr_plain: "plain h \<Longrightarrow> strchr (CHR 0x0D) h = None"
  by (induction h) (auto simp: plain_def)

lemma strchr_found: "plain h \<Longrightarrow> strchr (CHR 0x0D) (h @ CHR 0x0D # y) = Some (length h)"
  by (induction h) (auto simp: plain_def)

text \<open>How much of a line the buffer holds: not its end, all but the line feed, or all of it.\<close>

lemma line_cases:
  assumes e: "x @ z = h @ crlf @ y" and h: "plain h"
  obtains (part) "strchr (CHR 0x0D) x = None" "length x \<le> length h"
  | (cr) "strchr (CHR 0x0D) x = Some (length h)" "length x = length h + 1"
  | (full) x' where "strchr (CHR 0x0D) x = Some (length h)" "x = h @ crlf @ x'" "x' @ z = y"
proof -
  consider "length x \<le> length h" | "length x = length h + 1" | "length h + 2 \<le> length x" by linarith
  then show ?thesis
  proof cases
    case 1
    then have "x = take (length x) h" using e by (metis append_eq_append_conv_if le_refl take_all)
    then have "plain x" using h unfolding plain_def by (metis in_set_takeD)
    from strchr_plain [OF this] 1 show ?thesis by (rule part)
  next
    case 2
    have "x = take (Suc (length h)) (x @ z)" using 2 by simp
    then have "x = h @ [CHR 0x0D]" unfolding e by simp
    with 2 cr strchr_found [OF h, of "[]"] show ?thesis by simp
  next
    case 3
    have "take (length (h @ crlf)) x = take (length (h @ crlf)) (x @ z)" using 3 by simp
    then have "take (length (h @ crlf)) x = h @ crlf" unfolding e by simp
    then have x': "x = h @ crlf @ drop (length (h @ crlf)) x" (is "x = h @ crlf @ ?x")
      using append_take_drop_id [of "length (h @ crlf)" x] by simp
    have "?x @ z = y" using arg_cong [where f = "drop (length (h @ crlf))", OF e] 3 by simp
    moreover have "strchr (CHR 0x0D) x = Some (length h)"
      using strchr_found [OF h, of "CHR 0x0A # ?x"] x' by simp
    ultimately show ?thesis using x' full by blast
  qed
qed

text \<open>\<open>want c pos z args rest\<close>: the parser of \<open>c\<close>, at position \<open>pos\<close> of the buffer, has read a
  prefix of \<open>args\<close>, and the rest of the buffer followed by the input \<open>z\<close> still to come
  is the encoding of the others followed by \<open>rest\<close>.\<close>

definition want :: "client \<Rightarrow> nat \<Rightarrow> string \<Rightarrow> string list \<Rightarrow> string \<Rightarrow> bool" where
  "want c pos z args rest \<longleftrightarrow>
     pos \<le> length (querybuf c) \<and>
     (\<exists>more. args = argv c @ more \<and> multibulklen c = int (length more) \<and>
        (\<forall>a\<in>set more. length a \<le> 512 * 1024 * 1024) \<and>
        (if bulklen c = -1 then drop pos (querybuf c) @ z = concat (map bulk more) @ rest
         else \<exists>a as. more = a # as \<and> bulklen c = int (length a) \<and>
                drop pos (querybuf c) @ z = a @ crlf @ concat (map bulk as) @ rest))"

text \<open>The buffer is no larger than the reading code lets it grow.\<close>

definition room :: "client \<Rightarrow> nat \<Rightarrow> bool" where
  "room c pos \<longleftrightarrow> length (querybuf c) \<le> PROTO_INLINE_MAX_SIZE \<or>
     (pos = 0 \<and> PROTO_MBULK_BIG_ARG \<le> bulklen c \<and> int (length (querybuf c)) \<le> bulklen c + 2)"

text \<open>What is assumed of \<open>string2ll\<close>: it reads back the lengths that occur.\<close>

definition reads_lengths :: "(string \<Rightarrow> int option) \<Rightarrow> bool" where
  "reads_lengths S \<longleftrightarrow> (\<forall>n. n \<le> 512 * 1024 * 1024 \<longrightarrow> S (dec_nat n) = Some (int n))"

text \<open>What is left in the buffer while waiting: a part of one header or of one argument.\<close>

definition lean :: "client \<Rightarrow> nat \<Rightarrow> bool" where
  "lean c pos \<longleftrightarrow> length (querybuf c) - pos \<le> 32769 \<or>
     (PROTO_MBULK_BIG_ARG \<le> bulklen c \<and> int (length (querybuf c) - pos) < bulklen c + 2)"

lemma length_dec_nat: "n < 10 ^ k \<Longrightarrow> 0 < k \<Longrightarrow> length (dec_nat n) \<le> k"
proof (induction k arbitrary: n)
  case (Suc k)
  show ?case
  proof (cases "n < 10")
    case True
    then show ?thesis by (simp add: dec_nat.simps [of n])
  next
    case False
    with Suc.prems have "k \<noteq> 0" by (cases k) auto
    moreover have "n div 10 < 10 ^ k" using Suc.prems(1) by (simp add: less_mult_imp_div_less mult.commute)
    ultimately show ?thesis using Suc.IH [of "n div 10"] False by (simp add: dec_nat.simps [of n])
  qed
qed simp

text \<open>A good result: the request is complete, or the parser waits for input that is still to
  come.\<close>

definition good :: "string \<Rightarrow> string list \<Rightarrow> string \<Rightarrow> pstatus \<times> nat \<times> client \<Rightarrow> bool" where
  "good z args rest r \<longleftrightarrow>
     (case r of (st, pos, c) \<Rightarrow>
        (st = POk \<and> argv c = args \<and> drop pos (querybuf c) @ z = rest) \<or>
        (st = PWait \<and> want c pos z args rest \<and> 0 < multibulklen c \<and> z \<noteq> [] \<and> lean c pos))"

lemma want_arg:
  assumes "want c pos z args rest" "bulklen c \<noteq> -1"
  obtains a as where "args = argv c @ a # as" "multibulklen c = int (Suc (length as))" "bulklen c = int (length a)"
    "length a \<le> 512 * 1024 * 1024" "\<forall>x\<in>set as. length x \<le> 512 * 1024 * 1024"
    "drop pos (querybuf c) @ z = a @ crlf @ concat (map bulk as) @ rest" "pos \<le> length (querybuf c)"
  using assms unfolding want_def by auto

lemma want_header:
  assumes "want c pos z args rest" "bulklen c = -1" "multibulklen c = int (Suc n)"
  obtains a as where "args = argv c @ a # as" "length as = n"
    "length a \<le> 512 * 1024 * 1024" "\<forall>x\<in>set as. length x \<le> 512 * 1024 * 1024"
    "drop pos (querybuf c) @ z = (CHR ''$'' # dec_nat (length a)) @ crlf @ a @ crlf @ concat (map bulk as) @ rest"
    "pos \<le> length (querybuf c)"
proof -
  from assms obtain more where m: "args = argv c @ more" "length more = Suc n" "\<forall>x\<in>set more. length x \<le> 512 * 1024 * 1024"
    "drop pos (querybuf c) @ z = concat (map bulk more) @ rest" "pos \<le> length (querybuf c)"
    unfolding want_def by auto
  from m(2) obtain a as where "more = a # as" by (cases more) auto
  with m that [of a as] show ?thesis by (simp add: bulk_def)
qed

lemma argument_complete:
  assumes e: "q @ z = a @ crlf @ y" and l: "length a + 2 \<le> length q"
  shows "q = a @ crlf @ drop (length a + 2) q" and "drop (length a + 2) q @ z = y"
proof -
  have "take (length (a @ crlf)) q = a @ crlf" using arg_cong [OF e, of "take (length (a @ crlf))"] l by simp
  then have "q = (a @ crlf) @ drop (length (a @ crlf)) q" by (metis append_take_drop_id)
  then show q: "q = a @ crlf @ drop (length a + 2) q" by simp
  then have "a @ crlf @ drop (length a + 2) q @ z = a @ crlf @ y" using e by (metis append.assoc)
  then show "drop (length a + 2) q @ z = y" by simp
qed

lemma mb_arg_good:
  assumes IH: "\<And>c pos. want c pos z args rest \<Longrightarrow> room c pos \<Longrightarrow> bulklen c = -1 \<Longrightarrow> multibulklen c = int n \<Longrightarrow>
      good z args rest (mb_loop S n pos c)"
    and w: "want c pos z args rest" and b: "bulklen c \<noteq> -1" and m: "multibulklen c = int (Suc n)" and r: "room c pos"
  shows "good z args rest (mb_arg S n pos c)"
proof -
  from want_arg [OF w b] obtain a as where a: "args = argv c @ a # as" "multibulklen c = int (Suc (length as))"
    "bulklen c = int (length a)" "\<forall>x\<in>set as. length x \<le> 512 * 1024 * 1024"
    "drop pos (querybuf c) @ z = a @ crlf @ concat (map bulk as) @ rest" "pos \<le> length (querybuf c)" by metis
  have n: "n = length as" using a(2) m by simp
  show ?thesis
  proof (cases "length (querybuf c) - pos < length a + 2")
    case True
    then have "mb_arg S n pos c = (PWait, pos, c)" using a(3) by (simp add: mb_arg.simps)
    moreover have "z \<noteq> []"
    proof
      assume "z = []"
      then have "length (drop pos (querybuf c)) = length (a @ crlf @ concat (map bulk as) @ rest)" using a(5) by simp
      with True show False by simp
    qed
    moreover have "lean c pos" using True a(3) unfolding lean_def by linarith
    ultimately show ?thesis using w m by (simp add: good_def)
  next
    case False
    then have ge: "\<not> int (length (querybuf c) - pos) < bulklen c + 2" using a(3) by linarith
    define x where "x = drop (length a + 2) (drop pos (querybuf c))"
    have "length a + 2 \<le> length (drop pos (querybuf c))" using False by simp
    note X = argument_complete [OF a(5) this, folded x_def]
    show ?thesis
    proof (cases "pos = 0 \<and> bulklen c \<ge> PROTO_MBULK_BIG_ARG \<and> int (length (querybuf c)) = bulklen c + 2")
      case True
      let ?c = "c\<lparr>argv := argv c @ [take (length (querybuf c) - 2) (querybuf c)], querybuf := [], bulklen := -1, multibulklen := int n\<rparr>"
      have q: "querybuf c = a @ crlf" "x = []" using True X(1) a(3) by auto
      have "want ?c 0 z args rest" using q X(2) a(1,4) n by (simp add: want_def)
      moreover have "mb_arg S n pos c = mb_loop S n 0 ?c" unfolding mb_arg.simps if_not_P [OF ge] if_P [OF True] ..
      ultimately show ?thesis using IH [of ?c 0] by (simp add: room_def)
    next
      case nt: False
      let ?c = "c\<lparr>argv := argv c @ [take (nat (bulklen c)) (drop pos (querybuf c))], bulklen := -1, multibulklen := int n\<rparr>"
      let ?p = "pos + nat (bulklen c + 2)"
      have p: "?p = pos + (length a + 2)" using a(3) by simp
      have "drop ?p (querybuf c) = x" unfolding p x_def by (simp add: add.commute)
      moreover have "?p \<le> length (querybuf c)" using False p a(6) by linarith
      ultimately have "want ?c ?p z args rest" using X a(1,3,4) n by (simp add: want_def)
      moreover have "mb_arg S n pos c = mb_loop S n ?p ?c" unfolding mb_arg.simps if_not_P [OF ge] if_not_P [OF nt] ..
      moreover have "room ?c ?p"
        using r nt False a(3) a(6) unfolding room_def by auto
      ultimately show ?thesis using IH [of ?c ?p] by simp
    qed
  qed
qed

text \<open>The header of an argument: not all of it has arrived, or the argument follows.\<close>

lemma short_line_waits:
  assumes e: "drop pos (querybuf c) @ z = h @ crlf @ y" and l: "length h \<le> 10" "length (drop pos (querybuf c)) < length (h @ crlf)"
  shows "z \<noteq> []" "lean c pos"
proof -
  have "length (drop pos (querybuf c) @ z) = length (h @ crlf @ y)" using e by (rule arg_cong)
  with l(2) show "z \<noteq> []" by auto
  show "lean c pos" using l by (simp add: lean_def)
qed

lemma header_waits:
  assumes w: "want c pos z args rest" "multibulklen c = int (Suc n)" and a: "length a \<le> 512 * 1024 * 1024"
    and e: "drop pos (querybuf c) @ z = (CHR ''$'' # dec_nat (length a)) @ crlf @ y"
    and l: "length (drop pos (querybuf c)) < length ((CHR ''$'' # dec_nat (length a)) @ crlf)"
  shows "good z args rest (PWait, pos, c)"
proof -
  have "length (dec_nat (length a)) \<le> 9" by (rule length_dec_nat) (use a in simp_all)
  then have "length (CHR ''$'' # dec_nat (length a)) \<le> 10" by simp
  from short_line_waits [OF e this l] w show ?thesis by (simp add: good_def)
qed

lemma header_read:
  assumes S: "reads_lengths S" and a: "length a \<le> 512 * 1024 * 1024" and p: "pos \<le> length (querybuf c)" and b: "bulklen c = -1"
    and q: "drop pos (querybuf c) = (CHR ''$'' # dec_nat (length a)) @ crlf @ x"
  defines "k \<equiv> pos + length (CHR ''$'' # dec_nat (length a)) + 2"
  shows "length (querybuf c) = k + length x" "drop k (querybuf c) = x"
    "mb_loop S (Suc n) pos c =
      (if int (length a) \<ge> PROTO_MBULK_BIG_ARG then mb_arg S n 0 (c\<lparr>querybuf := drop k (querybuf c), bulklen := int (length a)\<rparr>)
       else mb_arg S n k (c\<lparr>bulklen := int (length a)\<rparr>))"
proof -
  let ?h = "CHR ''$'' # dec_nat (length a)"
  show len: "length (querybuf c) = k + length x" using arg_cong [where f = length, OF q] p by (simp add: k_def)
  have "drop k (querybuf c) = drop (length ?h + 2) (drop pos (querybuf c))" by (simp add: add.commute k_def)
  then show "drop k (querybuf c) = x" using q by simp
  have h: "plain ?h" using dec_nat_plain by (auto simp: plain_def)
  have s: "strchr (CHR 0x0D) (drop pos (querybuf c)) = Some (length ?h)" using strchr_found [OF h, of "CHR 0x0A # x"] q by simp
  have d: "querybuf c ! pos = CHR ''$''" using arg_cong [where f = hd, OF q] len by (simp add: hd_drop_conv_nth k_def)
  have "drop (pos + 1) (querybuf c) = drop 1 (drop pos (querybuf c))" by simp
  also have "\<dots> = dec_nat (length a) @ crlf @ x" using q by simp
  finally have "S (take (length ?h - 1) (drop (pos + 1) (querybuf c))) = Some (int (length a))"
    using S a unfolding reads_lengths_def by simp
  moreover have "\<not> int (pos + length ?h) > int (length (querybuf c)) - 2" using len by (simp add: k_def)
  ultimately show "mb_loop S (Suc n) pos c =
      (if int (length a) \<ge> PROTO_MBULK_BIG_ARG then mb_arg S n 0 (c\<lparr>querybuf := drop k (querybuf c), bulklen := int (length a)\<rparr>)
       else mb_arg S n k (c\<lparr>bulklen := int (length a)\<rparr>))"
    using b s d a by (simp add: mb_loop.simps(2) k_def)
qed

lemma mb_loop_good:
  assumes S: "reads_lengths S"
  shows "want c pos z args rest \<Longrightarrow> room c pos \<Longrightarrow> multibulklen c = int n \<Longrightarrow> (n = 0 \<Longrightarrow> bulklen c = -1) \<Longrightarrow>
    good z args rest (mb_loop S n pos c)"
proof (induction n arbitrary: c pos)
  case 0
  then show ?case by (auto simp: good_def want_def)
next
  case (Suc n)
  have arg: "good z args rest (mb_arg S n pos c)"
    if "want c pos z args rest" "room c pos" "bulklen c \<noteq> -1" "multibulklen c = int (Suc n)" for c pos
    by (rule mb_arg_good [OF _ that(1,3,4,2)]) (use Suc.IH in blast)
  show ?case
  proof (cases "bulklen c = -1")
    case False
    with arg [OF Suc.prems(1,2) False Suc.prems(3)] show ?thesis by (simp add: mb_loop.simps(2))
  next
    case True
    from want_header [OF Suc.prems(1) True Suc.prems(3)] obtain a as where
      a: "args = argv c @ a # as" "length as = n" "length a \<le> 512 * 1024 * 1024" "\<forall>x\<in>set as. length x \<le> 512 * 1024 * 1024"
        "pos \<le> length (querybuf c)"
      and e: "drop pos (querybuf c) @ z = (CHR ''$'' # dec_nat (length a)) @ crlf @ a @ crlf @ concat (map bulk as) @ rest" by metis
    let ?h = "CHR ''$'' # dec_nat (length a)"
    have h: "plain ?h" using dec_nat_plain by (auto simp: plain_def)
    have small: "\<not> length (querybuf c) > PROTO_INLINE_MAX_SIZE" using Suc.prems(2) True by (auto simp: room_def)
    note wait = header_waits [OF Suc.prems(1,3) a(3) e]
    from e h show ?thesis
    proof (cases rule: line_cases)
      case part
      with True small wait show ?thesis by (simp add: mb_loop.simps(2))
    next
      case cr
      then have "int (pos + length ?h) > int (length (querybuf c)) - 2" by simp
      with cr True wait show ?thesis by (simp add: mb_loop.simps(2))
    next
      case (full x)
      let ?k = "pos + length ?h + 2"
      note r = header_read(1,2) [OF S a(3,5) True full(2)] and turn = header_read(3) [OF S a(3,5) True full(2), of n]
      have "good z args rest (mb_arg S n 0 (c\<lparr>querybuf := drop ?k (querybuf c), bulklen := int (length a)\<rparr>))"
        by (rule arg) (use a full(3) r(2) small Suc.prems(3) in \<open>auto simp: want_def room_def\<close>)
      moreover have "good z args rest (mb_arg S n ?k (c\<lparr>bulklen := int (length a)\<rparr>))"
        by (rule arg) (use a full(3) r(1,2) small Suc.prems(3) in \<open>auto simp: want_def room_def\<close>)
      ultimately show ?thesis unfolding turn by simp
    qed
  qed
qed

section \<open>Requests that arrive in pieces\<close>

text \<open>How many bytes \<open>readQueryFromClient\<close> reads at most.\<close>

definition readlen :: "client \<Rightarrow> int" where
  "readlen c =
     (if reqtype c = PROTO_REQ_MULTIBULK \<and> multibulklen c \<noteq> 0 \<and> bulklen c \<noteq> -1 \<and> bulklen c \<ge> PROTO_MBULK_BIG_ARG
      then min (1024 * 16) ((bulklen c + 2) - int (length (querybuf c)))
      else 1024 * 16)"

definition feed :: "(string \<Rightarrow> int option) \<Rightarrow> string \<Rightarrow> client \<Rightarrow> pstatus \<times> client" where
  \<comment> \<open>one read followed by one parsing step\<close>
  "feed S x c = processMultibulkBuffer S (c\<lparr>querybuf := querybuf c @ x\<rparr>)"

fun feed_all :: "(string \<Rightarrow> int option) \<Rightarrow> string list \<Rightarrow> client \<Rightarrow> pstatus \<times> client \<times> string list" where
  "feed_all S [] c = (PWait, c, [])"
| "feed_all S (x # xs) c =
     (case feed S x c of (st, c') \<Rightarrow> if st = PWait then feed_all S xs c' else (st, c', xs))"

text \<open>The chunks are as long as the reading code allows.\<close>

fun chunks_ok :: "(string \<Rightarrow> int option) \<Rightarrow> string list \<Rightarrow> client \<Rightarrow> bool" where
  "chunks_ok S [] c = True"
| "chunks_ok S (x # xs) c \<longleftrightarrow>
     int (length x) \<le> readlen c \<and> (case feed S x c of (st, c') \<Rightarrow> st = PWait \<longrightarrow> chunks_ok S xs c')"

definition request_ok :: "string list \<Rightarrow> bool" where
  "request_ok args \<longleftrightarrow> args \<noteq> [] \<and> length args \<le> 1024 * 1024 \<and> (\<forall>a\<in>set args. length a \<le> 512 * 1024 * 1024)"

text \<open>The state of the parser between reads.\<close>

definition awaits :: "client \<Rightarrow> string \<Rightarrow> string list \<Rightarrow> string \<Rightarrow> bool" where
  "awaits c z args rest \<longleftrightarrow>
     reqtype c = PROTO_REQ_MULTIBULK \<and>
     ((multibulklen c = 0 \<and> argv c = [] \<and> bulklen c = -1 \<and> querybuf c @ z = mbulk args @ rest) \<or>
      (0 < multibulklen c \<and> want c 0 z args rest))"

lemma mb_loop_reqtype:
  "reqtype (snd (snd (mb_loop S n pos c))) = reqtype c"
  "reqtype (snd (snd (mb_arg S n pos c))) = reqtype c"
proof (induction S n pos c and S n pos c rule: mb_loop_mb_arg.induct)
  case (2 S n pos c)
  then show ?case by (auto simp: mb_loop.simps(2) split: option.split)
next
  case (3 S n pos c)
  then show ?case by (auto simp: mb_arg.simps)
qed simp

lemma mb_args_good:
  assumes S: "reads_lengths S" and w: "want c pos z args rest" and r: "room c pos" and m: "0 < multibulklen c"
    and q: "reqtype c = PROTO_REQ_MULTIBULK" and res: "mb_args S pos c = (st, c')"
  shows "(st = POk \<and> argv c' = args \<and> querybuf c' @ z = rest) \<or> (st = PWait \<and> awaits c' z args rest \<and> z \<noteq> [] \<and> lean c' 0)"
proof -
  obtain st1 pos1 c1 where l: "mb_loop S (nat (multibulklen c)) pos c = (st1, pos1, c1)"
    by (cases "mb_loop S (nat (multibulklen c)) pos c") auto
  have "good z args rest (st1, pos1, c1)"
    using mb_loop_good [OF S w r, of "nat (multibulklen c)"] m l by simp
  moreover have "st = st1" "c' = c1\<lparr>querybuf := drop pos1 (querybuf c1)\<rparr>" using res m l by (auto simp: mb_args_def)
  moreover have "reqtype c1 = PROTO_REQ_MULTIBULK" using mb_loop_reqtype(1) [of S "nat (multibulklen c)" pos c] l q by simp
  ultimately show ?thesis by (auto simp: good_def awaits_def want_def lean_def)
qed

lemma process_good:
  assumes S: "reads_lengths S" and a: "awaits c z args rest" and r: "room c 0" and ok: "request_ok args"
    and res: "processMultibulkBuffer S c = (st, c')"
  shows "(st = POk \<and> argv c' = args \<and> querybuf c' @ z = rest) \<or> (st = PWait \<and> awaits c' z args rest \<and> z \<noteq> [] \<and> lean c' 0)"
proof (cases "multibulklen c = 0")
  case False
  with a have m: "0 < multibulklen c" and w: "want c 0 z args rest" and q: "reqtype c = PROTO_REQ_MULTIBULK"
    by (auto simp: awaits_def)
  from res False have "mb_args S 0 c = (st, c')" by (simp add: processMultibulkBuffer_def)
  from mb_args_good [OF S w r m q this] show ?thesis .
next
  case True
  with a have c: "argv c = []" "bulklen c = -1" "reqtype c = PROTO_REQ_MULTIBULK"
    and e: "querybuf c @ z = (CHR ''*'' # dec_nat (length args)) @ crlf @ concat (map bulk args) @ rest"
    by (auto simp: awaits_def mbulk_def)
  let ?h = "CHR ''*'' # dec_nat (length args)"
  have h: "plain ?h" using dec_nat_plain by (auto simp: plain_def)
  have small: "\<not> length (querybuf c) > PROTO_INLINE_MAX_SIZE" using r c(2) by (auto simp: room_def)
  have "length args < 10 ^ 7" using ok by (simp add: request_ok_def)
  then have hl: "length ?h \<le> 8" using length_dec_nat [of "length args" 7] by simp
  have wait: ?thesis if "st = PWait" "c' = c" "length (querybuf c) < length (?h @ crlf)"
    using short_line_waits [of 0 c z ?h "concat (map bulk args) @ rest"] e hl that a by simp
  from e h show ?thesis
  proof (cases rule: line_cases)
    case part
    with res True c small wait show ?thesis by (simp add: processMultibulkBuffer_def)
  next
    case cr
    then have "int (length ?h) > int (length (querybuf c)) - 2" by simp
    with res True c cr wait show ?thesis by (simp add: processMultibulkBuffer_def)
  next
    case (full x)
    have S1: "S (take (length ?h - 1) (drop 1 (querybuf c))) = Some (int (length args))"
      using S full(2) ok by (simp add: reads_lengths_def request_ok_def)
    let ?c = "c\<lparr>multibulklen := int (length args)\<rparr>"
    have "mb_args S (length ?h + 2) ?c = (st, c')"
      using res True c full(1) S1 ok full(2) by (auto simp: processMultibulkBuffer_def request_ok_def)
    moreover have "want ?c (length ?h + 2) z args rest"
      using c full(2,3) ok by (auto simp: want_def request_ok_def)
    moreover have "room ?c (length ?h + 2)" using small by (auto simp: room_def)
    moreover have "0 < multibulklen ?c" using ok by (simp add: request_ok_def)
    ultimately show ?thesis using mb_args_good [OF S, of ?c] c(3) by simp
  qed
qed

lemma feed_good:
  assumes S: "reads_lengths S" and a: "awaits c (x @ z) args rest" and l: "lean c 0" and ok: "request_ok args"
    and len: "int (length x) \<le> readlen c" and res: "feed S x c = (st, c')"
  shows "(st = POk \<and> argv c' = args \<and> querybuf c' @ z = rest) \<or> (st = PWait \<and> awaits c' z args rest \<and> z \<noteq> [] \<and> lean c' 0)"
proof -
  let ?c = "c\<lparr>querybuf := querybuf c @ x\<rparr>"
  have "awaits ?c z args rest" using a by (auto simp: awaits_def want_def)
  moreover have "room ?c 0"
  proof (cases "bulklen c \<ge> PROTO_MBULK_BIG_ARG")
    case True
    with a have "readlen c = min (1024 * 16) ((bulklen c + 2) - int (length (querybuf c)))"
      by (auto simp: readlen_def awaits_def)
    with len True show ?thesis by (simp add: room_def)
  next
    case False
    with len l show ?thesis by (auto simp: room_def lean_def readlen_def split: if_splits)
  qed
  ultimately show ?thesis using process_good [OF S _ _ ok, of ?c z rest st c'] res by (simp add: feed_def)
qed

section \<open>Properties\<close>

text \<open>C32: a request of up to 1048576 arguments of up to 512 MB, encoded as a multi bulk request and
  arriving in any pieces the reading code can produce, is parsed to exactly its arguments
  when its last byte has arrived, without a protocol error and without consuming what
  follows it in the last piece.\<close>

theorem multibulk_chunks_roundtrip:
  assumes S: "reads_lengths S" and ok: "request_ok args"
    and c: "reqtype c = 2" "multibulklen c = 0" "argv c = []" "bulklen c = -1" "querybuf c = []"
    and data: "concat chunks = mbulk args @ rest" and last: "length rest < length (last chunks)"
    and chunks: "chunks_ok S chunks c"
  shows "\<exists>c'. feed_all S chunks c = (POk, c', []) \<and> argv c' = args \<and> querybuf c' = rest"
proof -
  have ne: "chunks \<noteq> []" using data by (auto simp: mbulk_def)
  have main: "\<exists>c'. feed_all S chunks c = (POk, c', []) \<and> argv c' = args \<and> querybuf c' = rest"
    if "chunks \<noteq> []" "awaits c (concat chunks) args rest" "lean c 0" "chunks_ok S chunks c" "length rest < length (last chunks)"
    for chunks c
    using that
  proof (induction chunks arbitrary: c)
    case (Cons x xs)
    obtain st c' where f: "feed S x c = (st, c')" by (cases "feed S x c")
    from Cons.prems(2,4) f have "awaits c (x @ concat xs) args rest" "int (length x) \<le> readlen c" by simp_all
    from feed_good [OF S this(1) Cons.prems(3) ok this(2) f]
    show ?case
    proof (elim disjE)
      assume d: "st = POk \<and> argv c' = args \<and> querybuf c' @ concat xs = rest"
      have "xs = []"
      proof (rule ccontr)
        assume "xs \<noteq> []"
        then have "concat xs = concat (butlast xs) @ last xs" by (metis append_butlast_last_id concat_append concat.simps append_Nil2)
        then have "length (last xs) \<le> length rest" using d by (metis length_append le_add2 trans_le_add2)
        with Cons.prems(5) \<open>xs \<noteq> []\<close> show False by simp
      qed
      with d f show ?thesis by auto
    next
      assume w: "st = PWait \<and> awaits c' (concat xs) args rest \<and> concat xs \<noteq> [] \<and> lean c' 0"
      then have "xs \<noteq> []" by auto
      with w Cons.IH [of c'] Cons.prems(4,5) f show ?thesis by simp
    qed
  qed simp
  have "awaits c (concat chunks) args rest" using c data by (simp add: awaits_def)
  moreover have "lean c 0" using c by (simp add: lean_def)
  ultimately show ?thesis using main ne chunks last by blast
qed

lemma reads_lengths_parse_dec: "reads_lengths parse_dec"
  by (simp add: reads_lengths_def)

definition demo_reader :: client where
  "demo_reader = (blank_client 4)\<lparr>reqtype := 2\<rparr>"

theorem multibulk_chunks_roundtrip_witness:
  "\<exists>c'. feed_all parse_dec [mbulk [''smemget'', ''5000''] @ ''*2''] demo_reader = (POk, c', []) \<and>
     argv c' = [''smemget'', ''5000''] \<and> querybuf c' = ''*2''"
proof (rule multibulk_chunks_roundtrip [OF reads_lengths_parse_dec])
  have "length (mbulk [''smemget'', ''5000'']) \<le> 100" by code_simp
  then show "chunks_ok parse_dec [mbulk [''smemget'', ''5000''] @ ''*2''] demo_reader"
    by (simp add: readlen_def demo_reader_def blank_client_def)
qed (simp_all add: request_ok_def demo_reader_def blank_client_def mbulk_def)

subsection \<open>Termination of the input loop\<close>

lemma strchr_length: "strchr ch x = Some i \<Longrightarrow> i < length x \<and> x ! i = ch"
  by (induction x arbitrary: i) (auto split: if_splits)

lemma inline_shrinks:
  assumes "processInlineBuffer f c = (POk, c')"
  shows "length (querybuf c') < length (querybuf c)"
  using assms by (auto simp: processInlineBuffer_def Let_def split: option.splits if_splits dest: strchr_length)

text \<open>The loop never lengthens the buffer, keeps its position inside it, and an argument that is
  read takes at least two bytes.\<close>

lemma mb_loop_shrinks:
  "pos \<le> length (querybuf c) \<Longrightarrow> -1 \<le> bulklen c \<Longrightarrow> mb_loop S n pos c = (POk, pos', c') \<Longrightarrow>
     length (drop pos' (querybuf c')) + 2 * n \<le> length (drop pos (querybuf c))"
  "pos \<le> length (querybuf c) \<Longrightarrow> 0 \<le> bulklen c \<Longrightarrow> mb_arg S n pos c = (POk, pos', c') \<Longrightarrow>
     length (drop pos' (querybuf c')) + 2 * n + 2 \<le> length (drop pos (querybuf c))"
proof (induction S n pos c and S n pos c rule: mb_loop_mb_arg.induct)
  case (1 S pos c)
  then show ?case by simp
next
  case (2 S n pos c)
  show ?case
  proof (cases "bulklen c = -1")
    case False
    with 2 show ?thesis by (simp add: mb_loop.simps(2))
  next
    case True
    from True "2.prems"(3) obtain j where j: "strchr (CHR 0x0D) (drop pos (querybuf c)) = Some j"
      "\<not> int (pos + j) > int (length (querybuf c)) - 2" "querybuf c ! pos = CHR ''$''"
      by (auto simp: mb_loop.simps(2) split: option.splits if_splits)
    from True j "2.prems"(3) obtain ll where ll: "S (take (j - 1) (drop (pos + 1) (querybuf c))) = Some ll"
      "\<not> (ll < 0 \<or> ll > 512 * 1024 * 1024)"
      by (auto simp: mb_loop.simps(2) split: option.splits if_splits)
    have pj: "pos + j + 2 \<le> length (querybuf c)" using j(2) by linarith
    show ?thesis
    proof (cases "ll \<ge> PROTO_MBULK_BIG_ARG")
      case big: True
      let ?c = "c\<lparr>querybuf := drop (pos + j + 2) (querybuf c), bulklen := ll\<rparr>"
      have "mb_arg S n 0 ?c = (POk, pos', c')" using "2.prems"(3) True j ll big by (simp add: mb_loop.simps(2))
      from "2.IH"(1) [OF True j(1,2) _ ll big _ _ this] j(3) ll pj show ?thesis by simp
    next
      case nb: False
      let ?c = "c\<lparr>bulklen := ll\<rparr>"
      have "mb_arg S n (pos + j + 2) ?c = (POk, pos', c')" using "2.prems"(3) True j ll nb by (simp add: mb_loop.simps(2))
      from "2.IH"(2) [OF True j(1,2) _ ll nb _ _ this] j(3) ll pj show ?thesis by simp
    qed
  qed
next
  case (3 S n pos c)
  from "3.prems"(3) have ge: "\<not> int (length (querybuf c) - pos) < bulklen c + 2" by (auto simp: mb_arg.simps split: if_splits)
  show ?case
  proof (cases "pos = 0 \<and> bulklen c \<ge> PROTO_MBULK_BIG_ARG \<and> int (length (querybuf c)) = bulklen c + 2")
    case True
    with "3.prems"(3) ge "3.IH"(1) [OF ge True] show ?thesis by (simp add: mb_arg.simps)
  next
    case False
    let ?c = "c\<lparr>argv := argv c @ [take (nat (bulklen c)) (drop pos (querybuf c))], bulklen := -1, multibulklen := int n\<rparr>"
    have m: "mb_loop S n (pos + nat (bulklen c + 2)) ?c = (POk, pos', c')"
      using "3.prems"(3) unfolding mb_arg.simps if_not_P [OF ge] if_not_P [OF False] .
    have le: "pos + nat (bulklen c + 2) \<le> length (querybuf c)" "2 \<le> nat (bulklen c + 2)"
      using ge "3.prems"(1,2) by linarith+
    from "3.IH"(2) [OF ge False _ _ m] le show ?thesis by simp
  qed
qed

lemma multibulk_shrinks:
  assumes "-1 \<le> bulklen c" "0 \<le> multibulklen c" "processMultibulkBuffer S c = (POk, c')"
  shows "length (querybuf c') < length (querybuf c)"
proof -
  have args: "length (querybuf c1') < length (querybuf c1) - pos"
    if "mb_args S pos c1 = (POk, c1')" "pos \<le> length (querybuf c1)" "-1 \<le> bulklen c1" for pos c1 c1'
  proof -
    from that(1) have m: "0 < multibulklen c1" by (auto simp: mb_args_def split: if_splits)
    obtain st p' c2 where l: "mb_loop S (nat (multibulklen c1)) pos c1 = (st, p', c2)"
      by (cases "mb_loop S (nat (multibulklen c1)) pos c1") auto
    with that(1) m have "st = POk" "c1' = c2\<lparr>querybuf := drop p' (querybuf c2)\<rparr>" by (auto simp: mb_args_def)
    with mb_loop_shrinks(1) [OF that(2,3), of S "nat (multibulklen c1)" p' c2] l m show ?thesis by simp
  qed
  show ?thesis
  proof (cases "multibulklen c = 0")
    case False
    with assms args [of 0 c c'] show ?thesis by (simp add: processMultibulkBuffer_def)
  next
    case True
    from True assms(3) obtain i where i: "strchr (CHR 0x0D) (querybuf c) = Some i" "\<not> int i > int (length (querybuf c)) - 2"
      by (auto simp: processMultibulkBuffer_def split: option.splits if_splits)
    with True assms args [of "i + 2" "c\<lparr>multibulklen := ll\<rparr>" c' for ll]
    show ?thesis by (fastforce simp: processMultibulkBuffer_def split: option.splits if_splits)
  qed
qed

definition parser_state_ok :: "client \<Rightarrow> bool" where
  "parser_state_ok c \<longleftrightarrow> -1 \<le> bulklen c \<and> 0 \<le> multibulklen c"

lemma mb_loop_state:
  "parser_state_ok c \<Longrightarrow> parser_state_ok (snd (snd (mb_loop S n pos c)))"
  "parser_state_ok c \<Longrightarrow> parser_state_ok (snd (snd (mb_arg S n pos c)))"
proof (induction S n pos c and S n pos c rule: mb_loop_mb_arg.induct)
  case (2 S n pos c)
  then show ?case by (auto simp: mb_loop.simps(2) parser_state_ok_def split: option.split)
next
  case (3 S n pos c)
  then show ?case by (auto simp: mb_arg.simps parser_state_ok_def)
qed simp

lemma mb_args_state: "parser_state_ok c \<Longrightarrow> parser_state_ok (snd (mb_args S pos c))"
  using mb_loop_state(1) [of c S "nat (multibulklen c)" pos]
  by (auto simp: mb_args_def parser_state_ok_def split: prod.split)

lemma multibulk_state: "parser_state_ok c \<Longrightarrow> parser_state_ok (snd (processMultibulkBuffer S c))"
  using mb_args_state [of c S 0] mb_args_state [of "c\<lparr>multibulklen := ll\<rparr>" S pos for ll pos]
  by (auto simp: processMultibulkBuffer_def parser_state_ok_def split: option.split)

lemma inline_state: "parser_state_ok c \<Longrightarrow> parser_state_ok (snd (processInlineBuffer f c))"
  by (auto simp: processInlineBuffer_def parser_state_ok_def Let_def split: option.split)

lemma parse_request_cases:
  obtains c1 where "querybuf c1 = querybuf c" "bulklen c1 = bulklen c" "multibulklen c1 = multibulklen c"
    "parse_request E c = processInlineBuffer (sdssplitargs E) c1 \<or>
     parse_request E c = processMultibulkBuffer (string2ll E) c1 \<or> parse_request E c = (PAssert, c1)"
proof -
  define c1 where "c1 = (if reqtype c = 0
      then c\<lparr>reqtype := (if querybuf c ! 0 = CHR ''*'' then PROTO_REQ_MULTIBULK else PROTO_REQ_INLINE)\<rparr> else c)"
  have "parse_request E c = (if reqtype c1 = PROTO_REQ_INLINE then processInlineBuffer (sdssplitargs E) c1
      else if reqtype c1 = PROTO_REQ_MULTIBULK then processMultibulkBuffer (string2ll E) c1 else (PAssert, c1))"
    by (simp add: parse_request_def c1_def Let_def)
  then show ?thesis by (intro that [of c1]) (simp_all add: c1_def)
qed

lemma parse_request_ok:
  assumes "parser_state_ok c" "parse_request E c = (POk, c')"
  shows "length (querybuf c') < length (querybuf c)" "parser_state_ok c'"
proof -
  from parse_request_cases [of c E] obtain c1 where q: "querybuf c1 = querybuf c" "bulklen c1 = bulklen c" "multibulklen c1 = multibulklen c"
    and r: "processInlineBuffer (sdssplitargs E) c1 = (POk, c') \<or> processMultibulkBuffer (string2ll E) c1 = (POk, c')"
    using assms(2) by (metis Pair_inject pstatus.distinct(5))
  have p1: "parser_state_ok c1" using assms(1) q by (simp add: parser_state_ok_def)
  from r show "length (querybuf c') < length (querybuf c)"
    using inline_shrinks [of "sdssplitargs E" c1 c'] multibulk_shrinks [of c1 "string2ll E" c'] p1 q
    by (auto simp: parser_state_ok_def)
  from r show "parser_state_ok c'"
    using inline_state [OF p1, of "sdssplitargs E"] multibulk_state [OF p1, of "string2ll E"] by auto
qed

lemma resetClient_simps [simp]: "querybuf (resetClient c) = querybuf c" "parser_state_ok (resetClient c)"
  by (simp_all add: resetClient_def freeClientArgv_def parser_state_ok_def Let_def)

text \<open>What is assumed of the two functions the loop calls: they do not put bytes into the query
  buffer of the client and leave its parser in a proper state.\<close>

definition keeps_parser :: "nat \<Rightarrow> (server \<times> 'x \<Rightarrow> bool \<times> server \<times> 'x) \<Rightarrow> bool" where
  "keeps_parser c f \<longleftrightarrow> (\<forall>s x b t y. f (s, x) = (b, t, y) \<longrightarrow>
     length (querybuf (clients t c)) \<le> length (querybuf (clients s c)) \<and>
     (parser_state_ok (clients s c) \<longrightarrow> parser_state_ok (clients t c)))"

definition keeps_input :: "'x proto_env \<Rightarrow> nat \<Rightarrow> bool" where
  "keeps_input E c \<longleftrightarrow> keeps_parser c (processCommand E c) \<and> keeps_parser c (clientsArePaused E)"

lemma keeps_parserD:
  assumes "keeps_parser c f" and "f (s, x) = (b, t, y)"
  shows "length (querybuf (clients t c)) \<le> length (querybuf (clients s c))"
    and "parser_state_ok (clients s c) \<Longrightarrow> parser_state_ok (clients t c)"
  using assms unfolding keeps_parser_def by blast+

lemma input_loop_terminates:
  assumes k: "keeps_input E c"
  shows "parser_state_ok (clients s c) \<Longrightarrow> length (querybuf (clients s c)) < n \<Longrightarrow> input_loop E n c (s, x) \<noteq> None"
proof (induction n arbitrary: s x)
  case (Suc n)
  note kc = k [unfolded keeps_input_def, THEN conjunct1] and kp = k [unfolded keeps_input_def, THEN conjunct2]
  obtain paused s0 x0 where p: "(if bit (flags (clients s c)) CLIENT_SLAVE then (False, s, x) else clientsArePaused E (s, x)) = (paused, s0, x0)"
    using prod_cases3 by blast
  have s0: "length (querybuf (clients s0 c)) \<le> length (querybuf (clients s c))" "parser_state_ok (clients s0 c)"
    using p Suc.prems(1) keeps_parserD [OF kp, of s x paused s0 x0] by (auto split: if_splits)
  obtain st cl where r: "parse_request E (clients s0 c) = (st, cl)" by (cases "parse_request E (clients s0 c)")
  let ?s1 = "update_client c (\<lambda>_. cl) s0"
  obtain ok s2 x2 where pc: "processCommand E c (?s1, x0) = (ok, s2, x2)" using prod_cases3 by blast
  have step: "input_loop E n c (update_client c resetClient ?s1, x0) \<noteq> None \<and>
      input_loop E n c (if ok then update_client c resetClient s2 else s2, x2) \<noteq> None" if "st = POk"
  proof -
    have cl: "length (querybuf cl) < length (querybuf (clients s0 c))" "parser_state_ok cl"
      using parse_request_ok [OF s0(2)] r that by simp_all
    have "length (querybuf (clients s2 c)) \<le> length (querybuf cl)" "parser_state_ok (clients s2 c)"
      using keeps_parserD [OF kc pc] cl(2) by simp_all
    then show ?thesis using Suc.IH [of "update_client c resetClient ?s1" x0] Suc.IH [of "if ok then update_client c resetClient s2 else s2" x2]
        cl s0(1) Suc.prems(2) by simp
  qed
  show ?case
    using step by (simp add: p r pc Let_def split: pstatus.split)
qed simp


definition demo_penv :: "unit proto_env" where
  "demo_penv = \<lparr>penv_alloc = blank_alloc, string2ll = parse_dec, sdssplitargs = (\<lambda>x. Some [x]),
     clientsArePaused = (\<lambda>st. (False, st)), processCommand = (\<lambda>c st. (True, st))\<rparr>"


text \<open>An inline request that ends in a bare line feed loses the first byte of what follows it: two
  bytes are removed after the line although only one of them ends it.\<close>

theorem inline_bare_newline_eats_byte:
  assumes "querybuf c = line @ CHR 0x0A # b # rest" and "line \<noteq> [] \<Longrightarrow> last line \<noteq> CHR 0x0D"
    and "\<forall>x\<in>set line. x \<noteq> CHR 0x0A \<and> x \<noteq> CHR 0x00" and "f line = Some args"
  shows "\<exists>c'. processInlineBuffer f c = (POk, c') \<and> argv c' = filter (\<lambda>x. x \<noteq> []) args \<and> querybuf c' = rest"
proof -
  have "strchr (CHR 0x0A) (line @ CHR 0x0A # y) = Some (length line)" for y
    using assms(3) by (induction line) auto
  moreover have "(line @ CHR 0x0A # b # rest) ! (length line - 1) = last line" if "line \<noteq> []"
    using that by (simp add: nth_append last_conv_nth)
  ultimately show ?thesis using assms(1,2,4) by (auto simp: processInlineBuffer_def Let_def)
qed

theorem inline_bare_newline_eats_byte_witness:
  "\<exists>c'. processInlineBuffer (\<lambda>x. Some [x]) (demo_reader\<lparr>querybuf := ''PING'' @ CHR 0x0A # CHR ''P'' # ''ING''\<rparr>) = (POk, c') \<and>
     argv c' = [''PING''] \<and> querybuf c' = ''ING''"
  using inline_bare_newline_eats_byte [where c = "demo_reader\<lparr>querybuf := ''PING'' @ CHR 0x0A # CHR ''P'' # ''ING''\<rparr>"
      and line = "''PING''" and b = "CHR ''P''" and rest = "''ING''" and f = "\<lambda>x. Some [x]" and args = "[''PING'']"]
  by simp

end
