(* ===== verification/Redis_Clients.thy ===== *)
theory Redis_Clients
  imports Redis_Write Redis_Proto Smem_Pubsub "HOL-Library.List_Lexorder" "HOL-Library.Char_ord"
begin

text \<open>
  The life of a client in \<open>redis/src/networking.c\<close>: creation, unlinking and freeing, deferred
  freeing, and writing its replies. A client is referenced from several lists of the server;
  the invariant says that the lists hold exactly the clients whose fields and flags say so,
  and freeing a client must leave no reference behind. Replication, transactions, blocking
  operations and the plain publish/subscribe of Redis are not part of this tree: what
  \<open>freeClient\<close> calls of them is a parameter.
\<close>

section \<open>State\<close>

record net =
  srv :: server
  slaves :: "nat list"
  monitors :: "nat list"
  repl_no_slaves_since :: int
  next_client_id :: nat
  client_ids :: "nat \<Rightarrow> nat"
  stat_net_output_bytes :: size_t

record net_env =
  net_alloc :: alloc
  has_master :: "net \<Rightarrow> bool"
  replicationCacheMaster :: "nat \<Rightarrow> net \<Rightarrow> net"
  unblockClient :: "nat \<Rightarrow> net \<Rightarrow> net"
  unwatchAllKeys :: "nat \<Rightarrow> net \<Rightarrow> net"
  pubsubUnsubscribeAll :: "nat \<Rightarrow> net \<Rightarrow> net"
  refreshGoodSlavesCount :: "net \<Rightarrow> net"
  replicationHandleMasterDisconnection :: "net \<Rightarrow> net"
  channel_order :: "nat \<Rightarrow> server \<Rightarrow> string list"
  write_capped :: "client \<Rightarrow> bool"

definition on_srv :: "(server \<Rightarrow> server) \<Rightarrow> net \<Rightarrow> net" where
  "on_srv f n = n\<lparr>srv := f (srv n)\<rparr>"

section \<open>Creation\<close>

definition new_client :: "int \<Rightarrow> int \<Rightarrow> client" where
  "new_client f t =
     \<lparr>fd = f, name = None, querybuf = [], argv = [], cmd = None, reqtype = 0, multibulklen = 0, bulklen = -1, reply = [],
      reply_bytes = 0, sentlen = 0, lastinteraction = t, obuf_soft_limit_reached_time = 0, flags = 0, authenticated = False,
      replstate = REPL_STATE_NONE, repl_put_online_on_ack = False, client_channels = {}, buf = []\<rparr>"

text \<open>\<open>p\<close> is the pointer \<open>zmalloc\<close> returns and \<open>ev\<close> whether the read handler could be
  installed.\<close>

definition createClient :: "nat \<Rightarrow> bool \<Rightarrow> int \<Rightarrow> net \<Rightarrow> nat option \<times> net" where
  "createClient p ev f n =
     (if f \<noteq> -1 \<and> \<not> ev then (None, n)
      else
        (Some p,
         (on_srv (\<lambda>s. s\<lparr>clients := (clients s)(p := new_client f (unixtime s)), allocated := insert p (allocated s),
                        client_list := (if f \<noteq> -1 then client_list s @ [p] else client_list s)\<rparr>) n)
           \<lparr>next_client_id := next_client_id n + 1, client_ids := (client_ids n)(p := next_client_id n)\<rparr>))"

section \<open>Unlinking and freeing\<close>

definition clear_flag :: "nat \<Rightarrow> nat \<Rightarrow> server \<Rightarrow> server" where
  "clear_flag c b s = update_client c (\<lambda>cl. cl\<lparr>flags := unset_bit b (flags cl)\<rparr>) s"

definition unlink_socket :: "nat \<Rightarrow> server \<Rightarrow> server" where
  "unlink_socket c s =
     (if fd (clients s c) \<noteq> -1 then
        (if c \<in> set (client_list s)
         then update_client c (\<lambda>cl. cl\<lparr>fd := -1\<rparr>) (s\<lparr>client_list := remove1 c (client_list s)\<rparr>)
         else panic s)
      else s)"

definition unlink_pending :: "nat \<Rightarrow> server \<Rightarrow> server" where
  "unlink_pending c s =
     (if bit (flags (clients s c)) CLIENT_PENDING_WRITE then
        (if c \<in> set (clients_pending_write s)
         then clear_flag c CLIENT_PENDING_WRITE (s\<lparr>clients_pending_write := remove1 c (clients_pending_write s)\<rparr>)
         else panic s)
      else s)"

definition unlink_unblocked :: "nat \<Rightarrow> server \<Rightarrow> server" where
  "unlink_unblocked c s =
     (if bit (flags (clients s c)) CLIENT_UNBLOCKED then
        (if c \<in> set (unblocked_clients s)
         then clear_flag c CLIENT_UNBLOCKED (s\<lparr>unblocked_clients := remove1 c (unblocked_clients s)\<rparr>)
         else panic s)
      else s)"

definition unlinkClient :: "nat \<Rightarrow> server \<Rightarrow> server" where
  "unlinkClient c s =
     unlink_unblocked c (unlink_pending c (unlink_socket c
       (if current_client s = Some c then s\<lparr>current_client := None\<rparr> else s)))"

text \<open>The cleanup of a slave or monitor, and the removal from the queue of deferred frees.\<close>

definition drop_slave :: "net_env \<Rightarrow> nat \<Rightarrow> net \<Rightarrow> net" where
  "drop_slave E c n =
     (if bit (flags (clients (srv n) c)) CLIENT_SLAVE then
        (let n1 = (if bit (flags (clients (srv n) c)) CLIENT_MONITOR
                   then (if c \<in> set (monitors n) then n\<lparr>monitors := remove1 c (monitors n)\<rparr> else on_srv panic n)
                   else (if c \<in> set (slaves n) then n\<lparr>slaves := remove1 c (slaves n)\<rparr> else on_srv panic n))
         in refreshGoodSlavesCount E
              (if length (slaves n1) = 0 then n1\<lparr>repl_no_slaves_since := unixtime (srv n1)\<rparr> else n1))
      else n)"

definition drop_scheduled :: "nat \<Rightarrow> server \<Rightarrow> server" where
  "drop_scheduled c s =
     (if bit (flags (clients s c)) CLIENT_CLOSE_ASAP then
        (if c \<in> set (clients_to_close s) then s\<lparr>clients_to_close := remove1 c (clients_to_close s)\<rparr> else panic s)
      else s)"

definition zfree :: "nat \<Rightarrow> server \<Rightarrow> server" where
  "zfree c s = s\<lparr>allocated := allocated s - {c}\<rparr>"

definition caches_master :: "net_env \<Rightarrow> nat \<Rightarrow> net \<Rightarrow> bool" where
  "caches_master E c n \<longleftrightarrow> has_master E n \<and> bit (flags (clients (srv n) c)) CLIENT_MASTER \<and>
     \<not> (bit (flags (clients (srv n) c)) CLIENT_CLOSE_AFTER_REPLY \<or> bit (flags (clients (srv n) c)) CLIENT_CLOSE_ASAP \<or>
        bit (flags (clients (srv n) c)) CLIENT_BLOCKED \<or> bit (flags (clients (srv n) c)) CLIENT_UNBLOCKED)"

definition release_client :: "net_env \<Rightarrow> nat \<Rightarrow> net \<Rightarrow> net" where
  \<comment> \<open>up to and including \<open>unlinkClient\<close>\<close>
  "release_client E c n =
     (let n1 = on_srv (update_client c (\<lambda>cl. cl\<lparr>querybuf := []\<rparr>)) n;
          n2 = (if bit (flags (clients (srv n1) c)) CLIENT_BLOCKED then unblockClient E c n1 else n1);
          n3 = pubsubUnsubscribeAll E c (unwatchAllKeys E c n2);
          n4 = on_srv (\<lambda>s. snd (smempubsubUnsubscribeAllChannels (net_alloc E) c False (channel_order E c s) s)) n3;
          n5 = on_srv (update_client c (\<lambda>cl. freeClientArgv (cl\<lparr>reply := []\<rparr>))) n4
      in on_srv (unlinkClient c) n5)"

definition freeClient :: "net_env \<Rightarrow> nat \<Rightarrow> net \<Rightarrow> net" where
  "freeClient E c n =
     (if caches_master E c n then replicationCacheMaster E c n
      else
        (let n1 = drop_slave E c (release_client E c n);
             n2 = (if bit (flags (clients (srv n1) c)) CLIENT_MASTER then replicationHandleMasterDisconnection E n1 else n1)
         in on_srv (\<lambda>s. zfree c (drop_scheduled c s)) n2))"

text \<open>Clients whose freeing was deferred; the fuel bounds the number of rounds.\<close>

fun freeClientsInAsyncFreeQueue :: "net_env \<Rightarrow> nat \<Rightarrow> net \<Rightarrow> net option" where
  "freeClientsInAsyncFreeQueue E 0 n = None"
| "freeClientsInAsyncFreeQueue E (Suc fuel) n =
     (case clients_to_close (srv n) of
        [] \<Rightarrow> Some n
      | c # _ \<Rightarrow>
          freeClientsInAsyncFreeQueue E fuel
            (on_srv (\<lambda>s. s\<lparr>clients_to_close := remove1 c (clients_to_close s)\<rparr>)
              (freeClient E c (on_srv (clear_flag c CLIENT_CLOSE_ASAP) n))))"

section \<open>Writing\<close>

text \<open>\<open>eagain\<close> says whether a failed write only has to be tried again. The result is the bytes
  that went to the socket, whether the client is still valid, and the state.\<close>

definition writeToClient :: "net_env \<Rightarrow> int list \<Rightarrow> bool \<Rightarrow> nat \<Rightarrow> net \<Rightarrow> string \<times> bool \<times> net" where
  "writeToClient E ws eagain c n =
     (let r = write_loop (net_alloc E) (write_capped E) ws 0 0 (clients (srv n) c);
          n1 = (on_srv (update_client c (\<lambda>_. writer r)) n)
                 \<lparr>stat_net_output_bytes := stat_net_output_bytes n + of_nat (counted r)\<rparr>
      in if nwritten r = -1 \<and> \<not> eagain then (sent r, False, freeClient E c n1)
         else
           (let n2 = (if totwritten r > 0 \<and> \<not> bit (flags (clients (srv n1) c)) CLIENT_MASTER
                      then on_srv (\<lambda>s. update_client c (\<lambda>cl. cl\<lparr>lastinteraction := unixtime s\<rparr>) s) n1 else n1)
            in if \<not> clientHasPendingReplies (clients (srv n2) c) then
                 (let n3 = on_srv (update_client c (\<lambda>cl. cl\<lparr>sentlen := 0\<rparr>)) n2
                  in if bit (flags (clients (srv n3) c)) CLIENT_CLOSE_AFTER_REPLY
                     then (sent r, False, freeClient E c n3) else (sent r, True, n3))
               else (sent r, True, n2)))"

text \<open>One round for a client with pending output: \<open>ws c\<close> is what its socket accepts and
  \<open>ev c\<close> whether the write handler can be installed.\<close>

definition pending_write_step ::
    "net_env \<Rightarrow> (nat \<Rightarrow> int list) \<Rightarrow> (nat \<Rightarrow> bool) \<Rightarrow> (nat \<Rightarrow> bool) \<Rightarrow> nat \<Rightarrow> net \<Rightarrow> net" where
  "pending_write_step E ws eagain ev c n =
     (let n1 = on_srv (\<lambda>s. (clear_flag c CLIENT_PENDING_WRITE s)\<lparr>clients_pending_write := remove1 c (clients_pending_write s)\<rparr>) n
      in case writeToClient E (ws c) (eagain c) c n1 of
           (_, valid, n2) \<Rightarrow>
             if valid \<and> clientHasPendingReplies (clients (srv n2) c) \<and> \<not> ev c then on_srv (freeClientAsync c) n2 else n2)"

definition handleClientsWithPendingWrites ::
    "net_env \<Rightarrow> (nat \<Rightarrow> int list) \<Rightarrow> (nat \<Rightarrow> bool) \<Rightarrow> (nat \<Rightarrow> bool) \<Rightarrow> net \<Rightarrow> nat \<times> net" where
  "handleClientsWithPendingWrites E ws eagain ev n =
     (length (clients_pending_write (srv n)), fold (pending_write_step E ws eagain ev) (clients_pending_write (srv n)) n)"

section \<open>The reference invariant\<close>

text \<open>A list that holds exactly the elements of a set, each once.\<close>

definition listed :: "nat list \<Rightarrow> nat set \<Rightarrow> bool" where
  "listed l S \<longleftrightarrow> distinct l \<and> set l = S"

definition flagged :: "nat \<Rightarrow> server \<Rightarrow> nat set" where
  "flagged b s = {c \<in> allocated s. bit (flags (clients s c)) b}"

text \<open>While the queue of deferred frees is worked off, the client being freed is still queued although
  its flag is cleared: \<open>X\<close> is the set of such clients.\<close>

definition connected :: "server \<Rightarrow> nat set" where
  "connected s = {c \<in> allocated s. fd (clients s c) \<noteq> -1}"

definition srv_inv :: "nat set \<Rightarrow> server \<Rightarrow> bool" where
  "srv_inv X s \<longleftrightarrow>
     listed (client_list s) (connected s) \<and>
     listed (clients_pending_write s) (flagged CLIENT_PENDING_WRITE s) \<and>
     listed (unblocked_clients s) (flagged CLIENT_UNBLOCKED s) \<and>
     listed (clients_to_close s) (flagged CLIENT_CLOSE_ASAP s \<union> X) \<and> X \<inter> flagged CLIENT_CLOSE_ASAP s = {} \<and>
     (\<forall>c. current_client s = Some c \<longrightarrow> c \<in> allocated s)"

definition chan_inv :: "server \<Rightarrow> bool" where
  "chan_inv s \<longleftrightarrow> subs_ok s \<and> (\<forall>c. c \<notin> allocated s \<longrightarrow> client_channels (clients s c) = {})"

definition net_inv :: "nat set \<Rightarrow> net \<Rightarrow> bool" where
  "net_inv X n \<longleftrightarrow> srv_inv X (srv n) \<and> chan_inv (srv n) \<and>
     listed (slaves n) (flagged CLIENT_SLAVE (srv n) - flagged CLIENT_MONITOR (srv n)) \<and>
     listed (monitors n) (flagged CLIENT_SLAVE (srv n) \<inter> flagged CLIENT_MONITOR (srv n))"

lemma listed_remove: "listed l S \<Longrightarrow> listed (remove1 c l) (S - {c})"
  by (simp add: listed_def set_remove1_eq)

lemma listed_add: "listed l S \<Longrightarrow> c \<notin> S \<Longrightarrow> listed (l @ [c]) (insert c S)"
  by (simp add: listed_def)

text \<open>What a step may change without touching a reference.\<close>

definition ref_frame :: "server \<Rightarrow> server \<Rightarrow> bool" where
  "ref_frame s t \<longleftrightarrow>
     allocated t = allocated s \<and> current_client t = current_client s \<and> client_list t = client_list s \<and>
     clients_pending_write t = clients_pending_write s \<and> clients_to_close t = clients_to_close s \<and>
     unblocked_clients t = unblocked_clients s \<and> unixtime t = unixtime s \<and>
     (\<forall>c. fd (clients t c) = fd (clients s c) \<and> flags (clients t c) = flags (clients s c))"

lemma ref_frame_refl [simp]: "ref_frame s s"
  by (simp add: ref_frame_def)

lemma ref_frame_trans: "ref_frame s t \<Longrightarrow> ref_frame t u \<Longrightarrow> ref_frame s u"
  by (simp add: ref_frame_def)

lemma ref_frame_update: "(\<And>cl. fd (f cl) = fd cl \<and> flags (f cl) = flags cl) \<Longrightarrow> ref_frame s (update_client c f s)"
  by (simp add: ref_frame_def)

lemma flagged_frame: "ref_frame s t \<Longrightarrow> flagged b t = flagged b s"
  by (simp add: ref_frame_def flagged_def)

lemma srv_inv_frame: "ref_frame s t \<Longrightarrow> srv_inv X t = srv_inv X s"
  using flagged_frame [of s t] by (simp add: srv_inv_def ref_frame_def connected_def)

lemma chan_inv_frame:
  "smempubsub_channels t = smempubsub_channels s \<Longrightarrow> (\<And>c. client_channels (clients t c) = client_channels (clients s c)) \<Longrightarrow>
     allocated t = allocated s \<Longrightarrow> chan_inv t = chan_inv s"
  using subs_ok_frame [of t s] by (simp add: chan_inv_def)

lemma net_inv_update:
  assumes "\<And>cl. fd (f cl) = fd cl \<and> flags (f cl) = flags cl \<and> client_channels (f cl) = client_channels cl"
  shows "net_inv X (on_srv (update_client c f) n) = net_inv X n"
proof -
  have f: "ref_frame (srv n) (update_client c f (srv n))" by (rule ref_frame_update) (use assms in simp)
  show ?thesis using srv_inv_frame [OF f] flagged_frame [OF f] chan_inv_frame [of "update_client c f (srv n)" "srv n"] assms
    by (simp add: net_inv_def on_srv_def)
qed

subsection \<open>Leaving the channels\<close>

lemma unsubscribe_core_ref: "ref_frame s (snd (unsubscribe_core c ch s))"
  by (auto simp: unsubscribe_core_def ref_frame_def drop_channel_def panic_def Let_def split: option.split)

lemma unsubscribe_all_ref:
  assumes "subs_ok s"
  shows "ref_frame s (snd (smempubsubUnsubscribeAllChannels A c False order s)) \<and>
    aborted (snd (smempubsubUnsubscribeAllChannels A c False order s)) = aborted s"
proof -
  have "subs_ok s \<Longrightarrow> ref_frame s (snd (fold (unsubscribe_step A c False) order (k, s))) \<and>
      aborted (snd (fold (unsubscribe_step A c False) order (k, s))) = aborted s" for k
  proof (induction order arbitrary: s k)
    case (Cons ch order)
    obtain r s1 where u: "unsubscribe_core c ch s = (r, s1)" by (cases "unsubscribe_core c ch s")
    have step: "unsubscribe_step A c False ch (k, s) = (k + r, s1)" using u by (simp add: unsubscribe_step_def smempubsubUnsubscribeChannel_def)
    have "ref_frame s s1" using unsubscribe_core_ref [of s c ch] u by simp
    with Cons.IH [OF unsubscribe_core_cases(1) [OF Cons.prems u], of "k + r"] unsubscribe_core_cases(4) [OF Cons.prems u]
    show ?case by (auto simp: step intro: ref_frame_trans)
  qed simp
  from this [OF assms, of 0] show ?thesis by (simp add: smempubsubUnsubscribeAllChannels_def case_prod_beta)
qed

lemma unsubscribe_all_net:
  assumes "net_inv X n" and "c \<in> allocated (srv n)" and "set order = client_channels (clients (srv n) c)"
    and m_def: "m = on_srv (\<lambda>s. snd (smempubsubUnsubscribeAllChannels A c False order s)) n"
  shows "net_inv X m \<and> ref_frame (srv n) (srv m) \<and> aborted (srv m) = aborted (srv n) \<and> client_channels (clients (srv m) c) = {}"
proof -
  let ?s = "srv n" and ?t = "srv m"
  have t: "?t = snd (smempubsubUnsubscribeAllChannels A c False order ?s)" by (simp add: m_def on_srv_def)
  have ok: "subs_ok ?s" using assms(1) by (simp add: net_inv_def chan_inv_def)
  have f: "ref_frame ?s ?t" "aborted ?t = aborted ?s" using unsubscribe_all_ref [OF ok] t by simp_all
  obtain k t1 where "fold (unsubscribe_step A c False) order (0, ?s) = (k, t1)" by (meson surj_pair)
  with unsubscribe_fold [OF ok this] t have u: "subs_ok ?t" "client_channels (clients ?t c) = {}"
      "\<And>d. d \<noteq> c \<Longrightarrow> client_channels (clients ?t d) = client_channels (clients ?s d)"
    using assms(3) by (simp_all add: smempubsubUnsubscribeAllChannels_def)
  have "client_channels (clients ?t d) = {}" if "d \<notin> allocated ?t" for d
    using that u(3) [of d] assms(1,2) f(1) by (cases "d = c") (auto simp: net_inv_def chan_inv_def ref_frame_def)
  then have "chan_inv ?t" using u(1) by (simp add: chan_inv_def)
  moreover have "slaves m = slaves n" "monitors m = monitors n" by (simp_all add: m_def on_srv_def)
  ultimately show ?thesis using assms(1) srv_inv_frame [OF f(1)] flagged_frame [OF f(1)] f u(2) by (simp add: net_inv_def)
qed

subsection \<open>Unlinking\<close>

definition link_frame :: "server \<Rightarrow> server \<Rightarrow> bool" where
  "link_frame s t \<longleftrightarrow>
     allocated t = allocated s \<and> smempubsub_channels t = smempubsub_channels s \<and> aborted t = aborted s \<and>
     clients_to_close t = clients_to_close s \<and>
     (\<forall>d. client_channels (clients t d) = client_channels (clients s d) \<and>
        (\<forall>b. b \<noteq> CLIENT_PENDING_WRITE \<longrightarrow> b \<noteq> CLIENT_UNBLOCKED \<longrightarrow> bit (flags (clients t d)) b = bit (flags (clients s d)) b))"

lemma link_frame_trans: "link_frame s t \<Longrightarrow> link_frame t u \<Longrightarrow> link_frame s u"
  by (simp add: link_frame_def)

lemma flagged_link: "link_frame s t \<Longrightarrow> b \<noteq> CLIENT_PENDING_WRITE \<Longrightarrow> b \<noteq> CLIENT_UNBLOCKED \<Longrightarrow> flagged b t = flagged b s"
  by (auto simp: link_frame_def flagged_def)

lemma chan_inv_link: "link_frame s t \<Longrightarrow> chan_inv t = chan_inv s"
  by (rule chan_inv_frame) (simp_all add: link_frame_def)

lemma flagged_clear: "flagged b (clear_flag c b' s) = (if b = b' then flagged b s - {c} else flagged b s)"
  by (auto simp: flagged_def clear_flag_def)

lemma clear_flag_simps [simp]:
  "client_list (clear_flag c b s) = client_list s" "clients_pending_write (clear_flag c b s) = clients_pending_write s"
  "unblocked_clients (clear_flag c b s) = unblocked_clients s" "clients_to_close (clear_flag c b s) = clients_to_close s"
  "allocated (clear_flag c b s) = allocated s" "current_client (clear_flag c b s) = current_client s"
  "smempubsub_channels (clear_flag c b s) = smempubsub_channels s" "aborted (clear_flag c b s) = aborted s"
  "unixtime (clear_flag c b s) = unixtime s"
  "fd (clients (clear_flag c b s) d) = fd (clients s d)" "client_channels (clients (clear_flag c b s) d) = client_channels (clients s d)"
  "bit (flags (clients (clear_flag c b s) d)) b' = (bit (flags (clients s d)) b' \<and> \<not> (d = c \<and> b' = b))"
  by (auto simp: clear_flag_def)

lemma flagged_list_update [simp]:
  "flagged b (s\<lparr>client_list := l\<rparr>) = flagged b s" "flagged b (s\<lparr>clients_pending_write := l\<rparr>) = flagged b s"
  "flagged b (s\<lparr>unblocked_clients := l\<rparr>) = flagged b s" "flagged b (s\<lparr>clients_to_close := l\<rparr>) = flagged b s"
  "flagged b (s\<lparr>current_client := x\<rparr>) = flagged b s"
  "connected (s\<lparr>client_list := l\<rparr>) = connected s" "connected (s\<lparr>clients_pending_write := l\<rparr>) = connected s"
  "connected (s\<lparr>unblocked_clients := l\<rparr>) = connected s" "connected (s\<lparr>clients_to_close := l\<rparr>) = connected s"
  "connected (s\<lparr>current_client := x\<rparr>) = connected s" "connected (clear_flag c b' s) = connected s"
  by (simp_all add: flagged_def connected_def)

lemma unlink_socket_inv:
  assumes "srv_inv X s" and "c \<in> allocated s"
  shows "srv_inv X (unlink_socket c s) \<and> link_frame s (unlink_socket c s) \<and> fd (clients (unlink_socket c s) c) = -1 \<and>
    current_client (unlink_socket c s) = current_client s"
proof (cases "fd (clients s c) = -1")
  case False
  let ?t = "update_client c (\<lambda>cl. cl\<lparr>fd := -1\<rparr>) (s\<lparr>client_list := remove1 c (client_list s)\<rparr>)"
  have "c \<in> set (client_list s)" using assms False by (auto simp: srv_inv_def listed_def connected_def)
  then have t: "unlink_socket c s = ?t" using False by (simp add: unlink_socket_def)
  have sock: "connected ?t = connected s - {c}" by (auto simp: connected_def)
  have fl: "flagged b ?t = flagged b s" for b by (auto simp: flagged_def)
  have "srv_inv X ?t" using assms(1) listed_remove [of "client_list s"] by (simp add: srv_inv_def fl sock)
  then show ?thesis unfolding t by (simp add: link_frame_def)
qed (use assms in \<open>simp add: unlink_socket_def link_frame_def\<close>)

lemma unlink_pending_inv:
  assumes "srv_inv X s" and "c \<in> allocated s"
  shows "srv_inv X (unlink_pending c s) \<and> link_frame s (unlink_pending c s) \<and> fd (clients (unlink_pending c s) c) = fd (clients s c) \<and>
    c \<notin> flagged CLIENT_PENDING_WRITE (unlink_pending c s) \<and> current_client (unlink_pending c s) = current_client s"
proof (cases "bit (flags (clients s c)) CLIENT_PENDING_WRITE")
  case True
  let ?t = "clear_flag c CLIENT_PENDING_WRITE (s\<lparr>clients_pending_write := remove1 c (clients_pending_write s)\<rparr>)"
  have "c \<in> set (clients_pending_write s)" using assms True by (auto simp: srv_inv_def listed_def flagged_def)
  then have t: "unlink_pending c s = ?t" using True by (simp add: unlink_pending_def)
  have "srv_inv X ?t" using assms(1) listed_remove [of "clients_pending_write s"] by (simp add: srv_inv_def flagged_clear)
  then show ?thesis unfolding t by (simp add: link_frame_def flagged_clear)
qed (use assms in \<open>simp add: unlink_pending_def link_frame_def flagged_def\<close>)

lemma unlink_unblocked_inv:
  assumes "srv_inv X s" and "c \<in> allocated s"
  shows "srv_inv X (unlink_unblocked c s) \<and> link_frame s (unlink_unblocked c s) \<and> fd (clients (unlink_unblocked c s) c) = fd (clients s c) \<and>
    flagged CLIENT_PENDING_WRITE (unlink_unblocked c s) = flagged CLIENT_PENDING_WRITE s \<and>
    c \<notin> flagged CLIENT_UNBLOCKED (unlink_unblocked c s) \<and> current_client (unlink_unblocked c s) = current_client s"
proof (cases "bit (flags (clients s c)) CLIENT_UNBLOCKED")
  case True
  let ?t = "clear_flag c CLIENT_UNBLOCKED (s\<lparr>unblocked_clients := remove1 c (unblocked_clients s)\<rparr>)"
  have "c \<in> set (unblocked_clients s)" using assms True by (auto simp: srv_inv_def listed_def flagged_def)
  then have t: "unlink_unblocked c s = ?t" using True by (simp add: unlink_unblocked_def)
  have "srv_inv X ?t" using assms(1) listed_remove [of "unblocked_clients s"] by (simp add: srv_inv_def flagged_clear)
  then show ?thesis unfolding t by (simp add: link_frame_def flagged_clear)
qed (use assms in \<open>simp add: unlink_unblocked_def link_frame_def flagged_def\<close>)

text \<open>A client that nothing but its own flags refers to.\<close>

definition detached :: "nat \<Rightarrow> server \<Rightarrow> bool" where
  "detached c s \<longleftrightarrow> c \<notin> connected s \<and> c \<notin> flagged CLIENT_PENDING_WRITE s \<and> c \<notin> flagged CLIENT_UNBLOCKED s \<and>
     current_client s \<noteq> Some c"

lemma unlinkClient_inv:
  assumes "srv_inv X s" and "c \<in> allocated s"
  shows "srv_inv X (unlinkClient c s)" and "link_frame s (unlinkClient c s)" and "detached c (unlinkClient c s)"
proof -
  define s0 where "s0 = (if current_client s = Some c then s\<lparr>current_client := None\<rparr> else s)"
  define s1 where "s1 = unlink_socket c s0"
  define s2 where "s2 = unlink_pending c s1"
  have t: "unlinkClient c s = unlink_unblocked c s2" by (simp add: unlinkClient_def s0_def s1_def s2_def)
  have 0: "srv_inv X s0" "link_frame s s0" "current_client s0 \<noteq> Some c"
    using assms(1) by (auto simp: s0_def srv_inv_def link_frame_def)
  have 1: "srv_inv X s1" "link_frame s0 s1" "fd (clients s1 c) = -1" "current_client s1 = current_client s0" "c \<in> allocated s1"
    using unlink_socket_inv [OF 0(1), of c] 0(2) assms(2) by (auto simp: s1_def link_frame_def)
  have 2: "srv_inv X s2" "link_frame s1 s2" "fd (clients s2 c) = -1" "current_client s2 = current_client s0" "c \<in> allocated s2"
      "c \<notin> flagged CLIENT_PENDING_WRITE s2"
    using unlink_pending_inv [OF 1(1,5)] 1(3,4,5) by (auto simp: s2_def link_frame_def)
  note 3 = unlink_unblocked_inv [OF 2(1,5)]
  show "srv_inv X (unlinkClient c s)" using 3 t by simp
  show "link_frame s (unlinkClient c s)" using 0(2) 1(2) 2(2) 3 t by (metis link_frame_trans)
  show "detached c (unlinkClient c s)" using 0(3) 2(3,4,6) 3 t by (simp add: detached_def connected_def)
qed

lemma unlinkClient_list:
  assumes "srv_inv X s"
  shows "client_list (unlinkClient c s) = remove1 c (client_list s)"
proof -
  have "remove1 c (client_list s) = client_list s" if "fd (clients s c) = -1"
    using that assms by (intro remove1_idem) (auto simp: srv_inv_def listed_def connected_def)
  moreover have "c \<in> set (client_list s)" if "fd (clients s c) \<noteq> -1" "c \<in> allocated s"
    using that assms by (auto simp: srv_inv_def listed_def connected_def)
  moreover have "client_list (unlink_unblocked c (unlink_pending c u)) = client_list u" for u
    by (simp add: unlink_unblocked_def unlink_pending_def panic_def)
  ultimately show ?thesis using remove1_idem [of c "client_list s"]
    by (auto simp: unlinkClient_def unlink_socket_def panic_def)
qed

subsection \<open>Freeing\<close>

text \<open>What the functions of other files must not do: the ones called before the client is unlinked
  keep the invariant, do not free, disconnect or schedule a client and do not fail; the
  ones called after leave the lists alone. The iterator over the channels of a client visits every entry.\<close>

definition keeps_refs :: "(nat \<Rightarrow> net \<Rightarrow> net) \<Rightarrow> bool" where
  "keeps_refs f \<longleftrightarrow> (\<forall>X c n. net_inv X n \<longrightarrow> c \<in> allocated (srv n) \<longrightarrow>
     net_inv X (f c n) \<and> allocated (srv (f c n)) = allocated (srv n) \<and> aborted (srv (f c n)) = aborted (srv n) \<and>
     clients_to_close (srv (f c n)) = clients_to_close (srv n) \<and> client_list (srv (f c n)) = client_list (srv n))"

definition leaves_lists :: "(net \<Rightarrow> net) \<Rightarrow> bool" where
  "leaves_lists g \<longleftrightarrow> (\<forall>n. srv (g n) = srv n \<and> slaves (g n) = slaves n \<and> monitors (g n) = monitors n)"

definition env_ok :: "net_env \<Rightarrow> bool" where
  "env_ok E \<longleftrightarrow> keeps_refs (unblockClient E) \<and> keeps_refs (unwatchAllKeys E) \<and> keeps_refs (pubsubUnsubscribeAll E) \<and>
     leaves_lists (refreshGoodSlavesCount E) \<and> leaves_lists (replicationHandleMasterDisconnection E) \<and>
     (\<forall>c s. subs_ok s \<longrightarrow> set (channel_order E c s) = client_channels (clients s c))"

lemma keeps_refsD:
  assumes "keeps_refs f" and "net_inv X n" and "c \<in> allocated (srv n)"
  shows "net_inv X (f c n)" and "allocated (srv (f c n)) = allocated (srv n)" and "aborted (srv (f c n)) = aborted (srv n)"
    and "clients_to_close (srv (f c n)) = clients_to_close (srv n)" and "client_list (srv (f c n)) = client_list (srv n)"
  using assms unfolding keeps_refs_def by blast+

lemma net_inv_link:
  assumes "net_inv X n" and "srv_inv X t" and "link_frame (srv n) t"
  shows "net_inv X (n\<lparr>srv := t\<rparr>)"
  using assms flagged_link [OF assms(3), of CLIENT_SLAVE] flagged_link [OF assms(3), of CLIENT_MONITOR]
  by (simp add: net_inv_def chan_inv_link)

lemma release_client_inv:
  assumes E: "env_ok E" and n: "net_inv X n" "c \<in> allocated (srv n)"
  defines "m \<equiv> release_client E c n"
  shows "net_inv X m" and "allocated (srv m) = allocated (srv n)" and "aborted (srv m) = aborted (srv n)"
    and "detached c (srv m)" and "client_channels (clients (srv m) c) = {}"
    and "clients_to_close (srv m) = clients_to_close (srv n)" and "client_list (srv m) = remove1 c (client_list (srv n))"
proof -
  define n1 where "n1 = on_srv (update_client c (\<lambda>cl. cl\<lparr>querybuf := []\<rparr>)) n"
  define n2 where "n2 = (if bit (flags (clients (srv n1) c)) CLIENT_BLOCKED then unblockClient E c n1 else n1)"
  define n3 where "n3 = pubsubUnsubscribeAll E c (unwatchAllKeys E c n2)"
  define n4 where "n4 = on_srv (\<lambda>s. snd (smempubsubUnsubscribeAllChannels (net_alloc E) c False (channel_order E c (srv n3)) s)) n3"
  define n5 where "n5 = on_srv (update_client c (\<lambda>cl. freeClientArgv (cl\<lparr>reply := []\<rparr>))) n4"
  have m: "m = on_srv (unlinkClient c) n5"
    by (simp add: m_def release_client_def Let_def n1_def n2_def n3_def n4_def n5_def on_srv_def)
  note kept = E [unfolded env_ok_def]
  have 1: "net_inv X n1" "allocated (srv n1) = allocated (srv n)" "aborted (srv n1) = aborted (srv n)" "clients_to_close (srv n1) = clients_to_close (srv n)"
    "client_list (srv n1) = client_list (srv n)"
    using n(1) by (simp_all add: n1_def net_inv_update) (simp_all add: on_srv_def)
  have 2: "net_inv X n2" "allocated (srv n2) = allocated (srv n)" "aborted (srv n2) = aborted (srv n)" "clients_to_close (srv n2) = clients_to_close (srv n)"
    "client_list (srv n2) = client_list (srv n)"
    using 1 n(2) keeps_refsD [of "unblockClient E" X n1 c] kept by (auto simp: n2_def)
  have w: "net_inv X (unwatchAllKeys E c n2)" "allocated (srv (unwatchAllKeys E c n2)) = allocated (srv n)" "aborted (srv (unwatchAllKeys E c n2)) = aborted (srv n)"
    "clients_to_close (srv (unwatchAllKeys E c n2)) = clients_to_close (srv n)" "client_list (srv (unwatchAllKeys E c n2)) = client_list (srv n)"
    using 2 n(2) keeps_refsD [of "unwatchAllKeys E" X n2 c] kept by simp_all
  have 3: "net_inv X n3" "allocated (srv n3) = allocated (srv n)" "aborted (srv n3) = aborted (srv n)" "clients_to_close (srv n3) = clients_to_close (srv n)"
    "client_list (srv n3) = client_list (srv n)"
    using w n(2) keeps_refsD [of "pubsubUnsubscribeAll E" X "unwatchAllKeys E c n2" c] kept by (simp_all add: n3_def)
  have 4: "net_inv X n4" "ref_frame (srv n3) (srv n4)" "aborted (srv n4) = aborted (srv n)" "clients_to_close (srv n4) = clients_to_close (srv n)"
    "client_list (srv n4) = client_list (srv n)" "client_channels (clients (srv n4) c) = {}"
    using unsubscribe_all_net [OF 3(1) _ _ n4_def] 3 n(2) kept by (simp_all add: net_inv_def chan_inv_def ref_frame_def)
  have 5: "net_inv X n5" "allocated (srv n5) = allocated (srv n)" "aborted (srv n5) = aborted (srv n)" "clients_to_close (srv n5) = clients_to_close (srv n)"
    "client_list (srv n5) = client_list (srv n)" "client_channels (clients (srv n5) c) = {}"
    using 4 3(2) by (simp_all add: n5_def net_inv_update freeClientArgv_def) (simp_all add: on_srv_def ref_frame_def)
  have s5: "srv_inv X (srv n5)" "c \<in> allocated (srv n5)" using 5(1,2) n(2) by (simp_all add: net_inv_def)
  note u = unlinkClient_inv [OF s5]
  show "net_inv X m" using net_inv_link [OF 5(1) u(1,2)] by (simp add: m on_srv_def)
  show "allocated (srv m) = allocated (srv n)" "aborted (srv m) = aborted (srv n)" "client_channels (clients (srv m) c) = {}"
    "clients_to_close (srv m) = clients_to_close (srv n)"
    using u(2) 5 by (simp_all add: m on_srv_def link_frame_def)
  show "client_list (srv m) = remove1 c (client_list (srv n))" using unlinkClient_list [OF s5(1)] 5(5) by (simp add: m on_srv_def)
  show "detached c (srv m)" using u(3) by (simp add: m on_srv_def)
qed

lemma drop_slave_lists:
  assumes "env_ok E" and "net_inv X n" and "c \<in> allocated (srv n)"
  shows "srv (drop_slave E c n) = srv n"
    and "listed (slaves (drop_slave E c n)) (flagged CLIENT_SLAVE (srv n) - flagged CLIENT_MONITOR (srv n) - {c})"
    and "listed (monitors (drop_slave E c n)) (flagged CLIENT_SLAVE (srv n) \<inter> flagged CLIENT_MONITOR (srv n) - {c})"
proof -
  let ?S = "flagged CLIENT_SLAVE (srv n)" and ?M = "flagged CLIENT_MONITOR (srv n)"
  have l: "listed (slaves n) (?S - ?M)" "listed (monitors n) (?S \<inter> ?M)" using assms(2) by (simp_all add: net_inv_def)
  have q: "srv (refreshGoodSlavesCount E x) = srv x \<and> slaves (refreshGoodSlavesCount E x) = slaves x \<and> monitors (refreshGoodSlavesCount E x) = monitors x" for x
    using assms(1) by (simp add: env_ok_def leaves_lists_def)
  have mem: "c \<in> ?S \<longleftrightarrow> bit (flags (clients (srv n) c)) CLIENT_SLAVE" "c \<in> ?M \<longleftrightarrow> bit (flags (clients (srv n) c)) CLIENT_MONITOR"
    using assms(3) by (simp_all add: flagged_def)
  have "srv (drop_slave E c n) = srv n \<and> slaves (drop_slave E c n) = (if c \<in> ?S - ?M then remove1 c (slaves n) else slaves n) \<and>
      monitors (drop_slave E c n) = (if c \<in> ?S \<inter> ?M then remove1 c (monitors n) else monitors n)"
    using l mem by (simp add: drop_slave_def Let_def q listed_def)
  moreover have "?S - ?M - {c} = ?S - ?M" if "c \<notin> ?S - ?M" using that by blast
  moreover have "?S \<inter> ?M - {c} = ?S \<inter> ?M" if "c \<notin> ?S \<inter> ?M" using that by blast
  ultimately show "srv (drop_slave E c n) = srv n" "listed (slaves (drop_slave E c n)) (?S - ?M - {c})"
    "listed (monitors (drop_slave E c n)) (?S \<inter> ?M - {c})"
    using listed_remove [OF l(1), of c] listed_remove [OF l(2), of c] l by auto
qed

lemma zfree_inv:
  assumes s: "srv_inv X s" "chan_inv s" and c: "detached c s" "client_channels (clients s c) = {}" "c \<in> allocated s"
  defines "t \<equiv> zfree c (drop_scheduled c s)"
  shows "srv_inv X t" and "chan_inv t" and "allocated t = allocated s - {c}" and "aborted t = aborted s"
    and "flagged b t = flagged b s - {c}" and "c \<notin> X \<Longrightarrow> c \<notin> set (clients_to_close t)"
    and "smempubsub_channels t = smempubsub_channels s" and "clients t = clients s"
proof -
  let ?F = "flagged CLIENT_CLOSE_ASAP s"
  have in_close: "c \<in> set (clients_to_close s)" if "bit (flags (clients s c)) CLIENT_CLOSE_ASAP"
    using that s(1) c(3) by (auto simp: srv_inv_def listed_def flagged_def)
  have t: "t = s\<lparr>clients_to_close := (if c \<in> ?F then remove1 c (clients_to_close s) else clients_to_close s), allocated := allocated s - {c}\<rparr>"
    using in_close c(3) by (auto simp: t_def zfree_def drop_scheduled_def flagged_def)
  show flagged: "flagged b t = flagged b s - {c}" for b by (auto simp: t flagged_def)
  have conn: "connected t = connected s" using c(1) by (auto simp: t connected_def detached_def)
  have l: "listed (clients_to_close s) (?F \<union> X)" "X \<inter> ?F = {}" using s(1) by (simp_all add: srv_inv_def)
  have close: "listed (clients_to_close t) (flagged CLIENT_CLOSE_ASAP t \<union> X)"
  proof (cases "c \<in> ?F")
    case True
    then have "?F \<union> X - {c} = ?F - {c} \<union> X" using l(2) by auto
    with True show ?thesis using listed_remove [OF l(1), of c] unfolding flagged by (simp add: t)
  next
    case False
    then show ?thesis using l(1) unfolding flagged by (simp add: t)
  qed
  show "srv_inv X t" using s(1) c(1) close by (simp add: srv_inv_def conn flagged detached_def) (auto simp: t)
  have "subs_ok t = subs_ok s" by (rule subs_ok_frame) (simp_all add: t)
  then show "chan_inv t" using s(2) c(2) by (auto simp: chan_inv_def t)
  show "c \<notin> X \<Longrightarrow> c \<notin> set (clients_to_close t)" using close by (simp add: listed_def flagged)
  show "allocated t = allocated s - {c}" "aborted t = aborted s" "smempubsub_channels t = smempubsub_channels s" "clients t = clients s"
    by (simp_all add: t)
qed

definition unreferenced :: "nat \<Rightarrow> net \<Rightarrow> bool" where
  "unreferenced c n \<longleftrightarrow>
     c \<notin> set (client_list (srv n)) \<and> c \<notin> set (clients_pending_write (srv n)) \<and> c \<notin> set (unblocked_clients (srv n)) \<and>
     c \<notin> set (clients_to_close (srv n)) \<and> c \<notin> set (slaves n) \<and> c \<notin> set (monitors n) \<and> current_client (srv n) \<noteq> Some c \<and>
     (\<forall>ch l. smempubsub_channels (srv n) ch = Some l \<longrightarrow> c \<notin> set l)"

lemma freeClient_inv:
  assumes E: "env_ok E" and n: "net_inv X n" "c \<in> allocated (srv n)" and m: "\<not> caches_master E c n"
  shows "net_inv X (freeClient E c n)" and "allocated (srv (freeClient E c n)) = allocated (srv n) - {c}"
    and "aborted (srv (freeClient E c n)) = aborted (srv n)"
    and "c \<in> X \<Longrightarrow> clients_to_close (srv (freeClient E c n)) = clients_to_close (srv n)"
    and "client_list (srv (freeClient E c n)) = remove1 c (client_list (srv n))"
proof -
  define n0 where "n0 = release_client E c n"
  define n1 where "n1 = drop_slave E c n0"
  define n2 where "n2 = (if bit (flags (clients (srv n1) c)) CLIENT_MASTER then replicationHandleMasterDisconnection E n1 else n1)"
  note r = release_client_inv [OF E n, folded n0_def]
  have c0: "c \<in> allocated (srv n0)" using r(2) n(2) by simp
  note d = drop_slave_lists [OF E r(1) c0, folded n1_def]
  have 2: "srv n2 = srv n0" "slaves n2 = slaves n1" "monitors n2 = monitors n1"
    using E d(1) by (simp_all add: n2_def env_ok_def leaves_lists_def)
  have inv0: "srv_inv X (srv n0)" "chan_inv (srv n0)" using r(1) by (simp_all add: net_inv_def)
  note z = zfree_inv [OF inv0 r(4,5) c0]
  have f: "freeClient E c n = n2\<lparr>srv := zfree c (drop_scheduled c (srv n0))\<rparr>"
    using m 2(1) unfolding freeClient_def Let_def n2_def n1_def n0_def on_srv_def by (simp only: if_False)
  have sets: "flagged CLIENT_SLAVE (srv n0) - {c} - (flagged CLIENT_MONITOR (srv n0) - {c}) = flagged CLIENT_SLAVE (srv n0) - flagged CLIENT_MONITOR (srv n0) - {c}"
    "(flagged CLIENT_SLAVE (srv n0) - {c}) \<inter> (flagged CLIENT_MONITOR (srv n0) - {c}) = flagged CLIENT_SLAVE (srv n0) \<inter> flagged CLIENT_MONITOR (srv n0) - {c}"
    by blast+
  show "net_inv X (freeClient E c n)" using z(1,2) d(2,3) 2 by (simp add: net_inv_def f z(5) sets)
  show "allocated (srv (freeClient E c n)) = allocated (srv n) - {c}" "aborted (srv (freeClient E c n)) = aborted (srv n)"
    using z(3,4) r(2,3) by (simp_all add: f)
  have "\<not> bit (flags (clients (srv n0) c)) CLIENT_CLOSE_ASAP" if "c \<in> X"
    using that inv0(1) c0 by (auto simp: srv_inv_def flagged_def)
  then show "c \<in> X \<Longrightarrow> clients_to_close (srv (freeClient E c n)) = clients_to_close (srv n)"
    using r(6) by (simp add: f zfree_def drop_scheduled_def)
  show "client_list (srv (freeClient E c n)) = remove1 c (client_list (srv n))"
    using r(7) by (simp add: f zfree_def drop_scheduled_def panic_def)
qed

lemma freed_unreferenced:
  assumes "net_inv X n" and "c \<notin> allocated (srv n)" and "c \<notin> X"
  shows "unreferenced c n"
proof -
  have "c \<notin> set l" if "smempubsub_channels (srv n) ch = Some l" for ch l
    using that assms(1,2) subs_okD(3) [of "srv n" ch c] by (auto simp: net_inv_def chan_inv_def)
  then show ?thesis using assms by (auto simp: unreferenced_def net_inv_def srv_inv_def listed_def flagged_def connected_def)
qed

section \<open>Every operation keeps the invariant\<close>

lemma createClient_inv:
  assumes n: "net_inv X n" and p: "p \<notin> allocated (srv n)" "p \<notin> X"
  shows "net_inv X (snd (createClient p ev f n))"
proof (cases "f \<noteq> -1 \<and> \<not> ev")
  case False
  let ?t = "srv (snd (createClient p ev f n))"
  have t: "?t = (srv n)\<lparr>clients := (clients (srv n))(p := new_client f (unixtime (srv n))), allocated := insert p (allocated (srv n)),
      client_list := (if f \<noteq> -1 then client_list (srv n) @ [p] else client_list (srv n))\<rparr>" and sl: "slaves (snd (createClient p ev f n)) = slaves n"
      "monitors (snd (createClient p ev f n)) = monitors n"
    using False by (auto simp: createClient_def on_srv_def)
  have fl: "flagged b ?t = flagged b (srv n)" for b using p by (auto simp: t flagged_def new_client_def)
  have conn: "connected ?t = (if f \<noteq> -1 then insert p (connected (srv n)) else connected (srv n))"
    using p by (auto simp: t connected_def new_client_def)
  have cl: "client_list ?t = (if f \<noteq> -1 then client_list (srv n) @ [p] else client_list (srv n))" by (simp add: t)
  have "p \<notin> connected (srv n)" using p by (simp add: connected_def)
  then have l: "listed (client_list ?t) (connected ?t)"
    using n listed_add [of "client_list (srv n)" "connected (srv n)" p] 
    unfolding conn cl by (simp add: net_inv_def srv_inv_def)
  have ch: "client_channels (clients ?t d) = client_channels (clients (srv n) d)" for d
    using n p by (simp add: t new_client_def net_inv_def chan_inv_def)
  have "subs_ok ?t = subs_ok (srv n)" by (rule subs_ok_frame [OF _ ch]) (simp add: t)
  then have "chan_inv ?t" using n ch by (auto simp: chan_inv_def net_inv_def t)
  moreover have "srv_inv X ?t" using n l by (simp add: srv_inv_def net_inv_def fl) (auto simp: t)
  ultimately show ?thesis using n fl by (simp add: net_inv_def sl)
qed (use n in \<open>simp add: createClient_def\<close>)

lemma freeClientAsync_inv:
  assumes n: "net_inv X n" and c: "c \<in> allocated (srv n)" "c \<notin> X"
  shows "net_inv X (on_srv (freeClientAsync c) n)"
proof (cases "bit (flags (clients (srv n) c)) CLIENT_CLOSE_ASAP \<or> bit (flags (clients (srv n) c)) CLIENT_LUA")
  case False
  let ?s = "srv n" and ?t = "freeClientAsync c (srv n)"
  have t: "?t = (update_client c (\<lambda>cl. cl\<lparr>flags := set_bit CLIENT_CLOSE_ASAP (flags cl)\<rparr>) ?s)\<lparr>clients_to_close := clients_to_close ?s @ [c]\<rparr>"
    using False by (simp add: freeClientAsync_def)
  have fl: "flagged b ?t = (if b = CLIENT_CLOSE_ASAP then insert c (flagged b ?s) else flagged b ?s)" for b
    using c by (auto simp: t flagged_def)
  have conn: "connected ?t = connected ?s" by (auto simp: t connected_def)
  have "c \<notin> flagged CLIENT_CLOSE_ASAP ?s \<union> X" using False c by (simp add: flagged_def)
  then have "listed (clients_to_close ?t) (insert c (flagged CLIENT_CLOSE_ASAP ?s \<union> X))"
    using n listed_add [of "clients_to_close ?s"] by (simp add: t net_inv_def srv_inv_def)
  then have "srv_inv X ?t" using n c by (simp add: srv_inv_def fl conn net_inv_def) (auto simp: t)
  moreover have "chan_inv ?t = chan_inv ?s" by (rule chan_inv_frame) (simp_all add: t)
  ultimately show ?thesis using n fl by (simp add: net_inv_def on_srv_def)
qed (use n in \<open>simp add: on_srv_def freeClientAsync_def\<close>)

text \<open>Writing changes buffers only.\<close>

lemma write_loop_control:
  "fd (writer (write_loop A capped ws nw tot c)) = fd c \<and> flags (writer (write_loop A capped ws nw tot c)) = flags c \<and>
   client_channels (writer (write_loop A capped ws nw tot c)) = client_channels c"
proof (induction A capped ws nw tot c rule: write_loop.induct)
  case (1 A capped ws nw tot c)
  let ?r = "sys_write ws (length (front c) - sentlen c)"
  have keep: "fd (advance A k c) = fd c" "flags (advance A k c) = flags c" "client_channels (advance A k c) = client_channels c"
    "fd (pop_reply A c) = fd c" "flags (pop_reply A c) = flags c" "client_channels (pop_reply A c) = client_channels c" for k
    by (simp_all add: advance_def advance_buf_def advance_reply_def pop_reply_def)
  show ?case
    using 1 by (subst (1 2 3) write_loop.simps) (simp add: Let_def add_sent_def keep)
qed

lemma net_inv_set:
  assumes "net_inv X n" and "fd cl = fd (clients (srv n) c)" and "flags cl = flags (clients (srv n) c)"
    and "client_channels cl = client_channels (clients (srv n) c)"
  shows "net_inv X (on_srv (update_client c (\<lambda>_. cl)) n)"
proof -
  let ?t = "update_client c (\<lambda>_. cl) (srv n)"
  have f: "ref_frame (srv n) ?t" using assms by (simp add: ref_frame_def)
  have "chan_inv ?t = chan_inv (srv n)" by (rule chan_inv_frame) (use assms in simp_all)
  then show ?thesis using assms(1) srv_inv_frame [OF f] flagged_frame [OF f] by (simp add: net_inv_def on_srv_def)
qed

lemma net_inv_stat [simp]: "net_inv X (n\<lparr>stat_net_output_bytes := k\<rparr>) = net_inv X n"
  by (simp add: net_inv_def)

lemma writeToClient_inv:
  assumes E: "env_ok E" "\<And>n. \<not> has_master E n" and n: "net_inv X n" "c \<in> allocated (srv n)"
    and w: "writeToClient E ws eagain c n = (bs, valid, m)"
  shows "net_inv X m" and "allocated (srv m) = (if valid then allocated (srv n) else allocated (srv n) - {c})"
    and "aborted (srv m) = aborted (srv n)"
proof -
  define r where "r = write_loop (net_alloc E) (write_capped E) ws 0 0 (clients (srv n) c)"
  define n1 where "n1 = (on_srv (update_client c (\<lambda>_. writer r)) n)\<lparr>stat_net_output_bytes := stat_net_output_bytes n + of_nat (counted r)\<rparr>"
  define n2 where "n2 = (if totwritten r > 0 \<and> \<not> bit (flags (clients (srv n1) c)) CLIENT_MASTER
      then on_srv (\<lambda>s. update_client c (\<lambda>cl. cl\<lparr>lastinteraction := unixtime s\<rparr>) s) n1 else n1)"
  define n3 where "n3 = on_srv (update_client c (\<lambda>cl. cl\<lparr>sentlen := 0\<rparr>)) n2"
  have 1: "net_inv X n1" "allocated (srv n1) = allocated (srv n)" "aborted (srv n1) = aborted (srv n)"
    using net_inv_set [OF n(1), of "writer r" c] write_loop_control by (simp_all add: n1_def r_def) (simp_all add: on_srv_def)
  have "net_inv X (on_srv (update_client c (\<lambda>cl. cl\<lparr>lastinteraction := t\<rparr>)) n1)" for t using 1(1) by (simp add: net_inv_update)
  then have 2: "net_inv X n2" "allocated (srv n2) = allocated (srv n)" "aborted (srv n2) = aborted (srv n)"
    using 1 by (auto simp: n2_def on_srv_def)
  have 3: "net_inv X n3" "allocated (srv n3) = allocated (srv n)" "aborted (srv n3) = aborted (srv n)"
    using 2 by (simp_all add: n3_def net_inv_update) (simp_all add: on_srv_def)
  have free: "net_inv X (freeClient E c k)" "allocated (srv (freeClient E c k)) = allocated (srv n) - {c}"
      "aborted (srv (freeClient E c k)) = aborted (srv n)"
    if "net_inv X k" "allocated (srv k) = allocated (srv n)" "aborted (srv k) = aborted (srv n)" for k
    using freeClient_inv [OF E(1) that(1), of c] E(2) n(2) that by (simp_all add: caches_master_def)
  have "(valid, m) = (if nwritten r = -1 \<and> \<not> eagain then (False, freeClient E c n1)
      else if \<not> clientHasPendingReplies (clients (srv n2) c) then
        (if bit (flags (clients (srv n3) c)) CLIENT_CLOSE_AFTER_REPLY then (False, freeClient E c n3) else (True, n3))
      else (True, n2))"
    using w unfolding writeToClient_def Let_def r_def [symmetric] n1_def [symmetric] n2_def [symmetric] n3_def [symmetric]
    by (auto split: if_splits)
  then show "net_inv X m" "allocated (srv m) = (if valid then allocated (srv n) else allocated (srv n) - {c})" "aborted (srv m) = aborted (srv n)"
    using 2 3 free [OF 1] free [OF 3] by (auto split: if_splits)
qed

lemma clear_pending_inv:
  assumes "net_inv X n"
  shows "net_inv X (on_srv (\<lambda>s. (clear_flag c CLIENT_PENDING_WRITE s)\<lparr>clients_pending_write := remove1 c (clients_pending_write s)\<rparr>) n)"
proof -
  let ?t = "(clear_flag c CLIENT_PENDING_WRITE (srv n))\<lparr>clients_pending_write := remove1 c (clients_pending_write (srv n))\<rparr>"
  have "srv_inv X ?t" using assms listed_remove [of "clients_pending_write (srv n)"] by (simp add: net_inv_def srv_inv_def flagged_clear)
  moreover have "link_frame (srv n) ?t" by (simp add: link_frame_def)
  ultimately show ?thesis using net_inv_link [OF assms] by (simp add: on_srv_def)
qed

lemma pending_write_step_inv:
  assumes E: "env_ok E" "\<And>n. \<not> has_master E n" and n: "net_inv {} n" "c \<in> allocated (srv n)"
  shows "net_inv {} (pending_write_step E ws eagain ev c n)"
    and "allocated (srv n) - {c} \<subseteq> allocated (srv (pending_write_step E ws eagain ev c n))"
    and "aborted (srv (pending_write_step E ws eagain ev c n)) = aborted (srv n)"
proof -
  define n1 where "n1 = on_srv (\<lambda>s. (clear_flag c CLIENT_PENDING_WRITE s)\<lparr>clients_pending_write := remove1 c (clients_pending_write s)\<rparr>) n"
  obtain bs valid n2 where w: "writeToClient E (ws c) (eagain c) c n1 = (bs, valid, n2)" by (cases "writeToClient E (ws c) (eagain c) c n1")
  have 1: "net_inv {} n1" "allocated (srv n1) = allocated (srv n)" "aborted (srv n1) = aborted (srv n)"
    using clear_pending_inv [OF n(1), of c] by (simp_all add: n1_def) (simp_all add: on_srv_def)
  have c1: "c \<in> allocated (srv n1)" using 1 n by simp
  note 2 = writeToClient_inv [OF E 1(1) c1 w]
  have a: "allocated (srv (on_srv (freeClientAsync c) n2)) = allocated (srv n2)" "aborted (srv (on_srv (freeClientAsync c) n2)) = aborted (srv n2)"
    by (simp_all add: on_srv_def freeClientAsync_def)
  have step: "pending_write_step E ws eagain ev c n =
      (if valid \<and> clientHasPendingReplies (clients (srv n2) c) \<and> \<not> ev c then on_srv (freeClientAsync c) n2 else n2)"
    by (simp add: pending_write_step_def Let_def w n1_def [symmetric])
  show "net_inv {} (pending_write_step E ws eagain ev c n)"
    using 2(1,2) freeClientAsync_inv [of "{}" n2 c] 1(2) c1 by (auto simp: step)
  show "allocated (srv n) - {c} \<subseteq> allocated (srv (pending_write_step E ws eagain ev c n))"
    "aborted (srv (pending_write_step E ws eagain ev c n)) = aborted (srv n)"
    using 1 2(2,3) a by (auto simp: step)
qed

lemma pending_writes_inv:
  assumes E: "env_ok E" "\<And>n. \<not> has_master E n"
  shows "net_inv {} n \<Longrightarrow> distinct cs \<Longrightarrow> set cs \<subseteq> allocated (srv n) \<Longrightarrow>
     net_inv {} (fold (pending_write_step E ws eagain ev) cs n) \<and> aborted (srv (fold (pending_write_step E ws eagain ev) cs n)) = aborted (srv n)"
proof (induction cs arbitrary: n)
  case (Cons c cs)
  have c: "c \<in> allocated (srv n)" using Cons.prems(3) by simp
  note s = pending_write_step_inv [OF E Cons.prems(1) c, of ws eagain ev]
  have "set cs \<subseteq> allocated (srv (pending_write_step E ws eagain ev c n))" using s(2) Cons.prems(2,3) by auto
  with Cons.IH [OF s(1)] Cons.prems(2) s(3) show ?case by simp
qed simp

lemma clear_scheduled_inv:
  assumes "net_inv {} n" and "clients_to_close (srv n) = c # cs"
  shows "net_inv {c} (on_srv (clear_flag c CLIENT_CLOSE_ASAP) n)" and "c \<in> allocated (srv n)"
proof -
  let ?t = "clear_flag c CLIENT_CLOSE_ASAP (srv n)"
  have l: "listed (clients_to_close (srv n)) (flagged CLIENT_CLOSE_ASAP (srv n))" using assms(1) by (simp add: net_inv_def srv_inv_def)
  then have c: "c \<in> flagged CLIENT_CLOSE_ASAP (srv n)" using assms(2) by (auto simp: listed_def)
  then show "c \<in> allocated (srv n)" by (simp add: flagged_def)
  have "flagged CLIENT_CLOSE_ASAP ?t \<union> {c} = flagged CLIENT_CLOSE_ASAP (srv n)" using c by (auto simp: flagged_clear)
  then have "srv_inv {c} ?t" using assms(1) l by (simp add: net_inv_def srv_inv_def flagged_clear)
  moreover have "chan_inv ?t = chan_inv (srv n)" by (rule chan_inv_frame) simp_all
  ultimately show "net_inv {c} (on_srv (clear_flag c CLIENT_CLOSE_ASAP) n)"
    using assms(1) by (simp add: net_inv_def on_srv_def flagged_clear)
qed

lemma unqueue_inv:
  assumes "net_inv {c} n" and "c \<notin> allocated (srv n)"
  shows "net_inv {} (on_srv (\<lambda>s. s\<lparr>clients_to_close := remove1 c (clients_to_close s)\<rparr>) n)"
proof -
  let ?t = "(srv n)\<lparr>clients_to_close := remove1 c (clients_to_close (srv n))\<rparr>"
  have "c \<notin> flagged CLIENT_CLOSE_ASAP (srv n)" using assms(2) by (simp add: flagged_def)
  then have "srv_inv {} ?t" using assms(1) listed_remove [of "clients_to_close (srv n)" _ c] by (fastforce simp: net_inv_def srv_inv_def)
  moreover have "chan_inv ?t = chan_inv (srv n)" by (rule chan_inv_frame) simp_all
  ultimately show ?thesis using assms(1) by (simp add: net_inv_def on_srv_def)
qed


lemma free_scheduled_inv:
  assumes E: "env_ok E" "\<And>n. \<not> has_master E n" and n: "net_inv {} n" "clients_to_close (srv n) = c # cs"
  defines "m \<equiv> on_srv (\<lambda>s. s\<lparr>clients_to_close := remove1 c (clients_to_close s)\<rparr>) (freeClient E c (on_srv (clear_flag c CLIENT_CLOSE_ASAP) n))"
  shows "net_inv {} m" and "clients_to_close (srv m) = cs" and "allocated (srv m) = allocated (srv n) - {c}"
    and "aborted (srv m) = aborted (srv n)"
proof -
  let ?n1 = "on_srv (clear_flag c CLIENT_CLOSE_ASAP) n"
  note s = clear_scheduled_inv [OF n]
  have c: "c \<in> allocated (srv ?n1)" "\<not> caches_master E c ?n1" using s(2) E(2) by (simp_all add: on_srv_def caches_master_def)
  note f = freeClient_inv [OF E(1) s(1) c]
  show "net_inv {} m" unfolding m_def by (rule unqueue_inv [OF f(1)]) (simp add: f(2))
  show "clients_to_close (srv m) = cs" "allocated (srv m) = allocated (srv n) - {c}" "aborted (srv m) = aborted (srv n)"
    using f(2,3,4) n(2) by (simp_all add: m_def on_srv_def)
qed

lemma async_queue_freed:
  assumes E: "env_ok E" "\<And>n. \<not> has_master E n"
  shows "net_inv {} n \<Longrightarrow> length (clients_to_close (srv n)) < fuel \<Longrightarrow>
    \<exists>m. freeClientsInAsyncFreeQueue E fuel n = Some m \<and> net_inv {} m \<and> clients_to_close (srv m) = [] \<and>
      allocated (srv m) = allocated (srv n) - set (clients_to_close (srv n)) \<and> aborted (srv m) = aborted (srv n)"
proof (induction fuel arbitrary: n)
  case (Suc fuel)
  show ?case
  proof (cases "clients_to_close (srv n)")
    case Nil
    then show ?thesis using Suc.prems by simp
  next
    case (Cons c cs)
    note f = free_scheduled_inv [OF E Suc.prems(1) Cons]
    from Suc.IH [OF f(1)] show ?thesis using Suc.prems(2) f(2,3,4) Cons by auto
  qed
qed simp

section \<open>Correctness\<close>

definition demo_net_env :: net_env where
  "demo_net_env =
     \<lparr>net_alloc = blank_alloc, has_master = (\<lambda>_. False), replicationCacheMaster = (\<lambda>_ n. n), unblockClient = (\<lambda>_ n. n),
      unwatchAllKeys = (\<lambda>_ n. n), pubsubUnsubscribeAll = (\<lambda>_ n. n), refreshGoodSlavesCount = (\<lambda>n. n),
      replicationHandleMasterDisconnection = (\<lambda>n. n),
      channel_order = (\<lambda>c s. sorted_list_of_set (client_channels (clients s c))), write_capped = (\<lambda>_. True)\<rparr>"

lemma demo_net_env_ok: "env_ok demo_net_env" "\<not> has_master demo_net_env n"
  by (simp_all add: env_ok_def demo_net_env_def keeps_refs_def leaves_lists_def subs_ok_def)

end
