(* ===== verification/Redis_Sessions.thy ===== *)
theory Redis_Sessions
  imports Redis_Clients
begin

text \<open>
  Sessions: any sequence of the operations of \<open>networking.c\<close> and \<open>smem4redis.c\<close> on the clients of
  a server. Every reply, subscription and publication keeps the reference invariant, so every
  reachable state of the server satisfies it.
\<close>

section \<open>Operations on the server that keep the references\<close>

definition keeps_net :: "nat \<Rightarrow> (server \<Rightarrow> server) \<Rightarrow> bool" where
  "keeps_net c f \<longleftrightarrow> (\<forall>n. net_inv {} n \<longrightarrow> c \<in> allocated (srv n) \<longrightarrow>
     net_inv {} (on_srv f n) \<and> allocated (f (srv n)) = allocated (srv n))"

named_theorems keeps \<open>operations that keep the references\<close>

lemma keeps_netD:
  assumes "keeps_net c f" and "net_inv {} n" and "c \<in> allocated (srv n)"
  shows "net_inv {} (on_srv f n)" and "allocated (f (srv n)) = allocated (srv n)"
  using assms unfolding keeps_net_def by blast+

lemma keeps_id [keeps]: "keeps_net c (\<lambda>s. s)"
  by (simp add: keeps_net_def on_srv_def)

lemma keeps_comp: "keeps_net c g \<Longrightarrow> keeps_net c f \<Longrightarrow> keeps_net c (\<lambda>s. f (g s))"
  unfolding keeps_net_def on_srv_def by fastforce

lemma keeps_if: "keeps_net c f \<Longrightarrow> keeps_net c g \<Longrightarrow> keeps_net c (\<lambda>s. if P s then f s else g s)"
  unfolding keeps_net_def on_srv_def by simp

lemma keeps_update [keeps]:
  assumes "\<And>cl. fd (f cl) = fd cl \<and> flags (f cl) = flags cl \<and> client_channels (f cl) = client_channels cl"
  shows "keeps_net c (update_client d f)"
  using assms by (simp add: keeps_net_def net_inv_update)

text \<open>Pointwise: it is enough to agree with a keeping operation at each state.\<close>

lemma keeps_point:
  assumes "\<And>s. \<exists>g. keeps_net c g \<and> f s = g s"
  shows "keeps_net c f"
  unfolding keeps_net_def
proof (intro allI impI)
  fix n assume n: "net_inv {} n" "c \<in> allocated (srv n)"
  obtain g where g: "keeps_net c g" "f (srv n) = g (srv n)" using assms by blast
  from keeps_netD [OF g(1) n] g(2) show "net_inv {} (on_srv f n) \<and> allocated (f (srv n)) = allocated (srv n)"
    by (simp add: on_srv_def)
qed

lemma keeps_freeClientAsync [keeps]: "keeps_net c (freeClientAsync c)"
  using freeClientAsync_inv [of "{}"] by (auto simp: keeps_net_def freeClientAsync_def)

lemma keeps_panic [keeps]: "keeps_net c panic"
proof -
  have "ref_frame s (panic s)" for s by (simp add: ref_frame_def panic_def)
  then show ?thesis
    using srv_inv_frame [of s "panic s" for s] flagged_frame [of s "panic s" for s] chan_inv_frame [of "panic s" s for s]
    by (simp add: keeps_net_def net_inv_def on_srv_def) (simp add: panic_def)
qed

lemma keeps_prepare [keeps]: "keeps_net c (\<lambda>s. snd (prepareClientToWrite c s))"
  unfolding keeps_net_def
proof (intro allI impI)
  fix n assume n: "net_inv {} n" "c \<in> allocated (srv n)"
  let ?s = "srv n"
  let ?t = "(update_client c (\<lambda>cl. cl\<lparr>flags := set_bit CLIENT_PENDING_WRITE (flags cl)\<rparr>) ?s)\<lparr>clients_pending_write := c # clients_pending_write ?s\<rparr>"
  have t: "net_inv {} (n\<lparr>srv := ?t\<rparr>)" if "\<not> bit (flags (clients ?s c)) CLIENT_PENDING_WRITE"
  proof -
    let ?u = "update_client c (\<lambda>cl. cl\<lparr>flags := set_bit CLIENT_PENDING_WRITE (flags cl)\<rparr>) ?s"
    have fl: "flagged b ?u = (if b = CLIENT_PENDING_WRITE then insert c (flagged b ?s) else flagged b ?s)" for b
      using n(2) by (auto simp: flagged_def)
    have conn: "connected ?u = connected ?s" by (auto simp: connected_def)
    have "c \<notin> flagged CLIENT_PENDING_WRITE ?s" using that by (simp add: flagged_def)
    then have "srv_inv {} ?t" using n(1) by (simp add: net_inv_def srv_inv_def fl conn listed_def)
    moreover have "chan_inv ?t = chan_inv ?s" by (rule chan_inv_frame) simp_all
    ultimately show ?thesis using n(1) by (simp add: net_inv_def fl)
  qed
  have "snd (prepareClientToWrite c ?s) = ?s \<or>
      \<not> bit (flags (clients ?s c)) CLIENT_PENDING_WRITE \<and> snd (prepareClientToWrite c ?s) = ?t"
    by (simp add: prepareClientToWrite_def Let_def)
  then show "net_inv {} (on_srv (\<lambda>s. snd (prepareClientToWrite c s)) n) \<and> allocated (snd (prepareClientToWrite c ?s)) = allocated ?s"
    using t n(1) by (auto simp: on_srv_def)
qed

lemma keeps_asyncClose [keeps]: "keeps_net c (asyncCloseClientOnOutputBufferLimitReached c)"
proof (rule keeps_point)
  fix s
  obtain over cl where chk: "checkClientOutputBufferLimits s (clients s c) = (over, cl)" by (cases "checkClientOutputBufferLimits s (clients s c)")
  then obtain t where cl: "cl = (clients s c)\<lparr>obuf_soft_limit_reached_time := t\<rparr>"
    by (auto simp: checkClientOutputBufferLimits_def Let_def split: if_splits) (metis client.surjective client.update_convs(13))+
  let ?u = "update_client c (\<lambda>cl. cl\<lparr>obuf_soft_limit_reached_time := t\<rparr>)"
  have u: "keeps_net c ?u" by (rule keeps_update) simp
  have "update_client c (\<lambda>_. cl) s = ?u s" by (simp add: cl update_client_def)
  then have "asyncCloseClientOnOutputBufferLimitReached c s \<in> {panic s, s, freeClientAsync c (?u s), ?u s}"
    by (simp add: asyncCloseClientOnOutputBufferLimitReached_def chk Let_def)
  then show "\<exists>g. keeps_net c g \<and> asyncCloseClientOnOutputBufferLimitReached c s = g s"
    using keeps_panic keeps_id u keeps_comp [OF u keeps_freeClientAsync] by blast
qed


section \<open>Replies\<close>

lemma addReplyToBuffer_same:
  "addReplyToBuffer cl str = (ok, cl') \<Longrightarrow> \<exists>b. cl' = cl\<lparr>buf := b\<rparr>"
  by (auto simp: addReplyToBuffer_def Let_def split: if_splits) (metis client.surjective client.update_convs(19))+

lemma keeps_buffer: "\<exists>g. keeps_net c g \<and> update_client c (\<lambda>_. snd (addReplyToBuffer (clients s c) str)) s = g s"
proof -
  obtain ok cl where a: "addReplyToBuffer (clients s c) str = (ok, cl)" by (cases "addReplyToBuffer (clients s c) str")
  with addReplyToBuffer_same obtain b where b: "cl = (clients s c)\<lparr>buf := b\<rparr>" by blast
  have "keeps_net c (update_client c (\<lambda>cl. cl\<lparr>buf := b\<rparr>))" by (rule keeps_update) simp
  moreover have "update_client c (\<lambda>_. cl) s = update_client c (\<lambda>cl. cl\<lparr>buf := b\<rparr>) s" by (simp add: b update_client_def)
  ultimately show ?thesis using a by auto
qed

lemma keeps_to_list: "keeps_net c (\<lambda>s. asyncCloseClientOnOutputBufferLimitReached c (update_client c (\<lambda>cl. addReplyObjectToList A cl obj) s))"
  by (rule keeps_comp [OF keeps_update keeps_asyncClose]) (auto simp: addReplyObjectToList_def split: option.split)

lemma keeps_lists [keeps]:
  "keeps_net c (addReplyObjectToList_s A c obj)" "keeps_net c (addReplySdsToList_s A c str)" "keeps_net c (addReplyStringToList_s A c str)"
  by (rule keeps_point, use keeps_id [of c] keeps_to_list [of c A] in
      \<open>auto simp: addReplyObjectToList_s_def addReplySdsToList_s_def addReplyStringToList_s_def\<close>)+

lemma keeps_addReplyBytes: "keeps_net c (to_list c) \<Longrightarrow> keeps_net c (addReplyBytes to_list c str)"
  by (rule keeps_point) (use keeps_buffer in \<open>auto simp: addReplyBytes_def case_prod_beta\<close>)

lemma keeps_addReply_core:
  "\<exists>g. keeps_net c g \<and> addReply A c obj s = g (snd (prepareClientToWrite c s))"
proof -
  obtain ok s1 where p: "prepareClientToWrite c s = (ok, s1)" by (cases "prepareClientToWrite c s")
  obtain g where g: "keeps_net c g" "update_client c (\<lambda>_. snd (addReplyToBuffer (clients s1 c) (robj_bytes obj))) s1 = g s1"
    using keeps_buffer by blast
  let ?dec = "createStringObject A (robj_bytes obj)"
  have b: "keeps_net c (addReplyBytes (\<lambda>c. addReplyObjectToList_s A c obj) c (robj_bytes obj))"
    "keeps_net c (addReplyBytes (\<lambda>c. addReplyObjectToList_s A c ?dec) c (robj_bytes ?dec))"
    by (rule keeps_addReplyBytes, rule keeps_lists)+
  have "addReply A c obj s \<in> {s1, addReplyBytes (\<lambda>c. addReplyObjectToList_s A c obj) c (robj_bytes obj) s1, g s1,
      addReplyBytes (\<lambda>c. addReplyObjectToList_s A c ?dec) c (robj_bytes ?dec) s1}"
    by (simp add: addReply_def p g(2) Let_def)
  then show ?thesis using keeps_id [of c] b g(1) p by auto
qed

lemma keeps_after_prepare:
  assumes "\<And>s. \<exists>g. keeps_net c g \<and> f s = g (snd (prepareClientToWrite c s))"
  shows "keeps_net c f"
proof (rule keeps_point)
  fix s
  obtain g where g: "keeps_net c g" "f s = g (snd (prepareClientToWrite c s))" using assms by blast
  show "\<exists>h. keeps_net c h \<and> f s = h s" using keeps_comp [OF keeps_prepare g(1)] g(2) by blast
qed

lemma keeps_addReply [keeps]: "keeps_net c (addReply A c obj)"
  by (rule keeps_after_prepare) (rule keeps_addReply_core)

lemma keeps_addReplySds [keeps]: "keeps_net c (addReplySds A c str)"
proof (rule keeps_after_prepare)
  fix s
  have b: "keeps_net c (addReplyBytes (\<lambda>c. addReplySdsToList_s A c str) c str)" by (rule keeps_addReplyBytes, rule keeps_lists)
  show "\<exists>g. keeps_net c g \<and> addReplySds A c str s = g (snd (prepareClientToWrite c s))"
    using b keeps_id [of c] by (cases "fst (prepareClientToWrite c s)") (auto simp: addReplySds_def case_prod_beta)
qed

lemma keeps_addReplyString [keeps]: "keeps_net c (addReplyString A c str)"
proof (rule keeps_after_prepare)
  fix s
  have b: "keeps_net c (addReplyBytes (\<lambda>c. addReplyStringToList_s A c str) c str)" by (rule keeps_addReplyBytes, rule keeps_lists)
  show "\<exists>g. keeps_net c g \<and> addReplyString A c str s = g (snd (prepareClientToWrite c s))"
    using b keeps_id [of c] by (cases "fst (prepareClientToWrite c s)") (auto simp: addReplyString_def case_prod_beta)
qed

lemma keeps_addReplyLongLong [keeps]:
  "keeps_net c (addReplyLongLongWithPrefix A c ll prefix)" "keeps_net c (addReplyLongLong A c ll)"
  unfolding addReplyLongLong_def [abs_def] addReplyLongLongWithPrefix_def [abs_def] by (intro keeps_if keeps)+

lemma keeps_addReplyBulk [keeps]: "keeps_net c (addReplyBulk A c obj)"
proof -
  have "keeps_net c (addReplyBulkLen A c obj)" unfolding addReplyBulkLen_def [abs_def] by (intro keeps_if keeps)
  then show ?thesis using keeps_comp [OF keeps_comp [OF _ keeps_addReply] keeps_addReply]
    by (simp add: addReplyBulk_def [abs_def])
qed


section \<open>Subscribing and publishing\<close>

lemma keeps_frame:
  assumes "\<And>s. ref_frame s (f s)" and "\<And>s. smempubsub_channels (f s) = smempubsub_channels s"
    and "\<And>s d. client_channels (clients (f s) d) = client_channels (clients s d)"
  shows "keeps_net c f"
  unfolding keeps_net_def
proof (intro allI impI)
  fix n assume n: "net_inv {} n" "c \<in> allocated (srv n)"
  note r = assms(1) [of "srv n"]
  have "allocated (f (srv n)) = allocated (srv n)" using r by (simp add: ref_frame_def)
  moreover from this have "chan_inv (f (srv n)) = chan_inv (srv n)" using assms(2,3) by (intro chan_inv_frame)
  ultimately show "net_inv {} (on_srv f n) \<and> allocated (f (srv n)) = allocated (srv n)"
    using n(1) srv_inv_frame [OF r] flagged_frame [OF r] by (simp add: net_inv_def on_srv_def)
qed

lemma keeps_set_flag:
  assumes "b \<notin> {CLIENT_PENDING_WRITE, CLIENT_UNBLOCKED, CLIENT_CLOSE_ASAP, CLIENT_SLAVE, CLIENT_MONITOR}"
  shows "keeps_net c (update_client c (\<lambda>cl. cl\<lparr>flags := set_bit b (flags cl)\<rparr>))"
  unfolding keeps_net_def
proof (intro allI impI)
  fix n assume n: "net_inv {} n" "c \<in> allocated (srv n)"
  let ?t = "update_client c (\<lambda>cl. cl\<lparr>flags := set_bit b (flags cl)\<rparr>) (srv n)"
  have fl: "flagged a ?t = flagged a (srv n)" if "a \<noteq> b" for a using that by (auto simp: flagged_def)
  have "connected ?t = connected (srv n)" by (auto simp: connected_def)
  moreover have "chan_inv ?t = chan_inv (srv n)" by (rule chan_inv_frame) simp_all
  ultimately show "net_inv {} (on_srv (update_client c (\<lambda>cl. cl\<lparr>flags := set_bit b (flags cl)\<rparr>)) n) \<and> allocated ?t = allocated (srv n)"
    using n(1) assms by (simp add: net_inv_def srv_inv_def on_srv_def fl)
qed

lemma keeps_subscribe_core: "keeps_net c (\<lambda>s. snd (subscribe_core c ch s))"
  unfolding keeps_net_def
proof (intro allI impI)
  fix n assume n: "net_inv {} n" "c \<in> allocated (srv n)"
  let ?s = "srv n"
  obtain r t where u: "subscribe_core c ch ?s = (r, t)" by (cases "subscribe_core c ch ?s")
  have ok: "subs_ok ?s" using n(1) by (simp add: net_inv_def chan_inv_def)
  have f: "ref_frame ?s t" using u by (auto simp: subscribe_core_def ref_frame_def add_channel_def Let_def split: if_splits)
  have other: "client_channels (clients t d) = client_channels (clients ?s d)" if "d \<noteq> c" for d
    using u that by (auto simp: subscribe_core_def add_channel_def Let_def split: if_splits)
  have "allocated t = allocated ?s" using f by (simp add: ref_frame_def)
  moreover have "client_channels (clients t d) = {}" if "d \<notin> allocated t" for d
    using that other [of d] n f by (cases "d = c") (auto simp: net_inv_def chan_inv_def ref_frame_def)
  ultimately show "net_inv {} (on_srv (\<lambda>s. snd (subscribe_core c ch s)) n) \<and> allocated (snd (subscribe_core c ch ?s)) = allocated ?s"
    using n(1) srv_inv_frame [OF f] flagged_frame [OF f] subscribe_core_cases(1) [OF ok u]
    by (simp add: net_inv_def chan_inv_def on_srv_def u)
qed

lemma keeps_subscribe [keeps]: "keeps_net c (\<lambda>s. snd (smempubsubSubscribeChannel A c ch s))"
proof (rule keeps_point)
  fix s
  let ?k = "channel_count c (snd (subscribe_core c ch s))"
  let ?g = "\<lambda>s. addReplyLongLong A c ?k (addReplyBulk A c (createStringObject A ch)
      (addReply A c (shared_subscribebulk A) (addReply A c (shared_mbulkhdr 3) (snd (subscribe_core c ch s)))))"
  have "keeps_net c ?g"
    using keeps_comp [OF keeps_comp [OF keeps_comp [OF keeps_comp [OF keeps_subscribe_core keeps_addReply] keeps_addReply] keeps_addReplyBulk]
        keeps_addReplyLongLong(2)] .
  then show "\<exists>g. keeps_net c g \<and> snd (smempubsubSubscribeChannel A c ch s) = g s"
    by (auto simp: smempubsubSubscribeChannel_def case_prod_beta)
qed

lemma keeps_fold: "(\<And>x. x \<in> set xs \<Longrightarrow> keeps_net c (f x)) \<Longrightarrow> keeps_net c (fold f xs)"
proof (induction xs)
  case (Cons x xs)
  then have "keeps_net c (f x)" "keeps_net c (fold f xs)" by simp_all
  from keeps_comp [OF this] show ?case by (simp add: comp_def)
qed (use keeps_id in \<open>simp add: id_def\<close>)

lemma keeps_smemsubscribe [keeps]: "keeps_net c (smemsubscribeCommand A c)"
proof (rule keeps_point)
  fix s :: server
  let ?f = "\<lambda>channel s. snd (smempubsubSubscribeChannel A c channel s)"
  have "keeps_net c (fold ?f (tl (argv (clients s c))))" by (rule keeps_fold) (rule keeps_subscribe)
  from keeps_comp [OF this keeps_set_flag [of CLIENT_PUBSUB]]
  show "\<exists>g. keeps_net c g \<and> smemsubscribeCommand A c s = g s" by (auto simp: smemsubscribeCommand_def)
qed


lemma keeps_send_message [keeps]: "keeps_net c (send_message A ch m c)"
  unfolding send_message_def [abs_def]
  by (rule keeps_comp [OF keeps_comp [OF keeps_comp [OF keeps_addReply keeps_addReply] keeps_addReplyBulk] keeps_addReplyBulk])

lemma keeps_add_ref [keeps]: "keeps_net c (add_ref m k)"
  by (rule keeps_frame) (auto simp: add_ref_def ref_frame_def split: option.split)

lemma keeps_make_available [keeps]: "keeps_net c (\<lambda>s. fst (make_available E m p s k))"
  by (rule keeps_frame) (auto simp: make_available_def ref_frame_def Let_def)

lemma deliver_inv:
  "net_inv {} n \<Longrightarrow> set l \<subseteq> allocated (srv n) \<Longrightarrow>
     net_inv {} (on_srv (\<lambda>s. snd (fold (deliver_step A ch m) l (r, s))) n) \<and>
     allocated (snd (fold (deliver_step A ch m) l (r, srv n))) = allocated (srv n)"
proof (induction l arbitrary: n r)
  case Nil
  then show ?case by (simp add: on_srv_def)
next
  case (Cons c l)
  let ?n1 = "on_srv (\<lambda>s. add_ref m 1 (send_message A ch m c s)) n"
  have c: "c \<in> allocated (srv n)" using Cons.prems(2) by simp
  note k = keeps_netD [OF keeps_comp [OF keeps_send_message [of c A ch m] keeps_add_ref [of c m 1]] Cons.prems(1) c]
  have "set l \<subseteq> allocated (srv ?n1)" using k(2) Cons.prems(2) by (simp add: on_srv_def)
  from Cons.IH [OF k(1) this, of "r + 1"] show ?case using k(2) by (simp add: deliver_step_def on_srv_def)
qed

lemma smempublish_inv:
  assumes n: "net_inv {} n" "c \<in> allocated (srv n)" and e: "\<not> cluster_enabled E"
  shows "net_inv {} (on_srv (\<lambda>s. fst (smempublishCommand E c s k)) n)"
proof -
  let ?s = "srv n"
  define ch where "ch = argv (clients ?s c) ! 1"
  define m where "m = argv (clients ?s c) ! 2"
  define l where "l = (case smempubsub_channels ?s ch of None \<Rightarrow> [] | Some l \<Rightarrow> l)"
  obtain r s1 where f: "fold (deliver_step (obj_alloc E) ch m) l (0, ?s) = (r, s1)" by (meson surj_pair)
  have "set l \<subseteq> allocated ?s"
    using n(1) subs_okD(3) [of ?s ch] by (fastforce simp: l_def net_inv_def chan_inv_def split: option.split)
  from deliver_inv [OF n(1) this, of "obj_alloc E" ch m 0]
  have 1: "net_inv {} (n\<lparr>srv := s1\<rparr>)" "c \<in> allocated s1" using f n(2) by (simp_all add: on_srv_def)
  have "keeps_net c (smempubsub_memorys_update (\<lambda>_. t))" for t by (rule keeps_frame) (simp_all add: ref_frame_def)
  then have fin: "\<exists>g. keeps_net c g \<and> s1\<lparr>smempubsub_memorys := t\<rparr> = g s1" for t by blast
  obtain s2 k2 where p: "smempubsubPublishMessage E ch m ?s k = (r, s2, k2)" and s2: "\<exists>g. keeps_net c g \<and> s2 = g s1"
  proof -
    have d: "(case smempubsub_channels ?s ch of None \<Rightarrow> (0, ?s) | Some l \<Rightarrow> fold (deliver_step (obj_alloc E) ch m) l (0, ?s)) = (r, s1)"
      using f by (simp add: l_def split: option.splits)
    have "\<exists>g. keeps_net c g \<and> fst (snd (smempubsubPublishMessage E ch m ?s k)) = g s1" and "fst (smempubsubPublishMessage E ch m ?s k) = r"
      using keeps_id [of c] fin keeps_make_available [of c E m]
      by (auto simp: smempubsubPublishMessage_def d Let_def split: option.split)
    then show ?thesis using that by (metis prod.collapse)
  qed
  then obtain g where g: "keeps_net c g" "s2 = g s1" by blast
  let ?u = "update_client c (\<lambda>cl. cl\<lparr>flags := set_bit CLIENT_FORCE_REPL (flags cl)\<rparr>)"
  have h: "keeps_net c (\<lambda>s. addReplyLongLong (obj_alloc E) c r (?u (g s)))"
    by (rule keeps_comp [OF keeps_comp [OF g(1) keeps_set_flag] keeps_addReplyLongLong(2)]) simp
  have "fst (smempublishCommand E c ?s k) = addReplyLongLong (obj_alloc E) c r (?u s2)"
    using e p by (simp add: smempublishCommand_def ch_def m_def)
  then show ?thesis using keeps_netD(1) [OF h 1(1)] 1(2) g(2) by (simp add: on_srv_def)
qed


section \<open>Reachable states\<close>

text \<open>The server as \<open>initServer\<close> leaves it: no clients, all lists empty.\<close>

definition initServer_lists :: "net \<Rightarrow> net" where
  "initServer_lists n =
     (on_srv (\<lambda>s. s\<lparr>current_client := None, client_list := [], clients_to_close := [], clients_pending_write := [],
        unblocked_clients := [], smempubsub_channels := Map.empty\<rparr>) n)\<lparr>slaves := [], monitors := []\<rparr>"

definition no_clients :: "net \<Rightarrow> bool" where
  "no_clients n \<longleftrightarrow> allocated (srv n) = {} \<and> (\<forall>c. client_channels (clients (srv n) c) = {})"

lemma initServer_inv: "no_clients n \<Longrightarrow> net_inv {} (initServer_lists n)"
  by (simp add: no_clients_def net_inv_def srv_inv_def chan_inv_def initServer_lists_def on_srv_def listed_def flagged_def connected_def subs_ok_def)

text \<open>One operation on behalf of a client: accepting a connection, a request, a reply, a subscription, a
  publication, closing at once or later, the deferred frees, the write handler, and the writes before
  the event loop sleeps.\<close>

inductive net_step :: "net_env \<Rightarrow> 'k env \<Rightarrow> net \<Rightarrow> net \<Rightarrow> bool" for E :: net_env and P :: "'k env" where
  accept: "p \<notin> allocated (srv n) \<Longrightarrow> net_step E P n (snd (createClient p ev f n))"
| request: "c \<in> allocated (srv n) \<Longrightarrow> net_step E P n (on_srv (update_client c (\<lambda>cl. cl\<lparr>argv := args\<rparr>)) n)"
| answer: "c \<in> allocated (srv n) \<Longrightarrow> net_step E P n (on_srv (addReply (net_alloc E) c obj) n)"
| subscribe: "c \<in> allocated (srv n) \<Longrightarrow> net_step E P n (on_srv (smemsubscribeCommand (net_alloc E) c) n)"
| publish: "c \<in> allocated (srv n) \<Longrightarrow> net_step E P n (on_srv (\<lambda>s. fst (smempublishCommand P c s k)) n)"
| close: "c \<in> allocated (srv n) \<Longrightarrow> net_step E P n (freeClient E c n)"
| schedule: "c \<in> allocated (srv n) \<Longrightarrow> net_step E P n (on_srv (freeClientAsync c) n)"
| close_scheduled: "freeClientsInAsyncFreeQueue E fuel n = Some m \<Longrightarrow> net_step E P n m"
| send: "c \<in> allocated (srv n) \<Longrightarrow> writeToClient E ws eagain c n = (bs, valid, m) \<Longrightarrow> net_step E P n m"
| flush: "net_step E P n (snd (handleClientsWithPendingWrites E wss eagains evs n))"

inductive_cases net_stepE: "net_step E P n m"

lemma async_queue_inv:
  assumes E: "env_ok E" "\<And>n. \<not> has_master E n"
  shows "net_inv {} n \<Longrightarrow> freeClientsInAsyncFreeQueue E fuel n = Some m \<Longrightarrow> net_inv {} m"
proof (induction fuel arbitrary: n)
  case (Suc fuel)
  show ?case
  proof (cases "clients_to_close (srv n)")
    case Nil
    then show ?thesis using Suc.prems by simp
  next
    case (Cons c cs)
    show ?thesis by (rule Suc.IH [OF free_scheduled_inv(1) [OF E Suc.prems(1) Cons]]) (use Suc.prems(2) Cons in simp)
  qed
qed simp

lemma net_step_inv:
  assumes E: "env_ok E" "\<And>n. \<not> has_master E n" and P: "\<not> cluster_enabled P"
  shows "net_step E P n m \<Longrightarrow> net_inv {} n \<Longrightarrow> net_inv {} m"
proof (induction rule: net_step.induct)
  case (accept p n ev f)
  from createClient_inv [OF accept(2) accept(1)] show ?case by simp
next
  case (request c n args)
  then show ?case by (simp add: net_inv_update)
next
  case (answer c n obj)
  from keeps_netD(1) [OF keeps_addReply answer(2) answer(1)] show ?case .
next
  case (subscribe c n)
  from keeps_netD(1) [OF keeps_smemsubscribe subscribe(2) subscribe(1)] show ?case .
next
  case (publish c n k)
  from smempublish_inv [OF publish(2) publish(1) P] show ?case .
next
  case (close c n)
  show ?case by (rule freeClient_inv(1) [OF E(1) close(2) close(1)]) (simp add: caches_master_def E(2))
next
  case (schedule c n)
  show ?case by (rule freeClientAsync_inv [OF schedule(2) schedule(1)]) simp
next
  case (close_scheduled fuel n m)
  from async_queue_inv [OF E close_scheduled(2) close_scheduled(1)] show ?case .
next
  case (send c n ws eagain bs valid m)
  from writeToClient_inv(1) [OF E send(3) send(1) send(2)] show ?case .
next
  case (flush n wss eagains evs)
  then have "distinct (clients_pending_write (srv n))" "set (clients_pending_write (srv n)) \<subseteq> allocated (srv n)"
    by (auto simp: net_inv_def srv_inv_def listed_def flagged_def)
  then show ?case using pending_writes_inv [OF E flush] by (simp add: handleClientsWithPendingWrites_def)
qed

lemma net_reachable_inv:
  assumes "env_ok E" "\<And>n. \<not> has_master E n" and "\<not> cluster_enabled P"
  shows "rtranclp (net_step E P) n m \<Longrightarrow> net_inv {} n \<Longrightarrow> net_inv {} m"
  by (induction rule: rtranclp_induct) (use net_step_inv [OF assms] in blast)+


section \<open>Correctness\<close>

definition demo_net :: net where
  "demo_net = initServer_lists
     \<lparr>srv = blank_server, slaves = [], monitors = [], repl_no_slaves_since = 0, next_client_id = 1, client_ids = (\<lambda>_. 0), stat_net_output_bytes = 0\<rparr>"

text \<open>The server with one client and with that client subscribed to a channel.\<close>

definition demo_net1 :: net where
  "demo_net1 = snd (createClient 1 True 5 demo_net)"

definition demo_net2 :: net where
  "demo_net2 = on_srv (smemsubscribeCommand blank_alloc 1) (on_srv (update_client 1 (\<lambda>cl. cl\<lparr>argv := [''SMEMSUBSCRIBE'', ''tv'']\<rparr>)) demo_net1)"

lemma demo_net_facts:
  "no_clients \<lparr>srv = blank_server, slaves = [], monitors = [], repl_no_slaves_since = 0, next_client_id = 1, client_ids = (\<lambda>_. 0), stat_net_output_bytes = 0\<rparr>"
  "allocated (srv demo_net) = {}" "allocated (srv demo_net1) = {1}"
  by (simp_all add: no_clients_def demo_net1_def demo_net_def initServer_lists_def on_srv_def createClient_def blank_server_def blank_client_def)

lemma demo_net_inv: "net_inv {} demo_net" "net_inv {} demo_net1"
  using initServer_inv [OF demo_net_facts(1)] createClient_inv [of "{}" demo_net 1] demo_net_facts(2)
  by (simp_all add: demo_net_def demo_net1_def)

lemma demo_net2_inv: "net_inv {} demo_net2" "allocated (srv demo_net2) = {1}"
proof -
  let ?u = "update_client 1 (\<lambda>cl. cl\<lparr>argv := [''SMEMSUBSCRIBE'', ''tv'']\<rparr>)"
  have "keeps_net 1 (\<lambda>s. smemsubscribeCommand blank_alloc 1 (?u s))" by (rule keeps_comp [OF keeps_update keeps_smemsubscribe]) simp
  note k = keeps_netD [OF this demo_net_inv(2)]
  show "net_inv {} demo_net2" "allocated (srv demo_net2) = {1}" using k demo_net_facts(3) by (simp_all add: demo_net2_def on_srv_def)
qed

text \<open>C11: freeing a client that takes part in nothing but the server's own lists removes it from all of
  them: no list, channel or current-client pointer refers to it afterwards, exactly that client is
  freed, the assertions on the lists hold, and the lists stay consistent for all other clients.\<close>

theorem freeClient_leaves_no_reference:
  assumes "env_ok E" and "net_inv {} n" and "c \<in> allocated (srv n)" and "\<not> caches_master E c n"
  shows "unreferenced c (freeClient E c n) \<and> net_inv {} (freeClient E c n) \<and>
    allocated (srv (freeClient E c n)) = allocated (srv n) - {c} \<and> aborted (srv (freeClient E c n)) = aborted (srv n)"
proof -
  note f = freeClient_inv [OF assms]
  have "unreferenced c (freeClient E c n)" by (rule freed_unreferenced [OF f(1)]) (simp_all add: f(2))
  with f(1,2,3) show ?thesis by simp
qed

theorem freeClient_leaves_no_reference_witness:
  "unreferenced 1 (freeClient demo_net_env 1 demo_net2) \<and> net_inv {} (freeClient demo_net_env 1 demo_net2) \<and>
    allocated (srv (freeClient demo_net_env 1 demo_net2)) = allocated (srv demo_net2) - {1} \<and>
    aborted (srv (freeClient demo_net_env 1 demo_net2)) = aborted (srv demo_net2)"
  by (rule freeClient_leaves_no_reference [OF demo_net_env_ok(1) demo_net2_inv(1)])
    (simp_all add: demo_net2_inv(2) caches_master_def demo_net_env_ok(2))


lemma demo_session:
  "rtranclp (net_step demo_net_env demo_env)
     (initServer_lists \<lparr>srv = blank_server, slaves = [], monitors = [], repl_no_slaves_since = 0, next_client_id = 1, client_ids = (\<lambda>_. 0), stat_net_output_bytes = 0\<rparr>)
     (freeClient demo_net_env 1 demo_net2)"
proof -
  let ?R = "net_step demo_net_env demo_env" and ?u = "on_srv (update_client 1 (\<lambda>cl. cl\<lparr>argv := [''SMEMSUBSCRIBE'', ''tv'']\<rparr>)) demo_net1"
  have a: "net_alloc demo_net_env = blank_alloc" by (simp add: demo_net_env_def)
  have u: "allocated (srv ?u) = {1}" using demo_net_facts(3) by (simp add: on_srv_def)
  have "rtranclp ?R demo_net demo_net" by simp
  also have "?R demo_net demo_net1" unfolding demo_net1_def by (rule net_step.accept) (simp add: demo_net_facts(2))
  also have "?R demo_net1 ?u" by (rule net_step.request) (simp add: demo_net_facts(3))
  also have "?R ?u demo_net2" unfolding demo_net2_def a [symmetric] by (rule net_step.subscribe) (simp only: u singleton_iff)
  also have "?R demo_net2 (freeClient demo_net_env 1 demo_net2)" by (rule net_step.close) (simp add: demo_net2_inv(2))
  finally show ?thesis by (simp only: demo_net_def)
qed


text \<open>Working off the queue of deferred frees ends after one round per queued client, empties the queue, frees
  exactly the queued clients and keeps the lists consistent.\<close>

theorem async_frees_end:
  assumes "env_ok E" and "\<And>n. \<not> has_master E n" and "net_inv {} n" and "length (clients_to_close (srv n)) < fuel"
  shows "\<exists>m. freeClientsInAsyncFreeQueue E fuel n = Some m \<and> net_inv {} m \<and> clients_to_close (srv m) = [] \<and>
      allocated (srv m) = allocated (srv n) - set (clients_to_close (srv n)) \<and> aborted (srv m) = aborted (srv n)"
  by (rule async_queue_freed [OF assms])

lemma demo_net1_scheduled: "clients_to_close (srv (on_srv (freeClientAsync 1) demo_net1)) = [1]"
  by (simp add: demo_net1_def demo_net_def initServer_lists_def on_srv_def createClient_def freeClientAsync_def new_client_def blank_server_def)

theorem async_frees_end_witness:
  "\<exists>m. freeClientsInAsyncFreeQueue demo_net_env 2 (on_srv (freeClientAsync 1) demo_net1) = Some m \<and> net_inv {} m \<and>
      clients_to_close (srv m) = [] \<and>
      allocated (srv m) = allocated (srv (on_srv (freeClientAsync 1) demo_net1)) - set (clients_to_close (srv (on_srv (freeClientAsync 1) demo_net1))) \<and>
      aborted (srv m) = aborted (srv (on_srv (freeClientAsync 1) demo_net1))"
  by (rule async_frees_end [OF demo_net_env_ok freeClientAsync_inv [OF demo_net_inv(2)]])
    (simp_all add: demo_net_facts(3) demo_net1_scheduled del: One_nat_def)


lemma writeToClient_result:
  assumes w: "writeToClient E ws eagain c n = (bs, valid, m)"
  defines "q \<equiv> write_loop (net_alloc E) (write_capped E) ws 0 0 (clients (srv n) c)"
  shows "bs = sent q"
    and "valid = (\<not> (nwritten q = -1 \<and> \<not> eagain) \<and> (clientHasPendingReplies (writer q) \<or> \<not> bit (flags (writer q)) CLIENT_CLOSE_AFTER_REPLY))"
    and "valid \<Longrightarrow> clients (srv m) = (clients (srv n))(c := (writer q)
       \<lparr>lastinteraction := (if totwritten q > 0 \<and> \<not> bit (flags (writer q)) CLIENT_MASTER then unixtime (srv n) else lastinteraction (writer q)),
        sentlen := (if clientHasPendingReplies (writer q) then sentlen (writer q) else 0)\<rparr>)"
proof -
  have p: "clientHasPendingReplies (cl\<lparr>lastinteraction := t\<rparr>) = clientHasPendingReplies cl" for cl t by (simp add: clientHasPendingReplies_def)
  show "bs = sent q"
    using w unfolding writeToClient_def q_def [symmetric] by (simp add: Let_def split: if_splits)
  show "valid = (\<not> (nwritten q = -1 \<and> \<not> eagain) \<and> (clientHasPendingReplies (writer q) \<or> \<not> bit (flags (writer q)) CLIENT_CLOSE_AFTER_REPLY))"
    using w unfolding writeToClient_def q_def [symmetric] by (auto simp: Let_def on_srv_def p split: if_splits)
  show "clients (srv m) = (clients (srv n))(c := (writer q)
       \<lparr>lastinteraction := (if totwritten q > 0 \<and> \<not> bit (flags (writer q)) CLIENT_MASTER then unixtime (srv n) else lastinteraction (writer q)),
        sentlen := (if clientHasPendingReplies (writer q) then sentlen (writer q) else 0)\<rparr>)" if valid
    using w that unfolding writeToClient_def q_def [symmetric] by (auto simp: Let_def on_srv_def p update_client_def split: if_splits)
qed

lemma touched:
  "pending (cl\<lparr>lastinteraction := t\<rparr>) = pending cl"
  "send_wf (cl\<lparr>lastinteraction := t\<rparr>) = send_wf cl"
  "reply_mem A (cl\<lparr>lastinteraction := t\<rparr>) = reply_mem A cl"
  by (simp_all add: pending_def out_bytes_def send_wf_def reply_mem_def split: list.split)

text \<open>C12: writing to a client that stays valid sends a prefix of what was pending and leaves the rest pending, in
  order, keeps the count of the reply memory and leaves other clients alone. A client is closed only
  on a write error or after all its output was sent; and a socket that accepts at least one byte per call
  gets everything, unless the limit on one call applies.\<close>

theorem writeToClient_sends:
  assumes wf: "send_wf (clients (srv n) c)" and w: "writeToClient E ws eagain c n = (bs, valid, m)"
  shows "\<exists>r. bs @ r = pending (clients (srv n) c) \<and>
      (valid \<longrightarrow> pending (clients (srv m) c) = r \<and> send_wf (clients (srv m) c) \<and> (\<forall>d. d \<noteq> c \<longrightarrow> clients (srv m) d = clients (srv n) d) \<and>
        (reply_bytes (clients (srv n) c) = reply_mem (net_alloc E) (clients (srv n) c) \<longrightarrow>
           reply_bytes (clients (srv m) c) = reply_mem (net_alloc E) (clients (srv m) c))) \<and>
      (\<not> valid \<longrightarrow> r = [] \<and> bit (flags (clients (srv n) c)) CLIENT_CLOSE_AFTER_REPLY \<or> \<not> eagain) \<and>
      ((\<forall>x\<in>set ws. 1 \<le> x) \<longrightarrow> length (pending (clients (srv n) c)) \<le> length ws \<longrightarrow> (\<forall>cl. \<not> write_capped E cl) \<longrightarrow>
         r = [] \<and> valid = (\<not> bit (flags (clients (srv n) c)) CLIENT_CLOSE_AFTER_REPLY))"
proof -
  define q where "q = write_loop (net_alloc E) (write_capped E) ws 0 0 (clients (srv n) c)"
  note s = write_loop_sends [OF wf, of "net_alloc E" 0 "write_capped E" ws 0, folded q_def, unfolded sends_def]
  note f = write_loop_control [of "net_alloc E" "write_capped E" ws 0 0 "clients (srv n) c", folded q_def]
  have drain: "\<not> clientHasPendingReplies (writer q) \<and> nwritten q \<noteq> -1"
    if "\<forall>x\<in>set ws. 1 \<le> x" "length (pending (clients (srv n) c)) \<le> length ws" "\<forall>cl. \<not> write_capped E cl"
    using write_loop_drains [OF wf that, of "net_alloc E" 0 0, folded q_def] by auto
  note out = writeToClient_result [OF w, folded q_def]
  have z: "pending (writer q) = []" "sentlen (writer q) = 0" if "\<not> clientHasPendingReplies (writer q)"
    using that s by (auto simp: clientHasPendingReplies_def pending_def out_bytes_def send_wf_def)
  have k: "(if clientHasPendingReplies (writer q) then sentlen (writer q) else 0) = sentlen (writer q)" using z(2) by simp
  have valid: "pending (clients (srv m) c) = pending (writer q) \<and> send_wf (clients (srv m) c) \<and> (\<forall>d. d \<noteq> c \<longrightarrow> clients (srv m) d = clients (srv n) d) \<and>
      reply_bytes (clients (srv m) c) = reply_bytes (writer q) \<and> reply_mem (net_alloc E) (clients (srv m) c) = reply_mem (net_alloc E) (writer q)" if valid
    using s by (simp add: out(3) [OF that] k touched)
  show ?thesis
    by (rule exI [of _ "pending (writer q)"], intro conjI impI)
      (use s out(1,2) f z(1) drain valid in \<open>auto simp del: One_nat_def\<close>)
qed


theorem writeToClient_sends_witness:
  "fst (writeToClient (demo_net_env\<lparr>write_capped := \<lambda>_. False\<rparr>) [2, 1, 9, 9, 9] True 1
      (on_srv (update_client 1 (\<lambda>cl. cl\<lparr>buf := ''hello''\<rparr>)) demo_net1)) = ''hello''"
proof -
  let ?E = "demo_net_env\<lparr>write_capped := \<lambda>_. False\<rparr>" and ?n = "on_srv (update_client 1 (\<lambda>cl. cl\<lparr>buf := ''hello''\<rparr>)) demo_net1"
  obtain bs valid m where w: "writeToClient ?E [2, 1, 9, 9, 9] True 1 ?n = (bs, valid, m)" using prod_cases3 by blast
  have c: "clients (srv ?n) 1 = (new_client 5 0)\<lparr>buf := ''hello''\<rparr>"
    by (simp add: on_srv_def demo_net1_def demo_net_def createClient_def initServer_lists_def blank_server_def)
  have "send_wf (clients (srv ?n) 1)" by (simp only: c) (simp add: send_wf_def new_client_def)
  moreover have "pending (clients (srv ?n) 1) = ''hello''" by (simp only: c) (simp add: pending_def out_bytes_def new_client_def)
  ultimately show ?thesis using writeToClient_sends [OF _ w] w by (simp del: One_nat_def)
qed

end
