(* ===== verification/Redis_Commands.thy ===== *)
theory Redis_Commands
  imports Smem_Pubsub
begin

text \<open>
  The command table of \<open>redis/src/server.c\<close>: the rows of \<open>redisCommandTable\<close>, the flags that
  \<open>populateCommandTable\<close> derives from their letters, the dictionary of commands with its case
  insensitive keys, the lookup functions, and the password comparison of \<open>AUTH\<close>. A C function is
  its name.
\<close>

section \<open>Case insensitive names\<close>

definition tolower :: "char \<Rightarrow> char" where
  "tolower ch = (let n = of_char ch :: nat in if 65 \<le> n \<and> n \<le> 90 then char_of (n + 32) else ch)"

text \<open>\<open>strcasecmp\<close> with result 0.\<close>

definition strcaseeq :: "string \<Rightarrow> string \<Rightarrow> bool" where
  "strcaseeq a b \<longleftrightarrow> map tolower (cstr a) = map tolower (cstr b)"

lemma tolower_idem [simp]: "tolower (tolower ch) = tolower ch"
  by (simp add: tolower_def Let_def of_char_of)

section \<open>Command table\<close>

abbreviation (input) "CMD_WRITE \<equiv> (0 :: nat)"
abbreviation (input) "CMD_READONLY \<equiv> (1 :: nat)"
abbreviation (input) "CMD_DENYOOM \<equiv> (2 :: nat)"
abbreviation (input) "CMD_ADMIN \<equiv> (4 :: nat)"
abbreviation (input) "CMD_PUBSUB \<equiv> (5 :: nat)"
abbreviation (input) "CMD_NOSCRIPT \<equiv> (6 :: nat)"
abbreviation (input) "CMD_RANDOM \<equiv> (7 :: nat)"
abbreviation (input) "CMD_SORT_FOR_SCRIPT \<equiv> (8 :: nat)"
abbreviation (input) "CMD_LOADING \<equiv> (9 :: nat)"
abbreviation (input) "CMD_STALE \<equiv> (10 :: nat)"
abbreviation (input) "CMD_SKIP_MONITOR \<equiv> (11 :: nat)"
abbreviation (input) "CMD_ASKING \<equiv> (12 :: nat)"
abbreviation (input) "CMD_FAST \<equiv> (13 :: nat)"

record redisCommand =
  cmd_name :: string
  cproc :: string
  arity :: int
  sflags :: string
  cmd_flags :: cflags
  getkeys_proc :: "string option"
  firstkey :: int
  lastkey :: int
  keystep :: int

definition entry :: "string \<Rightarrow> string \<Rightarrow> int \<Rightarrow> string \<Rightarrow> string option \<Rightarrow> int \<Rightarrow> int \<Rightarrow> int \<Rightarrow> redisCommand" where
  "entry n p a f g k1 k2 k3 =
     \<lparr>cmd_name = n, cproc = p, arity = a, sflags = f, cmd_flags = 0, getkeys_proc = g, firstkey = k1, lastkey = k2, keystep = k3\<rparr>"

text \<open>The commands of the share memory transport.\<close>

definition smem_commands :: "redisCommand list" where
  "smem_commands = [
     entry ''smemget'' ''smemgetCommand'' 2 ''rF'' None 1 1 1,
     entry ''smemfree'' ''smemfreeCommand'' (-2) ''w'' None 1 (-1) 1,
     entry ''smemrm'' ''smemrmCommand'' (-2) ''w'' None 1 (-1) 1,
     entry ''smemsubscribe'' ''smemsubscribeCommand'' (-2) ''pslt'' None 0 0 0,
     entry ''smempublish'' ''smempublishCommand'' 3 ''pltF'' None 0 0 0,
     entry ''smemswitch'' ''smemswitchCommand'' 3 ''w'' None 1 (-1) 1]"

text \<open>Commands on the key space.\<close>

definition key_commands :: "redisCommand list" where
  "key_commands = [
     entry ''get'' ''getCommand'' 2 ''rF'' None 1 1 1,
     entry ''set'' ''setCommand'' (-3) ''wm'' None 1 1 1,
     entry ''setnx'' ''setnxCommand'' 3 ''wmF'' None 1 1 1,
     entry ''setex'' ''setexCommand'' 4 ''wm'' None 1 1 1,
     entry ''psetex'' ''psetexCommand'' 4 ''wm'' None 1 1 1,
     entry ''append'' ''appendCommand'' 3 ''wm'' None 1 1 1,
     entry ''strlen'' ''strlenCommand'' 2 ''rF'' None 1 1 1,
     entry ''del'' ''delCommand'' (-2) ''w'' None 1 (-1) 1,
     entry ''exists'' ''existsCommand'' (-2) ''rF'' None 1 (-1) 1,
     entry ''setbit'' ''setbitCommand'' 4 ''wm'' None 1 1 1,
     entry ''getbit'' ''getbitCommand'' 3 ''rF'' None 1 1 1,
     entry ''bitfield'' ''bitfieldCommand'' (-2) ''wm'' None 1 1 1,
     entry ''setrange'' ''setrangeCommand'' 4 ''wm'' None 1 1 1,
     entry ''getrange'' ''getrangeCommand'' 4 ''r'' None 1 1 1,
     entry ''substr'' ''getrangeCommand'' 4 ''r'' None 1 1 1,
     entry ''incr'' ''incrCommand'' 2 ''wmF'' None 1 1 1,
     entry ''decr'' ''decrCommand'' 2 ''wmF'' None 1 1 1,
     entry ''mget'' ''mgetCommand'' (-2) ''r'' None 1 (-1) 1,
     entry ''rpush'' ''rpushCommand'' (-3) ''wmF'' None 1 1 1,
     entry ''lpush'' ''lpushCommand'' (-3) ''wmF'' None 1 1 1,
     entry ''rpushx'' ''rpushxCommand'' 3 ''wmF'' None 1 1 1,
     entry ''lpushx'' ''lpushxCommand'' 3 ''wmF'' None 1 1 1,
     entry ''linsert'' ''linsertCommand'' 5 ''wm'' None 1 1 1,
     entry ''rpop'' ''rpopCommand'' 2 ''wF'' None 1 1 1,
     entry ''lpop'' ''lpopCommand'' 2 ''wF'' None 1 1 1,
     entry ''brpop'' ''brpopCommand'' (-3) ''ws'' None 1 1 1,
     entry ''brpoplpush'' ''brpoplpushCommand'' 4 ''wms'' None 1 2 1,
     entry ''blpop'' ''blpopCommand'' (-3) ''ws'' None 1 (-2) 1,
     entry ''llen'' ''llenCommand'' 2 ''rF'' None 1 1 1,
     entry ''lindex'' ''lindexCommand'' 3 ''r'' None 1 1 1,
     entry ''lset'' ''lsetCommand'' 4 ''wm'' None 1 1 1,
     entry ''lrange'' ''lrangeCommand'' 4 ''r'' None 1 1 1,
     entry ''ltrim'' ''ltrimCommand'' 4 ''w'' None 1 1 1,
     entry ''lrem'' ''lremCommand'' 4 ''w'' None 1 1 1,
     entry ''rpoplpush'' ''rpoplpushCommand'' 3 ''wm'' None 1 2 1,
     entry ''sadd'' ''saddCommand'' (-3) ''wmF'' None 1 1 1,
     entry ''srem'' ''sremCommand'' (-3) ''wF'' None 1 1 1,
     entry ''smove'' ''smoveCommand'' 4 ''wF'' None 1 2 1,
     entry ''sismember'' ''sismemberCommand'' 3 ''rF'' None 1 1 1,
     entry ''scard'' ''scardCommand'' 2 ''rF'' None 1 1 1,
     entry ''spop'' ''spopCommand'' (-2) ''wRsF'' None 1 1 1,
     entry ''srandmember'' ''srandmemberCommand'' (-2) ''rR'' None 1 1 1,
     entry ''sinter'' ''sinterCommand'' (-2) ''rS'' None 1 (-1) 1,
     entry ''sinterstore'' ''sinterstoreCommand'' (-3) ''wm'' None 1 (-1) 1,
     entry ''sunion'' ''sunionCommand'' (-2) ''rS'' None 1 (-1) 1,
     entry ''sunionstore'' ''sunionstoreCommand'' (-3) ''wm'' None 1 (-1) 1,
     entry ''sdiff'' ''sdiffCommand'' (-2) ''rS'' None 1 (-1) 1,
     entry ''sdiffstore'' ''sdiffstoreCommand'' (-3) ''wm'' None 1 (-1) 1,
     entry ''smembers'' ''sinterCommand'' 2 ''rS'' None 1 1 1,
     entry ''sscan'' ''sscanCommand'' (-3) ''rR'' None 1 1 1,
     entry ''zadd'' ''zaddCommand'' (-4) ''wmF'' None 1 1 1,
     entry ''zincrby'' ''zincrbyCommand'' 4 ''wmF'' None 1 1 1,
     entry ''zrem'' ''zremCommand'' (-3) ''wF'' None 1 1 1,
     entry ''zremrangebyscore'' ''zremrangebyscoreCommand'' 4 ''w'' None 1 1 1,
     entry ''zremrangebyrank'' ''zremrangebyrankCommand'' 4 ''w'' None 1 1 1,
     entry ''zremrangebylex'' ''zremrangebylexCommand'' 4 ''w'' None 1 1 1,
     entry ''zunionstore'' ''zunionstoreCommand'' (-4) ''wm'' (Some ''zunionInterGetKeys'') 0 0 0,
     entry ''zinterstore'' ''zinterstoreCommand'' (-4) ''wm'' (Some ''zunionInterGetKeys'') 0 0 0,
     entry ''zrange'' ''zrangeCommand'' (-4) ''r'' None 1 1 1,
     entry ''zrangebyscore'' ''zrangebyscoreCommand'' (-4) ''r'' None 1 1 1,
     entry ''zrevrangebyscore'' ''zrevrangebyscoreCommand'' (-4) ''r'' None 1 1 1,
     entry ''zrangebylex'' ''zrangebylexCommand'' (-4) ''r'' None 1 1 1,
     entry ''zrevrangebylex'' ''zrevrangebylexCommand'' (-4) ''r'' None 1 1 1,
     entry ''zcount'' ''zcountCommand'' 4 ''rF'' None 1 1 1,
     entry ''zlexcount'' ''zlexcountCommand'' 4 ''rF'' None 1 1 1,
     entry ''zrevrange'' ''zrevrangeCommand'' (-4) ''r'' None 1 1 1,
     entry ''zcard'' ''zcardCommand'' 2 ''rF'' None 1 1 1,
     entry ''zscore'' ''zscoreCommand'' 3 ''rF'' None 1 1 1,
     entry ''zrank'' ''zrankCommand'' 3 ''rF'' None 1 1 1,
     entry ''zrevrank'' ''zrevrankCommand'' 3 ''rF'' None 1 1 1,
     entry ''zscan'' ''zscanCommand'' (-3) ''rR'' None 1 1 1,
     entry ''hset'' ''hsetCommand'' 4 ''wmF'' None 1 1 1,
     entry ''hsetnx'' ''hsetnxCommand'' 4 ''wmF'' None 1 1 1,
     entry ''hget'' ''hgetCommand'' 3 ''rF'' None 1 1 1,
     entry ''hmset'' ''hmsetCommand'' (-4) ''wm'' None 1 1 1,
     entry ''hmget'' ''hmgetCommand'' (-3) ''r'' None 1 1 1,
     entry ''hincrby'' ''hincrbyCommand'' 4 ''wmF'' None 1 1 1,
     entry ''hincrbyfloat'' ''hincrbyfloatCommand'' 4 ''wmF'' None 1 1 1,
     entry ''hdel'' ''hdelCommand'' (-3) ''wF'' None 1 1 1,
     entry ''hlen'' ''hlenCommand'' 2 ''rF'' None 1 1 1,
     entry ''hstrlen'' ''hstrlenCommand'' 3 ''rF'' None 1 1 1,
     entry ''hkeys'' ''hkeysCommand'' 2 ''rS'' None 1 1 1,
     entry ''hvals'' ''hvalsCommand'' 2 ''rS'' None 1 1 1,
     entry ''hgetall'' ''hgetallCommand'' 2 ''r'' None 1 1 1,
     entry ''hexists'' ''hexistsCommand'' 3 ''rF'' None 1 1 1,
     entry ''hscan'' ''hscanCommand'' (-3) ''rR'' None 1 1 1,
     entry ''incrby'' ''incrbyCommand'' 3 ''wmF'' None 1 1 1,
     entry ''decrby'' ''decrbyCommand'' 3 ''wmF'' None 1 1 1,
     entry ''incrbyfloat'' ''incrbyfloatCommand'' 3 ''wmF'' None 1 1 1,
     entry ''getset'' ''getsetCommand'' 3 ''wm'' None 1 1 1,
     entry ''mset'' ''msetCommand'' (-3) ''wm'' None 1 (-1) 2,
     entry ''msetnx'' ''msetnxCommand'' (-3) ''wm'' None 1 (-1) 2,
     entry ''randomkey'' ''randomkeyCommand'' 1 ''rR'' None 0 0 0,
     entry ''select'' ''selectCommand'' 2 ''lF'' None 0 0 0,
     entry ''move'' ''moveCommand'' 3 ''wF'' None 1 1 1,
     entry ''rename'' ''renameCommand'' 3 ''w'' None 1 2 1,
     entry ''renamenx'' ''renamenxCommand'' 3 ''wF'' None 1 2 1,
     entry ''expire'' ''expireCommand'' 3 ''wF'' None 1 1 1,
     entry ''expireat'' ''expireatCommand'' 3 ''wF'' None 1 1 1,
     entry ''pexpire'' ''pexpireCommand'' 3 ''wF'' None 1 1 1,
     entry ''pexpireat'' ''pexpireatCommand'' 3 ''wF'' None 1 1 1,
     entry ''keys'' ''keysCommand'' 2 ''rS'' None 0 0 0,
     entry ''scan'' ''scanCommand'' (-2) ''rR'' None 0 0 0,
     entry ''dbsize'' ''dbsizeCommand'' 1 ''rF'' None 0 0 0]"

text \<open>Connection, server, scripting and later data type commands.\<close>

definition server_commands :: "redisCommand list" where
  "server_commands = [
     entry ''auth'' ''authCommand'' 2 ''sltF'' None 0 0 0,
     entry ''ping'' ''pingCommand'' (-1) ''tF'' None 0 0 0,
     entry ''echo'' ''echoCommand'' 2 ''F'' None 0 0 0,
     entry ''save'' ''saveCommand'' 1 ''as'' None 0 0 0,
     entry ''bgsave'' ''bgsaveCommand'' 1 ''a'' None 0 0 0,
     entry ''bgrewriteaof'' ''bgrewriteaofCommand'' 1 ''a'' None 0 0 0,
     entry ''shutdown'' ''shutdownCommand'' (-1) ''alt'' None 0 0 0,
     entry ''lastsave'' ''lastsaveCommand'' 1 ''RF'' None 0 0 0,
     entry ''type'' ''typeCommand'' 2 ''rF'' None 1 1 1,
     entry ''multi'' ''multiCommand'' 1 ''sF'' None 0 0 0,
     entry ''exec'' ''execCommand'' 1 ''sM'' None 0 0 0,
     entry ''discard'' ''discardCommand'' 1 ''sF'' None 0 0 0,
     entry ''sync'' ''syncCommand'' 1 ''ars'' None 0 0 0,
     entry ''psync'' ''syncCommand'' 3 ''ars'' None 0 0 0,
     entry ''replconf'' ''replconfCommand'' (-1) ''aslt'' None 0 0 0,
     entry ''flushdb'' ''flushdbCommand'' 1 ''w'' None 0 0 0,
     entry ''flushall'' ''flushallCommand'' 1 ''w'' None 0 0 0,
     entry ''sort'' ''sortCommand'' (-2) ''wm'' (Some ''sortGetKeys'') 1 1 1,
     entry ''info'' ''infoCommand'' (-1) ''lt'' None 0 0 0,
     entry ''monitor'' ''monitorCommand'' 1 ''as'' None 0 0 0,
     entry ''ttl'' ''ttlCommand'' 2 ''rF'' None 1 1 1,
     entry ''pttl'' ''pttlCommand'' 2 ''rF'' None 1 1 1,
     entry ''persist'' ''persistCommand'' 2 ''wF'' None 1 1 1,
     entry ''slaveof'' ''slaveofCommand'' 3 ''ast'' None 0 0 0,
     entry ''role'' ''roleCommand'' 1 ''lst'' None 0 0 0,
     entry ''debug'' ''debugCommand'' (-1) ''as'' None 0 0 0,
     entry ''config'' ''configCommand'' (-2) ''lat'' None 0 0 0,
     entry ''subscribe'' ''subscribeCommand'' (-2) ''pslt'' None 0 0 0,
     entry ''unsubscribe'' ''unsubscribeCommand'' (-1) ''pslt'' None 0 0 0,
     entry ''psubscribe'' ''psubscribeCommand'' (-2) ''pslt'' None 0 0 0,
     entry ''punsubscribe'' ''punsubscribeCommand'' (-1) ''pslt'' None 0 0 0,
     entry ''publish'' ''publishCommand'' 3 ''pltF'' None 0 0 0,
     entry ''pubsub'' ''pubsubCommand'' (-2) ''pltR'' None 0 0 0,
     entry ''watch'' ''watchCommand'' (-2) ''sF'' None 1 (-1) 1,
     entry ''unwatch'' ''unwatchCommand'' 1 ''sF'' None 0 0 0,
     entry ''cluster'' ''clusterCommand'' (-2) ''a'' None 0 0 0,
     entry ''restore'' ''restoreCommand'' (-4) ''wm'' None 1 1 1,
     entry ''restore-asking'' ''restoreCommand'' (-4) ''wmk'' None 1 1 1,
     entry ''migrate'' ''migrateCommand'' (-6) ''w'' (Some ''migrateGetKeys'') 0 0 0,
     entry ''asking'' ''askingCommand'' 1 ''F'' None 0 0 0,
     entry ''readonly'' ''readonlyCommand'' 1 ''F'' None 0 0 0,
     entry ''readwrite'' ''readwriteCommand'' 1 ''F'' None 0 0 0,
     entry ''dump'' ''dumpCommand'' 2 ''r'' None 1 1 1,
     entry ''object'' ''objectCommand'' 3 ''r'' None 2 2 2,
     entry ''client'' ''clientCommand'' (-2) ''as'' None 0 0 0,
     entry ''eval'' ''evalCommand'' (-3) ''s'' (Some ''evalGetKeys'') 0 0 0,
     entry ''evalsha'' ''evalShaCommand'' (-3) ''s'' (Some ''evalGetKeys'') 0 0 0,
     entry ''slowlog'' ''slowlogCommand'' (-2) ''a'' None 0 0 0,
     entry ''script'' ''scriptCommand'' (-2) ''s'' None 0 0 0,
     entry ''time'' ''timeCommand'' 1 ''RF'' None 0 0 0,
     entry ''bitop'' ''bitopCommand'' (-4) ''wm'' None 2 (-1) 1,
     entry ''bitcount'' ''bitcountCommand'' (-2) ''r'' None 1 1 1,
     entry ''bitpos'' ''bitposCommand'' (-3) ''r'' None 1 1 1,
     entry ''wait'' ''waitCommand'' 3 ''s'' None 0 0 0,
     entry ''command'' ''commandCommand'' 0 ''lt'' None 0 0 0,
     entry ''geoadd'' ''geoaddCommand'' (-5) ''wm'' None 1 1 1,
     entry ''georadius'' ''georadiusCommand'' (-6) ''w'' None 1 1 1,
     entry ''georadiusbymember'' ''georadiusByMemberCommand'' (-5) ''w'' None 1 1 1,
     entry ''geohash'' ''geohashCommand'' (-2) ''r'' None 1 1 1,
     entry ''geopos'' ''geoposCommand'' (-2) ''r'' None 1 1 1,
     entry ''geodist'' ''geodistCommand'' (-4) ''r'' None 1 1 1,
     entry ''pfselftest'' ''pfselftestCommand'' 1 ''a'' None 0 0 0,
     entry ''pfadd'' ''pfaddCommand'' (-2) ''wmF'' None 1 1 1,
     entry ''pfcount'' ''pfcountCommand'' (-2) ''r'' None 1 (-1) 1,
     entry ''pfmerge'' ''pfmergeCommand'' (-2) ''wm'' None 1 (-1) 1,
     entry ''pfdebug'' ''pfdebugCommand'' (-3) ''w'' None 0 0 0,
     entry ''latency'' ''latencyCommand'' (-2) ''aslt'' None 0 0 0]"

definition redisCommandTable :: "redisCommand list" where
  "redisCommandTable = smem_commands @ key_commands @ server_commands"

text \<open>The switch over the letters; an unknown letter is a panic.\<close>

definition flag_of :: "char \<Rightarrow> nat option" where
  "flag_of f =
     (if f = CHR ''w'' then Some CMD_WRITE else if f = CHR ''r'' then Some CMD_READONLY
      else if f = CHR ''m'' then Some CMD_DENYOOM else if f = CHR ''a'' then Some CMD_ADMIN
      else if f = CHR ''p'' then Some CMD_PUBSUB else if f = CHR ''s'' then Some CMD_NOSCRIPT
      else if f = CHR ''R'' then Some CMD_RANDOM else if f = CHR ''S'' then Some CMD_SORT_FOR_SCRIPT
      else if f = CHR ''l'' then Some CMD_LOADING else if f = CHR ''t'' then Some CMD_STALE
      else if f = CHR ''M'' then Some CMD_SKIP_MONITOR else if f = CHR ''k'' then Some CMD_ASKING
      else if f = CHR ''F'' then Some CMD_FAST else None)"

fun add_flags :: "string \<Rightarrow> cflags \<Rightarrow> cflags option" where
  "add_flags [] w = Some w"
| "add_flags (f # fs) w = (case flag_of f of None \<Rightarrow> None | Some b \<Rightarrow> add_flags fs (set_bit b w))"

text \<open>The dictionary compares keys without regard to case; its keys are folded to lower case here. Adding a key that
  is present fails the assertion.\<close>

type_synonym command_dict = "string \<rightharpoonup> redisCommand"

fun populate :: "redisCommand list \<Rightarrow> command_dict \<Rightarrow> command_dict option" where
  "populate [] d = Some d"
| "populate (c # cs) d =
     (case add_flags (sflags c) (cmd_flags c) of
        None \<Rightarrow> None
      | Some w \<Rightarrow>
          if d (map tolower (cmd_name c)) \<noteq> None then None
          else populate cs (d(map tolower (cmd_name c) \<mapsto> c\<lparr>cmd_flags := w\<rparr>)))"

definition populateCommandTable :: "command_dict option" where
  "populateCommandTable = populate redisCommandTable Map.empty"

definition lookupCommand :: "command_dict \<Rightarrow> string \<Rightarrow> redisCommand option" where
  "lookupCommand d n = d (map tolower n)"

definition lookupCommandByCString :: "command_dict \<Rightarrow> string \<Rightarrow> redisCommand option" where
  "lookupCommandByCString d n = d (map tolower (cstr n))"

definition lookupCommandOrOriginal :: "command_dict \<Rightarrow> command_dict \<Rightarrow> string \<Rightarrow> redisCommand option" where
  "lookupCommandOrOriginal d orig n = (case d (map tolower n) of None \<Rightarrow> orig (map tolower n) | Some c \<Rightarrow> Some c)"

section \<open>Password comparison\<close>

abbreviation (input) "CONFIG_AUTHPASS_MAX_LEN \<equiv> (512 :: nat)"

text \<open>A \<open>char\<close> is signed and is promoted to \<open>int\<close>.\<close>

definition schar :: "char \<Rightarrow> int" where
  "schar ch = (let n = of_char ch in if n < 128 then n else n - 256)"

definition cleared_buf :: "string \<Rightarrow> string" where
  "cleared_buf x = x @ replicate (CONFIG_AUTHPASS_MAX_LEN - length x) (CHR 0x00)"

definition time_independent_strcmp :: "string \<Rightarrow> string \<Rightarrow> int" where
  "time_independent_strcmp a b =
     (let alen = length (cstr a); blen = length (cstr b)
      in if alen > CONFIG_AUTHPASS_MAX_LEN \<or> blen > CONFIG_AUTHPASS_MAX_LEN then 1
         else fold (\<lambda>(x, y) diff. diff OR (schar x XOR schar y)) (zip (cleared_buf (cstr a)) (cleared_buf (cstr b))) 0
                OR (int alen XOR int blen))"

section \<open>Properties\<close>

lemma schar_eq: "schar x = schar y \<longleftrightarrow> x = y"
proof
  have r: "0 \<le> (of_char z :: int) \<and> (of_char z :: int) < 256" for z
    using pos_mod_sign [of 256 "of_char z :: int"] pos_mod_bound [of 256 "of_char z :: int"] by simp
  assume "schar x = schar y"
  then have "(of_char x :: int) = of_char y" using r [of x] r [of y] by (auto simp: schar_def Let_def split: if_splits)
  then show "x = y" by simp
qed simp

lemma xor_zero: "(a XOR b = 0) = (a = (b :: int))"
  by (metis bit.xor_self xor.assoc xor.right_neutral)

lemma or_zero: "(a OR b = 0) = (a = 0 \<and> b = (0 :: int))"
  by (auto simp: or_eq_0_iff)

lemma fold_or_zero:
  "fold (\<lambda>(x, y) diff. diff OR (schar x XOR schar y)) ps d = 0 \<longleftrightarrow> d = 0 \<and> (\<forall>(x, y)\<in>set ps. x = y)"
  by (induction ps arbitrary: d) (auto simp: or_zero xor_zero schar_eq)

lemma cstr_no_nul: "CHR 0x00 \<notin> set (cstr x)"
  by (auto simp: cstr_def dest: set_takeWhileD)

text \<open>The comparison without data dependent branches accepts a password exactly when it equals the configured
  one as a C string and has at most 512 bytes.\<close>

theorem time_independent_strcmp_eq:
  "time_independent_strcmp a b = 0 \<longleftrightarrow> cstr a = cstr b \<and> length (cstr a) \<le> CONFIG_AUTHPASS_MAX_LEN"
proof (cases "length (cstr a) > CONFIG_AUTHPASS_MAX_LEN \<or> length (cstr b) > CONFIG_AUTHPASS_MAX_LEN")
  case True
  then show ?thesis by (auto simp: time_independent_strcmp_def Let_def)
next
  case False
  let ?a = "cstr a" and ?b = "cstr b"
  have "time_independent_strcmp a b = 0 \<longleftrightarrow>
      length ?a = length ?b \<and> (\<forall>(x, y)\<in>set (zip (cleared_buf ?a) (cleared_buf ?b)). x = y)"
    using False by (auto simp: time_independent_strcmp_def Let_def or_zero xor_zero fold_or_zero)
  also have "\<dots> \<longleftrightarrow> length ?a = length ?b \<and> cleared_buf ?a = cleared_buf ?b"
    by (auto simp: list_eq_iff_zip_eq cleared_buf_def)
  also have "\<dots> \<longleftrightarrow> ?a = ?b" by (auto simp: cleared_buf_def)
  finally show ?thesis using False by auto
qed

subsection \<open>The dictionary of commands\<close>

definition row :: "redisCommand \<Rightarrow> string \<times> redisCommand" where
  "row c = (map tolower (cmd_name c), c\<lparr>cmd_flags := the (add_flags (sflags c) (cmd_flags c))\<rparr>)"

lemma populate_rows:
  "distinct (map (fst \<circ> row) cs) \<Longrightarrow> \<forall>c\<in>set cs. add_flags (sflags c) (cmd_flags c) \<noteq> None \<Longrightarrow>
     \<forall>c\<in>set cs. d (fst (row c)) = None \<Longrightarrow> populate cs d = Some (d ++ map_of (map row cs))"
proof (induction cs arbitrary: d)
  case (Cons c cs)
  let ?k = "fst (row c)" and ?d = "d(fst (row c) \<mapsto> snd (row c))"
  from Cons.prems(2) have step: "populate (c # cs) d = populate cs ?d" using Cons.prems(3) by (auto simp: row_def)
  have "\<forall>e\<in>set cs. ?d (fst (row e)) = None" using Cons.prems(1,3) by (auto simp: image_iff)
  then have "populate cs ?d = Some (?d ++ map_of (map row cs))" using Cons by simp
  moreover have "?d ++ map_of (map row cs) = d ++ map_of (map row (c # cs))"
  proof
    fix k
    have "map_of (map row cs) ?k = None" using Cons.prems(1) by (auto simp: map_of_eq_None_iff)
    then show "(?d ++ map_of (map row cs)) k = (d ++ map_of (map row (c # cs))) k"
      by (cases "k = ?k") (auto simp: map_add_def prod.case_eq_if split: option.splits)
  qed
  ultimately show ?case by (simp only: step)
qed simp

lemma fst_row: "fst (row c) = map tolower (cmd_name c)"
  by (simp add: row_def)

text \<open>The rows are checked group by group: names distinct and in lower case, letters known.\<close>

definition names :: "redisCommand list \<Rightarrow> string list" where
  "names cs = map cmd_name cs"

lemma names_rows [simp]:
  "names (smem_commands @ cs) = [''smemget'', ''smemfree'', ''smemrm'', ''smemsubscribe'', ''smempublish'', ''smemswitch''] @ names cs"
  by (simp add: names_def smem_commands_def entry_def)

lemma key_names_distinct: "distinct (names key_commands)"
  by (simp add: names_def key_commands_def entry_def)

lemma server_names_distinct: "distinct (names server_commands)"
  by (simp add: names_def server_commands_def entry_def)

lemma smem_names_other:
  "set [''smemget'', ''smemfree'', ''smemrm'', ''smemsubscribe'', ''smempublish'', ''smemswitch''] \<inter> set (names (key_commands @ server_commands)) = {}"
  by (simp add: names_def key_commands_def server_commands_def entry_def)

lemma key_server_names: "set (names key_commands) \<inter> set (names server_commands) = {}"
  by (simp add: names_def key_commands_def server_commands_def entry_def)

lemma tolower_less [simp]: "(of_char ch :: nat) < 65 \<or> 90 < (of_char ch :: nat) \<Longrightarrow> tolower ch = ch"
  by (auto simp: tolower_def Let_def)

lemma names_lower: "\<forall>n\<in>set (names redisCommandTable). map tolower n = n"
proof -
  have "list_all (\<lambda>n. map tolower n = n) (names smem_commands)" by code_simp
  moreover have "list_all (\<lambda>n. map tolower n = n) (names key_commands)" by code_simp
  moreover have "list_all (\<lambda>n. map tolower n = n) (names server_commands)" by code_simp
  ultimately show ?thesis by (auto simp: redisCommandTable_def names_def list_all_iff)
qed

lemma names_distinct: "distinct (names redisCommandTable)"
  using key_names_distinct server_names_distinct smem_names_other key_server_names
  by (simp add: redisCommandTable_def) (simp add: names_def)

lemma table_names: "distinct (map (\<lambda>c. map tolower (cmd_name c)) redisCommandTable)"
  using names_distinct names_lower by (simp add: names_def map_idI cong: map_cong)

lemma table_flags: "list_all (\<lambda>c. add_flags (sflags c) (cmd_flags c) \<noteq> None) redisCommandTable"
  by code_simp

definition commands :: command_dict where
  "commands = map_of (map row redisCommandTable)"

lemma populateCommandTable_commands: "populateCommandTable = Some commands"
  using populate_rows [of redisCommandTable Map.empty] table_names table_flags
  by (simp add: comp_def fst_row populateCommandTable_def commands_def list_all_iff)

lemma lookup_commands: "c \<in> set redisCommandTable \<Longrightarrow> map tolower n = cmd_name c \<Longrightarrow> lookupCommand commands n = Some (snd (row c))"
  using names_lower table_names
  by (auto simp: lookupCommand_def commands_def names_def comp_def fst_row intro!: map_of_is_SomeI
      intro: rev_image_eqI [of c] simp: row_def)

lemma lookup_unknown: "map tolower n \<notin> set (names redisCommandTable) \<Longrightarrow> lookupCommand commands n = None"
  using names_lower by (force simp: lookupCommand_def commands_def names_def map_of_eq_None_iff fst_row image_iff)


end
