(* ===== verification/Redis_Admin.thy ===== *)
theory Redis_Admin
  imports Redis_Sessions Redis_Commands
begin

text \<open>
  The parts of \<open>redis/src/networking.c\<close> around the clients: accepting connections, the \<open>CLIENT\<close>
  command, pausing clients, disconnecting and flushing slaves, and rewriting the argument vector.
  The state is the server with its clients, the share memory of the kernel and the counters and
  fields that the command processor uses; the configuration and the code of other files are the
  environment.
\<close>

section \<open>State and environment\<close>

record 'k sys =
  nt :: net
  shm :: 'k
  clients_paused :: bool
  clients_pause_end_time :: int
  mstime :: int
  lastcmd :: "nat \<Rightarrow> string option"
  dirty :: int
  cmd_calls :: "string \<Rightarrow> int"
  cmd_microseconds :: "string \<Rightarrow> int"
  also_propagate :: "(string \<times> string list \<times> bool \<times> bool) list"
  stat_numcommands :: int
  stat_numconnections :: int
  stat_rejected_conn :: int

abbreviation sv :: "'k sys \<Rightarrow> server" where
  "sv st \<equiv> srv (nt st)"

abbreviation client_of :: "'k sys \<Rightarrow> nat \<Rightarrow> client" where
  "client_of st c \<equiv> clients (sv st) c"

definition on_nt :: "(net \<Rightarrow> net) \<Rightarrow> 'k sys \<Rightarrow> 'k sys" where
  "on_nt f st = st\<lparr>nt := f (nt st)\<rparr>"

definition on_sv :: "(server \<Rightarrow> server) \<Rightarrow> 'k sys \<Rightarrow> 'k sys" where
  "on_sv f st = on_nt (on_srv f) st"

definition add_flag :: "nat \<Rightarrow> nat \<Rightarrow> server \<Rightarrow> server" where
  "add_flag b c s = update_client c (\<lambda>cl. cl\<lparr>flags := set_bit b (flags cl)\<rparr>) s"

text \<open>What \<open>CLIENT LIST\<close> shows of a client beyond its modelled fields.\<close>

record client_info =
  ctime :: int
  db_id :: int
  sub_count :: int
  psub_count :: int
  multi_count :: int
  qbuf_free :: nat
  ev_readable :: bool
  ev_writable :: bool

text \<open>Configuration, status read by the command processor, and functions of other files.\<close>

record 'k srv_env =
  net_of :: net_env
  pool_of :: "'k env"
  cmd_table :: command_dict
  orig_table :: command_dict
  maxclients :: nat
  protected_mode :: bool
  bindaddr_count :: nat
  requirepass :: "string option"
  unixsocket :: string
  anetFormatPeer :: "int \<Rightarrow> string"
  list_info :: "nat \<Rightarrow> client_info"
  writable_event :: "nat \<Rightarrow> 'k sys \<Rightarrow> bool"
  slave_socket :: "nat \<Rightarrow> int list \<times> bool"
  getLongLongFromObjectOrReply :: "nat \<Rightarrow> string \<Rightarrow> server \<Rightarrow> int option \<times> server"
  getTimeoutFromObjectOrReply :: "nat \<Rightarrow> string \<Rightarrow> 'k sys \<Rightarrow> int option \<times> 'k sys"
  aof_on :: bool
  loading :: bool
  lua_timedout :: bool
  lua_caller :: "nat option"
  maxmemory :: nat
  freeMemoryIfNeeded :: "'k sys \<Rightarrow> bool \<times> 'k sys"
  bgsave_failing :: bool
  aof_write_failing :: bool
  aof_errno :: string
  masterhost :: bool
  repl_slave_ro :: bool
  repl_connected :: bool
  repl_serve_stale_data :: bool
  repl_min_slaves_to_write :: nat
  repl_min_slaves_max_lag :: nat
  repl_good_slaves_count :: nat
  getNodeByQuery_myself :: "nat \<Rightarrow> 'k sys \<Rightarrow> bool"
  clusterRedirectClient :: "nat \<Rightarrow> 'k sys \<Rightarrow> 'k sys"
  flagTransaction :: "nat \<Rightarrow> 'k sys \<Rightarrow> 'k sys"
  discardTransaction :: "nat \<Rightarrow> 'k sys \<Rightarrow> 'k sys"
  queueMultiCommand :: "nat \<Rightarrow> 'k sys \<Rightarrow> 'k sys"
  handleClientsBlockedOnLists :: "'k sys \<Rightarrow> 'k sys"
  ready_keys :: "'k sys \<Rightarrow> bool"
  replicationFeedMonitors :: "nat \<Rightarrow> 'k sys \<Rightarrow> 'k sys"
  replicationFeedSlaves :: "string list \<Rightarrow> 'k sys \<Rightarrow> 'k sys"
  feedAppendOnlyFile :: "string \<Rightarrow> string list \<Rightarrow> 'k sys \<Rightarrow> 'k sys"
  gettimeofday :: "int \<times> int"
  ustime :: "'k sys \<Rightarrow> int"
  channels_order :: "server \<Rightarrow> string list"
  commands_order :: "redisCommand list"
  getKeysFromCommand :: "redisCommand \<Rightarrow> string list \<Rightarrow> nat list"
  other_proc :: "string \<Rightarrow> nat \<Rightarrow> 'k sys \<Rightarrow> 'k sys"

abbreviation al :: "'k srv_env \<Rightarrow> alloc" where
  "al E \<equiv> net_alloc (net_of E)"

section \<open>Shared replies\<close>

definition shared_ok :: robj where
  "shared_ok = Raw (Some (''+OK'' @ crlf))"

definition shared_syntaxerr :: robj where
  "shared_syntaxerr = Raw (Some (''-ERR syntax error'' @ crlf))"

section \<open>Accepting connections\<close>

text \<open>\<open>p\<close> is the new client structure and \<open>ev\<close> whether its read handler could be installed. The
  error messages are written to the socket on a best effort basis and do not change the state.\<close>

definition acceptCommonHandler :: "'k srv_env \<Rightarrow> nat \<Rightarrow> bool \<Rightarrow> int \<Rightarrow> nat option \<Rightarrow> string option \<Rightarrow> 'k sys \<Rightarrow> 'k sys" where
  "acceptCommonHandler E p ev f fl ip st =
     (case createClient p ev f (nt st) of
        (None, n) \<Rightarrow> st\<lparr>nt := n\<rparr>
      | (Some c, n) \<Rightarrow>
          (let st1 = st\<lparr>nt := n\<rparr>;
               reject = (\<lambda>st. on_nt (freeClient (net_of E) c) (st\<lparr>stat_rejected_conn := stat_rejected_conn st + 1\<rparr>))
           in if length (client_list (sv st1)) > maxclients E then reject st1
              else if protected_mode E \<and> bindaddr_count E = 0 \<and> requirepass E = None \<and> fl \<noteq> Some CLIENT_UNIX_SOCKET \<and>
                      ip \<noteq> None \<and> the ip \<noteq> ''127.0.0.1'' \<and> the ip \<noteq> ''::1'' then reject st1
              else on_sv (case fl of None \<Rightarrow> (\<lambda>s. s) | Some b \<Rightarrow> add_flag b c)
                     (st1\<lparr>stat_numconnections := stat_numconnections st1 + 1\<rparr>)))"

text \<open>The accept handlers take up to 1000 pending connections; an element of the list is a connection
  the kernel hands out, with the structure and the outcome of installing its handler.\<close>

abbreviation (input) "MAX_ACCEPTS_PER_CALL \<equiv> (1000 :: nat)"

definition acceptTcpHandler :: "'k srv_env \<Rightarrow> (nat \<times> bool \<times> int \<times> string) list \<Rightarrow> 'k sys \<Rightarrow> 'k sys" where
  "acceptTcpHandler E conns st =
     fold (\<lambda>(p, ev, f, ip) st. acceptCommonHandler E p ev f None (Some ip) st) (take MAX_ACCEPTS_PER_CALL conns) st"

definition acceptUnixHandler :: "'k srv_env \<Rightarrow> (nat \<times> bool \<times> int) list \<Rightarrow> 'k sys \<Rightarrow> 'k sys" where
  "acceptUnixHandler E conns st =
     fold (\<lambda>(p, ev, f) st. acceptCommonHandler E p ev f (Some CLIENT_UNIX_SOCKET) None st) (take MAX_ACCEPTS_PER_CALL conns) st"

section \<open>Pausing clients\<close>

definition pauseClients :: "int \<Rightarrow> 'k sys \<Rightarrow> 'k sys" where
  "pauseClients e st =
     (if \<not> clients_paused st \<or> e > clients_pause_end_time st then st\<lparr>clients_pause_end_time := e\<rparr> else st)\<lparr>clients_paused := True\<rparr>"

definition unpause_step :: "nat \<Rightarrow> server \<Rightarrow> server" where
  "unpause_step c s =
     (if bit (flags (clients s c)) CLIENT_SLAVE \<or> bit (flags (clients s c)) CLIENT_BLOCKED then s
      else (add_flag CLIENT_UNBLOCKED c s)\<lparr>unblocked_clients := unblocked_clients s @ [c]\<rparr>)"

definition clientsArePaused_sys :: "'k sys \<Rightarrow> bool \<times> 'k sys" where
  "clientsArePaused_sys st =
     (let st1 = (if clients_paused st \<and> clients_pause_end_time st < mstime st
                 then on_sv (\<lambda>s. fold unpause_step (client_list s) s) (st\<lparr>clients_paused := False\<rparr>) else st)
      in (clients_paused st1, st1))"

section \<open>Slaves\<close>

fun disconnectSlaves :: "'k srv_env \<Rightarrow> nat \<Rightarrow> 'k sys \<Rightarrow> 'k sys option" where
  "disconnectSlaves E 0 st = None"
| "disconnectSlaves E (Suc fuel) st =
     (case slaves (nt st) of
        [] \<Rightarrow> Some st
      | c # _ \<Rightarrow> disconnectSlaves E fuel (on_nt (freeClient (net_of E) c) st))"

definition flush_slave :: "'k srv_env \<Rightarrow> nat \<Rightarrow> 'k sys \<Rightarrow> 'k sys" where
  "flush_slave E c st =
     (if writable_event E c st \<and> replstate (client_of st c) = SLAVE_STATE_ONLINE \<and> clientHasPendingReplies (client_of st c)
      then (case writeToClient (net_of E) (fst (slave_socket E c)) (snd (slave_socket E c)) c (nt st) of (_, _, n) \<Rightarrow> st\<lparr>nt := n\<rparr>)
      else st)"

definition flushSlavesOutputBuffers :: "'k srv_env \<Rightarrow> 'k sys \<Rightarrow> 'k sys" where
  "flushSlavesOutputBuffers E st = fold (flush_slave E) (slaves (nt st)) st"

section \<open>Listing clients\<close>

abbreviation (input) "CLIENT_DIRTY_CAS \<equiv> (5 :: nat)"
abbreviation (input) "CLIENT_READONLY \<equiv> (17 :: nat)"
abbreviation (input) "NET_PEER_ID_LEN \<equiv> (78 :: nat)"

text \<open>The peer id is cached in the client when it is first asked for; it does not change while the client lives.\<close>

definition genClientPeerId :: "'k srv_env \<Rightarrow> client \<Rightarrow> string" where
  "genClientPeerId E cl =
     (if bit (flags cl) CLIENT_UNIX_SOCKET then take (NET_PEER_ID_LEN - 1) (cstr (unixsocket E) @ '':0'') else anetFormatPeer E (fd cl))"

definition flag_letters :: "cflags \<Rightarrow> string" where
  "flag_letters w =
     (let x = (if bit w CLIENT_SLAVE then (if bit w CLIENT_MONITOR then ''O'' else ''S'') else []) @
              (if bit w CLIENT_MASTER then ''M'' else []) @ (if bit w CLIENT_MULTI then ''x'' else []) @
              (if bit w CLIENT_BLOCKED then ''b'' else []) @ (if bit w CLIENT_DIRTY_CAS then ''d'' else []) @
              (if bit w CLIENT_CLOSE_AFTER_REPLY then ''c'' else []) @ (if bit w CLIENT_UNBLOCKED then ''u'' else []) @
              (if bit w CLIENT_CLOSE_ASAP then ''A'' else []) @ (if bit w CLIENT_UNIX_SOCKET then ''U'' else []) @
              (if bit w CLIENT_READONLY then ''r'' else [])
      in if x = [] then ''N'' else x)"

definition event_letters :: "client_info \<Rightarrow> client \<Rightarrow> string" where
  "event_letters i cl =
     (if fd cl = -1 then [] else (if ev_readable i then ''r'' else []) @ (if ev_writable i then ''w'' else []))"

definition info_fields :: "'k srv_env \<Rightarrow> nat \<Rightarrow> 'k sys \<Rightarrow> string list" where
  "info_fields E c st =
     (let cl = client_of st c; i = list_info E c
      in [''id='' @ dec_nat (client_ids (nt st) c), ''addr='' @ cstr (genClientPeerId E cl), ''fd='' @ dec_int (fd cl),
          ''name='' @ (case name cl of None \<Rightarrow> [] | Some n \<Rightarrow> cstr n), ''age='' @ dec_int (unixtime (sv st) - ctime i),
          ''idle='' @ dec_int (unixtime (sv st) - lastinteraction cl), ''flags='' @ flag_letters (flags cl), ''db='' @ dec_int (db_id i),
          ''sub='' @ dec_int (sub_count i), ''psub='' @ dec_int (psub_count i),
          ''multi='' @ dec_int (if bit (flags cl) CLIENT_MULTI then multi_count i else -1), ''qbuf='' @ dec_nat (length (querybuf cl)),
          ''qbuf-free='' @ dec_nat (qbuf_free i), ''obl='' @ dec_nat (bufpos cl), ''oll='' @ dec_nat (length (reply cl)),
          ''omem='' @ dec_nat (unat (getClientOutputBufferMemoryUsage cl)), ''events='' @ event_letters i cl,
          ''cmd='' @ (case lastcmd st c of None \<Rightarrow> ''NULL'' | Some nm \<Rightarrow> nm)])"

fun spaced :: "string list \<Rightarrow> string" where
  "spaced [] = []"
| "spaced [x] = x"
| "spaced (x # xs) = x @ '' '' @ spaced xs"

definition catClientInfoString :: "'k srv_env \<Rightarrow> nat \<Rightarrow> 'k sys \<Rightarrow> string \<Rightarrow> string" where
  "catClientInfoString E c st o1 = o1 @ spaced (info_fields E c st)"

definition getAllClientsInfoString :: "'k srv_env \<Rightarrow> 'k sys \<Rightarrow> string" where
  "getAllClientsInfoString E st = fold (\<lambda>c o1. catClientInfoString E c st o1 @ [CHR 0x0A]) (client_list (sv st)) []"

definition getClientsMaxBuffers :: "server \<Rightarrow> nat \<times> nat" where
  "getClientsMaxBuffers s =
     fold (\<lambda>c (lol, bib). (max lol (length (reply (clients s c))), max bib (length (querybuf (clients s c))))) (client_list s) (0, 0)"

section \<open>The CLIENT command\<close>

definition getClientTypeByName :: "string \<Rightarrow> int" where
  "getClientTypeByName n =
     (if strcaseeq n ''normal'' then CLIENT_TYPE_NORMAL else if strcaseeq n ''slave'' then CLIENT_TYPE_SLAVE
      else if strcaseeq n ''pubsub'' then CLIENT_TYPE_PUBSUB else if strcaseeq n ''master'' then CLIENT_TYPE_MASTER else -1)"

definition getClientTypeName :: "int \<Rightarrow> string option" where
  "getClientTypeName cls =
     (if cls = CLIENT_TYPE_NORMAL then Some ''normal'' else if cls = CLIENT_TYPE_SLAVE then Some ''slave''
      else if cls = CLIENT_TYPE_PUBSUB then Some ''pubsub'' else if cls = CLIENT_TYPE_MASTER then Some ''master'' else None)"

text \<open>The filters of \<open>CLIENT KILL\<close>, and the loop that parses them. The result is the state with an error
  reply, or the filters.\<close>

record kill_filter =
  kaddr :: "string option"
  ktype :: int
  kid :: nat
  kskipme :: bool

fun kill_options :: "'k srv_env \<Rightarrow> nat \<Rightarrow> string list \<Rightarrow> kill_filter \<Rightarrow> server \<Rightarrow> server + (kill_filter \<times> server)" where
  "kill_options E c [] kf s = Inr (kf, s)"
| "kill_options E c [x] kf s = Inl (addReply (al E) c shared_syntaxerr s)"
| "kill_options E c (x # v # rest) kf s =
     (if strcaseeq x ''id'' then
        (case getLongLongFromObjectOrReply E c v s of
           (None, s1) \<Rightarrow> Inl s1
         | (Some tmp, s1) \<Rightarrow> kill_options E c rest (kf\<lparr>kid := unat (word_of_int tmp :: 64 word)\<rparr>) s1)
      else if strcaseeq x ''type'' then
        (if getClientTypeByName v = -1
         then Inl (addReplyErrorFormat (al E) c (''Unknown client type '' @ [CHR 0x27] @ cstr v @ [CHR 0x27]) s)
         else kill_options E c rest (kf\<lparr>ktype := getClientTypeByName v\<rparr>) s)
      else if strcaseeq x ''addr'' then kill_options E c rest (kf\<lparr>kaddr := Some v\<rparr>) s
      else if strcaseeq x ''skipme'' then
        (if strcaseeq v ''yes'' then kill_options E c rest (kf\<lparr>kskipme := True\<rparr>) s
         else if strcaseeq v ''no'' then kill_options E c rest (kf\<lparr>kskipme := False\<rparr>) s
         else Inl (addReply (al E) c shared_syntaxerr s))
      else Inl (addReply (al E) c shared_syntaxerr s))"

definition kill_matches :: "'k srv_env \<Rightarrow> kill_filter \<Rightarrow> nat \<Rightarrow> nat \<Rightarrow> net \<Rightarrow> bool" where
  "kill_matches E kf c x n \<longleftrightarrow>
     (case kaddr kf of None \<Rightarrow> True | Some a \<Rightarrow> cstr (genClientPeerId E (clients (srv n) x)) = cstr a) \<and>
     (ktype kf \<noteq> -1 \<longrightarrow> getClientType (clients (srv n) x) = ktype kf) \<and>
     (kid kf \<noteq> 0 \<longrightarrow> client_ids n x = kid kf) \<and> \<not> (c = x \<and> kskipme kf)"

text \<open>The state of the loop: the number of matches, whether the caller itself matched, and the server.\<close>

definition kill_step :: "'k srv_env \<Rightarrow> kill_filter \<Rightarrow> nat \<Rightarrow> nat \<Rightarrow> int \<times> bool \<times> net \<Rightarrow> int \<times> bool \<times> net" where
  "kill_step E kf c x st =
     (case st of
        (killed, close_this, n) \<Rightarrow>
          if kill_matches E kf c x n
          then (killed + 1, close_this \<or> c = x, if c = x then n else freeClient (net_of E) x n)
          else st)"

definition client_kill :: "'k srv_env \<Rightarrow> nat \<Rightarrow> kill_filter \<Rightarrow> net \<Rightarrow> net" where
  "client_kill E c kf n =
     (case fold (kill_step E kf c) (client_list (srv n)) (0, False, n) of
        (killed, close_this, n1) \<Rightarrow>
          (let n2 = on_srv
                 (if length (argv (clients (srv n1) c)) = 3
                  then (if killed = 0 then addReplyError (al E) c ''No such client'' else addReply (al E) c shared_ok)
                  else addReplyLongLong (al E) c killed) n1
           in if close_this then on_srv (add_flag CLIENT_CLOSE_AFTER_REPLY c) n2 else n2))"

definition name_char :: "char \<Rightarrow> bool" where
  "name_char ch \<longleftrightarrow> schar (CHR ''!'') \<le> schar ch \<and> schar ch \<le> schar (CHR ''~'')"

definition client_setname :: "'k srv_env \<Rightarrow> nat \<Rightarrow> string \<Rightarrow> server \<Rightarrow> server" where
  "client_setname E c p s =
     (if length p = 0 then addReply (al E) c shared_ok (update_client c (\<lambda>cl. cl\<lparr>name := None\<rparr>) s)
      else if \<not> list_all name_char p
      then addReplyError (al E) c ''Client names cannot contain spaces, newlines or special characters.'' s
      else addReply (al E) c shared_ok (update_client c (\<lambda>cl. cl\<lparr>name := Some p\<rparr>) s))"

definition client_reply_mode :: "'k srv_env \<Rightarrow> nat \<Rightarrow> string \<Rightarrow> server \<Rightarrow> server" where
  "client_reply_mode E c v s =
     (if strcaseeq v ''on'' then
        addReply (al E) c shared_ok
          (update_client c (\<lambda>cl. cl\<lparr>flags := unset_bit CLIENT_REPLY_OFF (unset_bit CLIENT_REPLY_SKIP (flags cl))\<rparr>) s)
      else if strcaseeq v ''off'' then add_flag CLIENT_REPLY_OFF c s
      else if strcaseeq v ''skip'' then
        (if bit (flags (clients s c)) CLIENT_REPLY_OFF then s else add_flag CLIENT_REPLY_SKIP_NEXT c s)
      else addReply (al E) c shared_syntaxerr s)"

definition clientCommand :: "'k srv_env \<Rightarrow> nat \<Rightarrow> 'k sys \<Rightarrow> 'k sys" where
  "clientCommand E c st =
     (let args = argv (client_of st c); argc = length args; sub = args ! 1
      in if strcaseeq sub ''list'' \<and> argc = 2 then on_sv (addReplyBulkCBuffer (al E) c (getAllClientsInfoString E st)) st
         else if strcaseeq sub ''reply'' \<and> argc = 3 then on_sv (client_reply_mode E c (args ! 2)) st
         else if strcaseeq sub ''kill'' then
           (if argc = 3 then on_nt (client_kill E c \<lparr>kaddr = Some (args ! 2), ktype = -1, kid = 0, kskipme = False\<rparr>) st
            else if argc > 3 then
              (case kill_options E c (drop 2 args) \<lparr>kaddr = None, ktype = -1, kid = 0, kskipme = True\<rparr> (sv st) of
                 Inl s \<Rightarrow> on_sv (\<lambda>_. s) st
               | Inr (kf, s) \<Rightarrow> on_nt (client_kill E c kf) (on_sv (\<lambda>_. s) st))
            else on_sv (addReply (al E) c shared_syntaxerr) st)
         else if strcaseeq sub ''setname'' \<and> argc = 3 then on_sv (client_setname E c (args ! 2)) st
         else if strcaseeq sub ''getname'' \<and> argc = 2 then
           on_sv (case name (client_of st c) of
                    Some nm \<Rightarrow> addReplyBulk (al E) c (createStringObject (al E) nm)
                  | None \<Rightarrow> addReply (al E) c shared_nullbulk) st
         else if strcaseeq sub ''pause'' \<and> argc = 3 then
           (case getTimeoutFromObjectOrReply E c (args ! 2) st of
              (None, st1) \<Rightarrow> st1
            | (Some duration, st1) \<Rightarrow> on_sv (addReply (al E) c shared_ok) (pauseClients duration st1))
         else on_sv (addReplyError (al E) c
                ''Syntax error, try CLIENT (LIST | KILL ip:port | GETNAME | SETNAME connection-name)'') st)"

section \<open>Rewriting the argument vector\<close>

definition set_command :: "'k srv_env \<Rightarrow> nat \<Rightarrow> server \<Rightarrow> server" where
  "set_command E c s =
     (case lookupCommandOrOriginal (cmd_table E) (orig_table E) (hd (argv (clients s c))) of
        None \<Rightarrow> panic (update_client c (\<lambda>cl. cl\<lparr>cmd := None\<rparr>) s)
      | Some e \<Rightarrow> update_client c (\<lambda>cl. cl\<lparr>cmd := Some (cmd_name e)\<rparr>) s)"

definition rewriteClientCommandVector :: "'k srv_env \<Rightarrow> nat \<Rightarrow> string list \<Rightarrow> server \<Rightarrow> server" where
  "rewriteClientCommandVector E c args s = set_command E c (update_client c (\<lambda>cl. cl\<lparr>argv := args\<rparr>) s)"

definition replaceClientCommandVector :: "'k srv_env \<Rightarrow> nat \<Rightarrow> string list \<Rightarrow> server \<Rightarrow> server" where
  "replaceClientCommandVector E c args s = set_command E c (update_client c (\<lambda>cl. (freeClientArgv cl)\<lparr>argv := args\<rparr>) s)"

text \<open>An index past the end extends the vector by one element; leaving a hole is up to the caller and is
  not modelled.\<close>

definition rewriteClientCommandArgument :: "'k srv_env \<Rightarrow> nat \<Rightarrow> nat \<Rightarrow> string \<Rightarrow> server \<Rightarrow> server" where
  "rewriteClientCommandArgument E c i v s =
     (let args = argv (clients s c);
          s1 = update_client c (\<lambda>cl. cl\<lparr>argv := (if i < length args then args[i := v] else args @ [v])\<rparr>) s
      in if i = 0 then set_command E c s1 else s1)"

section \<open>Properties\<close>

lemma on_nt_simps [simp]: "nt (on_nt f st) = f (nt st)" "nt (on_sv g st) = on_srv g (nt st)"
  by (simp_all add: on_nt_def on_sv_def)

lemma createClient_some:
  assumes "createClient p ev f n = (Some c, m)"
  shows "c = p" and "allocated (srv m) = insert p (allocated (srv n))"
    and "client_list (srv m) = (if f \<noteq> -1 then client_list (srv n) @ [p] else client_list (srv n))"
  using assms by (auto simp: createClient_def on_srv_def split: if_splits)

subsection \<open>The number of connections\<close>

lemma keeps_add_flag:
  assumes "b \<notin> {CLIENT_PENDING_WRITE, CLIENT_UNBLOCKED, CLIENT_CLOSE_ASAP, CLIENT_SLAVE, CLIENT_MONITOR}"
  shows "keeps_net c (add_flag b c)"
  using keeps_set_flag [OF assms] by (simp add: add_flag_def [abs_def])

lemma accept_inv:
  assumes E: "env_ok (net_of E)" "\<And>n. \<not> has_master (net_of E) n" and n: "net_inv {} (nt st)" "p \<notin> allocated (sv st)"
    and fl: "fl \<in> {None, Some CLIENT_UNIX_SOCKET}" and st'_def: "st' = acceptCommonHandler E p ev f fl ip st"
  shows "net_inv {} (nt st')" and "length (client_list (sv st)) \<le> maxclients E \<Longrightarrow> length (client_list (sv st')) \<le> maxclients E"
    and "allocated (sv st) \<subseteq> allocated (sv st')" and "allocated (sv st') \<subseteq> insert p (allocated (sv st))"
proof -
  obtain co m where cr: "createClient p ev f (nt st) = (co, m)" by (cases "createClient p ev f (nt st)")
  have m: "net_inv {} m" using createClient_inv [OF n, of ev f] cr by simp
  have "net_inv {} (nt st') \<and> (length (client_list (sv st)) \<le> maxclients E \<longrightarrow> length (client_list (sv st')) \<le> maxclients E) \<and>
      allocated (sv st) \<subseteq> allocated (sv st') \<and> allocated (sv st') \<subseteq> insert p (allocated (sv st))"
  proof (cases co)
    case None
    then have "m = nt st" "nt st' = m" using cr by (auto simp: st'_def acceptCommonHandler_def createClient_def split: if_splits)
    then show ?thesis using m by auto
  next
    case (Some c)
    note c = createClient_some [OF cr [unfolded Some]]
    have pm: "p \<in> allocated (srv m)" "\<not> caches_master (net_of E) p m" using c(2) E(2) by (simp_all add: caches_master_def)
    note f = freeClient_inv [OF E(1) m pm]
    have len: "length (client_list (srv (freeClient (net_of E) p m))) \<le> length (client_list (sv st))"
      using f(5) c(3) n(1) n(2) by (auto simp: length_remove1 net_inv_def srv_inv_def listed_def connected_def)
    have g: "net_inv {} (on_srv (case fl of None \<Rightarrow> (\<lambda>s. s) | Some b \<Rightarrow> add_flag b p) m)"
      "allocated ((case fl of None \<Rightarrow> (\<lambda>s. s) | Some b \<Rightarrow> add_flag b p) (srv m)) = allocated (srv m)"
      "client_list ((case fl of None \<Rightarrow> (\<lambda>s. s) | Some b \<Rightarrow> add_flag b p) (srv m)) = client_list (srv m)"
      using fl keeps_netD [OF keeps_add_flag [of CLIENT_UNIX_SOCKET] m pm(1)] m by (auto simp: on_srv_def add_flag_def)
    have "nt st' = freeClient (net_of E) p m \<or>
        nt st' = on_srv (case fl of None \<Rightarrow> (\<lambda>s. s) | Some b \<Rightarrow> add_flag b p) m \<and> \<not> length (client_list (srv m)) > maxclients E"
      by (simp add: st'_def acceptCommonHandler_def cr Some c(1) Let_def)
    then consider "nt st' = freeClient (net_of E) p m"
      | "nt st' = on_srv (case fl of None \<Rightarrow> (\<lambda>s. s) | Some b \<Rightarrow> add_flag b p) m" "\<not> length (client_list (srv m)) > maxclients E"
      by blast
    then show ?thesis
    proof cases
      case 1
      then show ?thesis using f(1,2) len n(2) c(2) by auto
    next
      case 2
      then show ?thesis using g c(2) by (auto simp: on_srv_def)
    qed
  qed
  then show "net_inv {} (nt st')" and "length (client_list (sv st)) \<le> maxclients E \<Longrightarrow> length (client_list (sv st')) \<le> maxclients E"
    and "allocated (sv st) \<subseteq> allocated (sv st')" and "allocated (sv st') \<subseteq> insert p (allocated (sv st))" by blast+
qed


lemma accept_all_inv:
  assumes E: "env_ok (net_of E)" "\<And>n. \<not> has_master (net_of E) n"
  shows "net_inv {} (nt st) \<Longrightarrow> distinct (map fst conns) \<Longrightarrow> \<forall>x\<in>set conns. fst x \<notin> allocated (sv st) \<Longrightarrow>
     length (client_list (sv st)) \<le> maxclients E \<Longrightarrow>
     net_inv {} (nt (fold (\<lambda>(p, ev, f, ip) st. acceptCommonHandler E p ev f None (Some ip) st) conns st)) \<and>
     length (client_list (sv (fold (\<lambda>(p, ev, f, ip) st. acceptCommonHandler E p ev f None (Some ip) st) conns st))) \<le> maxclients E"
proof (induction conns arbitrary: st)
  case (Cons x conns)
  obtain p ev f ip where x: "x = (p, ev, f, ip)" by (cases x)
  let ?st = "acceptCommonHandler E p ev f None (Some ip) st"
  have fresh: "p \<notin> allocated (sv st)" using Cons.prems(3) x by simp
  note a = accept_inv [OF E Cons.prems(1) fresh _ refl, of None ev f "Some ip"]
  have "\<forall>y\<in>set conns. fst y \<notin> allocated (sv ?st)"
    using a(4) Cons.prems(2,3) x by (force simp: image_iff)
  with Cons.IH [of ?st] a(1,2) Cons.prems(2,4) x show ?case by simp
qed simp

subsection \<open>Killing clients\<close>

lemma kill_step_inv:
  assumes E: "env_ok (net_of E)" "\<And>n. \<not> has_master (net_of E) n" and n: "net_inv {} n" "x \<in> allocated (srv n)"
    and s: "kill_step E kf c x (k, b, n) = (k', b', n')"
  shows "net_inv {} n'" and "allocated (srv n') = allocated (srv n) - (if kill_matches E kf c x n \<and> x \<noteq> c then {x} else {})"
    and "k' = k + (if kill_matches E kf c x n then 1 else 0)"
proof -
  have "\<not> caches_master (net_of E) x n" using E(2) by (simp add: caches_master_def)
  note f = freeClient_inv [OF E(1) n this]
  from s show "net_inv {} n'" "allocated (srv n') = allocated (srv n) - (if kill_matches E kf c x n \<and> x \<noteq> c then {x} else {})"
    "k' = k + (if kill_matches E kf c x n then 1 else 0)"
    using n(1) f(1,2) by (auto simp: kill_step_def split: if_splits)
qed

lemma kill_fold_inv:
  assumes E: "env_ok (net_of E)" "\<And>n. \<not> has_master (net_of E) n"
  shows "net_inv {} n \<Longrightarrow> distinct xs \<Longrightarrow> set xs \<subseteq> allocated (srv n) \<Longrightarrow> fold (kill_step E kf c) xs (k, b, n) = (k', b', n') \<Longrightarrow>
     net_inv {} n' \<and> allocated (srv n) - set xs \<subseteq> allocated (srv n') \<and> allocated (srv n') \<subseteq> allocated (srv n) \<and>
     (c \<in> allocated (srv n) \<longrightarrow> c \<in> allocated (srv n'))"
proof (induction xs arbitrary: n k b)
  case (Cons x xs)
  obtain k1 b1 n1 where s: "kill_step E kf c x (k, b, n) = (k1, b1, n1)" by (metis prod_cases3)
  have "x \<in> allocated (srv n)" using Cons.prems(3) by simp
  note i = kill_step_inv [OF E Cons.prems(1) this s]
  have "set xs \<subseteq> allocated (srv n1)" using i(2) Cons.prems(2,3) by auto
  with Cons.IH [OF i(1) _ this, of k1 b1] Cons.prems s i(2) show ?case by (auto split: if_splits)
qed simp

lemma keeps_addReplyError [keeps]: "keeps_net c (addReplyError A c e)" "keeps_net c (addReplyErrorFormat A c e)"
  unfolding addReplyError_def [abs_def] addReplyErrorFormat_def [abs_def] addReplyErrorLength_def [abs_def]
  by (rule keeps_comp [OF keeps_comp [OF keeps_addReplyString keeps_addReplyString] keeps_addReplyString])+

lemma client_kill_inv:
  assumes E: "env_ok (net_of E)" "\<And>n. \<not> has_master (net_of E) n" and n: "net_inv {} n" "c \<in> allocated (srv n)"
  shows "net_inv {} (client_kill E c kf n)" and "c \<in> allocated (srv (client_kill E c kf n))"
    and "allocated (srv (client_kill E c kf n)) \<subseteq> allocated (srv n)"
    and "allocated (srv n) - connected (srv n) \<subseteq> allocated (srv (client_kill E c kf n))"
proof -
  obtain k b n1 where f: "fold (kill_step E kf c) (client_list (srv n)) (0, False, n) = (k, b, n1)" by (metis prod_cases3)
  have l: "distinct (client_list (srv n))" "set (client_list (srv n)) = connected (srv n)" "set (client_list (srv n)) \<subseteq> allocated (srv n)"
    using n(1) by (auto simp: net_inv_def srv_inv_def listed_def connected_def)
  note i = kill_fold_inv [OF E n(1) l(1,3) f]
  have "\<exists>g. keeps_net c g \<and> client_kill E c kf n = on_srv g n1"
  proof -
    let ?r = "if length (argv (clients (srv n1) c)) = 3
        then (if k = 0 then addReplyError (al E) c ''No such client'' else addReply (al E) c shared_ok) else addReplyLongLong (al E) c k"
    have r: "keeps_net c ?r" by (simp add: keeps)
    have "keeps_net c (\<lambda>s. add_flag CLIENT_CLOSE_AFTER_REPLY c (?r s))" by (rule keeps_comp [OF r keeps_add_flag]) simp
    then show ?thesis using r by (cases b) (auto simp: client_kill_def f Let_def on_srv_def)
  qed
  then obtain g where g: "keeps_net c g" "client_kill E c kf n = on_srv g n1" by blast
  have "c \<in> allocated (srv n1)" using i n(2) by simp
  note h = keeps_netD [OF g(1) conjunct1 [OF i] this]
  show "net_inv {} (client_kill E c kf n)" "c \<in> allocated (srv (client_kill E c kf n))"
    "allocated (srv (client_kill E c kf n)) \<subseteq> allocated (srv n)"
    "allocated (srv n) - connected (srv n) \<subseteq> allocated (srv (client_kill E c kf n))"
    using h g(2) i n(2) l(2) by (auto simp: on_srv_def)
qed


subsection \<open>The end of a pause\<close>

definition served :: "server \<Rightarrow> nat \<Rightarrow> bool" where
  "served s c \<longleftrightarrow> \<not> bit (flags (clients s c)) CLIENT_SLAVE \<and> \<not> bit (flags (clients s c)) CLIENT_BLOCKED"

lemma unpause_step_simps:
  "served (unpause_step c s) d = served s d"
  "unblocked_clients (unpause_step c s) = unblocked_clients s @ (if served s c then [c] else [])"
  "bit (flags (clients s d)) CLIENT_UNBLOCKED \<Longrightarrow> bit (flags (clients (unpause_step c s) d)) CLIENT_UNBLOCKED"
  by (auto simp: unpause_step_def served_def add_flag_def)

lemma unpause_fold:
  "unblocked_clients (fold unpause_step cs s) = unblocked_clients s @ filter (served s) cs \<and> served (fold unpause_step cs s) = served s \<and>
   (bit (flags (clients s d)) CLIENT_UNBLOCKED \<longrightarrow> bit (flags (clients (fold unpause_step cs s) d)) CLIENT_UNBLOCKED)"
proof (induction cs arbitrary: s)
  case (Cons c cs)
  have "served (unpause_step c s) = served s" by (rule ext) (rule unpause_step_simps)
  with Cons.IH [of "unpause_step c s"] unpause_step_simps(2) [of c s] unpause_step_simps(3) [where c = c and s = s and d = d] show ?case by auto
qed simp

lemma unsubscribe_all_frame_ref: "ref_frame s (snd (smempubsubUnsubscribeAllChannels A c False order s))"
proof -
  have "ref_frame s (snd (fold (unsubscribe_step A c False) order (k, s)))" for k
  proof (induction order arbitrary: s k)
    case (Cons ch order)
    obtain r s1 where u: "unsubscribe_core c ch s = (r, s1)" by (cases "unsubscribe_core c ch s")
    have step: "unsubscribe_step A c False ch (k, s) = (k + r, s1)" using u by (simp add: unsubscribe_step_def smempubsubUnsubscribeChannel_def)
    have "ref_frame s s1" using unsubscribe_core_ref [of s c ch] u by simp
    then show ?case using Cons.IH [of s1 "k + r"] by (simp add: step ref_frame_trans)
  qed simp
  from this [of 0] show ?thesis by (simp add: smempubsubUnsubscribeAllChannels_def case_prod_beta)
qed

text \<open>An environment in which no client watches keys or uses the plain channels.\<close>

definition unwatched :: "net_env \<Rightarrow> bool" where
  "unwatched E \<longleftrightarrow> (\<forall>c n. unwatchAllKeys E c n = n \<and> pubsubUnsubscribeAll E c n = n)"

lemma freeClient_unblocked:
  assumes E: "unwatched E" "leaves_lists (replicationHandleMasterDisconnection E)" "\<And>n. \<not> has_master E n"
    and c: "served (srv n) c" "bit (flags (clients (srv n) c)) CLIENT_UNBLOCKED" "c \<in> set (unblocked_clients (srv n))"
  shows "unblocked_clients (srv (freeClient E c n)) = remove1 c (unblocked_clients (srv n))"
proof -
  define s1 where "s1 = update_client c (\<lambda>cl. cl\<lparr>querybuf := []\<rparr>) (srv n)"
  define s2 where "s2 = snd (smempubsubUnsubscribeAllChannels (net_alloc E) c False (channel_order E c s1) s1)"
  define s3 where "s3 = update_client c (\<lambda>cl. freeClientArgv (cl\<lparr>reply := []\<rparr>)) s2"
  have f: "ref_frame s1 s2" unfolding s2_def by (rule unsubscribe_all_frame_ref)
  have r: "release_client E c n = n\<lparr>srv := unlinkClient c s3\<rparr>"
    using E(1) c(1) by (simp add: release_client_def Let_def on_srv_def unwatched_def served_def s1_def s2_def s3_def)
  have 3: "unblocked_clients s3 = unblocked_clients (srv n)" "flags (clients s3 c) = flags (clients (srv n) c)"
    using f by (simp_all add: s3_def s1_def ref_frame_def freeClientArgv_def)
  have u: "unblocked_clients (unlink_pending c (unlink_socket c s)) = unblocked_clients s"
      "bit (flags (clients (unlink_pending c (unlink_socket c s)) c)) CLIENT_UNBLOCKED = bit (flags (clients s c)) CLIENT_UNBLOCKED"
      "bit (flags (clients (unlink_pending c (unlink_socket c s)) c)) CLIENT_SLAVE = bit (flags (clients s c)) CLIENT_SLAVE" for s
    by (auto simp: unlink_pending_def unlink_socket_def panic_def)
  have 4: "unblocked_clients (unlinkClient c s3) = remove1 c (unblocked_clients (srv n))"
      "\<not> bit (flags (clients (unlinkClient c s3) c)) CLIENT_SLAVE"
    using 3 c by (auto simp: unlinkClient_def unlink_unblocked_def u served_def)
  have "drop_slave E c (release_client E c n) = release_client E c n" using 4(2) by (simp add: drop_slave_def r)
  moreover have "srv (replicationHandleMasterDisconnection E m) = srv m" for m using E(2) by (simp add: leaves_lists_def)
  ultimately show ?thesis using E(3) 4(1)
    by (simp add: freeClient_def caches_master_def Let_def on_srv_def r zfree_def drop_scheduled_def panic_def)
qed

lemma srv_on_srv [simp]: "srv (on_srv f n) = f (srv n)" "monitors (on_srv f n) = monitors n" "slaves (on_srv f n) = slaves n"
  by (simp_all add: on_srv_def)

section \<open>Properties\<close>

text \<open>A server with the default configuration, whose external functions do nothing, and with one connected client.\<close>

definition demo_srv_env :: "int list srv_env" where
  "demo_srv_env =
     \<lparr>net_of = demo_net_env, pool_of = demo_env, cmd_table = commands, orig_table = commands, maxclients = 10, protected_mode = False,
      bindaddr_count = 0, requirepass = None, unixsocket = ''/tmp/redis.sock'', anetFormatPeer = (\<lambda>_. ''127.0.0.1:50000''),
      list_info = (\<lambda>_. \<lparr>ctime = 0, db_id = 0, sub_count = 0, psub_count = 0, multi_count = 0, qbuf_free = 0, ev_readable = True, ev_writable = False\<rparr>), writable_event = (\<lambda>_ _. False), slave_socket = (\<lambda>_. ([], True)),
      getLongLongFromObjectOrReply = (\<lambda>_ x s. (parse_dec x, s)),
      getTimeoutFromObjectOrReply = (\<lambda>_ x st. (parse_dec x, st)), aof_on = False, loading = False, lua_timedout = False, lua_caller = None,
      maxmemory = 0, freeMemoryIfNeeded = (\<lambda>st. (True, st)), bgsave_failing = False, aof_write_failing = False, aof_errno = [], masterhost = False,
      repl_slave_ro = True, repl_connected = False, repl_serve_stale_data = True, repl_min_slaves_to_write = 0, repl_min_slaves_max_lag = 10,
      repl_good_slaves_count = 0, getNodeByQuery_myself = (\<lambda>_ _. True), clusterRedirectClient = (\<lambda>_ st. st), flagTransaction = (\<lambda>_ st. st),
      discardTransaction = (\<lambda>_ st. st), queueMultiCommand = (\<lambda>_ st. st), handleClientsBlockedOnLists = (\<lambda>st. st), ready_keys = (\<lambda>_. False),
      replicationFeedMonitors = (\<lambda>_ st. st), replicationFeedSlaves = (\<lambda>_ st. st), feedAppendOnlyFile = (\<lambda>_ _ st. st), gettimeofday = (0, 0),
      ustime = (\<lambda>_. 0), channels_order = (\<lambda>_. []), commands_order = redisCommandTable, getKeysFromCommand = (\<lambda>_ _. []),
      other_proc = (\<lambda>_ _ st. st)\<rparr>"

definition demo_sys :: "net \<Rightarrow> int list sys" where
  "demo_sys n =
     \<lparr>nt = n, shm = [], clients_paused = False, clients_pause_end_time = 0, mstime = 1000, lastcmd = (\<lambda>_. None), dirty = 0, cmd_calls = (\<lambda>_. 0),
      cmd_microseconds = (\<lambda>_. 0), also_propagate = [], stat_numcommands = 0, stat_numconnections = 0, stat_rejected_conn = 0\<rparr>"

lemma demo_srv_env_ok: "env_ok (net_of demo_srv_env)" "\<not> has_master (net_of demo_srv_env) n"
  using demo_net_env_ok by (simp_all add: demo_srv_env_def)

lemma demo_net1_client: "clients (srv demo_net1) 1 = new_client 5 0" "client_list (srv demo_net1) = [1]" "monitors demo_net1 = []"
  "unblocked_clients (srv demo_net1) = []"
  by (simp_all add: demo_net1_def demo_net_def initServer_lists_def on_srv_def createClient_def blank_server_def)

lemma getClientsMaxBuffers_Max:
  "getClientsMaxBuffers s =
     (Max (insert 0 (length ` reply ` clients s ` set (client_list s))), Max (insert 0 (length ` querybuf ` clients s ` set (client_list s))))"
proof -
  have "fold (\<lambda>c (a, b). (max a (length (reply (clients s c))), max b (length (querybuf (clients s c))))) cs (a, b) =
      (Max (insert a (length ` reply ` clients s ` set cs)), Max (insert b (length ` querybuf ` clients s ` set cs)))" for cs a b
  proof (induction cs arbitrary: a b)
    case (Cons c cs)
    have i: "Max (insert (max x y) S) = Max (insert x (insert y S))" if "finite S" for x y :: nat and S
      using that by (cases "S = {}") (simp_all add: max.assoc)
    show ?case by (simp add: Cons.IH i)
  qed simp
  then show ?thesis by (simp add: getClientsMaxBuffers_def)
qed

subsection \<open>The format of the list of clients\<close>

definition field_word :: "string \<Rightarrow> bool" where
  "field_word x \<longleftrightarrow> CHR '' '' \<notin> set x \<and> CHR 0x0A \<notin> set x"

lemma word_append: "field_word (x @ y) \<longleftrightarrow> field_word x \<and> field_word y"
  by (auto simp: field_word_def)

lemma word_Cons: "field_word (x # y) \<longleftrightarrow> x \<noteq> CHR '' '' \<and> x \<noteq> CHR 0x0A \<and> field_word y"
  by (auto simp: field_word_def)

lemma word_dec: "field_word (dec_nat n)" "field_word (dec_int i)"
proof -
  have n: "field_word (dec_nat n)" for n
  proof -
    have "\<forall>x\<in>set (dec_nat n). is_dec x" using dec_nat_digits [of n] by (simp add: list_all_iff)
    moreover have "\<not> is_dec (CHR '' '')" "\<not> is_dec (CHR 0x0A)" by (simp_all add: is_dec_def)
    ultimately show ?thesis unfolding field_word_def by blast
  qed
  then show "field_word (dec_nat n)" .
  show "field_word (dec_int i)" using n by (simp add: dec_int_def) (simp add: field_word_def)
qed

lemma word_letters: "field_word (flag_letters w)" "field_word (event_letters i cl)"
proof -
  have "field_word x" if "x \<in> {''O'', ''S'', ''M'', ''x'', ''b'', ''d'', ''c'', ''u'', ''A'', ''U'', ''r'', ''N'', ''w'', []}" for x
    using that by (auto simp: field_word_def)
  then show "field_word (flag_letters w)" "field_word (event_letters i cl)"
    by (simp_all add: flag_letters_def event_letters_def Let_def word_append)
qed

lemma word_cstr: "field_word x \<Longrightarrow> field_word (cstr x)"
  by (auto simp: field_word_def cstr_def dest: set_takeWhileD)

text \<open>The strings that are not made by the server itself: the names that \<open>CLIENT SETNAME\<close> accepts, peer ids and command names.\<close>

definition plain_client :: "'k srv_env \<Rightarrow> 'k sys \<Rightarrow> nat \<Rightarrow> bool" where
  "plain_client E st c \<longleftrightarrow> pred_option (list_all name_char) (name (client_of st c)) \<and> field_word (genClientPeerId E (client_of st c)) \<and>
     pred_option field_word (lastcmd st c)"

lemma name_chars_word: "list_all name_char n \<Longrightarrow> field_word n"
proof -
  have "\<not> name_char (CHR '' '')" "\<not> name_char (CHR 0x0A)" by code_simp+
  then show "list_all name_char n \<Longrightarrow> field_word n" unfolding field_word_def list_all_iff by blast
qed

lemma info_fields_words: "plain_client E st c \<Longrightarrow> list_all field_word (info_fields E c st) \<and> length (info_fields E c st) = 18"
proof -
  assume a: "plain_client E st c"
  have n: "field_word (case name (client_of st c) of None \<Rightarrow> [] | Some n \<Rightarrow> cstr n)"
    using a by (cases "name (client_of st c)") (auto simp: plain_client_def field_word_def [of "[]"] intro: word_cstr name_chars_word)
  have k: "field_word (case lastcmd st c of None \<Rightarrow> ''NULL'' | Some nm \<Rightarrow> nm)"
    using a by (cases "lastcmd st c") (auto simp: plain_client_def field_word_def [of "''NULL''"])
  have p: "field_word (cstr (genClientPeerId E (client_of st c)))" using a by (simp add: plain_client_def word_cstr)
  show ?thesis using n k p by (simp add: info_fields_def Let_def word_append word_Cons word_dec word_letters)
qed

fun split_at :: "char \<Rightarrow> string \<Rightarrow> string list" where
  "split_at d [] = [[]]"
| "split_at d (x # xs) = (if x = d then [] # split_at d xs else (case split_at d xs of [] \<Rightarrow> [[x]] | y # ys \<Rightarrow> (x # y) # ys))"

lemma split_at_word: "d \<notin> set x \<Longrightarrow> split_at d (x @ d # y) = x # split_at d y" "d \<notin> set x \<Longrightarrow> split_at d x = [x]"
  by (induction x) auto

lemma split_spaced: "list_all field_word fs \<Longrightarrow> fs \<noteq> [] \<Longrightarrow> split_at (CHR '' '') (spaced fs) = fs"
  by (induction fs rule: spaced.induct) (auto simp: field_word_def split_at_word)

lemma spaced_line: "list_all field_word fs \<Longrightarrow> CHR 0x0A \<notin> set (spaced fs)"
  by (induction fs rule: spaced.induct) (auto simp: field_word_def)

lemma split_lines:
  "list_all (plain_client E st) cs \<Longrightarrow>
     split_at (CHR 0x0A) (concat (map (\<lambda>c. spaced (info_fields E c st) @ [CHR 0x0A]) cs)) = map (\<lambda>c. spaced (info_fields E c st)) cs @ [[]]"
proof (induction cs)
  case (Cons c cs)
  then have "CHR 0x0A \<notin> set (spaced (info_fields E c st))" using info_fields_words [of E st c] spaced_line by simp
  with Cons show ?case by (simp add: split_at_word)
qed simp

lemma all_info_concat: "getAllClientsInfoString E st = concat (map (\<lambda>c. spaced (info_fields E c st) @ [CHR 0x0A]) (client_list (sv st)))"
proof -
  have "fold (\<lambda>c o1. catClientInfoString E c st o1 @ [CHR 0x0A]) cs o1 = o1 @ concat (map (\<lambda>c. spaced (info_fields E c st) @ [CHR 0x0A]) cs)" for cs o1
    by (induction cs arbitrary: o1) (simp_all add: catClientInfoString_def)
  then show ?thesis by (simp add: getAllClientsInfoString_def)
qed

text \<open>The answer to \<open>CLIENT LIST\<close> can be taken apart again: split at line feeds it has one line per connected client, in
  order, and each line split at spaces has its 18 fields, because the names that \<open>CLIENT SETNAME\<close> accepts contain neither.\<close>

theorem client_list_splits:
  assumes "list_all (plain_client E st) (client_list (sv st))"
  shows "map (split_at (CHR '' '')) (butlast (split_at (CHR 0x0A) (getAllClientsInfoString E st))) = map (\<lambda>c. info_fields E c st) (client_list (sv st)) \<and>
    list_all (\<lambda>c. length (info_fields E c st) = 18) (client_list (sv st))"
proof -
  have f: "split_at (CHR '' '') (spaced (info_fields E c st)) = info_fields E c st \<and> length (info_fields E c st) = 18" if "c \<in> set (client_list (sv st))" for c
  proof -
    have w: "list_all field_word (info_fields E c st)" "length (info_fields E c st) = 18" using info_fields_words [of E st c] assms that by (simp_all add: list_all_iff)
    then have "info_fields E c st \<noteq> []" by auto
    with w split_spaced [OF w(1)] show ?thesis by simp
  qed
  show ?thesis unfolding all_info_concat split_lines [OF assms] using f by (simp add: list_all_iff comp_def)
qed

theorem client_list_splits_witness:
  "map (split_at (CHR '' '')) (butlast (split_at (CHR 0x0A) (getAllClientsInfoString demo_srv_env (demo_sys demo_net1)))) =
     [info_fields demo_srv_env 1 (demo_sys demo_net1)]"
proof -
  have "plain_client demo_srv_env (demo_sys demo_net1) 1"
    by (simp add: plain_client_def demo_sys_def demo_net1_client new_client_def genClientPeerId_def demo_srv_env_def field_word_def del: One_nat_def)
  then show ?thesis using client_list_splits [of demo_srv_env "demo_sys demo_net1"] by (simp add: demo_sys_def demo_net1_client)
qed

text \<open>C22: accepting connections keeps the bookkeeping of the clients consistent and never lets more clients in than
  \<open>maxclients\<close>: a connection over the limit is closed at once.\<close>

theorem accepting_respects_maxclients:
  assumes E: "env_ok (net_of E)" "\<And>n. \<not> has_master (net_of E) n" and n: "net_inv {} (nt st)"
    and new: "distinct (map fst conns)" "\<forall>x\<in>set conns. fst x \<notin> allocated (sv st)" and l: "length (client_list (sv st)) \<le> maxclients E"
  shows "net_inv {} (nt (acceptTcpHandler E conns st)) \<and> length (client_list (sv (acceptTcpHandler E conns st))) \<le> maxclients E"
proof -
  have "distinct (map fst (take MAX_ACCEPTS_PER_CALL conns))" using new(1) by (simp add: take_map [symmetric])
  moreover have "\<forall>x\<in>set (take MAX_ACCEPTS_PER_CALL conns). fst x \<notin> allocated (sv st)" using new(2) by (meson in_set_takeD)
  ultimately show ?thesis using accept_all_inv [OF E n _ _ l] by (simp add: acceptTcpHandler_def)
qed

theorem accepting_respects_maxclients_witness:
  "length (client_list (sv (acceptTcpHandler demo_srv_env [(2, True, 6, ''10.0.0.1''), (3, True, 7, ''10.0.0.2'')] (demo_sys demo_net1)))) \<le> 10"
proof -
  have m: "maxclients demo_srv_env = 10" by (simp add: demo_srv_env_def)
  have "length (client_list (sv (acceptTcpHandler demo_srv_env [(2, True, 6, ''10.0.0.1''), (3, True, 7, ''10.0.0.2'')] (demo_sys demo_net1)))) \<le> maxclients demo_srv_env"
    by (rule accepting_respects_maxclients [THEN conjunct2, OF demo_srv_env_ok])
      (simp_all add: demo_sys_def demo_net_inv demo_net_facts demo_net1_client m)
  then show ?thesis by (simp add: m)
qed

text \<open>C21: \<open>CLIENT KILL\<close> frees clients safely: whatever the filters select, the lists of the server stay consistent, the
  client that issued the command is not freed under it, only connected clients are freed, and no client appears.\<close>

theorem client_kill_is_safe:
  assumes E: "env_ok (net_of E)" "\<And>n. \<not> has_master (net_of E) n" and n: "net_inv {} n" "c \<in> allocated (srv n)"
  shows "net_inv {} (client_kill E c kf n) \<and> c \<in> allocated (srv (client_kill E c kf n)) \<and>
    allocated (srv (client_kill E c kf n)) \<subseteq> allocated (srv n) \<and>
    allocated (srv n) - connected (srv n) \<subseteq> allocated (srv (client_kill E c kf n))"
  using client_kill_inv [OF E n] by simp

theorem client_kill_is_safe_witness:
  "net_inv {} (client_kill demo_srv_env 1 \<lparr>kaddr = None, ktype = -1, kid = 0, kskipme = False\<rparr> demo_net1) \<and>
   1 \<in> allocated (srv (client_kill demo_srv_env 1 \<lparr>kaddr = None, ktype = -1, kid = 0, kskipme = False\<rparr> demo_net1))"
  using client_kill_is_safe [OF demo_srv_env_ok demo_net_inv(2), of 1] demo_net_facts(3) by simp

text \<open>The end of a pause queues every client for reprocessing, also one that is queued already because it
  was just unblocked. Freeing such a client removes one of its two entries: the other one is a reference to
  freed memory.\<close>

theorem unpause_leaves_dangling_reference:
  assumes E: "unwatched E" "leaves_lists (replicationHandleMasterDisconnection E)" "\<And>n. \<not> has_master E n"
    and n: "net_inv {} (nt st)" "c \<in> connected (sv st)" "c \<in> flagged CLIENT_UNBLOCKED (sv st)" "served (sv st) c"
    and p: "clients_paused st" "clients_pause_end_time st < mstime st"
  shows "let n' = freeClient E c (nt (snd (clientsArePaused_sys st)))
    in c \<notin> allocated (srv n') \<and> c \<in> set (unblocked_clients (srv n'))"
proof -
  let ?s = "fold unpause_step (client_list (sv st)) (sv st)"
  have u: "nt (snd (clientsArePaused_sys st)) = on_srv (\<lambda>s. fold unpause_step (client_list s) s) (nt st)"
    using p by (simp add: clientsArePaused_sys_def Let_def)
  have in1: "c \<in> set (unblocked_clients (sv st))" "c \<in> set (filter (served (sv st)) (client_list (sv st)))"
    using n by (auto simp: net_inv_def srv_inv_def listed_def)
  note f = unpause_fold [of "client_list (sv st)" "sv st" c]
  have c: "served ?s c" "bit (flags (clients ?s c)) CLIENT_UNBLOCKED" "c \<in> set (unblocked_clients ?s)"
    using f n(3,4) in1(1) by (auto simp: flagged_def)
  have "unblocked_clients (srv (freeClient E c (on_srv (\<lambda>s. fold unpause_step (client_list s) s) (nt st)))) = remove1 c (unblocked_clients ?s)"
    using freeClient_unblocked [OF E, of "on_srv (\<lambda>s. fold unpause_step (client_list s) s) (nt st)" c] c by (simp add: on_srv_def)
  moreover have "c \<in> set (remove1 c (unblocked_clients ?s))" using f in1 by (simp add: remove1_append)
  moreover have "c \<notin> allocated (srv (freeClient E c m))" for m
    using E(3) by (simp add: freeClient_def caches_master_def Let_def on_srv_def zfree_def)
  ultimately show ?thesis by (simp add: u Let_def)
qed

text \<open>The client of the example, just unblocked.\<close>

definition demo_unblocked :: net where
  "demo_unblocked = on_srv (\<lambda>s. (add_flag CLIENT_UNBLOCKED 1 s)\<lparr>unblocked_clients := [1]\<rparr>) demo_net1"

lemma demo_unblocked_inv: "net_inv {} demo_unblocked" "1 \<in> connected (srv demo_unblocked)" "1 \<in> flagged CLIENT_UNBLOCKED (srv demo_unblocked)"
  "served (srv demo_unblocked) 1"
proof -
  have c1: "flags (clients (srv demo_net1) 1) = 0" "fd (clients (srv demo_net1) 1) = 5" using demo_net1_client(1) by (simp_all add: new_client_def)
  have f: "bit (flags (clients (srv demo_unblocked) 1)) b \<longleftrightarrow> b = CLIENT_UNBLOCKED" for b
  proof -
    have "bit (flags (clients (srv demo_unblocked) 1)) b \<longleftrightarrow> bit (flags (clients (srv demo_net1) 1)) b \<or> b = CLIENT_UNBLOCKED"
      by (auto simp: demo_unblocked_def on_srv_def add_flag_def)
    then show ?thesis unfolding c1(1) by simp
  qed
  have a: "allocated (srv demo_unblocked) = {1}" "allocated (srv demo_net1) = {1}" using demo_net_facts(3) by (simp_all add: demo_unblocked_def on_srv_def add_flag_def)
  have fl: "flagged b (srv demo_unblocked) = (if b = CLIENT_UNBLOCKED then {1} else {})" "flagged b (srv demo_net1) = {}" for b
    using f [of b] c1(1) unfolding flagged_def a by auto
  have co: "connected (srv demo_unblocked) = {1}" "connected (srv demo_net1) = {1}"
    using c1(2) unfolding connected_def a by (auto simp: demo_unblocked_def on_srv_def add_flag_def)
  have ch: "client_channels (clients (srv demo_unblocked) d) = client_channels (clients (srv demo_net1) d)"
    "smempubsub_channels (srv demo_unblocked) = smempubsub_channels (srv demo_net1)" for d
    by (simp_all add: demo_unblocked_def on_srv_def add_flag_def)
  have "chan_inv (srv demo_unblocked) = chan_inv (srv demo_net1)" by (simp add: chan_inv_def subs_ok_def ch a)
  then show "net_inv {} demo_unblocked"
    using demo_net_inv(2) unfolding net_inv_def srv_inv_def fl co
    by (simp add: listed_def) (auto simp: demo_unblocked_def on_srv_def add_flag_def)
  show "1 \<in> connected (srv demo_unblocked)" "1 \<in> flagged CLIENT_UNBLOCKED (srv demo_unblocked)" using co fl by simp_all
  show "served (srv demo_unblocked) 1" using f by (simp add: served_def)
qed

theorem unpause_leaves_dangling_reference_witness:
  "let n' = freeClient demo_net_env 1 (nt (snd (clientsArePaused_sys ((demo_sys demo_unblocked)\<lparr>clients_paused := True, clients_pause_end_time := 5\<rparr>))))
   in 1 \<notin> allocated (srv n') \<and> 1 \<in> set (unblocked_clients (srv n'))"
  by (rule unpause_leaves_dangling_reference)
    (simp_all add: unwatched_def leaves_lists_def demo_net_env_def demo_sys_def demo_unblocked_inv del: One_nat_def)

end
