(* ===== verification/Redis_Server.thy ===== *)
theory Redis_Server
  imports Redis_Admin
begin

text \<open>
  The command processor of \<open>redis/src/server.c\<close>: the commands implemented there, \<open>call\<close>, which runs a command
  and propagates it, and \<open>processCommand\<close>, which decides whether a parsed request may run. The share
  memory commands of \<open>smem4redis.c\<close> are reached through it. Commands of files that are not in the tree
  are one parameter, \<open>other_proc\<close>, indexed by the name of the C function.
\<close>

section \<open>Shared replies\<close>

definition shared_pong :: robj where
  "shared_pong = Raw (Some (''+PONG'' @ crlf))"

definition shared_queued :: robj where
  "shared_queued = Raw (Some (''+QUEUED'' @ crlf))"

definition shared_loadingerr :: robj where
  "shared_loadingerr = Raw (Some (''-LOADING Redis is loading the dataset in memory'' @ crlf))"

definition shared_slowscripterr :: robj where
  "shared_slowscripterr = Raw (Some (''-BUSY Redis is busy running a script. You can only call SCRIPT KILL or SHUTDOWN NOSAVE.'' @ crlf))"

definition shared_masterdownerr :: robj where
  "shared_masterdownerr =
     Raw (Some (''-MASTERDOWN Link with MASTER is down and slave-serve-stale-data is set to '' @ [CHR 0x27] @ ''no'' @ [CHR 0x27] @ ''.'' @ crlf))"

definition shared_bgsaveerr :: robj where
  "shared_bgsaveerr =
     Raw (Some (''-MISCONF Redis is configured to save RDB snapshots, but is currently not able to persist on disk. Commands that may modify the data set are disabled. Please check Redis logs for details about the error.'' @ crlf))"

definition shared_roslaveerr :: robj where
  "shared_roslaveerr = Raw (Some (''-READONLY You can'' @ [CHR 0x27] @ ''t write against a read only slave.'' @ crlf))"

definition shared_noautherr :: robj where
  "shared_noautherr = Raw (Some (''-NOAUTH Authentication required.'' @ crlf))"

definition shared_oomerr :: robj where
  "shared_oomerr = Raw (Some (''-OOM command not allowed when used memory > '' @ [CHR 0x27] @ ''maxmemory'' @ [CHR 0x27] @ ''.'' @ crlf))"

definition shared_noreplicaserr :: robj where
  "shared_noreplicaserr = Raw (Some (''-NOREPLICAS Not enough good slaves to write.'' @ crlf))"

section \<open>Commands of server.c\<close>

definition addReplyMultiBulkLen :: "alloc \<Rightarrow> nat \<Rightarrow> nat \<Rightarrow> server \<Rightarrow> server" where
  "addReplyMultiBulkLen A c len s =
     (if int len < OBJ_SHARED_BULKHDR_LEN then addReply A c (shared_mbulkhdr len) s
      else addReplyLongLongWithPrefix A c (int len) (CHR ''*'') s)"

definition wrong_arity :: "string \<Rightarrow> string" where
  "wrong_arity n = ''wrong number of arguments for '' @ [CHR 0x27] @ n @ [CHR 0x27] @ '' command''"

definition authCommand :: "'k srv_env \<Rightarrow> nat \<Rightarrow> server \<Rightarrow> server" where
  "authCommand E c s =
     (case requirepass E of
        None \<Rightarrow> addReplyError (al E) c ''Client sent AUTH, but no password is set'' s
      | Some pw \<Rightarrow>
          if time_independent_strcmp (argv (clients s c) ! 1) pw = 0
          then addReply (al E) c shared_ok (update_client c (\<lambda>cl. cl\<lparr>authenticated := True\<rparr>) s)
          else addReplyError (al E) c ''invalid password'' (update_client c (\<lambda>cl. cl\<lparr>authenticated := False\<rparr>) s))"

definition pingCommand :: "'k srv_env \<Rightarrow> nat \<Rightarrow> server \<Rightarrow> server" where
  "pingCommand E c s =
     (let args = argv (clients s c); argc = length args; arg = createStringObject (al E) (args ! 1)
      in if argc > 2 then addReplyErrorFormat (al E) c (wrong_arity (the (cmd (clients s c)))) s
         else if bit (flags (clients s c)) CLIENT_PUBSUB then
           (let s1 = addReplyBulkCBuffer (al E) c ''pong'' (addReply (al E) c (shared_mbulkhdr 2) s)
            in if argc = 1 then addReplyBulkCBuffer (al E) c [] s1 else addReplyBulk (al E) c arg s1)
         else if argc = 1 then addReply (al E) c shared_pong s else addReplyBulk (al E) c arg s)"

definition echoCommand :: "'k srv_env \<Rightarrow> nat \<Rightarrow> server \<Rightarrow> server" where
  "echoCommand E c s = addReplyBulk (al E) c (createStringObject (al E) (argv (clients s c) ! 1)) s"

definition timeCommand :: "'k srv_env \<Rightarrow> nat \<Rightarrow> server \<Rightarrow> server" where
  "timeCommand E c s =
     addReplyBulkLongLong (al E) c (snd (gettimeofday E))
       (addReplyBulkLongLong (al E) c (fst (gettimeofday E)) (addReplyMultiBulkLen (al E) c 2 s))"

definition monitorCommand :: "'k srv_env \<Rightarrow> nat \<Rightarrow> net \<Rightarrow> net" where
  "monitorCommand E c n =
     (if bit (flags (clients (srv n) c)) CLIENT_SLAVE then n
      else on_srv (addReply (al E) c shared_ok)
             ((on_srv (\<lambda>s. add_flag CLIENT_MONITOR c (add_flag CLIENT_SLAVE c s)) n)\<lparr>monitors := monitors n @ [c]\<rparr>))"

definition addReplyCommandFlag :: "'k srv_env \<Rightarrow> nat \<Rightarrow> redisCommand \<Rightarrow> nat \<times> string \<Rightarrow> int \<times> server \<Rightarrow> int \<times> server" where
  "addReplyCommandFlag E c e f st =
     (if bit (cmd_flags e) (fst f) then (fst st + 1, addReplyStatusLength (al E) c (snd f) (snd st)) else st)"

definition command_flag_names :: "(nat \<times> string) list" where
  "command_flag_names =
     [(CMD_WRITE, ''write''), (CMD_READONLY, ''readonly''), (CMD_DENYOOM, ''denyoom''), (CMD_ADMIN, ''admin''),
      (CMD_PUBSUB, ''pubsub''), (CMD_NOSCRIPT, ''noscript''), (CMD_RANDOM, ''random''),
      (CMD_SORT_FOR_SCRIPT, ''sort_for_script''), (CMD_LOADING, ''loading''), (CMD_STALE, ''stale''),
      (CMD_SKIP_MONITOR, ''skip_monitor''), (CMD_ASKING, ''asking''), (CMD_FAST, ''fast'')]"

definition addReplyCommand :: "'k srv_env \<Rightarrow> nat \<Rightarrow> redisCommand option \<Rightarrow> server \<Rightarrow> server" where
  "addReplyCommand E c eo s =
     (case eo of
        None \<Rightarrow> addReply (al E) c shared_nullbulk s
      | Some e \<Rightarrow>
          (let s1 = addReplyLongLong (al E) c (arity e)
                      (addReplyBulkCString (al E) c (Some (cmd_name e)) (addReplyMultiBulkLen (al E) c 6 s))
           in case addDeferredMultiBulkLength c s1 of
                (flaglen, s2) \<Rightarrow>
                  (case fold (addReplyCommandFlag E c e) command_flag_names (0, s2) of
                     (flagcount, s3) \<Rightarrow>
                       (let s4 = (if getkeys_proc e \<noteq> None then addReplyStatusLength (al E) c ''movablekeys'' s3 else s3);
                            flagcount' = (if getkeys_proc e \<noteq> None then flagcount + 1 else flagcount)
                        in addReplyLongLong (al E) c (keystep e)
                             (addReplyLongLong (al E) c (lastkey e)
                               (addReplyLongLong (al E) c (firstkey e)
                                 (setDeferredMultiBulkLength (al E) c flaglen flagcount' s4)))))))"

definition arity_bad :: "redisCommand \<Rightarrow> nat \<Rightarrow> bool" where
  "arity_bad e argc \<longleftrightarrow> arity e > 0 \<and> arity e \<noteq> int argc \<or> int argc < - arity e"

definition commandCommand :: "'k srv_env \<Rightarrow> nat \<Rightarrow> server \<Rightarrow> server" where
  "commandCommand E c s =
     (let args = argv (clients s c); argc = length args; sub = args ! 1
      in if argc = 1 then
           fold (\<lambda>e. addReplyCommand E c (Some e)) (commands_order E) (addReplyMultiBulkLen (al E) c (length (commands_order E)) s)
         else if strcaseeq sub ''info'' then
           fold (\<lambda>a. addReplyCommand E c (lookupCommand (cmd_table E) a)) (drop 2 args) (addReplyMultiBulkLen (al E) c (argc - 2) s)
         else if strcaseeq sub ''count'' \<and> argc = 2 then addReplyLongLong (al E) c (int (length (commands_order E))) s
         else if strcaseeq sub ''getkeys'' \<and> argc \<ge> 3 then
           (case lookupCommand (cmd_table E) (args ! 2) of
              None \<Rightarrow> addReplyErrorFormat (al E) c ''Invalid command specified'' s
            | Some e \<Rightarrow>
                if arity_bad e (argc - 2)
                then addReplyError (al E) c ''Invalid number of arguments specified for command'' s
                else
                  (let keys = getKeysFromCommand E e (drop 2 args)
                   in fold (\<lambda>k. addReplyBulk (al E) c (createStringObject (al E) (args ! (k + 2)))) keys
                        (addReplyMultiBulkLen (al E) c (length keys) s)))
         else addReplyError (al E) c ''Unknown subcommand or wrong number of arguments.'' s)"

section \<open>Running a command\<close>

definition on_pool :: "(server \<Rightarrow> 'k \<Rightarrow> server \<times> 'k) \<Rightarrow> 'k sys \<Rightarrow> 'k sys" where
  "on_pool f st = (case f (sv st) (shm st) of (s, k) \<Rightarrow> (on_sv (\<lambda>_. s) st)\<lparr>shm := k\<rparr>)"

definition run_proc :: "'k srv_env \<Rightarrow> string \<Rightarrow> nat \<Rightarrow> 'k sys \<Rightarrow> 'k sys" where
  "run_proc E p c st =
     (if p = ''smemgetCommand'' then on_pool (smemgetCommand (pool_of E) c) st
      else if p = ''smemfreeCommand'' then on_pool (smemfreeCommand (pool_of E) c) st
      else if p = ''smemrmCommand'' then on_pool (smemrmCommand (pool_of E) c) st
      else if p = ''smemsubscribeCommand'' then on_sv (smemsubscribeCommand (al E) c) st
      else if p = ''smempublishCommand'' then on_pool (smempublishCommand (pool_of E) c) st
      else if p = ''smemswitchCommand'' then on_sv (smemswitchCommand (al E) c (channels_order E (sv st))) st
      else if p = ''authCommand'' then on_sv (authCommand E c) st
      else if p = ''pingCommand'' then on_sv (pingCommand E c) st
      else if p = ''echoCommand'' then on_sv (echoCommand E c) st
      else if p = ''timeCommand'' then on_sv (timeCommand E c) st
      else if p = ''commandCommand'' then on_sv (commandCommand E c) st
      else if p = ''monitorCommand'' then on_nt (monitorCommand E c) st
      else if p = ''clientCommand'' then clientCommand E c st
      else other_proc E p c st)"

text \<open>The propagation target is a pair: to the append only file, to the slaves.\<close>

definition propagate :: "'k srv_env \<Rightarrow> string \<Rightarrow> string list \<Rightarrow> bool \<times> bool \<Rightarrow> 'k sys \<Rightarrow> 'k sys" where
  "propagate E nm args target st =
     (let st1 = (if aof_on E \<and> fst target then feedAppendOnlyFile E nm args st else st)
      in if snd target then replicationFeedSlaves E args st1 else st1)"

definition alsoPropagate :: "'k srv_env \<Rightarrow> string \<Rightarrow> string list \<Rightarrow> bool \<times> bool \<Rightarrow> 'k sys \<Rightarrow> 'k sys" where
  "alsoPropagate E nm args target st =
     (if loading E then st else st\<lparr>also_propagate := also_propagate st @ [(nm, args, target)]\<rparr>)"

definition forceCommandPropagation :: "nat \<Rightarrow> bool \<times> bool \<Rightarrow> server \<Rightarrow> server" where
  "forceCommandPropagation c target s =
     (let s1 = (if snd target then add_flag CLIENT_FORCE_REPL c s else s)
      in if fst target then add_flag CLIENT_FORCE_AOF c s1 else s1)"

definition preventCommandPropagation :: "nat \<Rightarrow> server \<Rightarrow> server" where
  "preventCommandPropagation c s = add_flag CLIENT_PREVENT_REPL_PROP c (add_flag CLIENT_PREVENT_AOF_PROP c s)"

definition preventCommandAOF :: "nat \<Rightarrow> server \<Rightarrow> server" where
  "preventCommandAOF c s = add_flag CLIENT_PREVENT_AOF_PROP c s"

definition preventCommandReplication :: "nat \<Rightarrow> server \<Rightarrow> server" where
  "preventCommandReplication c s = add_flag CLIENT_PREVENT_REPL_PROP c s"

text \<open>The flags of \<open>call\<close>, and the client flags that belong to one call.\<close>

record call_flags =
  call_stats :: bool
  call_prop_aof :: bool
  call_prop_repl :: bool

definition CMD_CALL_FULL :: call_flags where
  "CMD_CALL_FULL = \<lparr>call_stats = True, call_prop_aof = True, call_prop_repl = True\<rparr>"

definition clear_call_flags :: "cflags \<Rightarrow> cflags" where
  "clear_call_flags w =
     unset_bit CLIENT_FORCE_AOF (unset_bit CLIENT_FORCE_REPL (unset_bit CLIENT_PREVENT_AOF_PROP (unset_bit CLIENT_PREVENT_REPL_PROP w)))"

definition restore_call_flags :: "cflags \<Rightarrow> cflags \<Rightarrow> cflags" where
  "restore_call_flags old w =
     clear_call_flags w OR
     (old AND (set_bit CLIENT_FORCE_AOF (set_bit CLIENT_FORCE_REPL (set_bit CLIENT_PREVENT_AOF_PROP (set_bit CLIENT_PREVENT_REPL_PROP 0)))))"

text \<open>What is propagated for the command itself, from the change counter and the flags it has set.\<close>

definition propagate_flags :: "call_flags \<Rightarrow> int \<Rightarrow> cflags \<Rightarrow> bool \<times> bool" where
  "propagate_flags fl d w =
     ((d \<noteq> 0 \<or> bit w CLIENT_FORCE_AOF) \<and> \<not> bit w CLIENT_PREVENT_AOF_PROP \<and> call_prop_aof fl,
      (d \<noteq> 0 \<or> bit w CLIENT_FORCE_REPL) \<and> \<not> bit w CLIENT_PREVENT_REPL_PROP \<and> call_prop_repl fl)"

text \<open>The entry that the name in a client refers to; renaming a command changes its key and not its name.\<close>

definition current_cmd :: "'k srv_env \<Rightarrow> redisCommand \<Rightarrow> nat \<Rightarrow> 'k sys \<Rightarrow> redisCommand" where
  "current_cmd E e c st =
     (case cmd (client_of st c) of None \<Rightarrow> e | Some nm \<Rightarrow> (case orig_table E nm of None \<Rightarrow> e | Some x \<Rightarrow> x))"

definition propagate_command :: "'k srv_env \<Rightarrow> call_flags \<Rightarrow> redisCommand \<Rightarrow> nat \<Rightarrow> int \<Rightarrow> 'k sys \<Rightarrow> 'k sys" where
  "propagate_command E fl e c d st =
     (let w = flags (client_of st c); target = propagate_flags fl d w
      in if (call_prop_aof fl \<or> call_prop_repl fl) \<and> \<not> (bit w CLIENT_PREVENT_AOF_PROP \<and> bit w CLIENT_PREVENT_REPL_PROP) \<and>
            target \<noteq> (False, False)
         then propagate E (cmd_name (current_cmd E e c st)) (argv (client_of st c)) target st
         else st)"

definition propagate_also :: "'k srv_env \<Rightarrow> call_flags \<Rightarrow> 'k sys \<Rightarrow> 'k sys" where
  "propagate_also E fl st =
     (if also_propagate st = [] then st
      else
        (if call_prop_aof fl \<or> call_prop_repl fl
         then fold (\<lambda>(nm, args, a, r) st.
                (let target = (a \<and> call_prop_aof fl, r \<and> call_prop_repl fl)
                 in if target \<noteq> (False, False) then propagate E nm args target st else st)) (also_propagate st) st
         else st)\<lparr>also_propagate := []\<rparr>)"

definition lua_flags :: "'k srv_env \<Rightarrow> nat \<Rightarrow> 'k sys \<Rightarrow> 'k sys" where
  "lua_flags E c st =
     (let w = flags (client_of st c)
      in case lua_caller E of
           None \<Rightarrow> st
         | Some l \<Rightarrow>
             if bit w CLIENT_LUA then
               on_sv (\<lambda>s. (if bit w CLIENT_FORCE_AOF then add_flag CLIENT_FORCE_AOF l else (\<lambda>s. s))
                            ((if bit w CLIENT_FORCE_REPL then add_flag CLIENT_FORCE_REPL l else (\<lambda>s. s)) s)) st
             else st)"

definition count_call :: "nat \<Rightarrow> int \<Rightarrow> 'k sys \<Rightarrow> 'k sys" where
  "count_call c duration st =
     (case lastcmd st c of
        None \<Rightarrow> st
      | Some nm \<Rightarrow> st\<lparr>cmd_microseconds := (cmd_microseconds st)(nm := cmd_microseconds st nm + duration),
                       cmd_calls := (cmd_calls st)(nm := cmd_calls st nm + 1)\<rparr>)"

text \<open>The slow log and the latency samples are not modelled.\<close>

definition call :: "'k srv_env \<Rightarrow> call_flags \<Rightarrow> redisCommand \<Rightarrow> nat \<Rightarrow> 'k sys \<Rightarrow> 'k sys" where
  "call E fl e c st =
     (let old = flags (client_of st c);
          st1 = (if monitors (nt st) \<noteq> [] \<and> \<not> loading E \<and> \<not> (bit (cmd_flags e) CMD_SKIP_MONITOR \<or> bit (cmd_flags e) CMD_ADMIN)
                 then replicationFeedMonitors E c st else st);
          st2 = (on_sv (update_client c (\<lambda>cl. cl\<lparr>flags := clear_call_flags (flags cl)\<rparr>)) st1)\<lparr>also_propagate := []\<rparr>;
          st3 = run_proc E (cproc e) c st2;
          duration = ustime E st3 - ustime E st2;
          d = max 0 (dirty st3 - dirty st2);
          stats = (call_stats fl \<and> \<not> (loading E \<and> bit (flags (client_of st3 c)) CLIENT_LUA));
          st4 = lua_flags E c st3;
          st5 = (if stats then count_call c duration st4 else st4);
          st6 = propagate_command E fl e c d st5;
          st7 = on_sv (update_client c (\<lambda>cl. cl\<lparr>flags := restore_call_flags old (flags cl)\<rparr>)) st6;
          st8 = propagate_also E fl st7
      in st8\<lparr>stat_numcommands := stat_numcommands st8 + 1\<rparr>)"

section \<open>Processing a request\<close>

text \<open>The checks between the lookup of the command and its execution, in the order of the code. Each is the reply
  for a request that is refused, with the transaction marked if the code does so.\<close>

definition refuse :: "'k srv_env \<Rightarrow> bool \<Rightarrow> nat \<Rightarrow> (server \<Rightarrow> server) \<Rightarrow> 'k sys \<Rightarrow> 'k sys" where
  "refuse E mark c f st = on_sv f (if mark then flagTransaction E c st else st)"

definition needs_redirect :: "'k srv_env \<Rightarrow> redisCommand \<Rightarrow> nat \<Rightarrow> 'k sys \<Rightarrow> bool" where
  "needs_redirect E e c st \<longleftrightarrow>
     cluster_enabled (pool_of E) \<and> \<not> bit (flags (client_of st c)) CLIENT_MASTER \<and>
     \<not> (bit (flags (client_of st c)) CLIENT_LUA \<and>
        (case lua_caller E of None \<Rightarrow> False | Some l \<Rightarrow> bit (flags (client_of st l)) CLIENT_MASTER)) \<and>
     \<not> (getkeys_proc e = None \<and> firstkey e = 0 \<and> cproc e \<noteq> ''execCommand'') \<and>
     \<not> getNodeByQuery_myself E c st"

definition pubsub_allowed :: "redisCommand \<Rightarrow> bool" where
  "pubsub_allowed e \<longleftrightarrow>
     cproc e \<in> {''pingCommand'', ''subscribeCommand'', ''unsubscribeCommand'', ''psubscribeCommand'', ''punsubscribeCommand''}"

definition pubsub_error :: string where
  "pubsub_error = ''only (P)SUBSCRIBE / (P)UNSUBSCRIBE / PING / QUIT allowed in this context''"

definition first_lower :: "string \<Rightarrow> char" where
  "first_lower x = tolower (case cstr x of [] \<Rightarrow> CHR 0x00 | ch # _ \<Rightarrow> ch)"

definition script_blocks :: "'k srv_env \<Rightarrow> redisCommand \<Rightarrow> string list \<Rightarrow> bool" where
  "script_blocks E e args \<longleftrightarrow>
     lua_timedout E \<and> cproc e \<noteq> ''authCommand'' \<and> cproc e \<noteq> ''replconfCommand'' \<and>
     \<not> (cproc e = ''shutdownCommand'' \<and> length args = 2 \<and> first_lower (args ! 1) = CHR ''n'') \<and>
     \<not> (cproc e = ''scriptCommand'' \<and> length args = 2 \<and> first_lower (args ! 1) = CHR ''k'')"

definition exec_command :: "'k srv_env \<Rightarrow> redisCommand \<Rightarrow> nat \<Rightarrow> 'k sys \<Rightarrow> 'k sys" where
  "exec_command E e c st =
     (if bit (flags (client_of st c)) CLIENT_MULTI \<and>
         cproc e \<notin> {''execCommand'', ''discardCommand'', ''multiCommand'', ''watchCommand''}
      then on_sv (addReply (al E) c shared_queued) (queueMultiCommand E c st)
      else
        (let st1 = call E CMD_CALL_FULL e c st
         in if ready_keys E st1 then handleClientsBlockedOnLists E st1 else st1))"

definition check_and_exec :: "'k srv_env \<Rightarrow> redisCommand \<Rightarrow> nat \<Rightarrow> 'k sys \<Rightarrow> 'k sys" where
  \<comment> \<open>after the memory check\<close>
  "check_and_exec E e c st =
     (let A = al E; write = bit (cmd_flags e) CMD_WRITE; w = flags (client_of st c)
      in if (bgsave_failing E \<or> aof_write_failing E) \<and> \<not> masterhost E \<and> (write \<or> cproc e = ''pingCommand'') then
           refuse E True c
             (if \<not> aof_write_failing E then addReply A c shared_bgsaveerr
              else addReplySds A c (''-MISCONF Errors writing to the AOF file: '' @ aof_errno E @ crlf)) st
         else if \<not> masterhost E \<and> repl_min_slaves_to_write E \<noteq> 0 \<and> repl_min_slaves_max_lag E \<noteq> 0 \<and> write \<and>
                 repl_good_slaves_count E < repl_min_slaves_to_write E then
           refuse E True c (addReply A c shared_noreplicaserr) st
         else if masterhost E \<and> repl_slave_ro E \<and> \<not> bit w CLIENT_MASTER \<and> write then
           refuse E False c (addReply A c shared_roslaveerr) st
         else if bit w CLIENT_PUBSUB \<and> \<not> pubsub_allowed e then refuse E False c (addReplyError A c pubsub_error) st
         else if masterhost E \<and> \<not> repl_connected E \<and> \<not> repl_serve_stale_data E \<and> \<not> bit (cmd_flags e) CMD_STALE then
           refuse E True c (addReply A c shared_masterdownerr) st
         else if loading E \<and> \<not> bit (cmd_flags e) CMD_LOADING then refuse E False c (addReply A c shared_loadingerr) st
         else if script_blocks E e (argv (client_of st c)) then refuse E True c (addReply A c shared_slowscripterr) st
         else exec_command E e c st)"

definition set_cmd :: "nat \<Rightarrow> string option \<Rightarrow> 'k sys \<Rightarrow> 'k sys" where
  "set_cmd c nm st = (on_sv (update_client c (\<lambda>cl. cl\<lparr>cmd := nm\<rparr>)) st)\<lparr>lastcmd := (lastcmd st)(c := nm)\<rparr>"

definition processCommand_sys :: "'k srv_env \<Rightarrow> nat \<Rightarrow> 'k sys \<Rightarrow> bool \<times> 'k sys" where
  "processCommand_sys E c st0 =
     (let args = argv (client_of st0 c); A = al E
      in if strcaseeq (hd args) ''quit'' then
           (False, on_sv (\<lambda>s. add_flag CLIENT_CLOSE_AFTER_REPLY c (addReply A c shared_ok s)) st0)
         else
           (let eo = lookupCommand (cmd_table E) (hd args); st = set_cmd c (map_option cmd_name eo) st0
            in case eo of
                 None \<Rightarrow>
                   (True, refuse E True c (addReplyErrorFormat A c (''unknown command '' @ [CHR 0x27] @ cstr (hd args) @ [CHR 0x27])) st)
               | Some e \<Rightarrow>
                   if arity_bad e (length args) then
                     (True, refuse E True c (addReplyErrorFormat A c (wrong_arity (cmd_name e))) st)
                   else if requirepass E \<noteq> None \<and> \<not> authenticated (client_of st c) \<and> cproc e \<noteq> ''authCommand'' then
                     (True, refuse E True c (addReply A c shared_noautherr) st)
                   else if needs_redirect E e c st then
                     (True, clusterRedirectClient E c
                              (if cproc e = ''execCommand'' then discardTransaction E c st else flagTransaction E c st))
                   else if maxmemory E \<noteq> 0 then
                     (case freeMemoryIfNeeded E st of
                        (ok, st1) \<Rightarrow>
                          if current_client (sv st1) = None then (False, st1)
                          else if bit (cmd_flags e) CMD_DENYOOM \<and> \<not> ok then (True, refuse E True c (addReply A c shared_oomerr) st1)
                          else (True, check_and_exec E e c st1))
                   else (True, check_and_exec E e c st)))"

text \<open>The command processor as the parser of \<open>networking.c\<close> calls it: the server is passed beside the rest of the
  state.\<close>

definition with_sv :: "server \<Rightarrow> 'k sys \<Rightarrow> 'k sys" where
  "with_sv s x = on_sv (\<lambda>_. s) x"

definition sys_penv :: "'k srv_env \<Rightarrow> (string \<Rightarrow> int option) \<Rightarrow> (string \<Rightarrow> string list option) \<Rightarrow> 'k sys proto_env" where
  "sys_penv E s2ll split =
     \<lparr>penv_alloc = al E, string2ll = s2ll, sdssplitargs = split,
      clientsArePaused = (\<lambda>(s, x). case clientsArePaused_sys (with_sv s x) of (b, y) \<Rightarrow> (b, sv y, y)),
      processCommand = (\<lambda>c (s, x). case processCommand_sys E c (with_sv s x) of (b, y) \<Rightarrow> (b, sv y, y))\<rparr>"

end
