(* ===== verification/Redis_Dispatch.thy ===== *)
theory Redis_Dispatch
  imports Redis_Server
begin

text \<open>
  What the command processor guarantees: share memory requests reach their commands with the arguments they need,
  refused requests change nothing but the reply, and a subscriber can run none of them.
\<close>

section \<open>A serving server\<close>

text \<open>The default configuration: the populated command table, no memory limit, no persistence errors, a master
  without a cluster, not loading and no script running.\<close>

definition plain_env :: "'k srv_env \<Rightarrow> bool" where
  "plain_env E \<longleftrightarrow> cmd_table E = commands \<and> maxmemory E = 0 \<and> \<not> bgsave_failing E \<and> \<not> aof_write_failing E \<and> \<not> masterhost E \<and>
     repl_min_slaves_to_write E = 0 \<and> \<not> loading E \<and> \<not> lua_timedout E \<and> \<not> cluster_enabled (pool_of E) \<and> lua_caller E = None \<and>
     (\<forall>st. \<not> ready_keys E st)"

definition authorised :: "'k srv_env \<Rightarrow> nat \<Rightarrow> 'k sys \<Rightarrow> bool" where
  "authorised E c st \<longleftrightarrow> requirepass E = None \<or> authenticated (client_of st c)"

text \<open>What is relied on of \<open>multi.c\<close>: outside of a transaction there is nothing to mark.\<close>

definition marks_transactions :: "'k srv_env \<Rightarrow> bool" where
  "marks_transactions E \<longleftrightarrow> (\<forall>c st. \<not> bit (flags (client_of st c)) CLIENT_MULTI \<longrightarrow> flagTransaction E c st = st)"

lemma on_sv_fields [simp]:
  "shm (on_sv f st) = shm st" "dirty (on_sv f st) = dirty st" "also_propagate (on_sv f st) = also_propagate st"
  "lastcmd (on_sv f st) = lastcmd st" "stat_numcommands (on_sv f st) = stat_numcommands st"
  "clients_paused (on_sv f st) = clients_paused st" "mstime (on_sv f st) = mstime st"
  "clients_pause_end_time (on_sv f st) = clients_pause_end_time st"
  by (simp_all add: on_sv_def on_nt_def)

lemma set_cmd_fields [simp]:
  "nt (set_cmd c nm st) = on_srv (update_client c (\<lambda>cl. cl\<lparr>cmd := nm\<rparr>)) (nt st)" "shm (set_cmd c nm st) = shm st"
  "dirty (set_cmd c nm st) = dirty st" "lastcmd (set_cmd c nm st) = (lastcmd st)(c := nm)"
  "clients_paused (set_cmd c nm st) = clients_paused st"
  by (simp_all add: set_cmd_def)

lemma snd_row [simp]:
  "cmd_name (snd (row e)) = cmd_name e" "cproc (snd (row e)) = cproc e" "arity (snd (row e)) = arity e"
  "getkeys_proc (snd (row e)) = getkeys_proc e" "firstkey (snd (row e)) = firstkey e"
  by (simp_all add: row_def)

lemma processCommand_known:
  assumes E: "plain_env E" and a: "authorised E c st" and args: "argv (client_of st c) = args" "\<not> strcaseeq (hd args) ''quit''"
    and e: "lookupCommand commands (hd args) = Some e" "\<not> arity_bad e (length args)"
  shows "processCommand_sys E c st = (True, check_and_exec E e c (set_cmd c (Some (cmd_name e)) st))"
  using assms by (auto simp: processCommand_sys_def plain_env_def Let_def authorised_def needs_redirect_def)

lemma check_and_exec_runs:
  assumes E: "plain_env E" and c: "\<not> bit (flags (client_of st c)) CLIENT_PUBSUB \<or> pubsub_allowed e" "\<not> bit (flags (client_of st c)) CLIENT_MULTI"
  shows "check_and_exec E e c st = call E CMD_CALL_FULL e c st"
  using assms by (auto simp: check_and_exec_def plain_env_def Let_def script_blocks_def exec_command_def)


text \<open>Running a command that changes no data set and asks for no propagation: \<open>call\<close> clears the flags that belong to
  one call, runs the command, counts it and restores the flags; nothing is sent to a slave, the append only
  file or a monitor.\<close>

definition call_ready :: "nat \<Rightarrow> 'k sys \<Rightarrow> 'k sys" where
  "call_ready c st = (on_sv (update_client c (\<lambda>cl. cl\<lparr>flags := clear_call_flags (flags cl)\<rparr>)) st)\<lparr>also_propagate := []\<rparr>"

abbreviation call_bits :: "nat set" where
  "call_bits \<equiv> {CLIENT_FORCE_AOF, CLIENT_FORCE_REPL, CLIENT_PREVENT_AOF_PROP, CLIENT_PREVENT_REPL_PROP}"

definition quiet :: "nat \<Rightarrow> 'k sys \<Rightarrow> 'k sys \<Rightarrow> bool" where
  "quiet c st st' \<longleftrightarrow> dirty st' = dirty st \<and> also_propagate st' = also_propagate st \<and>
     (\<forall>b\<in>call_bits. bit (flags (client_of st' c)) b = bit (flags (client_of st c)) b)"

lemma clear_call_flags_bit: "bit (clear_call_flags w) b \<longleftrightarrow> bit w b \<and> b \<notin> call_bits"
  by (auto simp: clear_call_flags_def)

lemma restore_call_flags_bit: "bit (restore_call_flags old w) b \<longleftrightarrow> (if b \<in> call_bits then bit old b else bit w b)"
proof -
  have m: "bit (set_bit CLIENT_FORCE_AOF (set_bit CLIENT_FORCE_REPL (set_bit CLIENT_PREVENT_AOF_PROP (set_bit CLIENT_PREVENT_REPL_PROP (0 :: cflags))))) b
      \<longleftrightarrow> b \<in> call_bits" by (simp only: bit_set_flag bit_0_eq) auto
  show ?thesis unfolding restore_call_flags_def bit_or_iff bit_and_iff m clear_call_flags_bit by auto
qed

lemma call_ready_fields [simp]:
  "nt (call_ready c st) = on_srv (update_client c (\<lambda>cl. cl\<lparr>flags := clear_call_flags (flags cl)\<rparr>)) (nt st)"
  "shm (call_ready c st) = shm st" "clients_paused (call_ready c st) = clients_paused st" "dirty (call_ready c st) = dirty st" "also_propagate (call_ready c st) = []"
  by (simp_all add: call_ready_def)

lemma count_call_fields [simp]:
  "nt (count_call c d st) = nt st" "shm (count_call c d st) = shm st" "clients_paused (count_call c d st) = clients_paused st" "dirty (count_call c d st) = dirty st"
  "also_propagate (count_call c d st) = also_propagate st" "stat_numcommands (count_call c d st) = stat_numcommands st"
  by (simp_all add: count_call_def split: option.split)

lemma call_quiet:
  assumes E: "plain_env E" and m: "monitors (nt st) = []"
    and q: "quiet c (call_ready c st) (run_proc E (cproc e) c (call_ready c st))"
  defines "r \<equiv> run_proc E (cproc e) c (call_ready c st)"
  shows "nt (call E fl e c st) = on_srv (update_client c (\<lambda>cl. cl\<lparr>flags := restore_call_flags (flags (client_of st c)) (flags cl)\<rparr>)) (nt r)"
    and "shm (call E fl e c st) = shm r" and "dirty (call E fl e c st) = dirty st" and "clients_paused (call E fl e c st) = clients_paused r"
proof -
  have d: "dirty r = dirty st" "also_propagate r = []" using q by (simp_all add: quiet_def r_def)
  have b: "\<not> bit (flags (client_of r c)) a" if "a \<in> call_bits" for a
    using q that by (simp add: quiet_def r_def clear_call_flags_bit) blast
  have l: "lua_flags E c r = r" using E by (simp add: lua_flags_def plain_env_def Let_def)
  have p: "propagate_command E fl e c 0 s = s" if "nt s = nt r" for s
    using b that by (simp add: propagate_command_def propagate_flags_def Let_def)
  have a: "propagate_also E fl s = s" if "also_propagate s = []" for s using that by (simp add: propagate_also_def)
  have r: "(on_sv (update_client c (\<lambda>cl. cl\<lparr>flags := clear_call_flags (flags cl)\<rparr>)) st)\<lparr>also_propagate := []\<rparr> = call_ready c st"
    by (simp add: call_ready_def)
  show "nt (call E fl e c st) = on_srv (update_client c (\<lambda>cl. cl\<lparr>flags := restore_call_flags (flags (client_of st c)) (flags cl)\<rparr>)) (nt r)"
    "shm (call E fl e c st) = shm r" "dirty (call E fl e c st) = dirty st" "clients_paused (call E fl e c st) = clients_paused r"
    using m d by (simp_all add: call_def Let_def r r_def [symmetric] l p a)
qed

section \<open>The share memory commands change few flags\<close>

definition steady :: "server \<Rightarrow> server \<Rightarrow> bool" where
  "steady s t \<longleftrightarrow> (\<forall>d b. b \<notin> {CLIENT_PENDING_WRITE, CLIENT_CLOSE_ASAP, CLIENT_PUBSUB} \<longrightarrow> bit (flags (clients t d)) b = bit (flags (clients s d)) b)"

named_theorems steadies \<open>steps that leave most flags alone\<close>

lemma steady_refl [steadies]: "steady s s"
  by (simp add: steady_def)

lemma steady_trans: "steady s t \<Longrightarrow> steady t u \<Longrightarrow> steady s u"
  by (simp add: steady_def)

lemma steady_same: "(\<And>d. flags (clients t d) = flags (clients s d)) \<Longrightarrow> steady s t"
  by (simp add: steady_def)

lemma steady_out: "out_frame s t \<Longrightarrow> steady s t"
  by (simp add: steady_def out_frame_def same_control_def)

lemma steady_reply [steadies]: "steady s (addReplyLongLong A c n s)"
  by (rule steady_out [OF addReplyLongLong_frame])

lemma smemget_clients: "clients (fst (snd (smemget_size E z s k))) = clients s"
  by (auto simp: smemget_size_def smemget_reuse_def smemget_new_def Let_def split: option.split prod.split if_splits)

lemma make_available_clients: "clients (fst (make_available E m p s k)) = clients s"
  by (simp add: make_available_def Let_def)

lemma smemfree_one_clients: "clients (fst (snd (smemfree_one E key st))) = clients (fst (snd st))"
  using make_available_clients [of E key] by (auto simp: smemfree_one_def Let_def split: option.split prod.split)

lemma smemrm_one_clients: "clients (fst (snd (smemrm_one E key st))) = clients (fst (snd st))"
  by (auto simp: smemrm_one_def Let_def split: option.split prod.split)

lemma fold_clients:
  "(\<And>x st. clients (fst (snd (f x st))) = clients (fst (snd st))) \<Longrightarrow> clients (fst (snd (fold f xs st))) = clients (fst (snd st))"
  by (induction xs arbitrary: st) simp_all

lemma steady_pool [steadies]:
  "steady s (fst (smemgetCommand E c s k))" "steady s (fst (smemfreeCommand E c s k))" "steady s (fst (smemrmCommand E c s k))"
proof -
  have r: "steady s (addReplyLongLong A c n t)" if "clients t = clients s" for A n t
    using steady_trans [OF steady_same steady_reply, of t s] that by simp
  show "steady s (fst (smemgetCommand E c s k))"
    using r smemget_clients [of E] by (auto simp: smemgetCommand_def split: option.split prod.split) (metis fst_conv snd_conv)
  show "steady s (fst (smemfreeCommand E c s k))" "steady s (fst (smemrmCommand E c s k))"
    using r fold_clients [of "smemfree_one E" _ "(0, s, k)"] fold_clients [of "smemrm_one E" _ "(0, s, k)"] smemfree_one_clients [of E] smemrm_one_clients [of E]
    by (auto simp: smemfreeCommand_def smemrmCommand_def split: prod.split) (metis fst_conv snd_conv)+
qed

lemma steady_subscribe_channel: "steady s (snd (smempubsubSubscribeChannel A c ch s))"
proof -
  obtain n s1 where u: "smempubsubSubscribeChannel A c ch s = (n, s1)" by (cases "smempubsubSubscribeChannel A c ch s")
  from subscribe_reply_frame [OF u] obtain s0 where s0: "subscribe_core c ch s = (n, s0)" "out_frame s0 s1" .
  have "steady s s0" using s0(1) by (intro steady_same) (auto simp: subscribe_core_def add_channel_def Let_def split: if_splits)
  from steady_trans [OF this steady_out [OF s0(2)]] show ?thesis by (simp add: u)
qed

lemma steady_subscribe [steadies]: "steady s (smemsubscribeCommand A c s)"
proof -
  have "steady s (fold (\<lambda>channel s. snd (smempubsubSubscribeChannel A c channel s)) xs s)" for xs
  proof (induction xs arbitrary: s)
    case (Cons x xs)
    from steady_trans [OF steady_subscribe_channel Cons.IH] show ?case by simp
  qed (simp add: steady_refl)
  moreover have "steady t (update_client c (\<lambda>cl. cl\<lparr>flags := set_bit CLIENT_PUBSUB (flags cl)\<rparr>) t)" for t by (simp add: steady_def)
  ultimately show ?thesis unfolding smemsubscribeCommand_def by (rule steady_trans)
qed

lemma switch_list_flags: "flags (clients (snd (snd (switch_list nm ch i xs st))) d) = flags (clients (snd (snd st)) d)"
  by (induction nm ch i xs st rule: switch_list.induct) (auto simp: drop_channel_def split: option.split)

lemma switch_fold_flags: "flags (clients (snd (snd (fold (switch_channel nm) order st))) d) = flags (clients (snd (snd st)) d)"
  by (induction order arbitrary: st) (auto simp: switch_channel_def switch_list_flags split: option.split)

lemma steady_switch [steadies]: "steady s (smemswitchCommand A c order s)"
proof -
  obtain sub mv s1 where f: "fold (switch_channel (argv (clients s c) ! 2)) order (None, None, s) = (sub, mv, s1)" by (metis prod_cases3)
  have s1: "flags (clients s1 d) = flags (clients s d)" for d
    using switch_fold_flags [of "argv (clients s c) ! 2" order "(None, None, s)" d] f by simp
  show ?thesis unfolding smemswitchCommand_def Let_def f prod.case
    by (rule steady_trans [OF steady_same steady_reply]) (auto simp: s1 add_channel_def split: option.split)
qed

section \<open>A server to try it on\<close>

lemma demo_plain: "plain_env demo_srv_env" "marks_transactions demo_srv_env" "authorised demo_srv_env c st"
  by (simp_all add: plain_env_def marks_transactions_def authorised_def demo_srv_env_def demo_env_def)

text \<open>The one client of the example sends a request.\<close>

definition demo_request :: "string list \<Rightarrow> int list sys" where
  "demo_request args = demo_sys (on_srv (update_client 1 (\<lambda>cl. cl\<lparr>argv := args\<rparr>)) demo_net1)"

lemma demo_request_simps [simp]:
  "argv (client_of (demo_request args) 1) = args" "flags (client_of (demo_request args) 1) = 0" "monitors (nt (demo_request args)) = []"
  "shm (demo_request args) = []" "dirty (demo_request args) = 0"
  using demo_net1_client by (simp_all add: demo_request_def demo_sys_def new_client_def)

abbreviation (input) smemget_entry :: redisCommand where
  "smemget_entry \<equiv> entry ''smemget'' ''smemgetCommand'' 2 ''rF'' None 1 1 1"

lemma demo_smemget:
  "smemget_entry \<in> set smem_commands" "map tolower ''SmemGet'' = cmd_name smemget_entry"
  "cproc smemget_entry \<noteq> ''smempublishCommand''" "\<not> arity_bad smemget_entry (Suc (length [''5000'']))"
proof -
  have "map tolower ''SmemGet'' = ''smemget''" by code_simp
  then show "map tolower ''SmemGet'' = cmd_name smemget_entry" by (simp add: entry_def)
qed (simp_all add: smem_commands_def entry_def arity_bad_def)

section \<open>Share memory requests reach their commands\<close>

lemma cstr_lower: "map tolower n = w \<Longrightarrow> CHR 0x00 \<notin> set w \<Longrightarrow> cstr n = n"
proof -
  assume a: "map tolower n = w" "CHR 0x00 \<notin> set w"
  have "tolower (CHR 0x00) = CHR 0x00" by (simp add: tolower_def)
  with a have "CHR 0x00 \<notin> set n" by (metis image_eqI set_map)
  then have "\<forall>ch\<in>set n. ch \<noteq> CHR 0x00" by blast
  then show ?thesis by (simp add: cstr_def takeWhile_eq_all_conv)
qed

lemma smem_names:
  assumes "e \<in> set smem_commands"
  shows "cmd_name e \<in> {''smemget'', ''smemfree'', ''smemrm'', ''smemsubscribe'', ''smempublish'', ''smemswitch''}"
    and "e \<in> set redisCommandTable" and "\<not> pubsub_allowed e" and "cproc e \<noteq> ''authCommand''"
proof -
  show "e \<in> set redisCommandTable" using assms by (simp add: redisCommandTable_def)
  show "cmd_name e \<in> {''smemget'', ''smemfree'', ''smemrm'', ''smemsubscribe'', ''smempublish'', ''smemswitch''}"
    using assms by (auto simp: smem_commands_def entry_def)
  show "\<not> pubsub_allowed e" "cproc e \<noteq> ''authCommand''" using assms by (auto simp: smem_commands_def entry_def pubsub_allowed_def)
qed

lemma smem_not_quit:
  assumes "e \<in> set smem_commands" and n: "map tolower n = cmd_name e"
  shows "\<not> strcaseeq n ''quit''"
proof -
  have "CHR 0x00 \<notin> set (cmd_name e)" using smem_names(1) [OF assms(1)] by auto
  then have "map tolower (cstr n) = cmd_name e" using cstr_lower [OF n] n by simp
  moreover have "map tolower (cstr ''quit'') = ''quit''" by code_simp
  moreover have "cmd_name e \<noteq> ''quit''" using smem_names(1) [OF assms(1)] by auto
  ultimately show ?thesis by (simp add: strcaseeq_def)
qed

lemma run_smem_quiet:
  assumes "e \<in> set smem_commands" and "cproc e \<noteq> ''smempublishCommand''"
  shows "quiet c st (run_proc E (cproc e) c st)"
proof -
  have q: "quiet c st st'" if "steady (sv st) (sv st')" "dirty st' = dirty st" "also_propagate st' = also_propagate st" for st'
    using that by (auto simp: quiet_def steady_def)
  have p: "quiet c st (on_pool f st)" if "steady (sv st) (fst (f (sv st) (shm st)))" for f
    by (rule q) (use that in \<open>auto simp: on_pool_def split: prod.split\<close>)
  have s: "quiet c st (on_sv f st)" if "steady (sv st) (f (sv st))" for f by (rule q) (use that in simp_all)
  show ?thesis using assms by (auto simp: smem_commands_def entry_def run_proc_def intro!: p s steadies)
qed

lemma smem_request_call:
  assumes E: "plain_env E" and c: "authorised E c st" "\<not> bit (flags (client_of st c)) CLIENT_PUBSUB" "\<not> bit (flags (client_of st c)) CLIENT_MULTI"
    and e: "e \<in> set smem_commands" and a: "argv (client_of st c) = n # args" "map tolower n = cmd_name e" "\<not> arity_bad e (Suc (length args))"
  shows "processCommand_sys E c st = (True, call E CMD_CALL_FULL (snd (row e)) c (set_cmd c (Some (cmd_name e)) st))"
proof -
  have l: "lookupCommand commands (hd (n # args)) = Some (snd (row e))" using lookup_commands [OF smem_names(2) [OF e], of n] a(2) by simp
  have q: "\<not> strcaseeq (hd (n # args)) ''quit''" using smem_not_quit [OF e a(2)] by simp
  have "\<not> arity_bad (snd (row e)) (length (n # args))" using a(3) by (simp add: arity_bad_def)
  from processCommand_known [OF E c(1) a(1) q l this] c show ?thesis by (simp add: check_and_exec_runs [OF E])
qed

lemma smem_request_effect:
  assumes E: "plain_env E" and c: "authorised E c st" "\<not> bit (flags (client_of st c)) CLIENT_PUBSUB" "\<not> bit (flags (client_of st c)) CLIENT_MULTI"
    and m: "monitors (nt st) = []" and e: "e \<in> set smem_commands" "cproc e \<noteq> ''smempublishCommand''"
    and a: "argv (client_of st c) = n # args" "map tolower n = cmd_name e" "\<not> arity_bad e (Suc (length args))"
  shows "\<exists>st'. processCommand_sys E c st = (True, st') \<and>
    (let r = run_proc E (cproc e) c (call_ready c (set_cmd c (Some (cmd_name e)) st))
     in sv st' = update_client c (\<lambda>cl. cl\<lparr>flags := restore_call_flags (flags (client_of st c)) (flags cl)\<rparr>) (sv r) \<and>
        shm st' = shm r \<and> dirty st' = dirty st)"
proof -
  let ?s = "set_cmd c (Some (cmd_name e)) st" and ?e = "snd (row e)"
  have q: "quiet c (call_ready c ?s) (run_proc E (cproc ?e) c (call_ready c ?s))" using run_smem_quiet [OF e] by simp
  have m': "monitors (nt ?s) = []" using m by simp
  from call_quiet [OF E m' q, of CMD_CALL_FULL] smem_request_call [OF E c e(1) a] show ?thesis by (simp add: Let_def)
qed

text \<open>C17: a share memory request other than \<open>SMEMPUBLISH\<close>, in any mixture of upper and lower case and with an accepted
  number of arguments, from a client that may run commands, runs exactly its command: the tables and the
  segments are what the command makes of them, the client flags of a call are restored, and nothing is
  propagated to slaves or the append only file.\<close>

theorem smem_request_runs:
  assumes E: "plain_env E" and c: "authorised E c st" "\<not> bit (flags (client_of st c)) CLIENT_PUBSUB" "\<not> bit (flags (client_of st c)) CLIENT_MULTI"
    and m: "monitors (nt st) = []" and e: "e \<in> set smem_commands" "cproc e \<noteq> ''smempublishCommand''"
    and a: "argv (client_of st c) = n # args" "map tolower n = cmd_name e" "\<not> arity_bad e (Suc (length args))"
  shows "\<exists>st'. processCommand_sys E c st = (True, st') \<and>
    (let r = run_proc E (cproc e) c (call_ready c (set_cmd c (Some (cmd_name e)) st))
     in sv st' = update_client c (\<lambda>cl. cl\<lparr>flags := restore_call_flags (flags (client_of st c)) (flags cl)\<rparr>) (sv r) \<and>
        shm st' = shm r \<and> dirty st' = dirty st)"
  by (rule smem_request_effect [OF assms])

theorem smem_request_runs_witness:
  "\<exists>st'. processCommand_sys demo_srv_env 1 (demo_request [''SmemGet'', ''5000'']) = (True, st') \<and> dirty st' = 0 \<and>
    shm st' = shm (run_proc demo_srv_env ''smemgetCommand'' 1 (call_ready 1 (set_cmd 1 (Some ''smemget'') (demo_request [''SmemGet'', ''5000'']))))"
proof -
  have e: "cproc smemget_entry = ''smemgetCommand''" "cmd_name smemget_entry = ''smemget''" by (simp_all add: entry_def)
  show ?thesis
    using smem_request_runs [OF demo_plain(1,3) _ _ _ demo_smemget(1,3) _ demo_smemget(2,4), of "demo_request [''SmemGet'', ''5000'']" 1]
    unfolding e Let_def by (auto simp del: One_nat_def)
qed

section \<open>Refused requests\<close>

text \<open>The step from \<open>st\<close> to \<open>st'\<close> queues an error reply for the client and changes nothing else of the server but the
  command noted in the client; the segments are untouched.\<close>

definition only_error :: "nat \<Rightarrow> string \<Rightarrow> 'k sys \<Rightarrow> 'k sys \<Rightarrow> bool" where
  "only_error c x st st' \<longleftrightarrow> shm st' = shm st \<and> dirty st' = dirty st \<and>
     (\<exists>nm. appends c (CHR ''-'' # x) (update_client c (\<lambda>cl. cl\<lparr>cmd := nm\<rparr>) (sv st)) (sv st'))"

lemma addReplyErrorFormat_appends:
  "appends c (CHR ''-'' # ''ERR '' @ map (\<lambda>ch. if ch = CHR 0x0D \<or> ch = CHR 0x0A then CHR '' '' else ch) x @ crlf) s (addReplyErrorFormat A c x s)"
  using addReplyErrorLength_appends by (simp add: addReplyErrorFormat_def)

lemma only_error_refuse:
  assumes "marks_transactions E \<or> \<not> mark" and "\<not> bit (flags (client_of st c)) CLIENT_MULTI"
    and "\<And>s. appends c (CHR ''-'' # x) s (f s)"
  shows "only_error c x st (refuse E mark c f (set_cmd c nm st))"
proof -
  have "refuse E mark c f (set_cmd c nm st) = on_sv f (set_cmd c nm st)"
    using assms(1,2) by (cases mark) (simp_all add: refuse_def marks_transactions_def)
  then show ?thesis using assms(3) by (auto simp: only_error_def)
qed

text \<open>C18: a request that names no command, has a wrong number of arguments, or comes from a client that has not given
  the password, is answered with an error and changes nothing else: no segment, table, subscription or name.\<close>

theorem refused_requests_change_nothing:
  assumes E: "marks_transactions E" and c: "\<not> bit (flags (client_of st c)) CLIENT_MULTI"
    and a: "argv (client_of st c) = args" "\<not> strcaseeq (hd args) ''quit''"
    and why: "case lookupCommand (cmd_table E) (hd args) of None \<Rightarrow> True
      | Some e \<Rightarrow> arity_bad e (length args) \<or> (requirepass E \<noteq> None \<and> \<not> authenticated (client_of st c) \<and> cproc e \<noteq> ''authCommand'')"
  shows "\<exists>x st'. processCommand_sys E c st = (True, st') \<and> only_error c x st st'"
proof (cases "lookupCommand (cmd_table E) (hd args)")
  case None
  let ?m = "''unknown command '' @ [CHR 0x27] @ cstr (hd args) @ [CHR 0x27]"
  have "processCommand_sys E c st = (True, refuse E True c (addReplyErrorFormat (al E) c ?m) (set_cmd c None st))"
    using a None by (simp add: processCommand_sys_def Let_def)
  with only_error_refuse [OF disjI1 [OF E] c addReplyErrorFormat_appends [where A = "al E" and x = ?m], where nm = None and mark = True]
  show ?thesis by blast
next
  case (Some e)
  show ?thesis
  proof (cases "arity_bad e (length args)")
    case True
    have "processCommand_sys E c st =
        (True, refuse E True c (addReplyErrorFormat (al E) c (wrong_arity (cmd_name e))) (set_cmd c (Some (cmd_name e)) st))"
      using a Some True by (simp add: processCommand_sys_def Let_def)
    with only_error_refuse [OF disjI1 [OF E] c addReplyErrorFormat_appends [where A = "al E" and x = "wrong_arity (cmd_name e)"],
        where nm = "Some (cmd_name e)" and mark = True]
    show ?thesis by blast
  next
    case False
    then have p: "processCommand_sys E c st = (True, refuse E True c (addReply (al E) c shared_noautherr) (set_cmd c (Some (cmd_name e)) st))"
      using a Some why by (simp add: processCommand_sys_def Let_def)
    have r: "appends c (CHR ''-'' # ''NOAUTH Authentication required.'' @ crlf) s (addReply (al E) c shared_noautherr s)" for s
      using addReply_appends [of c shared_noautherr s "al E"] by (simp add: shared_noautherr_def)
    from p only_error_refuse [OF disjI1 [OF E] c r, where nm = "Some (cmd_name e)"] show ?thesis by blast
  qed
qed

theorem refused_requests_change_nothing_witness:
  "\<exists>x st'. processCommand_sys demo_srv_env 1 (demo_request [''SmemGet'']) = (True, st') \<and> only_error 1 x (demo_request [''SmemGet'']) st'"
proof (rule refused_requests_change_nothing [OF demo_plain(2)])
  show "argv (client_of (demo_request [''SmemGet'']) 1) = [''SmemGet'']" by (rule demo_request_simps)
  show "\<not> strcaseeq (hd [''SmemGet'']) ''quit''" by code_simp
  have "cmd_table demo_srv_env = commands" by (simp add: demo_srv_env_def)
  then show "case lookupCommand (cmd_table demo_srv_env) (hd [''SmemGet'']) of None \<Rightarrow> True
      | Some e \<Rightarrow> arity_bad e (length [''SmemGet'']) \<or>
          (requirepass demo_srv_env \<noteq> None \<and> \<not> authenticated (client_of (demo_request [''SmemGet'']) 1) \<and> cproc e \<noteq> ''authCommand'')"
    using lookup_commands [OF smem_names(2) [OF demo_smemget(1)] demo_smemget(2)] by (simp add: arity_bad_def entry_def)
qed (simp del: One_nat_def)

text \<open>C38: a client that has subscribed to a channel can run no share memory command any more: \<open>SMEMSUBSCRIBE\<close> puts
  the connection in publish/subscribe mode, which allows only the plain subscribe commands and \<open>PING\<close>, so a second
  \<open>SMEMSUBSCRIBE\<close>, \<open>SMEMFREE\<close> and the others are refused and change nothing.\<close>

theorem subscriber_is_locked_out:
  assumes E: "plain_env E" and c: "authorised E c st" "bit (flags (client_of st c)) CLIENT_PUBSUB" "\<not> bit (flags (client_of st c)) CLIENT_MULTI"
    and e: "e \<in> set smem_commands" and a: "argv (client_of st c) = n # args" "map tolower n = cmd_name e" "\<not> arity_bad e (Suc (length args))"
  shows "\<exists>st'. processCommand_sys E c st = (True, st') \<and> only_error c (''ERR '' @ pubsub_error @ crlf) st st'"
proof -
  let ?s = "set_cmd c (Some (cmd_name e)) st"
  have l: "lookupCommand commands (hd (n # args)) = Some (snd (row e))" using lookup_commands [OF smem_names(2) [OF e], of n] a(2) by simp
  have q: "\<not> strcaseeq (hd (n # args)) ''quit''" using smem_not_quit [OF e a(2)] by simp
  have ar: "\<not> arity_bad (snd (row e)) (length (n # args))" using a(3) by (simp add: arity_bad_def)
  have "\<not> pubsub_allowed (snd (row e))" using smem_names(3) [OF e] by (simp add: pubsub_allowed_def)
  then have "check_and_exec E (snd (row e)) c ?s = refuse E False c (addReplyError (al E) c pubsub_error) ?s"
    using E c(2) by (simp add: check_and_exec_def plain_env_def Let_def)
  moreover have "appends c (CHR ''-'' # ''ERR '' @ pubsub_error @ crlf) s (addReplyError (al E) c pubsub_error s)" for s
    using addReplyError_appends [of c pubsub_error s "al E"] by simp
  ultimately show ?thesis using processCommand_known [OF E c(1) a(1) q l ar] only_error_refuse [of E False st c] c(3) by simp
qed

theorem subscriber_is_locked_out_witness:
  "\<exists>st'. processCommand_sys demo_srv_env 1 (on_sv (add_flag CLIENT_PUBSUB 1) (demo_request [''SmemGet'', ''5000''])) = (True, st') \<and>
     only_error 1 (''ERR '' @ pubsub_error @ crlf) (on_sv (add_flag CLIENT_PUBSUB 1) (demo_request [''SmemGet'', ''5000''])) st'"
proof (rule subscriber_is_locked_out [OF demo_plain(1,3) _ _ demo_smemget(1) _ demo_smemget(2,4)])
  have b: "bit (flags (client_of (on_sv (add_flag CLIENT_PUBSUB 1) (demo_request args)) 1)) b \<longleftrightarrow>
      bit (flags (client_of (demo_request args) 1)) b \<or> b = CLIENT_PUBSUB" for args b
    by (auto simp: add_flag_def simp del: demo_request_simps)
  show "bit (flags (client_of (on_sv (add_flag CLIENT_PUBSUB 1) (demo_request [''SmemGet'', ''5000''])) 1)) CLIENT_PUBSUB"
    "\<not> bit (flags (client_of (on_sv (add_flag CLIENT_PUBSUB 1) (demo_request [''SmemGet'', ''5000''])) 1)) CLIENT_MULTI"
    unfolding b by (simp_all del: One_nat_def)
qed (simp add: add_flag_def del: One_nat_def)

end
