(* ===== verification/Smem_Client.thy ===== *)
theory Smem_Client
  imports Prelude
begin

text \<open>
  The client library \<open>redis/test/smem_client.c\<close>, which the FFmpeg devices and the test
  programs link: the ring buffer of share memory ids between the subscriber thread and the
  consumer, the requests a client sends, and the callback that receives published ids.
  The hiredis library is a parameter: \<open>redisCommand\<close> sends one command on a connection
  of the outside world \<open>'w\<close> and returns a reply or NULL.
\<close>

section \<open>Data\<close>

datatype redisReply =
    REDIS_REPLY_STRING string
  | REDIS_REPLY_ARRAY "redisReply list"
  | REDIS_REPLY_INTEGER int
  | REDIS_REPLY_NIL
  | REDIS_REPLY_STATUS string
  | REDIS_REPLY_ERROR string

type_synonym 'w redisCommand = "nat \<Rightarrow> string list \<Rightarrow> 'w \<Rightarrow> redisReply option \<times> 'w"

abbreviation (input) "SMEM_CLIENT_TYPE_PRODUCER \<equiv> (0 :: int)"
abbreviation (input) "SMEM_CLIENT_TYPE_CONSUMER \<equiv> (1 :: int)"
abbreviation (input) "SMEM_ERROR_REDIS_CONNECT \<equiv> (-1 :: int)"
abbreviation (input) "SMEM_ERROR_INPUT_POINTER \<equiv> (-2 :: int)"
abbreviation (input) "SMEM_CONNECT_TYPE_IP \<equiv> (0 :: int)"
abbreviation (input) "SMEM_CONNECT_TYPE_UNIX \<equiv> (1 :: int)"
abbreviation (input) "SMEM_MAX_QUEUE_LENGTH \<equiv> (256 :: int)"

text \<open>A pointer to a connection is \<open>None\<close> for NULL.\<close>

record smemContext =
  ctype :: int
  err :: int
  rctx :: "nat option"
  rctx2 :: "nat option"
  rasync :: "nat option"
  async_tid :: bool
  connect_type :: int
  url :: string
  port :: int
  channel :: string
  cname :: string
  queue :: "int list"
  queue_head :: int
  queue_end :: int

section \<open>The ring buffer\<close>

definition queue_full :: "smemContext \<Rightarrow> bool" where
  "queue_full c \<longleftrightarrow> (queue_end c + 1) smod SMEM_MAX_QUEUE_LENGTH = queue_head c"

definition queue_empty :: "smemContext \<Rightarrow> bool" where
  "queue_empty c \<longleftrightarrow> queue_end c = queue_head c"

definition smem_queue_push :: "smemContext \<Rightarrow> int \<Rightarrow> int \<times> smemContext" where
  "smem_queue_push c val =
     (if queue_full c then (0, c)
      else
        (let c1 = c\<lparr>queue := (queue c)[nat (queue_end c) := val]\<rparr>
         in (1, c1\<lparr>queue_end := (queue_end c1 + 1) smod SMEM_MAX_QUEUE_LENGTH\<rparr>)))"

text \<open>The C function returns its status and writes through \<open>val\<close>: the model returns
  the status, the new value of \<open>*val\<close> and the context.\<close>

definition smem_queue_pop :: "smemContext \<Rightarrow> int \<Rightarrow> int \<times> int \<times> smemContext" where
  "smem_queue_pop c val =
     (if queue_empty c then (0, val, c)
      else (1, queue c ! nat (queue_head c),
            c\<lparr>queue_head := (queue_head c + 1) smod SMEM_MAX_QUEUE_LENGTH\<rparr>))"

definition smem_queue_size :: "smemContext \<Rightarrow> int" where
  "smem_queue_size c =
     (queue_end c - queue_head c + SMEM_MAX_QUEUE_LENGTH) smod SMEM_MAX_QUEUE_LENGTH"

section \<open>Requests\<close>

definition smemFree :: "smemContext option \<Rightarrow> nat list" where
  \<comment> \<open>the connections handed to \<open>redisFree\<close>, in order\<close>
  "smemFree co =
     (case co of
        None \<Rightarrow> []
      | Some c \<Rightarrow>
          (case rctx c of None \<Rightarrow> [] | Some h \<Rightarrow> [h]) @
          (case rctx2 c of None \<Rightarrow> [] | Some h \<Rightarrow> [h]) @
          (case rasync c of None \<Rightarrow> [] | Some h \<Rightarrow> [h]))"

definition smemProducerGetShareMemory ::
    "'w redisCommand \<Rightarrow> nat \<Rightarrow> int \<Rightarrow> 'w \<Rightarrow> int \<times> 'w" where
  "smemProducerGetShareMemory redisCommand h sz w =
     (if sz \<le> 0 then (-1, w)
      else
        (case redisCommand h [''SMEMGET'', dec_int sz] w of
           (Some (REDIS_REPLY_INTEGER n), w') \<Rightarrow> (c_int n, w')
         | (Some _, w') \<Rightarrow> (-1, w')
         | (None, w') \<Rightarrow> (-1, w')))"

definition smemConsumerGetShareMemory :: "smemContext \<Rightarrow> int \<times> smemContext" where
  "smemConsumerGetShareMemory c =
     (case smem_queue_pop c (-1) of (_, mem_id, c') \<Rightarrow> (mem_id, c'))"

definition smemGetShareMemory ::
    "'w redisCommand \<Rightarrow> smemContext option \<Rightarrow> int \<Rightarrow> 'w \<Rightarrow> int \<times> smemContext option \<times> 'w" where
  "smemGetShareMemory redisCommand co sz w =
     (case co of
        None \<Rightarrow> (SMEM_ERROR_INPUT_POINTER, None, w)
      | Some c \<Rightarrow>
          (case rctx c of
             None \<Rightarrow> (SMEM_ERROR_INPUT_POINTER, Some c, w)
           | Some h \<Rightarrow>
               if ctype c = SMEM_CLIENT_TYPE_PRODUCER then
                 (case smemProducerGetShareMemory redisCommand h sz w of
                    (mem_id, w') \<Rightarrow> (mem_id, Some c, w'))
               else if ctype c = SMEM_CLIENT_TYPE_CONSUMER then
                 (case smemConsumerGetShareMemory c of
                    (mem_id, c') \<Rightarrow> (mem_id, Some c', w))
               else (-1, Some c, w)))"

definition smemFreeShareMemory ::
    "'w redisCommand \<Rightarrow> smemContext option \<Rightarrow> int \<Rightarrow> 'w \<Rightarrow> 'w" where
  "smemFreeShareMemory redisCommand co i w =
     (case co of
        None \<Rightarrow> w
      | Some c \<Rightarrow>
          if i < 0 then w
          else (case rctx c of
                  None \<Rightarrow> w
                | Some h \<Rightarrow> snd (redisCommand h [''SMEMFREE'', dec_int i] w)))"

text \<open>The second variant checks \<open>rctx\<close> but sends on \<open>rctx2\<close>.\<close>

definition smemFreeShareMemory2 ::
    "'w redisCommand \<Rightarrow> smemContext option \<Rightarrow> int \<Rightarrow> 'w \<Rightarrow> c_fault + 'w" where
  "smemFreeShareMemory2 redisCommand co i w =
     (case co of
        None \<Rightarrow> Inr w
      | Some c \<Rightarrow>
          if i < 0 then Inr w
          else (case rctx c of
                  None \<Rightarrow> Inr w
                | Some _ \<Rightarrow>
                    (case rctx2 c of
                       None \<Rightarrow> Inl NullDeref
                     | Some h \<Rightarrow> Inr (snd (redisCommand h [''SMEMFREE'', dec_int i] w)))))"

definition smemPublish ::
    "'w redisCommand \<Rightarrow> smemContext option \<Rightarrow> int \<Rightarrow> 'w \<Rightarrow> 'w" where
  "smemPublish redisCommand co i w =
     (case co of
        None \<Rightarrow> w
      | Some c \<Rightarrow>
          if i < 0 then w
          else (case rctx c of
                  None \<Rightarrow> w
                | Some h \<Rightarrow> snd (redisCommand h [''SMEMPUBLISH'', channel c, dec_int i] w)))"

section \<open>The subscriber callback\<close>

text \<open>\<open>atoi\<close> of the C library: white space, an optional sign, digits up to the first
  other character; the value saturates at \<open>long\<close> and is converted to \<open>int\<close>.\<close>

definition isspace :: "char \<Rightarrow> bool" where
  "isspace ch \<longleftrightarrow> (of_char ch :: nat) = 32 \<or> (9 \<le> (of_char ch :: nat) \<and> (of_char ch :: nat) \<le> 13)"

definition atoi :: "string \<Rightarrow> int" where
  "atoi s =
     (let t = dropWhile isspace s;
          neg = (t \<noteq> [] \<and> hd t = CHR ''-'');
          u = (if t \<noteq> [] \<and> (hd t = CHR ''-'' \<or> hd t = CHR ''+'') then tl t else t);
          v = int (dec_val (takeWhile is_dec u))
      in c_int (max (- (2 ^ 63)) (min (2 ^ 63 - 1) (if neg then - v else v))))"

definition subCallback ::
    "'w redisCommand \<Rightarrow> smemContext \<Rightarrow> redisReply option \<Rightarrow> 'w \<Rightarrow> c_fault + smemContext \<times> 'w" where
  "subCallback redisCommand ctx r w =
     (case r of
        Some (REDIS_REPLY_ARRAY [e0, e1, e2]) \<Rightarrow>
          (let mem_id = (case e2 of
                           REDIS_REPLY_INTEGER n \<Rightarrow> c_int n
                         | REDIS_REPLY_STRING s \<Rightarrow> atoi s
                         | _ \<Rightarrow> -1)
           in if mem_id \<le> 0 then Inr (ctx, w)
              else
                (case smem_queue_push ctx mem_id of
                   (ok, ctx') \<Rightarrow>
                     if ok = 0 then
                       map_sum id (\<lambda>w'. (ctx', w')) (smemFreeShareMemory2 redisCommand (Some ctx') mem_id w)
                     else Inr (ctx', w)))
      | _ \<Rightarrow> Inr (ctx, w))"

section \<open>Connections and contexts\<close>

text \<open>
  Connecting is hiredis' work: \<open>connect\<close> returns NULL or a connection with its error
  flag. \<open>mem\<close> says whether \<open>calloc\<close> succeeds.
\<close>

type_synonym 'w redisConnect = "'w \<Rightarrow> (nat \<times> bool) option \<times> 'w"

definition smemCreateConnect :: "'w redisConnect \<Rightarrow> (nat \<Rightarrow> 'w \<Rightarrow> 'w) \<Rightarrow> 'w \<Rightarrow> nat option \<times> 'w" where
  "smemCreateConnect connect redisFree w =
     (case connect w of
        (None, w') \<Rightarrow> (None, w')
      | (Some (h, e), w') \<Rightarrow> if e then (None, redisFree h w') else (Some h, w'))"

definition smemContext_calloc :: smemContext where
  "smemContext_calloc =
     \<lparr>ctype = 0, err = 0, rctx = None, rctx2 = None, rasync = None, async_tid = False,
      connect_type = 0, url = [], port = 0, channel = [], cname = [],
      queue = replicate 256 0, queue_head = 0, queue_end = 0\<rparr>"

definition smemCreateProducer ::
    "(string \<Rightarrow> int \<Rightarrow> 'w redisConnect) \<Rightarrow> (nat \<Rightarrow> 'w \<Rightarrow> 'w) \<Rightarrow> bool \<Rightarrow>
     string \<Rightarrow> int \<Rightarrow> string \<Rightarrow> 'w \<Rightarrow> c_fault + smemContext option \<times> 'w" where
  "smemCreateProducer connect redisFree mem ip p ch w =
     (if \<not> mem then Inr (None, w)
      else
        (case (strcpy_buf 128 ip, strcpy_buf 128 ch) of
           (Inr u, Inr n) \<Rightarrow>
             (let c = smemContext_calloc\<lparr>ctype := SMEM_CLIENT_TYPE_PRODUCER,
                        connect_type := SMEM_CONNECT_TYPE_IP, url := u, channel := n, port := p\<rparr>
              in (case smemCreateConnect (connect ip p) redisFree w of
                    (None, w') \<Rightarrow> Inr (Some (c\<lparr>err := SMEM_ERROR_REDIS_CONNECT\<rparr>), w')
                  | (Some h, w') \<Rightarrow> Inr (Some (c\<lparr>rctx := Some h\<rparr>), w')))
         | _ \<Rightarrow> Inl BufferOverflow))"

definition smemCreateProducerUnix ::
    "(string \<Rightarrow> 'w redisConnect) \<Rightarrow> (nat \<Rightarrow> 'w \<Rightarrow> 'w) \<Rightarrow> bool \<Rightarrow>
     string \<Rightarrow> string \<Rightarrow> 'w \<Rightarrow> c_fault + smemContext option \<times> 'w" where
  "smemCreateProducerUnix connect redisFree mem path ch w =
     (if \<not> mem then Inr (None, w)
      else
        (case (strcpy_buf 128 path, strcpy_buf 128 ch) of
           (Inr u, Inr n) \<Rightarrow>
             (let c = smemContext_calloc\<lparr>ctype := SMEM_CLIENT_TYPE_PRODUCER,
                        connect_type := SMEM_CONNECT_TYPE_UNIX, url := u, channel := n\<rparr>
              in (case smemCreateConnect (connect path) redisFree w of
                    (None, w') \<Rightarrow> Inr (Some (c\<lparr>err := SMEM_ERROR_REDIS_CONNECT\<rparr>), w')
                  | (Some h, w') \<Rightarrow> Inr (Some (c\<lparr>rctx := Some h\<rparr>), w')))
         | _ \<Rightarrow> Inl BufferOverflow))"

text \<open>The two consumer constructors differ in how they copy the name: the IP variant skips
  an empty or too long name, the Unix socket variant copies any name.\<close>

definition smemCreateConsumerWithName ::
    "(string \<Rightarrow> int \<Rightarrow> 'w redisConnect) \<Rightarrow> (nat \<Rightarrow> 'w \<Rightarrow> 'w) \<Rightarrow> bool \<Rightarrow>
     string \<Rightarrow> int \<Rightarrow> string \<Rightarrow> string option \<Rightarrow> 'w \<Rightarrow> c_fault + smemContext option \<times> 'w" where
  "smemCreateConsumerWithName connect redisFree mem ip p ch nm w =
     (if \<not> mem then Inr (None, w)
      else
        (case (strcpy_buf 128 ip, strcpy_buf 128 ch) of
           (Inr u, Inr n) \<Rightarrow>
             (let c = smemContext_calloc\<lparr>ctype := SMEM_CLIENT_TYPE_CONSUMER,
                        connect_type := SMEM_CONNECT_TYPE_IP, url := u, channel := n,
                        cname := (case nm of None \<Rightarrow> [] | Some s \<Rightarrow>
                                    if length s > 0 \<and> length s < 128 then s else []),
                        port := p\<rparr>
              in (case smemCreateConnect (connect ip p) redisFree w of
                    (None, w1) \<Rightarrow> Inr (Some (c\<lparr>err := SMEM_ERROR_REDIS_CONNECT\<rparr>), w1)
                  | (Some h, w1) \<Rightarrow>
                      (case smemCreateConnect (connect ip p) redisFree w1 of
                         (None, w2) \<Rightarrow> Inr (None, w2)
                       | (Some h2, w2) \<Rightarrow>
                           Inr (Some (c\<lparr>rctx := Some h, rctx2 := Some h2, queue_head := 0,
                                        queue_end := 0, async_tid := True\<rparr>), w2))))
         | _ \<Rightarrow> Inl BufferOverflow))"

definition smemCreateConsumer ::
    "(string \<Rightarrow> int \<Rightarrow> 'w redisConnect) \<Rightarrow> (nat \<Rightarrow> 'w \<Rightarrow> 'w) \<Rightarrow> bool \<Rightarrow>
     string \<Rightarrow> int \<Rightarrow> string \<Rightarrow> 'w \<Rightarrow> c_fault + smemContext option \<times> 'w" where
  "smemCreateConsumer connect redisFree mem ip p ch w =
     smemCreateConsumerWithName connect redisFree mem ip p ch None w"

definition smemCreateConsumerUnixWithName ::
    "(string \<Rightarrow> 'w redisConnect) \<Rightarrow> (nat \<Rightarrow> 'w \<Rightarrow> 'w) \<Rightarrow> bool \<Rightarrow>
     string \<Rightarrow> string \<Rightarrow> string option \<Rightarrow> 'w \<Rightarrow> c_fault + smemContext option \<times> 'w" where
  "smemCreateConsumerUnixWithName connect redisFree mem path ch nm w =
     (if \<not> mem then Inr (None, w)
      else
        (case (strcpy_buf 128 path, strcpy_buf 128 ch,
               case nm of None \<Rightarrow> Inr [] | Some s \<Rightarrow> strcpy_buf 128 s) of
           (Inr u, Inr n, Inr cn) \<Rightarrow>
             (let c = smemContext_calloc\<lparr>ctype := SMEM_CLIENT_TYPE_CONSUMER,
                        connect_type := SMEM_CONNECT_TYPE_UNIX, url := u, channel := n, cname := cn\<rparr>
              in (case smemCreateConnect (connect path) redisFree w of
                    (None, w1) \<Rightarrow> Inr (Some (c\<lparr>err := SMEM_ERROR_REDIS_CONNECT\<rparr>), w1)
                  | (Some h, w1) \<Rightarrow>
                      (case smemCreateConnect (connect path) redisFree w1 of
                         (None, w2) \<Rightarrow> Inr (None, w2)
                       | (Some h2, w2) \<Rightarrow>
                           Inr (Some (c\<lparr>rctx := Some h, rctx2 := Some h2, queue_head := 0,
                                        queue_end := 0, async_tid := True\<rparr>), w2))))
         | _ \<Rightarrow> Inl BufferOverflow))"

definition smemCreateConsumerUnix ::
    "(string \<Rightarrow> 'w redisConnect) \<Rightarrow> (nat \<Rightarrow> 'w \<Rightarrow> 'w) \<Rightarrow> bool \<Rightarrow>
     string \<Rightarrow> string \<Rightarrow> 'w \<Rightarrow> c_fault + smemContext option \<times> 'w" where
  "smemCreateConsumerUnix connect redisFree mem path ch w =
     smemCreateConsumerUnixWithName connect redisFree mem path ch None w"

text \<open>The commands the subscriber thread issues once its connection is up: the name, when
  there is one, and the subscription.\<close>

definition smemAsyncThread :: "(nat \<times> bool) option \<Rightarrow> smemContext \<Rightarrow> smemContext \<times> string list list" where
  "smemAsyncThread conn c =
     (case conn of
        None \<Rightarrow> (c\<lparr>rasync := None\<rparr>, [])
      | Some (h, e) \<Rightarrow>
          (c\<lparr>rasync := Some h\<rparr>,
           if e then []
           else (if length (cname c) > 0 then [[''CLIENT'', ''SETNAME'', cname c]] else []) @
                [[''SMEMSUBSCRIBE'', channel c]]))"

definition smemSetName :: "smemContext option \<Rightarrow> string \<Rightarrow> int \<times> string list list" where
  "smemSetName co nm =
     (case co of
        None \<Rightarrow> (SMEM_ERROR_INPUT_POINTER, [])
      | Some c \<Rightarrow>
          (case rasync c of
             None \<Rightarrow> (SMEM_ERROR_INPUT_POINTER, [])
           | Some _ \<Rightarrow> (0, [[''SETNAME'', nm]])))"

section \<open>The ring buffer as a bounded queue\<close>

text \<open>The contract of a bounded first-in first-out queue, and what a client that issues a
  sequence of operations observes: the same as on the abstract list of capacity \<open>cap\<close>.\<close>

datatype 'a queue_op = Push 'a | Pop

datatype 'a queue_out = Pushed bool | Popped "'a option"

fun spec_run :: "nat \<Rightarrow> 'a queue_op list \<Rightarrow> 'a list \<Rightarrow> 'a queue_out list \<times> 'a list" where
  "spec_run cap [] xs = ([], xs)"
| "spec_run cap (Push a # ops) xs =
     (let ok = length xs < cap
      in apfst ((#) (Pushed ok)) (spec_run cap ops (if ok then xs @ [a] else xs)))"
| "spec_run cap (Pop # ops) xs =
     apfst ((#) (Popped (if xs = [] then None else Some (hd xs)))) (spec_run cap ops (tl xs))"

fun impl_run ::
    "('q \<Rightarrow> 'a \<Rightarrow> bool \<times> 'q) \<Rightarrow> ('q \<Rightarrow> 'a option \<times> 'q) \<Rightarrow> 'a queue_op list \<Rightarrow> 'q \<Rightarrow>
     'a queue_out list \<times> 'q" where
  "impl_run push pop [] q = ([], q)"
| "impl_run push pop (Push a # ops) q =
     (case push q a of (ok, q') \<Rightarrow> apfst ((#) (Pushed ok)) (impl_run push pop ops q'))"
| "impl_run push pop (Pop # ops) q =
     (case pop q of (r, q') \<Rightarrow> apfst ((#) (Popped r)) (impl_run push pop ops q'))"

locale bounded_fifo =
  fixes push :: "'q \<Rightarrow> 'a \<Rightarrow> bool \<times> 'q"
    and pop :: "'q \<Rightarrow> 'a option \<times> 'q"
    and contents :: "'q \<Rightarrow> 'a list"
    and inv :: "'q \<Rightarrow> bool"
    and cap :: nat
  assumes push_status: "inv q \<Longrightarrow> fst (push q a) \<longleftrightarrow> length (contents q) < cap"
    and push_contents: "inv q \<Longrightarrow> contents (snd (push q a)) =
      (if length (contents q) < cap then contents q @ [a] else contents q)"
    and push_inv: "inv q \<Longrightarrow> inv (snd (push q a))"
    and pop_status: "inv q \<Longrightarrow> fst (pop q) = (if contents q = [] then None else Some (hd (contents q)))"
    and pop_contents: "inv q \<Longrightarrow> contents (snd (pop q)) = tl (contents q)"
    and pop_inv: "inv q \<Longrightarrow> inv (snd (pop q))"
begin

lemma run_refines:
  "inv q \<Longrightarrow>
     fst (impl_run push pop ops q) = fst (spec_run cap ops (contents q)) \<and>
     contents (snd (impl_run push pop ops q)) = snd (spec_run cap ops (contents q)) \<and>
     inv (snd (impl_run push pop ops q))"
proof (induction ops arbitrary: q)
  case Nil
  then show ?case by simp
next
  case (Cons op ops)
  show ?case
  proof (cases op)
    case (Push a)
    obtain ok q' where p: "push q a = (ok, q')" by (cases "push q a")
    with Cons.prems have "ok \<longleftrightarrow> length (contents q) < cap"
      and "contents q' = (if length (contents q) < cap then contents q @ [a] else contents q)"
      and "inv q'"
      using push_status [of q a] push_contents [of q a] push_inv [of q a] by auto
    with Cons.IH [of q'] p Push show ?thesis by (simp add: Let_def)
  next
    case Pop
    obtain r q' where p: "pop q = (r, q')" by (cases "pop q")
    with Cons.prems have "r = (if contents q = [] then None else Some (hd (contents q)))"
      and "contents q' = tl (contents q)" and "inv q'"
      using pop_status [of q] pop_contents [of q] pop_inv [of q] by auto
    with Cons.IH [of q'] p Pop show ?thesis by simp
  qed
qed

end

subsection \<open>Rings\<close>

definition ring_len :: "nat \<Rightarrow> nat \<Rightarrow> nat \<Rightarrow> nat" where
  "ring_len n h e = (if h \<le> e then e - h else e + n - h)"

definition ring_list :: "'a list \<Rightarrow> nat \<Rightarrow> nat \<Rightarrow> 'a list" where
  "ring_list b h e = map (\<lambda>i. b ! ((h + i) mod length b)) [0..<ring_len (length b) h e]"

lemma length_ring_list [simp]: "length (ring_list b h e) = ring_len (length b) h e"
  by (simp add: ring_list_def)

lemma ring_len_less: "h < n \<Longrightarrow> e < n \<Longrightarrow> ring_len n h e < n"
  by (auto simp: ring_len_def)

lemma ring_index_end: "h < n \<Longrightarrow> e < n \<Longrightarrow> (h + ring_len n h e) mod n = e"
  by (auto simp: ring_len_def)

lemma ring_index_inside:
  "h < n \<Longrightarrow> e < n \<Longrightarrow> i < ring_len n h e \<Longrightarrow> (h + i) mod n \<noteq> e"
proof (cases "h + i < n")
  case False
  assume a: "h < n" "e < n" "i < ring_len n h e"
  with False have "(h + i) mod n = h + i - n"
    by (simp add: le_mod_geq ring_len_def split: if_splits)
  with False a show ?thesis by (simp add: ring_len_def split: if_splits)
qed (auto simp: ring_len_def split: if_splits)

lemma ring_len_push:
  "h < n \<Longrightarrow> e < n \<Longrightarrow> Suc e mod n \<noteq> h \<Longrightarrow> ring_len n h (Suc e mod n) = Suc (ring_len n h e)"
  by (cases "Suc e = n") (auto simp: ring_len_def split: if_splits)

lemma ring_full_iff:
  "h < n \<Longrightarrow> e < n \<Longrightarrow> Suc e mod n = h \<longleftrightarrow> ring_len n h e = n - 1"
  by (cases "Suc e = n") (auto simp: ring_len_def split: if_splits)

lemma ring_list_push:
  assumes "h < length b" "e < length b" "Suc e mod length b \<noteq> h"
  shows "ring_list (b[e := v]) h (Suc e mod length b) = ring_list b h e @ [v]"
proof -
  have "map (\<lambda>i. b[e := v] ! ((h + i) mod length b)) [0..<ring_len (length b) h e] = ring_list b h e"
    using assms(1,2) by (auto simp: ring_list_def dest: ring_index_inside)
  with assms show ?thesis
    by (simp add: ring_list_def ring_len_push ring_index_end)
qed

lemma ring_list_write:
  assumes "h < length b" "e < length b"
  shows "ring_list (b[e := v]) h e = ring_list b h e"
  using assms by (auto simp: ring_list_def dest: ring_index_inside)

lemma ring_len_pop:
  "h < n \<Longrightarrow> e < n \<Longrightarrow> h \<noteq> e \<Longrightarrow> ring_len n h e = Suc (ring_len n (Suc h mod n) e)"
  by (cases "Suc h = n") (auto simp: ring_len_def split: if_splits)

lemma ring_list_pop:
  assumes "h < length b" "e < length b" "h \<noteq> e"
  shows "ring_list b h e = b ! h # ring_list b (Suc h mod length b) e"
proof -
  have "[0..<ring_len (length b) h e] = 0 # map Suc [0..<ring_len (length b) (Suc h mod length b) e]"
    using assms by (simp add: ring_len_pop upt_conv_Cons map_Suc_upt del: upt_Suc)
  moreover have "(h + Suc i) mod length b = (Suc h mod length b + i) mod length b" for i
    by (simp add: mod_add_left_eq)
  ultimately show ?thesis using assms by (simp add: ring_list_def)
qed

lemma ring_list_empty_iff:
  "h < length b \<Longrightarrow> e < length b \<Longrightarrow> ring_list b h e = [] \<longleftrightarrow> h = e"
  by (auto simp: ring_list_def ring_len_def)

subsection \<open>The interpretation\<close>

definition queue_wf :: "smemContext \<Rightarrow> bool" where
  "queue_wf c \<longleftrightarrow> length (queue c) = 256 \<and> 0 \<le> queue_head c \<and> queue_head c < 256 \<and>
                 0 \<le> queue_end c \<and> queue_end c < 256"

definition queue_contents :: "smemContext \<Rightarrow> int list" where
  "queue_contents c = ring_list (queue c) (nat (queue_head c)) (nat (queue_end c))"

definition push_b :: "smemContext \<Rightarrow> int \<Rightarrow> bool \<times> smemContext" where
  "push_b c v = apfst (\<lambda>r. r \<noteq> 0) (smem_queue_push c v)"

definition pop_b :: "smemContext \<Rightarrow> int option \<times> smemContext" where
  "pop_b c = (case smem_queue_pop c (-1) of (r, v, c') \<Rightarrow> (if r \<noteq> 0 then Some v else None, c'))"

lemma nat_inc_smod: "0 \<le> x \<Longrightarrow> nat ((x + 1) smod 256) = Suc (nat x) mod 256"
  by (simp add: smod_nonneg nat_mod_distrib Suc_nat_eq_nat_zadd1 add.commute)

lemma inc_smod_range: "0 \<le> x \<Longrightarrow> 0 \<le> (x + 1) smod 256 \<and> (x + 1) smod 256 < (256 :: int)"
  by (simp add: smod_nonneg)

lemma queue_wfD:
  assumes "queue_wf c"
  shows "length (queue c) = 256" "nat (queue_head c) < 256" "nat (queue_end c) < 256"
    "0 \<le> queue_head c" "0 \<le> queue_end c"
  using assms by (auto simp: queue_wf_def)

lemma queue_full_iff: "queue_wf c \<Longrightarrow> queue_full c \<longleftrightarrow> Suc (nat (queue_end c)) mod 256 = nat (queue_head c)"
  using nat_inc_smod [of "queue_end c"] inc_smod_range [of "queue_end c"]
  by (auto simp: queue_wf_def queue_full_def simp flip: nat_inc_smod)

lemma queue_full_contents:
  assumes "queue_wf c"
  shows "queue_full c \<longleftrightarrow> length (queue_contents c) = 255"
  using queue_wfD [OF assms] ring_full_iff [of "nat (queue_head c)" 256 "nat (queue_end c)"]
  by (simp add: queue_full_iff [OF assms] queue_contents_def)

lemma queue_contents_bound:
  assumes "queue_wf c"
  shows "length (queue_contents c) \<le> 255"
  using queue_wfD [OF assms] ring_len_less [of "nat (queue_head c)" 256 "nat (queue_end c)"]
  by (simp add: queue_contents_def)

lemma queue_empty_contents:
  assumes "queue_wf c"
  shows "queue_empty c \<longleftrightarrow> queue_contents c = []"
  using queue_wfD [OF assms] ring_list_empty_iff [of "nat (queue_head c)" "queue c" "nat (queue_end c)"]
  by (auto simp: queue_empty_def queue_contents_def)

lemma push_wf: "queue_wf c \<Longrightarrow> queue_wf (snd (smem_queue_push c v))"
  using inc_smod_range [of "queue_end c"]
  by (auto simp: smem_queue_push_def queue_wf_def Let_def)

lemma pop_wf: "queue_wf c \<Longrightarrow> queue_wf (snd (snd (smem_queue_pop c v)))"
  using inc_smod_range [of "queue_head c"]
  by (auto simp: smem_queue_pop_def queue_wf_def)

lemma commit_contents:
  assumes "queue_wf c" "\<not> queue_full c"
  shows "queue_contents (c\<lparr>queue := (queue c)[nat (queue_end c) := v],
            queue_end := (queue_end c + 1) smod 256\<rparr>) = queue_contents c @ [v]"
  using queue_wfD [OF assms(1)] assms(2)
    ring_list_push [of "nat (queue_head c)" "queue c" "nat (queue_end c)" v]
  by (simp add: queue_contents_def queue_full_iff [OF assms(1)] nat_inc_smod)

lemma push_contents_eq:
  assumes "queue_wf c"
  shows "queue_contents (snd (smem_queue_push c v)) =
     (if length (queue_contents c) < 255 then queue_contents c @ [v] else queue_contents c)"
  using assms commit_contents [of c v] queue_contents_bound [of c]
  by (auto simp: smem_queue_push_def Let_def queue_full_contents)

lemma pop_contents_eq:
  assumes "queue_wf c" "\<not> queue_empty c"
  shows "queue_contents c = queue c ! nat (queue_head c) #
           queue_contents (c\<lparr>queue_head := (queue_head c + 1) smod 256\<rparr>)"
proof -
  have "nat (queue_head c) \<noteq> nat (queue_end c)"
    using queue_wfD [OF assms(1)] assms(2) by (simp add: queue_empty_def)
  then show ?thesis
    using queue_wfD [OF assms(1)]
      ring_list_pop [of "nat (queue_head c)" "queue c" "nat (queue_end c)"]
    by (simp add: queue_contents_def nat_inc_smod)
qed

lemma pop_b_eq:
  "pop_b c = (if queue_empty c then (None, c)
              else (Some (queue c ! nat (queue_head c)),
                    c\<lparr>queue_head := (queue_head c + 1) smod 256\<rparr>))"
  by (simp add: pop_b_def smem_queue_pop_def)

lemma step_wf:
  assumes "queue_wf c"
  shows "queue_wf (c\<lparr>queue_end := (queue_end c + 1) smod 256\<rparr>)"
    "queue_wf (c\<lparr>queue_head := (queue_head c + 1) smod 256\<rparr>)"
    "queue_wf (c\<lparr>queue := (queue c)[i := v]\<rparr>)"
  using assms inc_smod_range [of "queue_end c"] inc_smod_range [of "queue_head c"]
  by (simp_all add: queue_wf_def)

interpretation ring: bounded_fifo push_b pop_b queue_contents queue_wf 255
proof
  fix c :: smemContext and v :: int
  assume wf: "queue_wf c"
  show "fst (push_b c v) \<longleftrightarrow> length (queue_contents c) < 255"
    using wf queue_contents_bound [of c]
    by (auto simp: push_b_def smem_queue_push_def Let_def queue_full_contents)
  show "queue_contents (snd (push_b c v)) =
      (if length (queue_contents c) < 255 then queue_contents c @ [v] else queue_contents c)"
    using wf push_contents_eq by (simp add: push_b_def)
  show "queue_wf (snd (push_b c v))"
    using wf by (simp add: push_b_def push_wf)
  show "fst (pop_b c) = (if queue_contents c = [] then None else Some (hd (queue_contents c)))"
  proof (cases "queue_empty c")
    case False
    show ?thesis by (subst pop_contents_eq [OF wf False])+ (simp add: pop_b_eq False)
  qed (simp add: pop_b_eq flip: queue_empty_contents [OF wf])
  show "queue_contents (snd (pop_b c)) = tl (queue_contents c)"
  proof (cases "queue_empty c")
    case False
    show ?thesis by (subst pop_contents_eq [OF wf False]) (simp add: pop_b_eq False)
  qed (simp add: pop_b_eq queue_empty_contents [OF wf])
  show "queue_wf (snd (pop_b c))"
    using wf by (simp add: pop_b_eq step_wf)
qed

section \<open>Two threads on one ring\<close>

text \<open>
  The subscriber thread pushes while the consumer pops, without a lock. The step relation
  splits each function at its accesses to the shared fields: the test, the slot access and
  the index update. \<open>pushed\<close> and \<open>popped\<close> record the values of completed calls.
\<close>

datatype prod_pc = PIdle | PChecked int | PWritten int

datatype cons_pc = CIdle | CChecked | CRead int

record spsc =
  ctx :: smemContext
  ppc :: prod_pc
  cpc :: cons_pc
  pushed :: "int list"
  popped :: "int list"

inductive spsc_step :: "spsc \<Rightarrow> spsc \<Rightarrow> bool" where
  p_full: "ppc s = PIdle \<Longrightarrow> queue_full (ctx s) \<Longrightarrow> spsc_step s s"
| p_check: "ppc s = PIdle \<Longrightarrow> \<not> queue_full (ctx s) \<Longrightarrow> spsc_step s (s\<lparr>ppc := PChecked v\<rparr>)"
| p_write: "ppc s = PChecked v \<Longrightarrow> c = ctx s \<Longrightarrow>
    spsc_step s (s\<lparr>ctx := c\<lparr>queue := (queue c)[nat (queue_end c) := v]\<rparr>, ppc := PWritten v\<rparr>)"
| p_commit: "ppc s = PWritten v \<Longrightarrow> c = ctx s \<Longrightarrow>
    spsc_step s (s\<lparr>ctx := c\<lparr>queue_end := (queue_end c + 1) smod SMEM_MAX_QUEUE_LENGTH\<rparr>,
                   ppc := PIdle, pushed := pushed s @ [v]\<rparr>)"
| c_empty: "cpc s = CIdle \<Longrightarrow> queue_empty (ctx s) \<Longrightarrow> spsc_step s s"
| c_check: "cpc s = CIdle \<Longrightarrow> \<not> queue_empty (ctx s) \<Longrightarrow> spsc_step s (s\<lparr>cpc := CChecked\<rparr>)"
| c_read: "cpc s = CChecked \<Longrightarrow> c = ctx s \<Longrightarrow>
    spsc_step s (s\<lparr>cpc := CRead (queue c ! nat (queue_head c))\<rparr>)"
| c_commit: "cpc s = CRead v \<Longrightarrow> c = ctx s \<Longrightarrow>
    spsc_step s (s\<lparr>ctx := c\<lparr>queue_head := (queue_head c + 1) smod SMEM_MAX_QUEUE_LENGTH\<rparr>,
                   cpc := CIdle, popped := popped s @ [v]\<rparr>)"

inductive_cases spsc_stepE: "spsc_step s t"

definition spsc_init :: "smemContext \<Rightarrow> spsc" where
  "spsc_init c = \<lparr>ctx = c, ppc = PIdle, cpc = CIdle, pushed = [], popped = []\<rparr>"

inductive spsc_reachable :: "smemContext \<Rightarrow> spsc \<Rightarrow> bool" for c0 where
  start: "spsc_reachable c0 (spsc_init c0)"
| step: "spsc_reachable c0 s \<Longrightarrow> spsc_step s t \<Longrightarrow> spsc_reachable c0 t"

definition spsc_inv :: "spsc \<Rightarrow> bool" where
  "spsc_inv s \<longleftrightarrow>
     queue_wf (ctx s) \<and>
     pushed s = popped s @ queue_contents (ctx s) \<and>
     (ppc s \<noteq> PIdle \<longrightarrow> \<not> queue_full (ctx s)) \<and>
     (\<forall>v. ppc s = PWritten v \<longrightarrow> queue (ctx s) ! nat (queue_end (ctx s)) = v) \<and>
     (cpc s \<noteq> CIdle \<longrightarrow> \<not> queue_empty (ctx s)) \<and>
     (\<forall>v. cpc s = CRead v \<longrightarrow> queue (ctx s) ! nat (queue_head (ctx s)) = v)"

lemma full_head_step:
  assumes "queue_wf c" "\<not> queue_empty c"
  shows "\<not> queue_full (c\<lparr>queue_head := (queue_head c + 1) smod 256\<rparr>)"
proof -
  let ?c = "c\<lparr>queue_head := (queue_head c + 1) smod 256\<rparr>"
  have wf: "queue_wf ?c" using assms inc_smod_range [of "queue_head c"] by (simp add: queue_wf_def)
  have "length (queue_contents c) = Suc (length (queue_contents ?c))"
    by (subst pop_contents_eq [OF assms]) simp
  with queue_contents_bound [OF assms(1)] show ?thesis
    by (simp add: queue_full_contents [OF wf])
qed

lemma write_slot:
  assumes "queue_wf c" "\<not> queue_empty c"
  shows "(queue c)[nat (queue_end c) := v] ! nat (queue_head c) = queue c ! nat (queue_head c)"
  using assms by (auto simp: queue_wf_def queue_empty_def nth_list_update_neq)

lemma write_contents:
  "queue_wf c \<Longrightarrow> queue_contents (c\<lparr>queue := (queue c)[nat (queue_end c) := v]\<rparr>) = queue_contents c"
  using queue_wfD [of c] by (simp add: queue_contents_def ring_list_write)

lemma end_step_contents:
  assumes "queue_wf c" "\<not> queue_full c" "queue c ! nat (queue_end c) = v"
  shows "queue_contents (c\<lparr>queue_end := (queue_end c + 1) smod 256\<rparr>) = queue_contents c @ [v]"
  using commit_contents [OF assms(1,2), of v]
  by (simp add: queue_contents_def flip: assms(3))

lemma spsc_step_inv: "spsc_step s t \<Longrightarrow> spsc_inv s \<Longrightarrow> spsc_inv t"
proof (induction rule: spsc_step.induct)
  case (p_write s v c)
  then show ?case
    by (auto simp: spsc_inv_def write_contents step_wf write_slot queue_full_def queue_empty_def queue_wfD)
next
  case (p_commit s v c)
  let ?c = "c\<lparr>queue_end := (queue_end c + 1) smod 256\<rparr>"
  from p_commit have wf: "queue_wf c" and nf: "\<not> queue_full c" and slot: "queue c ! nat (queue_end c) = v"
    by (auto simp: spsc_inv_def)
  have "queue_contents ?c = queue_contents c @ [v]" by (rule end_step_contents [OF wf nf slot])
  moreover from this have "\<not> queue_empty ?c" using queue_empty_contents [OF step_wf(1) [OF wf]] by simp
  ultimately show ?case using p_commit step_wf(1) [OF wf] by (auto simp: spsc_inv_def)
next
  case (c_commit s v c)
  let ?c = "c\<lparr>queue_head := (queue_head c + 1) smod 256\<rparr>"
  from c_commit have wf: "queue_wf c" and ne: "\<not> queue_empty c" and slot: "queue c ! nat (queue_head c) = v"
    by (auto simp: spsc_inv_def)
  have "queue_contents c = v # queue_contents ?c" using pop_contents_eq [OF wf ne] slot by simp
  with c_commit full_head_step [OF wf ne] step_wf(2) [OF wf] show ?case
    by (auto simp: spsc_inv_def)
qed (auto simp: spsc_inv_def)

lemma spsc_reachable_inv:
  "spsc_reachable c0 s \<Longrightarrow> queue_wf c0 \<Longrightarrow> queue_empty c0 \<Longrightarrow> spsc_inv s"
proof (induction rule: spsc_reachable.induct)
  case start
  then show ?case by (simp add: spsc_inv_def spsc_init_def queue_empty_contents)
next
  case (step s t)
  then show ?case by (blast intro: spsc_step_inv)
qed

section \<open>Properties\<close>

lemma calloc_wf: "queue_wf smemContext_calloc" "queue_empty smemContext_calloc"
  by (simp_all add: queue_wf_def queue_empty_def smemContext_calloc_def)

text \<open>C28: any sequence of pushes and pops on the ring of \<open>smem_client.c\<close> returns what a
  first-in first-out queue of capacity 255 returns, and leaves the same contents.\<close>

theorem ring_refines_fifo:
  assumes "queue_wf c"
  shows "fst (impl_run push_b pop_b ops c) = fst (spec_run 255 ops (queue_contents c)) \<and>
         queue_contents (snd (impl_run push_b pop_b ops c)) = snd (spec_run 255 ops (queue_contents c))"
  using ring.run_refines [OF assms, of ops] by simp

theorem ring_refines_fifo_witness:
  "fst (impl_run push_b pop_b [Push 7, Push 8, Pop] smemContext_calloc) =
     [Pushed True, Pushed True, Popped (Some 7)]"
proof -
  have "queue_contents smemContext_calloc = []"
    using calloc_wf queue_empty_contents by blast
  then show ?thesis
    using ring_refines_fifo [OF calloc_wf(1), of "[Push 7, Push 8, Pop]"] by (simp add: Let_def)
qed

text \<open>C29: however the subscriber thread's pushes and the consumer's pops interleave, at the
  granularity of their shared accesses, the values popped so far are a prefix of the values
  pushed, what lies between is the ring's contents, and no more than 255 ids are queued.\<close>

theorem spsc_fifo:
  assumes "spsc_reachable c0 s" and "queue_wf c0" and "queue_empty c0"
  shows "pushed s = popped s @ queue_contents (ctx s) \<and> length (queue_contents (ctx s)) \<le> 255"
  using spsc_reachable_inv [OF assms] queue_contents_bound by (simp add: spsc_inv_def)

theorem spsc_fifo_witness:
  "\<exists>s. spsc_reachable smemContext_calloc s \<and> pushed s = [9] \<and> popped s = [] \<and>
       queue_contents (ctx s) = [9]"
proof -
  let ?s0 = "spsc_init smemContext_calloc"
  let ?s1 = "?s0\<lparr>ppc := PChecked 9\<rparr>"
  let ?c2 = "(ctx ?s1)\<lparr>queue := (queue (ctx ?s1))[nat (queue_end (ctx ?s1)) := 9]\<rparr>"
  let ?s2 = "?s1\<lparr>ctx := ?c2, ppc := PWritten 9\<rparr>"
  let ?s3 = "?s2\<lparr>ctx := (ctx ?s2)\<lparr>queue_end := (queue_end (ctx ?s2) + 1) smod 256\<rparr>,
                 ppc := PIdle, pushed := pushed ?s2 @ [9]\<rparr>"
  have "\<not> queue_full smemContext_calloc"
    by (simp add: queue_full_def smemContext_calloc_def signed_modulo_int_def signed_divide_int_def)
  then have "spsc_step ?s0 ?s1" by (intro spsc_step.p_check) (simp_all add: spsc_init_def)
  moreover have "spsc_step ?s1 ?s2" by (rule spsc_step.p_write) simp_all
  moreover have "spsc_step ?s2 ?s3" by (rule spsc_step.p_commit) simp_all
  ultimately have r: "spsc_reachable smemContext_calloc ?s3"
    by (meson spsc_reachable.start spsc_reachable.step)
  have "pushed ?s3 = [9]" and "popped ?s3 = []" by (simp_all add: spsc_init_def)
  with spsc_fifo [OF r calloc_wf] r show ?thesis by (intro exI [of _ ?s3]) simp
qed

lemma dropWhile_isspace_dec: "dropWhile isspace (dec_int i) = dec_int i"
proof -
  have "\<not> isspace (hd (dec_int i))"
  proof (cases "i < 0")
    case True
    then show ?thesis by (simp add: dec_int_def isspace_def)
  next
    case False
    have "is_dec (hd (dec_nat (nat i)))"
      using dec_nat_digits [of "nat i"] dec_nat_nonempty [of "nat i"] by (cases "dec_nat (nat i)") auto
    with False show ?thesis by (simp add: dec_int_def isspace_def is_dec_def)
  qed
  then show ?thesis by (cases "dec_int i") auto
qed

lemma takeWhile_dec_nat [simp]: "takeWhile is_dec (dec_nat n) = dec_nat n"
  using dec_nat_digits [of n] by (simp add: takeWhile_eq_all_conv list_all_iff)

lemma atoi_dec_int: "int_range i \<Longrightarrow> atoi (dec_int i) = i"
proof -
  assume r: "int_range i"
  have hd: "hd (dec_nat n) \<noteq> CHR ''+''" for n
    using dec_nat_digits [of n] dec_nat_nonempty [of n]
    by (cases "dec_nat n") (auto simp: is_dec_def)
  have "max (- (2 ^ 63)) (min (2 ^ 63 - 1) i) = i" using r by (auto simp: int_range_def)
  with r hd show ?thesis
    by (cases "i < 0") (simp_all add: atoi_def dropWhile_isspace_dec Let_def, simp_all add: dec_int_def c_int_id)
qed

text \<open>A positive id that a producer publishes in decimal reaches the end of the
  consumer's queue unchanged when the queue has room.\<close>

theorem published_id_is_queued:
  assumes "queue_wf cx" and "\<not> queue_full cx" and "0 < i" and "int_range i"
  shows "\<exists>cx'. subCallback redisCommand cx
           (Some (REDIS_REPLY_ARRAY [e0, e1, REDIS_REPLY_STRING (dec_int i)])) w = Inr (cx', w) \<and>
           queue_wf cx' \<and> queue_contents cx' = queue_contents cx @ [i]"
proof -
  obtain cx' where p: "smem_queue_push cx i = (1, cx')"
    using assms(2) by (simp add: smem_queue_push_def Let_def)
  have "queue_wf cx'" using push_wf [OF assms(1), of i] p by simp
  moreover have "queue_contents cx' = queue_contents cx @ [i]"
    using push_contents_eq [OF assms(1), of i] p assms(2) queue_contents_bound [OF assms(1)]
    by (auto simp: queue_full_contents [OF assms(1)] split: if_splits)
  ultimately show ?thesis
    using p assms(3,4) by (simp add: subCallback_def atoi_dec_int)
qed

theorem published_id_is_queued_witness:
  "\<exists>cx'. subCallback (\<lambda>h cmd w. (None, w)) smemContext_calloc
     (Some (REDIS_REPLY_ARRAY [REDIS_REPLY_NIL, REDIS_REPLY_NIL, REDIS_REPLY_STRING (dec_int 4242)])) () =
       Inr (cx', ()) \<and> queue_wf cx' \<and>
     queue_contents cx' = queue_contents smemContext_calloc @ [4242]"
proof -
  have "\<not> queue_full smemContext_calloc"
    by (simp add: queue_full_def smemContext_calloc_def signed_modulo_int_def signed_divide_int_def)
  then show ?thesis
    by (intro published_id_is_queued calloc_wf) (simp_all add: int_range_def)
qed

text \<open>The acknowledgement of a subscription, whose third element is the integer count of
  subscribed channels, is taken for a published id: a first subscription queues the id 1.\<close>

theorem subscribe_ack_is_queued:
  assumes "queue_wf cx" and "\<not> queue_full cx"
  shows "\<exists>cx'. subCallback redisCommand cx
           (Some (REDIS_REPLY_ARRAY [REDIS_REPLY_STRING ''subscribe'', REDIS_REPLY_STRING ch,
                                     REDIS_REPLY_INTEGER 1])) w = Inr (cx', w) \<and>
           queue_contents cx' = queue_contents cx @ [1]"
proof -
  obtain cx' where p: "smem_queue_push cx 1 = (1, cx')"
    using assms(2) by (simp add: smem_queue_push_def Let_def)
  have "queue_contents cx' = queue_contents cx @ [1]"
    using push_contents_eq [OF assms(1), of 1] p assms(2) queue_contents_bound [OF assms(1)]
    by (auto simp: queue_full_contents [OF assms(1)] split: if_splits)
  then show ?thesis
    using p by (simp add: subCallback_def c_int_def)
qed

theorem subscribe_ack_is_queued_witness:
  "\<exists>cx'. subCallback (\<lambda>h cmd w. (None, w)) smemContext_calloc
     (Some (REDIS_REPLY_ARRAY [REDIS_REPLY_STRING ''subscribe'', REDIS_REPLY_STRING ''cam'',
                               REDIS_REPLY_INTEGER 1])) () = Inr (cx', ()) \<and>
     queue_contents cx' = queue_contents smemContext_calloc @ [1]"
proof -
  have "\<not> queue_full smemContext_calloc"
    by (simp add: queue_full_def smemContext_calloc_def signed_modulo_int_def signed_divide_int_def)
  then show ?thesis by (intro subscribe_ack_is_queued calloc_wf)
qed

text \<open>For a name of 128 bytes or more, the Unix socket constructor overruns the context's
  name field, where the IP constructor given the same name drops it and carries on.\<close>

theorem unix_consumer_name_overflow:
  assumes "length path < 128" and "length ip < 128" and "length ch < 128" and "128 \<le> length nm"
  shows "smemCreateConsumerUnixWithName connectU redisFree True path ch (Some nm) w = Inl BufferOverflow \<and>
         (\<exists>r. smemCreateConsumerWithName connectI redisFree True ip p ch (Some nm) w = Inr r)"
proof
  show "smemCreateConsumerUnixWithName connectU redisFree True path ch (Some nm) w = Inl BufferOverflow"
    using assms by (simp add: smemCreateConsumerUnixWithName_def strcpy_buf_def)
  show "\<exists>r. smemCreateConsumerWithName connectI redisFree True ip p ch (Some nm) w = Inr r"
    using assms by (simp add: smemCreateConsumerWithName_def strcpy_buf_def Let_def split: option.splits prod.splits)
qed

theorem unix_consumer_name_overflow_witness:
  "smemCreateConsumerUnixWithName (\<lambda>u w. (Some (1, False), w)) (\<lambda>h w. w) True
      ''/tmp/r.sock'' ''cam'' (Some (replicate 200 (CHR ''x''))) () = Inl BufferOverflow \<and>
   (\<exists>r. smemCreateConsumerWithName (\<lambda>u p w. (Some (1, False), w)) (\<lambda>h w. w) True
      ''127.0.0.1'' 6379 ''cam'' (Some (replicate 200 (CHR ''x''))) () = Inr r)"
  by (rule unix_consumer_name_overflow) simp_all

end
