(* ===== verification/Redis_Wire.thy ===== *)
theory Redis_Wire
  imports Redis_Dispatch Smem_Client
begin

text \<open>
  The requests of the client library \<open>smem_client.c\<close> on their way through the server: the bytes of a request
  in the query buffer are parsed, looked up, checked and run by the loop of \<open>networking.c\<close>, with the command
  processor of \<open>server.c\<close> as the function it calls.
\<close>

section \<open>Parsing keeps the rest of the client\<close>

definition parsed :: "client \<Rightarrow> client" where
  "parsed c = c\<lparr>argv := [], querybuf := [], bulklen := 0, multibulklen := 0, reqtype := 0\<rparr>"

lemma parsed_fields:
  assumes "parsed c' = parsed c"
  shows "flags c' = flags c" "name c' = name c" "authenticated c' = authenticated c" "client_channels c' = client_channels c"
    "out_bytes c' = out_bytes c" "writable c' = writable c"
  using arg_cong [OF assms, of flags] arg_cong [OF assms, of name] arg_cong [OF assms, of authenticated] arg_cong [OF assms, of client_channels]
    arg_cong [OF assms, of buf] arg_cong [OF assms, of reply] arg_cong [OF assms, of fd]
  by (simp_all add: parsed_def out_bytes_def writable_def accepts_def)

lemma mb_loop_parsed:
  "parsed (snd (snd (mb_loop S n pos c))) = parsed c"
  "parsed (snd (snd (mb_arg S n pos c))) = parsed c"
proof (induction S n pos c and S n pos c rule: mb_loop_mb_arg.induct)
  case (2 S n pos c)
  then show ?case by (auto simp: mb_loop.simps(2) Let_def parsed_def split: option.split)
next
  case (3 S n pos c)
  then show ?case by (auto simp: mb_arg.simps parsed_def)
qed simp

lemma processMultibulkBuffer_parsed: "parsed (snd (processMultibulkBuffer S c)) = parsed c"
proof -
  have q: "parsed (c\<lparr>querybuf := x\<rparr>) = parsed c" "parsed (c\<lparr>multibulklen := m\<rparr>) = parsed c" for c x m by (simp_all add: parsed_def)
  have "parsed (snd (mb_args S pos c)) = parsed c" for pos c
    using mb_loop_parsed(1) [of S "nat (multibulklen c)" pos c] by (auto simp: mb_args_def q split: prod.split)
  then show ?thesis by (auto simp: processMultibulkBuffer_def q split: option.split)
qed

section \<open>One turn of the input loop\<close>

text \<open>A connection on which the loop can take the next request: the parser is at the start of a request, and
  nothing holds the client back.\<close>

definition idle :: "nat \<Rightarrow> server \<Rightarrow> 'k sys \<Rightarrow> bool" where
  "idle c s x \<longleftrightarrow>
     argv (clients s c) = [] \<and> reqtype (clients s c) = 0 \<and> multibulklen (clients s c) = 0 \<and> bulklen (clients s c) = -1 \<and>
     (\<forall>b\<in>{CLIENT_BLOCKED, CLIENT_CLOSE_AFTER_REPLY, CLIENT_MULTI}. \<not> bit (flags (clients s c)) b) \<and>
     \<not> clients_paused x \<and> monitors (nt x) = [] \<and> current_client s = Some c"

lemma with_sv_simps [simp]:
  "sv (with_sv s x) = s" "with_sv s (with_sv t x) = with_sv s x" "with_sv (sv x) x = x" "shm (with_sv s x) = shm x"
  "clients_paused (with_sv s x) = clients_paused x" "monitors (nt (with_sv s x)) = monitors (nt x)" "dirty (with_sv s x) = dirty x"
  by (simp_all add: with_sv_def on_sv_def on_nt_def on_srv_def)

lemma parse_request_mbulk:
  assumes S: "reads_lengths S" and c: "argv cl = []" "reqtype cl = 0" "multibulklen cl = 0" "bulklen cl = -1"
    and q: "querybuf cl = mbulk args @ rest" "length (querybuf cl) \<le> PROTO_INLINE_MAX_SIZE" and ok: "request_ok args"
  obtains cl' where "parse_request (sys_penv E S split) cl = (POk, cl')" "argv cl' = args" "querybuf cl' = rest" "parsed cl' = parsed cl"
proof -
  let ?c = "cl\<lparr>reqtype := PROTO_REQ_MULTIBULK\<rparr>"
  have p: "parse_request (sys_penv E S split) cl = processMultibulkBuffer S ?c"
    using c(2) q(1) by (simp add: parse_request_def sys_penv_def mbulk_def)
  obtain st cl' where r: "processMultibulkBuffer S ?c = (st, cl')" by (cases "processMultibulkBuffer S ?c")
  have "awaits ?c [] args rest" using c q by (simp add: awaits_def)
  moreover have "room ?c 0" using q(2) by (simp add: room_def)
  ultimately have "st = POk" "argv cl' = args" "querybuf cl' = rest" using process_good [OF S _ _ ok r, of "[]"] by auto
  moreover have "parsed cl' = parsed cl" using processMultibulkBuffer_parsed [of S ?c] r by (simp add: parsed_def)
  ultimately show ?thesis using that p r by simp
qed

lemma input_request:
  assumes S: "reads_lengths S" and i: "idle c s x" and ok: "request_ok args"
    and q: "querybuf (clients s c) = mbulk args @ rest" "length (querybuf (clients s c)) \<le> PROTO_INLINE_MAX_SIZE"
  obtains cl where "argv cl = args" "querybuf cl = rest" "parsed cl = parsed (clients s c)"
    and "\<And>y n. processCommand_sys E c (with_sv (update_client c (\<lambda>_. cl) s) x) = (True, y) \<Longrightarrow> current_client (sv y) = Some c \<Longrightarrow>
      input_loop (sys_penv E S split) (Suc n) c (s, x) = input_loop (sys_penv E S split) n c (update_client c resetClient (sv y), y)"
proof -
  from i have c: "argv (clients s c) = []" "reqtype (clients s c) = 0" "multibulklen (clients s c) = 0" "bulklen (clients s c) = -1"
    "\<not> bit (flags (clients s c)) CLIENT_BLOCKED" "\<not> bit (flags (clients s c)) CLIENT_CLOSE_AFTER_REPLY" "\<not> clients_paused x"
    by (simp_all add: idle_def)
  from parse_request_mbulk [OF S c(1-4) q ok, where E = E and split = split] obtain cl where
    cl: "parse_request (sys_penv E S split) (clients s c) = (POk, cl)" "argv cl = args" "querybuf cl = rest" "parsed cl = parsed (clients s c)" .
  have ne: "querybuf (clients s c) \<noteq> []" "args \<noteq> []" using q(1) ok by (simp_all add: mbulk_def request_ok_def)
  have p: "clientsArePaused (sys_penv E S split) (s, x) = (False, s, with_sv s x)"
    using c(7) by (simp add: sys_penv_def clientsArePaused_sys_def)
  have pc: "processCommand (sys_penv E S split) c (t, z) = (case processCommand_sys E c (with_sv t z) of (b, y) \<Rightarrow> (b, sv y, y))" for t z
    by (simp add: sys_penv_def)
  show ?thesis
  proof (rule that [OF cl(2-4)])
    fix y n assume y: "processCommand_sys E c (with_sv (update_client c (\<lambda>_. cl) s) x) = (True, y)" "current_client (sv y) = Some c"
    show "input_loop (sys_penv E S split) (Suc n) c (s, x) = input_loop (sys_penv E S split) n c (update_client c resetClient (sv y), y)"
      using ne c(5,6) cl(1,2) y by (cases "bit (flags (clients s c)) CLIENT_SLAVE") (simp_all add: p pc)
  qed
qed

section \<open>What a request leaves of its connection\<close>

text \<open>Running the request of \<open>c\<close> leaves its query buffer and its flags alone, except for those of the output side and of
  the publish/subscribe mode, and the connection remains the current one.\<close>

definition attends :: "nat \<Rightarrow> server \<Rightarrow> server \<Rightarrow> bool" where
  "attends c s t \<longleftrightarrow>
     querybuf (clients t c) = querybuf (clients s c) \<and> authenticated (clients t c) = authenticated (clients s c) \<and>
     current_client t = current_client s \<and>
     (\<forall>b. b \<notin> {CLIENT_PENDING_WRITE, CLIENT_CLOSE_ASAP, CLIENT_PUBSUB} \<longrightarrow> bit (flags (clients t c)) b = bit (flags (clients s c)) b)"

lemma attends_trans: "attends c s t \<Longrightarrow> attends c t u \<Longrightarrow> attends c s u"
  by (simp add: attends_def)

lemma attends_out: "out_frame s t \<Longrightarrow> attends c s t"
  by (simp add: attends_def out_frame_def same_control_def)

text \<open>A command that works on the server only and leaves the connection as above, run by \<open>call\<close>: the outcome is that of
  the command on a server that differs from the present one in flags of the client.\<close>

definition same_tables :: "nat \<Rightarrow> server \<Rightarrow> server \<Rightarrow> bool" where
  "same_tables c s t \<longleftrightarrow>
     smempubsub_channels t = smempubsub_channels s \<and> (\<forall>d. client_channels (clients t d) = client_channels (clients s d)) \<and>
     name (clients t c) = name (clients s c) \<and> argv (clients t c) = argv (clients s c) \<and>
     bit (flags (clients t c)) CLIENT_PUBSUB = bit (flags (clients s c)) CLIENT_PUBSUB"

lemma call_attends:
  assumes E: "plain_env E" and m: "monitors (nt st) = []" and r: "run_proc E (cproc e) c (call_ready c st) = on_sv f (call_ready c st)"
    and a: "\<And>s. attends c s (f s)"
  shows "attends c (sv st) (sv (call E fl e c st))" "clients_paused (call E fl e c st) = clients_paused st"
    "monitors (nt (call E fl e c st)) = []" "shm (call E fl e c st) = shm st"
    "\<exists>s. same_tables c (sv st) s \<and> same_tables c (f s) (sv (call E fl e c st))"
proof -
  let ?s = "update_client c (\<lambda>cl. cl\<lparr>flags := clear_call_flags (flags cl)\<rparr>) (sv st)"
  have b: "bit (flags (clients (f ?s) c)) b \<longleftrightarrow> bit (flags (client_of st c)) b \<and> b \<notin> call_bits"
    if "b \<notin> {CLIENT_PENDING_WRITE, CLIENT_CLOSE_ASAP, CLIENT_PUBSUB}" for b
    using a [of ?s] that by (simp add: attends_def clear_call_flags_bit)
  have q: "quiet c (call_ready c st) (run_proc E (cproc e) c (call_ready c st))"
    unfolding r quiet_def using b by (simp add: clear_call_flags_bit)
  note k = call_quiet [OF E m q, where fl = fl, unfolded r]
  show "clients_paused (call E fl e c st) = clients_paused st" "monitors (nt (call E fl e c st)) = []" "shm (call E fl e c st) = shm st"
    using k m by simp_all
  show "attends c (sv st) (sv (call E fl e c st))"
    using k(1) a [of ?s] b by (auto simp: attends_def restore_call_flags_bit)
  show "\<exists>s. same_tables c (sv st) s \<and> same_tables c (f s) (sv (call E fl e c st))"
    using k(1) by (intro exI [of _ ?s]) (simp add: same_tables_def restore_call_flags_bit clear_call_flags_bit)
qed

section \<open>The requests of the library\<close>

text \<open>A connection that may run commands.\<close>

definition admitted :: "'k srv_env \<Rightarrow> nat \<Rightarrow> 'k sys \<Rightarrow> bool" where
  "admitted E c st \<longleftrightarrow> authorised E c st \<and> \<not> bit (flags (client_of st c)) CLIENT_PUBSUB \<and> \<not> bit (flags (client_of st c)) CLIENT_MULTI \<and>
     monitors (nt st) = []"

lemma table_not_quit:
  assumes e: "e \<in> set redisCommandTable" and n: "map tolower n = cmd_name e"
  shows "\<not> strcaseeq n ''quit''"
proof -
  have "list_all (\<lambda>n. CHR 0x00 \<notin> set n \<and> n \<noteq> ''quit'') (names redisCommandTable)" by code_simp
  then have c: "CHR 0x00 \<notin> set (cmd_name e)" "cmd_name e \<noteq> ''quit''" using e by (auto simp: list_all_iff names_def)
  have "map tolower (cstr ''quit'') = ''quit''" by code_simp
  then show ?thesis using cstr_lower [OF n c(1)] c(2) n by (simp add: strcaseeq_def)
qed

text \<open>The contract between the command processor and a command of the table that works on the server and the client that
  sent it: with arguments that it \<open>takes\<close> the command does \<open>f\<close>, and it leaves its connection able to go on. Every such
  command is run by a request of its name, in any mixture of cases, on an admitted connection.\<close>

locale server_command =
  fixes e :: "Redis_Commands.redisCommand" and takes :: "string list \<Rightarrow> bool" and f :: "'k srv_env \<Rightarrow> nat \<Rightarrow> server \<Rightarrow> server"
  assumes in_table: "e \<in> set redisCommandTable"
    and runs: "takes (argv (client_of x c)) \<Longrightarrow> run_proc E (cproc e) c x = on_sv (f E c) x"
    and attentive: "attends c s (f E c s)"
begin

lemma request:
  assumes E: "plain_env E" and c: "admitted E c st" and a: "argv (client_of st c) = n # args" "takes (n # args)"
    and n: "map tolower n = cmd_name e" "\<not> arity_bad e (Suc (length args))"
  obtains y s where "processCommand_sys E c st = (True, y)" "attends c (sv st) (sv y)" "clients_paused y = clients_paused st"
    "monitors (nt y) = []" "shm y = shm st" "same_tables c (sv st) s" "same_tables c (f E c s) (sv y)"
proof -
  let ?s = "set_cmd c (Some (cmd_name e)) st" and ?e = "snd (row e)"
  have l: "lookupCommand commands (hd (n # args)) = Some ?e" using lookup_commands [OF in_table, of n] n(1) by simp
  have "processCommand_sys E c st = (True, call E CMD_CALL_FULL ?e c ?s)"
    using processCommand_known [OF E _ a(1) _ l] c table_not_quit [OF in_table n(1)] n(2) check_and_exec_runs [OF E, of ?s c ?e]
    by (simp add: admitted_def arity_bad_def)
  moreover have m: "monitors (nt ?s) = []" using c by (simp add: admitted_def)
  moreover have "run_proc E (cproc ?e) c (call_ready c ?s) = on_sv (f E c) (call_ready c ?s)" using runs [of "call_ready c ?s"] a by simp
  note h = call_attends [OF E m this attentive, of CMD_CALL_FULL]
  moreover have "same_tables c (sv st) (sv ?s)" "attends c (sv st) (sv ?s)" by (simp_all add: same_tables_def attends_def)
  moreover from h(5) obtain s where "same_tables c (sv ?s) s" "same_tables c (f E c s) (sv (call E CMD_CALL_FULL ?e c ?s))" by blast
  ultimately show ?thesis using that [of "call E CMD_CALL_FULL ?e c ?s" s] attends_trans [of c "sv st" "sv ?s"] by (simp add: same_tables_def)
qed

end

abbreviation (input) client_entry :: "Redis_Commands.redisCommand" where
  "client_entry \<equiv> entry ''client'' ''clientCommand'' (-2) ''as'' None 0 0 0"

abbreviation (input) subscribe_entry :: "Redis_Commands.redisCommand" where
  "subscribe_entry \<equiv> entry ''smemsubscribe'' ''smemsubscribeCommand'' (-2) ''pslt'' None 0 0 0"

lemma attends_reply:
  "attends c s (addReply A c obj s)" "attends c s (addReplyError A c x s)" "attends c s (addReplyErrorFormat A c x s)"
  "attends c s (addReplyBulk A c obj s)"
  using addReply_appends addReplyError_appends addReplyErrorFormat_appends addReplyBulk_appends by (auto intro!: attends_out appends_out_frame)

lemma attends_rename: "attends c s (addReply A c obj (update_client c (\<lambda>cl. cl\<lparr>name := x\<rparr>) s))"
  by (rule attends_trans [OF _ attends_reply(1)]) (simp add: attends_def)

interpretation setname_cmd: server_command client_entry "\<lambda>args. length args = 3 \<and> map tolower (args ! 1) = ''setname''"
  "\<lambda>E c s. client_setname E c (argv (clients s c) ! 2) s"
proof
  show "client_entry \<in> set redisCommandTable" by (simp add: redisCommandTable_def server_commands_def)
next
  fix x :: "'k sys" and E c
  assume t: "length (argv (client_of x c)) = 3 \<and> map tolower (argv (client_of x c) ! 1) = ''setname''"
  then have "cstr (argv (client_of x c) ! 1) = argv (client_of x c) ! 1" by (intro cstr_lower [of _ "''setname''"]) simp_all
  moreover have "map tolower (cstr ''list'') = ''list''" "map tolower (cstr ''reply'') = ''reply''" "map tolower (cstr ''kill'') = ''kill''"
    "map tolower (cstr ''setname'') = ''setname''" by code_simp+
  ultimately show "run_proc E (cproc client_entry) c x = on_sv ((\<lambda>E c s. client_setname E c (argv (clients s c) ! 2) s) E c) x"
    using t by (simp add: run_proc_def entry_def clientCommand_def Let_def strcaseeq_def on_sv_def on_nt_def on_srv_def)
next
  fix c s and E :: "'k srv_env"
  show "attends c s (client_setname E c (argv (clients s c) ! 2) s)" by (simp add: client_setname_def attends_reply attends_rename)
qed

interpretation echo_cmd: server_command "entry ''echo'' ''echoCommand'' 2 ''F'' None 0 0 0" "\<lambda>_. True" echoCommand
  by unfold_locales (simp_all add: redisCommandTable_def server_commands_def run_proc_def entry_def echoCommand_def attends_reply)

lemma setname_request:
  assumes E: "plain_env E" and c: "admitted E c st" and a: "argv (client_of st c) = [''CLIENT'', ''SETNAME'', nm]"
    and nm: "nm \<noteq> []" "list_all name_char nm"
  obtains y where "processCommand_sys E c st = (True, y)" "attends c (sv st) (sv y)" "clients_paused y = clients_paused st" "admitted E c y"
    "shm y = shm st" "name (client_of y c) = Some nm" "smempubsub_channels (sv y) = smempubsub_channels (sv st)"
    "\<And>d. client_channels (client_of y d) = client_channels (client_of st d)"
proof -
  have w: "map tolower ''CLIENT'' = ''client''" "map tolower ''SETNAME'' = ''setname''" by code_simp+
  have q: "map tolower ''CLIENT'' = cmd_name client_entry" "\<not> arity_bad client_entry (Suc (length [''SETNAME'', nm]))"
    using w by (simp_all add: entry_def arity_bad_def)
  have t: "length (''CLIENT'' # [''SETNAME'', nm]) = 3 \<and> map tolower ((''CLIENT'' # [''SETNAME'', nm]) ! 1) = ''setname''" using w(2) by simp
  from setname_cmd.request [OF E c a t q] obtain y s where
    y: "processCommand_sys E c st = (True, y)" "attends c (sv st) (sv y)" "clients_paused y = clients_paused st" "monitors (nt y) = []" "shm y = shm st"
    and s: "same_tables c (sv st) s" "same_tables c (client_setname E c (argv (clients s c) ! 2) s) (sv y)" by metis
  let ?f = "\<lambda>s. addReply (al E) c shared_ok (update_client c (\<lambda>cl. cl\<lparr>name := Some nm\<rparr>) s)"
  have f: "client_setname E c (argv (clients s c) ! 2) s = ?f s" using s(1) a nm by (simp add: client_setname_def same_tables_def)
  have o: "out_frame (update_client c (\<lambda>cl. cl\<lparr>name := Some nm\<rparr>) s) (?f s)" using addReply_appends by (rule appends_out_frame)
  have o': "name (clients (?f s) c) = Some nm" "smempubsub_channels (?f s) = smempubsub_channels s"
    "client_channels (clients (?f s) d) = client_channels (clients s d)" "bit (flags (clients (?f s) c)) CLIENT_PUBSUB = bit (flags (clients s c)) CLIENT_PUBSUB" for d
    using o by (simp_all add: out_frame_def same_control_def)
  have "admitted E c y" using c y(2,4) s o'(4) unfolding f by (simp add: admitted_def authorised_def attends_def same_tables_def)
  with that [of y] y s o' show ?thesis unfolding f by (simp add: same_tables_def)
qed

lemma attends_subscribe: "attends c s (smemsubscribeCommand A c s)"
proof -
  have one: "attends c s (snd (smempubsubSubscribeChannel A c ch s))" for ch s
  proof -
    obtain n s1 where u: "smempubsubSubscribeChannel A c ch s = (n, s1)" by (cases "smempubsubSubscribeChannel A c ch s")
    from subscribe_reply_frame [OF u] obtain s0 where s0: "subscribe_core c ch s = (n, s0)" "out_frame s0 s1" .
    have "attends c s s0" using s0(1) by (auto simp: subscribe_core_def add_channel_def Let_def attends_def split: if_splits)
    from attends_trans [OF this attends_out [OF s0(2)]] show ?thesis by (simp add: u)
  qed
  have "attends c s (fold (\<lambda>channel s. snd (smempubsubSubscribeChannel A c channel s)) xs s)" for xs
  proof (induction xs arbitrary: s)
    case (Cons x xs)
    from attends_trans [OF one Cons.IH] show ?case by simp
  qed (simp add: attends_def)
  moreover have "attends c t (update_client c (\<lambda>cl. cl\<lparr>flags := set_bit CLIENT_PUBSUB (flags cl)\<rparr>) t)" for t by (simp add: attends_def)
  ultimately show ?thesis unfolding smemsubscribeCommand_def by (rule attends_trans)
qed

interpretation subscribe_cmd: server_command subscribe_entry "\<lambda>_. True" "\<lambda>E. smemsubscribeCommand (al E)"
  by unfold_locales (simp_all add: redisCommandTable_def smem_commands_def run_proc_def entry_def attends_subscribe)

lemma subs_ok_same: "same_tables c s t \<Longrightarrow> subs_ok t = subs_ok s"
  by (simp add: same_tables_def subs_ok_def)

lemma subscribe_request:
  assumes E: "plain_env E" and c: "admitted E c st" and a: "argv (client_of st c) = [''SMEMSUBSCRIBE'', ch]" and ok: "subs_ok (sv st)"
  obtains y where "processCommand_sys E c st = (True, y)" "attends c (sv st) (sv y)" "shm y = shm st" "subs_ok (sv y)"
    "name (client_of y c) = name (client_of st c)" "bit (flags (client_of y c)) CLIENT_PUBSUB"
    "client_channels (client_of y c) = insert ch (client_channels (client_of st c))"
    "\<And>d. d \<noteq> c \<Longrightarrow> client_channels (client_of y d) = client_channels (client_of st d)"
proof -
  let ?f = "smemsubscribeCommand (al E) c"
  have w: "map tolower ''SMEMSUBSCRIBE'' = ''smemsubscribe''" by code_simp
  have q: "map tolower ''SMEMSUBSCRIBE'' = cmd_name subscribe_entry" "\<not> arity_bad subscribe_entry (Suc (length [ch]))"
    using w by (simp_all add: entry_def arity_bad_def)
  from subscribe_cmd.request [OF E c a TrueI q] obtain y s where
    y: "processCommand_sys E c st = (True, y)" "attends c (sv st) (sv y)" "shm y = shm st"
    and s: "same_tables c (sv st) s" "same_tables c (?f s) (sv y)" by metis
  have s1: "subs_ok s" "argv (clients s c) = [''SMEMSUBSCRIBE'', ch]" using subs_ok_same [OF s(1)] ok s(1) a by (simp_all add: same_tables_def)
  have fold1: "?f s = update_client c (\<lambda>cl. cl\<lparr>flags := set_bit CLIENT_PUBSUB (flags cl)\<rparr>) (snd (smempubsubSubscribeChannel (al E) c ch s))"
    using s1(2) by (simp add: smemsubscribeCommand_def)
  obtain n s2 where u: "smempubsubSubscribeChannel (al E) c ch s = (n, s2)" by (cases "smempubsubSubscribeChannel (al E) c ch s")
  from subscribe_reply_frame [OF u] obtain s0 where s0: "subscribe_core c ch s = (n, s0)" "out_frame s0 s2" .
  note U = subscribe_core_cases [OF s1(1) s0(1)]
  have nm: "name (clients s0 c) = name (clients s c)"
    using s0(1) by (auto simp: subscribe_core_def add_channel_def Let_def split: if_splits)
  have "subs_ok (?f s)" using U(1) subs_ok_out_frame [OF s0(2)] unfolding fold1 u by (simp add: subs_ok_def)
  then have "subs_ok (sv y)" using subs_ok_same [OF s(2)] by simp
  moreover have "name (clients (?f s) c) = name (clients s c)" "bit (flags (clients (?f s) c)) CLIENT_PUBSUB"
    "client_channels (clients (?f s) d) = (if d = c then insert ch (client_channels (clients s c)) else client_channels (clients s d))" for d
    unfolding fold1 u using U(3) out_frame_simps(10,11) [OF s0(2)] nm by simp_all
  ultimately show ?thesis using that [of y] y s by (simp add: same_tables_def)
qed

section \<open>From bytes to tables\<close>

lemma resetClient_keeps:
  "name (resetClient cl) = name cl" "client_channels (resetClient cl) = client_channels cl" "authenticated (resetClient cl) = authenticated cl"
  "argv (resetClient cl) = []" "reqtype (resetClient cl) = 0" "multibulklen (resetClient cl) = 0" "bulklen (resetClient cl) = -1"
  "b \<notin> {CLIENT_ASKING, CLIENT_REPLY_SKIP, CLIENT_REPLY_SKIP_NEXT} \<Longrightarrow> bit (flags (resetClient cl)) b = bit (flags cl) b"
  by (auto simp: resetClient_def freeClientArgv_def Let_def)

lemma idle_again:
  assumes i: "idle c s x" and a: "parsed cl = parsed (clients s c)" "attends c (update_client c (\<lambda>_. cl) s) (sv y)"
    and y: "clients_paused y = clients_paused x" "monitors (nt y) = []"
  shows "idle c (update_client c resetClient (sv y)) y" "current_client (sv y) = Some c"
    "querybuf (clients (update_client c resetClient (sv y)) c) = querybuf cl"
proof -
  have f: "flags cl = flags (clients s c)" using parsed_fields(1) [OF a(1)] .
  show "current_client (sv y) = Some c" using i a(2) by (simp add: attends_def idle_def)
  with i a(2) y f show "idle c (update_client c resetClient (sv y)) y"
    by (simp add: idle_def attends_def resetClient_keeps)
  show "querybuf (clients (update_client c resetClient (sv y)) c) = querybuf cl" using a(2) by (simp add: attends_def)
qed

lemma mbulk_bound: "a \<in> set args \<Longrightarrow> length a \<le> length (mbulk args)" "length args \<le> length (mbulk args)"
proof -
  have "length a \<le> length (concat (map bulk args))" if "a \<in> set args" using that by (induction args) (auto simp: bulk_def)
  then show "a \<in> set args \<Longrightarrow> length a \<le> length (mbulk args)" by (simp add: mbulk_def)
  have "length args \<le> length (concat (map bulk args))" by (induction args) (auto simp: bulk_def)
  then show "length args \<le> length (mbulk args)" by (simp add: mbulk_def)
qed

lemma request_ok_small:
  assumes "args \<noteq> []" "length (mbulk args @ rest) \<le> PROTO_INLINE_MAX_SIZE"
  shows "request_ok args"
proof -
  have "length a \<le> 512 * 1024 * 1024" if "a \<in> set args" for a using mbulk_bound(1) [OF that] assms(2) by simp
  moreover have "length args \<le> 1024 * 1024" using mbulk_bound(2) [of args] assms(2) by simp
  ultimately show ?thesis using assms(1) by (simp add: request_ok_def)
qed

text \<open>The requests of the subscriber thread, one after the other.\<close>

lemma subscribe_bytes:
  assumes E: "plain_env E" and S: "reads_lengths S" and i: "idle c s x" and ok: "subs_ok s"
    and a: "requirepass E = None \<or> authenticated (clients s c)" "\<not> bit (flags (clients s c)) CLIENT_PUBSUB"
    and q: "querybuf (clients s c) = mbulk [''SMEMSUBSCRIBE'', ch]" "length (querybuf (clients s c)) \<le> PROTO_INLINE_MAX_SIZE"
  shows "\<exists>t y. input_loop (sys_penv E S split) (Suc (Suc n)) c (s, x) = Some (t, y) \<and> subs_ok t \<and> querybuf (clients t c) = [] \<and>
    name (clients t c) = name (clients s c) \<and> bit (flags (clients t c)) CLIENT_PUBSUB \<and>
    client_channels (clients t c) = insert ch (client_channels (clients s c))"
proof -
  let ?r = "[''SMEMSUBSCRIBE'', ch]"
  have q': "querybuf (clients s c) = mbulk ?r @ []" using q(1) by simp
  have "request_ok ?r" by (rule request_ok_small [where rest = "[]"]) (use q in simp_all)
  from input_request [OF S i this q' q(2), where E = E and split = split] obtain cl where cl: "argv cl = ?r" "querybuf cl = []" "parsed cl = parsed (clients s c)"
    and turn: "\<And>y n. processCommand_sys E c (with_sv (update_client c (\<lambda>_. cl) s) x) = (True, y) \<Longrightarrow> current_client (sv y) = Some c \<Longrightarrow>
      input_loop (sys_penv E S split) (Suc n) c (s, x) = input_loop (sys_penv E S split) n c (update_client c resetClient (sv y), y)" by metis
  let ?st = "with_sv (update_client c (\<lambda>_. cl) s) x"
  note pf = parsed_fields [OF cl(3)]
  have ad: "admitted E c ?st" using i a pf by (simp add: admitted_def authorised_def idle_def)
  have "subs_ok (sv ?st)" using ok pf(4) by (simp add: subs_ok_def)
  moreover have "argv (client_of ?st c) = ?r" using cl(1) by simp
  ultimately obtain y where
    y: "processCommand_sys E c ?st = (True, y)" "attends c (sv ?st) (sv y)" "subs_ok (sv y)"
      "name (client_of y c) = name (client_of ?st c)" "bit (flags (client_of y c)) CLIENT_PUBSUB"
      "client_channels (client_of y c) = insert ch (client_channels (client_of ?st c))"
    using subscribe_request [OF E ad] by metis
  have cur: "current_client (sv y) = Some c" using i y(2) by (simp add: attends_def idle_def)
  have e: "querybuf (clients (update_client c resetClient (sv y)) c) = []" using y(2) cl(2) by (simp add: attends_def)
  have "subs_ok (update_client c resetClient (sv y))" using y(3) by (simp add: subs_ok_def resetClient_keeps)
  with turn [OF y(1) cur, of "Suc n"] e y(4-6) pf show ?thesis by (simp add: resetClient_keeps)
qed

lemma setname_bytes:
  assumes E: "plain_env E" and S: "reads_lengths S" and i: "idle c s x" and ok: "subs_ok s"
    and a: "requirepass E = None \<or> authenticated (clients s c)" "\<not> bit (flags (clients s c)) CLIENT_PUBSUB" and nm: "nm \<noteq> []" "list_all name_char nm"
    and q: "querybuf (clients s c) = mbulk [''CLIENT'', ''SETNAME'', nm] @ rest" "length (querybuf (clients s c)) \<le> PROTO_INLINE_MAX_SIZE"
  obtains t y where "\<And>n. input_loop (sys_penv E S split) (Suc n) c (s, x) = input_loop (sys_penv E S split) n c (t, y)" "idle c t y" "subs_ok t"
    "requirepass E = None \<or> authenticated (clients t c)" "\<not> bit (flags (clients t c)) CLIENT_PUBSUB" "querybuf (clients t c) = rest"
    "name (clients t c) = Some nm" "client_channels (clients t c) = client_channels (clients s c)"
proof -
  let ?r = "[''CLIENT'', ''SETNAME'', nm]"
  have "request_ok ?r" by (rule request_ok_small [where rest = rest]) (use q in simp_all)
  from input_request [OF S i this q, where E = E and split = split] obtain cl where cl: "argv cl = ?r" "querybuf cl = rest" "parsed cl = parsed (clients s c)"
    and turn: "\<And>y n. processCommand_sys E c (with_sv (update_client c (\<lambda>_. cl) s) x) = (True, y) \<Longrightarrow> current_client (sv y) = Some c \<Longrightarrow>
      input_loop (sys_penv E S split) (Suc n) c (s, x) = input_loop (sys_penv E S split) n c (update_client c resetClient (sv y), y)" by metis
  let ?st = "with_sv (update_client c (\<lambda>_. cl) s) x"
  note pf = parsed_fields [OF cl(3)]
  have ad: "admitted E c ?st" using i a pf by (simp add: admitted_def authorised_def idle_def)
  moreover have "argv (client_of ?st c) = ?r" using cl(1) by simp
  ultimately obtain y where
    y: "processCommand_sys E c ?st = (True, y)" "attends c (sv ?st) (sv y)" "clients_paused y = clients_paused ?st" "admitted E c y"
      "name (client_of y c) = Some nm" "smempubsub_channels (sv y) = smempubsub_channels (sv ?st)"
      "\<And>d. client_channels (client_of y d) = client_channels (client_of ?st d)"
    using setname_request [OF E _ _ nm] by metis
  have "monitors (nt y) = []" using y(4) by (simp add: admitted_def)
  note again = idle_again [OF i cl(3) _ _ this, simplified, OF y(2,3) [simplified]]
  have "subs_ok (update_client c resetClient (sv y))" using ok y(6,7) pf(4) by (simp add: subs_ok_def resetClient_keeps)
  with that [OF turn [OF y(1) again(2)] again(1)] y(4,5,7) again(3) cl(2) pf(4) show ?thesis
    by (simp add: resetClient_keeps admitted_def authorised_def)
qed

text \<open>The request of \<open>smemSetName\<close> names no command.\<close>

definition setname_refusal :: string where
  "setname_refusal = ''-ERR unknown command '' @ [CHR 0x27] @ ''SETNAME'' @ [CHR 0x27] @ crlf"

definition set_none :: "nat \<Rightarrow> server \<Rightarrow> server" where
  "set_none c s = update_client c (\<lambda>cl. cl\<lparr>cmd := None\<rparr>) s"

lemma setname_unknown:
  assumes E: "plain_env E" "marks_transactions E" and m: "\<not> bit (flags (client_of st c)) CLIENT_MULTI"
    and a: "argv (client_of st c) = [''SETNAME'', nm]"
  obtains y where "processCommand_sys E c st = (True, y)" "shm y = shm st" "appends c setname_refusal (set_none c (sv st)) (sv y)"
proof -
  let ?m = "''unknown command '' @ [CHR 0x27] @ cstr ''SETNAME'' @ [CHR 0x27]"
  have w: "map tolower ''SETNAME'' = ''setname''" "\<not> strcaseeq ''SETNAME'' ''quit''" "cstr ''SETNAME'' = ''SETNAME''" by code_simp+
  have "''setname'' \<notin> set (names redisCommandTable)" by code_simp
  then have "lookupCommand commands ''SETNAME'' = None" by (intro lookup_unknown) (simp only: w(1) not_False_eq_True)
  then have p: "processCommand_sys E c st = (True, on_sv (addReplyErrorFormat (al E) c ?m) (set_cmd c None st))"
    using E m a w(2) by (simp add: processCommand_sys_def refuse_def marks_transactions_def plain_env_def)
  have "map (\<lambda>ch. if ch = CHR 0x0D \<or> ch = CHR 0x0A then CHR '' '' else ch) ?m = ?m" unfolding w(3) by code_simp
  then have "appends c setname_refusal s (addReplyErrorFormat (al E) c ?m s)" for s
    using addReplyErrorFormat_appends [of c ?m s "al E"] w(3) by (simp add: setname_refusal_def)
  with that [OF p] show ?thesis by (simp add: set_none_def)
qed

text \<open>What the subscriber thread sends when its connection is up, found in the query buffer.\<close>

lemma thread_requests_run:
  assumes E: "plain_env E" and S: "reads_lengths S" and i: "idle c (s\<lparr>current_client := Some c\<rparr>) x" and ok: "subs_ok s"
    and a: "requirepass E = None \<or> authenticated (clients s c)" "\<not> bit (flags (clients s c)) CLIENT_PUBSUB"
    and t: "smemAsyncThread (Some (h, False)) cx = (cx', reqs)" "list_all name_char (cname cx)"
    and q: "querybuf (clients s c) = concat (map mbulk reqs)" "length (querybuf (clients s c)) \<le> PROTO_INLINE_MAX_SIZE"
  shows "\<exists>s' x' l. processInputBuffer (sys_penv E S split) (3 + n) c (s, x) = Some (s', x') \<and> subs_ok s' \<and> querybuf (clients s' c) = [] \<and>
    name (clients s' c) = (if cname cx = [] then name (clients s c) else Some (cname cx)) \<and> bit (flags (clients s' c)) CLIENT_PUBSUB \<and>
    client_channels (clients s' c) = insert (channel cx) (client_channels (clients s c)) \<and>
    smempubsub_channels s' (channel cx) = Some l \<and> c \<in> set l"
proof -
  let ?s = "s\<lparr>current_client := Some c\<rparr>" and ?E = "sys_penv E S split" and ?sub = "[''SMEMSUBSCRIBE'', channel cx]"
  have ok': "subs_ok ?s" using ok by (simp add: subs_ok_def)
  have reqs: "reqs = (if cname cx = [] then [] else [[''CLIENT'', ''SETNAME'', cname cx]]) @ [?sub]"
    using t(1) by (cases "cname cx = []") (simp_all add: smemAsyncThread_def)
  have three: "3 + n = Suc (Suc (Suc n))" by simp
  have "\<exists>t y. input_loop ?E (3 + n) c (?s, x) = Some (t, y) \<and> subs_ok t \<and> querybuf (clients t c) = [] \<and>
      name (clients t c) = (if cname cx = [] then name (clients s c) else Some (cname cx)) \<and> bit (flags (clients t c)) CLIENT_PUBSUB \<and>
      client_channels (clients t c) = insert (channel cx) (client_channels (clients s c))"
  proof (cases "cname cx = []")
    case True
    then have "querybuf (clients ?s c) = mbulk ?sub" using reqs q(1) by simp
    from subscribe_bytes [OF E S i ok' _ _ this, of split "Suc n"] a q(2) True show ?thesis unfolding three by (simp del: input_loop.simps)
  next
    case False
    then have "querybuf (clients ?s c) = mbulk [''CLIENT'', ''SETNAME'', cname cx] @ mbulk ?sub" using reqs q(1) by simp
    moreover have "requirepass E = None \<or> authenticated (clients ?s c)" "\<not> bit (flags (clients ?s c)) CLIENT_PUBSUB"
      "length (querybuf (clients ?s c)) \<le> PROTO_INLINE_MAX_SIZE" using a q(2) by simp_all
    ultimately obtain u y where
      u: "\<And>n. input_loop ?E (Suc n) c (?s, x) = input_loop ?E n c (u, y)" "idle c u y" "subs_ok u"
        "requirepass E = None \<or> authenticated (clients u c)" "\<not> bit (flags (clients u c)) CLIENT_PUBSUB" "querybuf (clients u c) = mbulk ?sub"
        "name (clients u c) = Some (cname cx)" "client_channels (clients u c) = client_channels (clients ?s c)"
      using setname_bytes [OF E S i ok' _ _ False t(2), where split = split] by metis
    have "length (querybuf (clients u c)) \<le> PROTO_INLINE_MAX_SIZE" using u(6) q reqs False by simp
    from subscribe_bytes [OF E S u(2-6) this, of split n] u(1,7,8) False show ?thesis unfolding three by (simp del: input_loop.simps)
  qed
  then obtain t y where r: "input_loop ?E (3 + n) c (?s, x) = Some (t, y)" "subs_ok t" "querybuf (clients t c) = []"
    "name (clients t c) = (if cname cx = [] then name (clients s c) else Some (cname cx))" "bit (flags (clients t c)) CLIENT_PUBSUB"
    "client_channels (clients t c) = insert (channel cx) (client_channels (clients s c))" by blast
  obtain l where "smempubsub_channels t (channel cx) = Some l" "c \<in> set l" using subs_okD(3) [OF r(2), of "channel cx" c] r(6) by auto
  with r show ?thesis by (simp add: processInputBuffer_def subs_ok_def)
qed

section \<open>Properties\<close>

text \<open>The one client of the example has sent some bytes.\<close>

definition demo_bytes :: "string \<Rightarrow> server" where
  "demo_bytes q = update_client 1 (\<lambda>cl. cl\<lparr>querybuf := q\<rparr>) (srv demo_net1)"

lemma demo_bytes_ok:
  "idle 1 ((demo_bytes q)\<lparr>current_client := Some 1\<rparr>) (demo_sys demo_net1)" "subs_ok (demo_bytes q)" "querybuf (clients (demo_bytes q) 1) = q"
  "\<not> bit (flags (clients (demo_bytes q) 1)) CLIENT_PUBSUB" "requirepass demo_srv_env = None" "name (clients (demo_bytes q) 1) = None"
proof -
  note c = demo_net1_client(1)
  show "idle 1 ((demo_bytes q)\<lparr>current_client := Some 1\<rparr>) (demo_sys demo_net1)"
    using c demo_net1_client(3) by (simp add: idle_def demo_bytes_def demo_sys_def new_client_def del: One_nat_def)
  have ch: "client_channels (clients (demo_bytes q) d) = client_channels (clients (srv demo_net1) d)"
    "smempubsub_channels (demo_bytes q) = smempubsub_channels (srv demo_net1)" for d by (simp_all add: demo_bytes_def)
  show "subs_ok (demo_bytes q)" using demo_net_inv(2) by (simp add: subs_ok_def ch net_inv_def chan_inv_def)
  show "querybuf (clients (demo_bytes q) 1) = q" "\<not> bit (flags (clients (demo_bytes q) 1)) CLIENT_PUBSUB" "requirepass demo_srv_env = None"
    "name (clients (demo_bytes q) 1) = None"
    using c by (simp_all add: demo_bytes_def demo_srv_env_def new_client_def del: One_nat_def)
qed

definition demo_context :: smemContext where
  "demo_context = \<lparr>ctype = 0, err = 0, rctx = Some 2, rctx2 = Some 3, rasync = Some 4, async_tid = True, connect_type = 0, url = ''127.0.0.1'', port = 6379,
     channel = ''tv'', cname = ''viewer'', queue = replicate 256 0, queue_head = 0, queue_end = 0\<rparr>"

text \<open>\<open>smemSetName\<close> has no effect: the request \<open>SETNAME\<close> it sends is no command of the server, which answers it
  with an error and leaves the name of the client, its subscriptions and everything else as they were.\<close>

theorem smemSetName_has_no_effect:
  assumes E: "plain_env E" "marks_transactions E" and S: "reads_lengths S" and i: "idle c (s\<lparr>current_client := Some c\<rparr>) x"
    and t: "smemSetName (Some cx) nm = (0, reqs)"
    and q: "querybuf (clients s c) = concat (map mbulk reqs)" "length (querybuf (clients s c)) \<le> PROTO_INLINE_MAX_SIZE"
  shows "\<exists>s' x'. processInputBuffer (sys_penv E S split) (2 + n) c (s, x) = Some (s', x') \<and> shm x' = shm x \<and>
    querybuf (clients s' c) = [] \<and> name (clients s' c) = name (clients s c) \<and> smempubsub_channels s' = smempubsub_channels s \<and>
    client_channels (clients s' c) = client_channels (clients s c) \<and>
    out_bytes (clients s' c) = out_bytes (clients s c) @ (if writable (clients s c) then setname_refusal else [])"
proof -
  let ?s = "s\<lparr>current_client := Some c\<rparr>" and ?E = "sys_penv E S split" and ?r = "[''SETNAME'', nm]"
  have q': "querybuf (clients ?s c) = mbulk ?r @ []" "length (querybuf (clients ?s c)) \<le> PROTO_INLINE_MAX_SIZE"
    using t q by (auto simp: smemSetName_def split: option.splits)
  have "request_ok ?r" by (rule request_ok_small [where rest = "[]"]) (use q' in simp_all)
  from input_request [OF S i this q', where E = E and split = split] obtain cl where
    cl: "argv cl = ?r" "querybuf cl = []" "parsed cl = parsed (clients ?s c)"
    and turn: "\<And>y n. processCommand_sys E c (with_sv (update_client c (\<lambda>_. cl) ?s) x) = (True, y) \<Longrightarrow> current_client (sv y) = Some c \<Longrightarrow>
      input_loop ?E (Suc n) c (?s, x) = input_loop ?E n c (update_client c resetClient (sv y), y)" by metis
  let ?st = "with_sv (update_client c (\<lambda>_. cl) ?s) x"
  note pf = parsed_fields [OF cl(3)]
  have "\<not> bit (flags (client_of ?st c)) CLIENT_MULTI" "argv (client_of ?st c) = ?r" using i pf(1) cl(1) by (simp_all add: idle_def)
  from setname_unknown [OF E this] obtain y where y: "processCommand_sys E c ?st = (True, y)" "shm y = shm x" "appends c setname_refusal (set_none c (sv ?st)) (sv y)" by auto
  note o = appends_out_frame [OF y(3)]
  have cur: "current_client (sv y) = Some c" using out_frame_simps(13) [OF o] by (simp add: set_none_def)
  have e: "querybuf (clients (update_client c resetClient (sv y)) c) = []" using o cl(2) by (simp add: out_frame_def same_control_def set_none_def)
  have w: "writable (clients (set_none c (sv ?st)) c) = writable (clients s c)" "out_bytes (clients (set_none c (sv ?st)) c) = out_bytes (clients s c)"
    using pf(5,6) by (simp_all add: set_none_def writable_def accepts_def out_bytes_def)
  have b: "out_bytes (clients (sv y) c) = out_bytes (clients s c) @ (if writable (clients s c) then setname_refusal else [])"
    using y(3) w by (simp add: appends_def)
  have "2 + n = Suc (Suc n)" by simp
  then have "input_loop ?E (2 + n) c (?s, x) = Some (update_client c resetClient (sv y), y)" using turn [OF y(1) cur, of "Suc n"] e by simp
  moreover have "out_bytes (resetClient cl') = out_bytes cl'" for cl' by (simp add: out_bytes_def resetClient_def freeClientArgv_def Let_def)
  ultimately show ?thesis
    using y(2) e b out_frame_simps(4,10,11) [OF o] pf(2,4) by (simp add: processInputBuffer_def resetClient_keeps set_none_def)
qed

theorem smemSetName_has_no_effect_witness:
  "\<exists>s' x'. processInputBuffer (sys_penv demo_srv_env parse_dec (\<lambda>_. None)) (2 + 0) 1 (demo_bytes (concat (map mbulk [[''SETNAME'', ''viewer'']])), demo_sys demo_net1) =
       Some (s', x') \<and> name (clients s' 1) = None"
proof -
  let ?q = "concat (map mbulk [[''SETNAME'', ''viewer'']])"
  have t: "smemSetName (Some demo_context) ''viewer'' = (0, [[''SETNAME'', ''viewer'']])" by (simp add: smemSetName_def demo_context_def)
  have "length ?q \<le> 200" by code_simp
  then have l: "length (querybuf (clients (demo_bytes ?q) 1)) \<le> PROTO_INLINE_MAX_SIZE" unfolding demo_bytes_ok(3) by linarith
  show ?thesis
    using smemSetName_has_no_effect [OF demo_plain(1,2) reads_lengths_parse_dec demo_bytes_ok(1) t demo_bytes_ok(3) l, where n = 0 and split = "\<lambda>_. None"]
    unfolding demo_bytes_ok(6) by (auto simp del: One_nat_def)
qed

end
