(* ===== verification/Redis_Events.thy ===== *)
theory Redis_Events
  imports Redis_Wire
begin

text \<open>
  The handlers of the event loop in \<open>networking.c\<close>: reading from the socket of a client (\<open>readQueryFromClient\<close>), writing to it
  (\<open>sendReplyToClient\<close>), and the events that are served while the server is busy (\<open>processEventsWhileBlocked\<close>). The results
  of \<open>read\<close> and of \<open>aeProcessEvents\<close> are arguments.
\<close>

section \<open>Reading\<close>

text \<open>What \<open>read\<close> returns: \<open>-1\<close> with \<open>EAGAIN\<close> or another error, \<open>0\<close>, or a number of bytes.\<close>

datatype read_result = ReadAgain | ReadError | ReadEof | ReadBytes string

text \<open>\<open>read\<close> delivers no more bytes than it is asked for, and at least one unless it is asked for none.\<close>

definition posix_read :: "(int \<Rightarrow> read_result) \<Rightarrow> bool" where
  "posix_read rd \<longleftrightarrow> rd 0 = ReadEof \<and> (\<forall>n b. 0 < n \<longrightarrow> rd n = ReadBytes b \<longrightarrow> 0 < length b \<and> int (length b) \<le> n)"

text \<open>The server with the counters that only the handler of read events writes, and what the handler calls.\<close>

record 'k io =
  io_sys :: "'k sys"
  querybuf_peak :: "nat \<Rightarrow> nat"
  reploff :: "nat \<Rightarrow> int"
  stat_net_input_bytes :: int

record 'k io_env =
  srv_of :: "'k srv_env"
  io_string2ll :: "string \<Rightarrow> int option"
  io_sdssplitargs :: "string \<Rightarrow> string list option"
  client_max_querybuf_len :: nat

definition run_input :: "'k io_env \<Rightarrow> nat \<Rightarrow> 'k sys \<Rightarrow> 'k sys option" where
  \<comment> \<open>\<open>processInputBuffer\<close> with as many rounds as the buffer has bytes, and one more\<close>
  "run_input E c st =
     map_option (\<lambda>(s, x). with_sv s x)
       (processInputBuffer (sys_penv (srv_of E) (io_string2ll E) (io_sdssplitargs E)) (Suc (length (querybuf (client_of st c)))) c (sv st, st))"

definition close_client :: "'k io_env \<Rightarrow> nat \<Rightarrow> 'k io \<Rightarrow> 'k io" where
  "close_client E c io = io\<lparr>io_sys := on_nt (freeClient (net_of (srv_of E)) c) (io_sys io)\<rparr>"

definition take_bytes :: "nat \<Rightarrow> string \<Rightarrow> 'k io \<Rightarrow> 'k io" where
  "take_bytes c b io =
     io\<lparr>io_sys := on_sv (\<lambda>s. update_client c (\<lambda>cl. cl\<lparr>querybuf := querybuf cl @ b, lastinteraction := unixtime s\<rparr>) s) (io_sys io),
        reploff := (if bit (flags (client_of (io_sys io) c)) CLIENT_MASTER then (reploff io)(c := reploff io c + int (length b)) else reploff io),
        stat_net_input_bytes := stat_net_input_bytes io + int (length b)\<rparr>"

definition readQueryFromClient :: "'k io_env \<Rightarrow> (int \<Rightarrow> read_result) \<Rightarrow> nat \<Rightarrow> 'k io \<Rightarrow> 'k io option" where
  "readQueryFromClient E rd c io =
     (let cl = client_of (io_sys io) c;
          io1 = io\<lparr>querybuf_peak := (querybuf_peak io)(c := max (querybuf_peak io c) (length (querybuf cl)))\<rparr>
      in case rd (readlen cl) of
           ReadAgain \<Rightarrow> Some io1
         | ReadError \<Rightarrow> Some (close_client E c io1)
         | ReadEof \<Rightarrow> Some (close_client E c io1)
         | ReadBytes b \<Rightarrow>
             (let io2 = take_bytes c b io1
              in if length (querybuf (client_of (io_sys io2) c)) > client_max_querybuf_len E then Some (close_client E c io2)
                 else map_option (\<lambda>st. io2\<lparr>io_sys := st\<rparr>) (run_input E c (io_sys io2))))"

definition sendReplyToClient :: "net_env \<Rightarrow> int list \<Rightarrow> bool \<Rightarrow> nat \<Rightarrow> net \<Rightarrow> net" where
  "sendReplyToClient E ws eagain c n = snd (snd (writeToClient E ws eagain c n))"

section \<open>Serving clients while the server is busy\<close>

text \<open>What the world does in one round: the events \<open>aeProcessEvents\<close> handles, and what the sockets accept.\<close>

record 'k event_round =
  aeProcessEvents :: "'k sys \<Rightarrow> nat \<times> 'k sys"
  round_writes :: "nat \<Rightarrow> int list"
  round_eagain :: "nat \<Rightarrow> bool"
  round_handler_ok :: "nat \<Rightarrow> bool"

fun blocked_rounds :: "net_env \<Rightarrow> 'k event_round list \<Rightarrow> nat \<Rightarrow> 'k sys \<Rightarrow> nat \<times> 'k sys" where
  "blocked_rounds E [] count st = (count, st)"
| "blocked_rounds E (r # rs) count st =
     (case aeProcessEvents r st of
        (e1, st1) \<Rightarrow>
          (case handleClientsWithPendingWrites E (round_writes r) (round_eagain r) (round_handler_ok r) (nt st1) of
             (e2, n2) \<Rightarrow>
               (let events = e1 + e2; st2 = st1\<lparr>nt := n2\<rparr>
                in if events = 0 then (count, st2) else blocked_rounds E rs (count + events) st2)))"

definition processEventsWhileBlocked :: "net_env \<Rightarrow> (nat \<Rightarrow> 'k event_round) \<Rightarrow> 'k sys \<Rightarrow> nat \<times> 'k sys" where
  "processEventsWhileBlocked E rounds st = blocked_rounds E (map rounds [0..<4]) 0 st"

section \<open>Lemmas on read events\<close>

lemma take_bytes_sys:
  "sv (io_sys (take_bytes c b io)) = update_client c (\<lambda>cl. cl\<lparr>querybuf := querybuf cl @ b, lastinteraction := unixtime (sv (io_sys io))\<rparr>) (sv (io_sys io))"
  "io_sys (take_bytes c b io) = on_sv (\<lambda>s. update_client c (\<lambda>cl. cl\<lparr>querybuf := querybuf cl @ b, lastinteraction := unixtime s\<rparr>) s) (io_sys io)"
  by (simp_all add: take_bytes_def on_sv_def on_nt_def)

lemma take_bytes_inv: "net_inv X (nt (io_sys (take_bytes c b io))) = net_inv X (nt (io_sys io))"
proof -
  let ?f = "\<lambda>cl. cl\<lparr>querybuf := querybuf cl @ b, lastinteraction := unixtime (sv (io_sys io))\<rparr>"
  have "nt (io_sys (take_bytes c b io)) = on_srv (update_client c ?f) (nt (io_sys io))"
    by (simp add: take_bytes_def on_sv_def on_nt_def on_srv_def)
  then show ?thesis using net_inv_update [of ?f X c "nt (io_sys io)"] by simp
qed

lemma close_client_sys [simp]: "nt (io_sys (close_client E c io)) = freeClient (net_of (srv_of E)) c (nt (io_sys io))"
  by (simp add: close_client_def on_nt_def)

text \<open>The events on which the handler closes the connection.\<close>

definition read_closes :: "'k io_env \<Rightarrow> (int \<Rightarrow> read_result) \<Rightarrow> client \<Rightarrow> bool" where
  "read_closes E rd cl \<longleftrightarrow>
     (case rd (readlen cl) of ReadAgain \<Rightarrow> False | ReadError \<Rightarrow> True | ReadEof \<Rightarrow> True
      | ReadBytes b \<Rightarrow> length (querybuf cl) + length b > client_max_querybuf_len E)"

lemma read_closes_frees:
  assumes E: "env_ok (net_of (srv_of E))" "\<And>n. \<not> has_master (net_of (srv_of E)) n"
    and n: "net_inv {} (nt (io_sys io))" "c \<in> allocated (sv (io_sys io))" and r: "read_closes E rd (client_of (io_sys io) c)"
  obtains io' where "readQueryFromClient E rd c io = Some io'" "unreferenced c (nt (io_sys io'))" "net_inv {} (nt (io_sys io'))"
    "allocated (sv (io_sys io')) = allocated (sv (io_sys io)) - {c}"
proof -
  have f: "net_inv {} (freeClient (net_of (srv_of E)) c m)" "allocated (srv (freeClient (net_of (srv_of E)) c m)) = allocated (srv m) - {c}"
    "unreferenced c (freeClient (net_of (srv_of E)) c m)" if "net_inv {} m" "c \<in> allocated (srv m)" for m
  proof -
    have "\<not> caches_master (net_of (srv_of E)) c m" using E(2) by (simp add: caches_master_def)
    note g = freeClient_inv [OF E(1) that this]
    show "net_inv {} (freeClient (net_of (srv_of E)) c m)" "allocated (srv (freeClient (net_of (srv_of E)) c m)) = allocated (srv m) - {c}"
      using g by blast+
    show "unreferenced c (freeClient (net_of (srv_of E)) c m)" by (rule freed_unreferenced [OF g(1)]) (simp_all add: g(2))
  qed
  let ?p = "io\<lparr>querybuf_peak := (querybuf_peak io)(c := max (querybuf_peak io c) (length (querybuf (client_of (io_sys io) c))))\<rparr>"
  let ?io1 = "case rd (readlen (client_of (io_sys io) c)) of ReadBytes b \<Rightarrow> take_bytes c b ?p | _ \<Rightarrow> ?p"
  have "readQueryFromClient E rd c io = Some (close_client E c ?io1)"
    using r by (auto simp: read_closes_def readQueryFromClient_def Let_def take_bytes_sys split: read_result.splits)
  moreover have "net_inv {} (nt (io_sys ?io1))" "allocated (sv (io_sys ?io1)) = allocated (sv (io_sys io))"
    using n(1) by (simp_all add: take_bytes_inv take_bytes_sys(1) split: read_result.split)
  ultimately obtain io1 where i: "readQueryFromClient E rd c io = Some (close_client E c io1)" "net_inv {} (nt (io_sys io1))"
    "allocated (sv (io_sys io1)) = allocated (sv (io_sys io))" by metis
  with n(2) f [OF i(2)] that [OF i(1)] show ?thesis by simp
qed

lemma read_processes:
  assumes "rd (readlen (client_of (io_sys io) c)) = ReadBytes b"
    and "length (querybuf (client_of (io_sys io) c)) + length b \<le> client_max_querybuf_len E"
    and "run_input E c (io_sys (take_bytes c b io)) = Some st"
  obtains io' where "readQueryFromClient E rd c io = Some io'" "io_sys io' = st"
    "stat_net_input_bytes io' = stat_net_input_bytes io + int (length b)"
proof -
  define io1 where "io1 = io\<lparr>querybuf_peak := (querybuf_peak io)(c := max (querybuf_peak io c) (length (querybuf (client_of (io_sys io) c))))\<rparr>"
  have s: "io_sys (take_bytes c b io1) = io_sys (take_bytes c b io)" "io_sys io1 = io_sys io"
    "stat_net_input_bytes io1 = stat_net_input_bytes io" by (simp_all add: io1_def take_bytes_def)
  have l: "length (querybuf (client_of (io_sys (take_bytes c b io)) c)) = length (querybuf (client_of (io_sys io) c)) + length b"
    by (simp add: take_bytes_sys)
  have "readQueryFromClient E rd c io = Some ((take_bytes c b io1)\<lparr>io_sys := st\<rparr>)"
    using assms s(1) l by (simp add: readQueryFromClient_def Let_def flip: io1_def)
  from that [OF this] show ?thesis by (simp add: take_bytes_def s(3))
qed

text \<open>While the clients are paused their requests are not looked at.\<close>

lemma run_input_paused:
  assumes "clients_paused st" "mstime st \<le> clients_pause_end_time st" "\<not> bit (flags (client_of st c)) CLIENT_SLAVE" "querybuf (client_of st c) \<noteq> []"
  shows "run_input E c st = Some (on_sv (\<lambda>s. s\<lparr>current_client := None\<rparr>) st)"
proof -
  let ?s = "(sv st)\<lparr>current_client := Some c\<rparr>" and ?P = "sys_penv (srv_of E) (io_string2ll E) (io_sdssplitargs E)"
  have "clientsArePaused ?P (?s, st) = (True, ?s, with_sv ?s st)"
    using assms(1,2) by (simp add: sys_penv_def clientsArePaused_sys_def Let_def with_sv_def on_sv_def on_nt_def)
  then have "input_loop ?P (Suc n) c (?s, st) = Some (?s, with_sv ?s st)" for n using assms(3,4) by simp
  then show ?thesis by (simp add: run_input_def processInputBuffer_def with_sv_def on_sv_def on_nt_def on_srv_def del: input_loop.simps)
qed

section \<open>Properties\<close>

text \<open>A read event that meets the end of the stream, an error or more bytes than a client may send closes the connection:
  afterwards the client is freed, nothing refers to it and the lists of the server are consistent.\<close>

theorem closing_read_frees_client:
  assumes "env_ok (net_of (srv_of E))" "\<And>n. \<not> has_master (net_of (srv_of E)) n"
    and "net_inv {} (nt (io_sys io))" "c \<in> allocated (sv (io_sys io))" and "read_closes E rd (client_of (io_sys io) c)"
  shows "\<exists>io'. readQueryFromClient E rd c io = Some io' \<and> unreferenced c (nt (io_sys io')) \<and> net_inv {} (nt (io_sys io')) \<and>
    allocated (sv (io_sys io')) = allocated (sv (io_sys io)) - {c}"
  using read_closes_frees [OF assms] by metis

definition demo_io_env :: "int list io_env" where
  "demo_io_env = \<lparr>srv_of = demo_srv_env, io_string2ll = parse_dec, io_sdssplitargs = (\<lambda>_. None), client_max_querybuf_len = 1024 * 1024 * 1024\<rparr>"

definition demo_io :: "net \<Rightarrow> int list io" where
  "demo_io n = \<lparr>io_sys = demo_sys n, querybuf_peak = (\<lambda>_. 0), reploff = (\<lambda>_. 0), stat_net_input_bytes = 0\<rparr>"

lemma demo_io_simps [simp]:
  "io_sys (demo_io n) = demo_sys n" "srv_of demo_io_env = demo_srv_env" "nt (demo_sys n) = n" "io_string2ll demo_io_env = parse_dec"
  "client_max_querybuf_len demo_io_env = 1024 * 1024 * 1024"
  by (simp_all add: demo_io_def demo_sys_def demo_io_env_def)

theorem closing_read_frees_client_witness:
  "\<exists>io'. readQueryFromClient demo_io_env (\<lambda>_. ReadEof) 1 (demo_io demo_net1) = Some io' \<and> unreferenced 1 (nt (io_sys io')) \<and>
     net_inv {} (nt (io_sys io')) \<and> allocated (sv (io_sys io')) = {}"
  using closing_read_frees_client [of demo_io_env "demo_io demo_net1" 1 "\<lambda>_. ReadEof"] demo_net_inv(2) demo_net_facts(3) demo_srv_env_ok
  by (simp add: read_closes_def)

text \<open>C14: what the subscriber thread of the client library sends when its connection is up has the effect the
  library relies on: when the bytes of these requests arrive on an idle connection, the read event gives the client
  its name when there is one, and subscribes it to the channel.\<close>

theorem consumer_thread_subscribes:
  assumes E: "plain_env (srv_of E)" and S: "reads_lengths (io_string2ll E)" and i: "idle c ((sv (io_sys io))\<lparr>current_client := Some c\<rparr>) (io_sys io)"
    and ok: "subs_ok (sv (io_sys io))" and a: "requirepass (srv_of E) = None \<or> authenticated (client_of (io_sys io) c)"
      "\<not> bit (flags (client_of (io_sys io) c)) CLIENT_PUBSUB"
    and t: "smemAsyncThread (Some (h, False)) cx = (cx', reqs)" "list_all name_char (cname cx)"
    and r: "rd (1024 * 16) = ReadBytes b" "querybuf (client_of (io_sys io) c) @ b = concat (map mbulk reqs)"
    and l: "length (concat (map mbulk reqs)) \<le> PROTO_INLINE_MAX_SIZE" "length (concat (map mbulk reqs)) \<le> client_max_querybuf_len E"
  shows "\<exists>io' chs. readQueryFromClient E rd c io = Some io' \<and> subs_ok (sv (io_sys io')) \<and> querybuf (client_of (io_sys io') c) = [] \<and>
    name (client_of (io_sys io') c) = (if cname cx = [] then name (client_of (io_sys io) c) else Some (cname cx)) \<and>
    bit (flags (client_of (io_sys io') c)) CLIENT_PUBSUB \<and>
    client_channels (client_of (io_sys io') c) = insert (channel cx) (client_channels (client_of (io_sys io) c)) \<and>
    smempubsub_channels (sv (io_sys io')) (channel cx) = Some chs \<and> c \<in> set chs"
proof -
  let ?st = "io_sys (take_bytes c b io)" and ?P = "sys_penv (srv_of E) (io_string2ll E) (io_sdssplitargs E)"
  note s = take_bytes_sys(1) [of c b io]
  have q: "querybuf (client_of ?st c) = concat (map mbulk reqs)" using r(2) by (simp add: s)
  have "2 \<le> length (mbulk x)" for x by (simp add: mbulk_def)
  moreover have "reqs \<noteq> []" using t(1) by (auto simp: smemAsyncThread_def split: if_splits)
  ultimately have "2 \<le> length (concat (map mbulk reqs))" by (cases reqs) (simp_all add: trans_le_add1)
  then obtain n where n: "Suc (length (querybuf (client_of ?st c))) = 3 + n" unfolding q using le_Suc_ex [of 2] by auto
  have "idle c ((sv ?st)\<lparr>current_client := Some c\<rparr>) ?st"
    using i by (simp add: s idle_def) (simp add: take_bytes_sys(2) on_sv_def on_nt_def on_srv_def)
  moreover have "subs_ok (sv ?st)" using ok by (simp add: s subs_ok_def)
  moreover have "requirepass (srv_of E) = None \<or> authenticated (clients (sv ?st) c)" "\<not> bit (flags (clients (sv ?st) c)) CLIENT_PUBSUB"
    using a by (simp_all add: s)
  ultimately obtain s' x' chs where w: "processInputBuffer ?P (3 + n) c (sv ?st, ?st) = Some (s', x')" "subs_ok s'" "querybuf (clients s' c) = []"
    "name (clients s' c) = (if cname cx = [] then name (clients (sv ?st) c) else Some (cname cx))" "bit (flags (clients s' c)) CLIENT_PUBSUB"
    "client_channels (clients s' c) = insert (channel cx) (client_channels (clients (sv ?st) c))"
    "smempubsub_channels s' (channel cx) = Some chs" "c \<in> set chs"
    using thread_requests_run [OF E S _ _ _ _ t q l(1) [folded q], where split = "io_sdssplitargs E" and n = n] by metis
  have run: "run_input E c ?st = Some (with_sv s' x')" using w(1) by (simp add: run_input_def n)
  have rl: "rd (readlen (client_of (io_sys io) c)) = ReadBytes b" using i r(1) by (simp add: idle_def readlen_def)
  have "length (querybuf (client_of (io_sys io) c)) + length b \<le> client_max_querybuf_len E" using l(2) unfolding r(2) [symmetric] by simp
  with read_processes [where rd = rd and io = io and c = c and b = b, OF rl _ run] obtain io' where
    "readQueryFromClient E rd c io = Some io'" "io_sys io' = with_sv s' x'" by metis
  with w(2-8) show ?thesis by (intro exI [of _ io'] exI [of _ chs]) (simp add: s)
qed

theorem consumer_thread_subscribes_witness:
  "\<exists>io' chs. readQueryFromClient demo_io_env (\<lambda>_. ReadBytes (concat (map mbulk [[''CLIENT'', ''SETNAME'', ''viewer''], [''SMEMSUBSCRIBE'', ''tv'']]))) 1
       (demo_io demo_net1) = Some io' \<and>
     name (client_of (io_sys io') 1) = Some ''viewer'' \<and> smempubsub_channels (sv (io_sys io')) ''tv'' = Some chs \<and> 1 \<in> set chs"
proof -
  let ?reqs = "[[''CLIENT'', ''SETNAME'', ''viewer''], [''SMEMSUBSCRIBE'', ''tv'']]"
  let ?q = "concat (map mbulk ?reqs)"
  have c: "cname demo_context = ''viewer''" "channel demo_context = ''tv''" by (simp_all add: demo_context_def)
  have t: "smemAsyncThread (Some (4, False)) demo_context = (demo_context\<lparr>rasync := Some 4\<rparr>, ?reqs)"
    by (simp add: smemAsyncThread_def c)
  have n: "list_all name_char (cname demo_context)" unfolding c by code_simp
  have "length ?q \<le> 200" by code_simp
  then have l: "length ?q \<le> PROTO_INLINE_MAX_SIZE" "length ?q \<le> client_max_querybuf_len demo_io_env"
    unfolding demo_io_simps by linarith+
  have d: "idle 1 ((sv (io_sys (demo_io demo_net1)))\<lparr>current_client := Some 1\<rparr>) (io_sys (demo_io demo_net1))" "subs_ok (sv (io_sys (demo_io demo_net1)))"
    "requirepass (srv_of demo_io_env) = None" "\<not> bit (flags (client_of (io_sys (demo_io demo_net1)) 1)) CLIENT_PUBSUB"
    "querybuf (client_of (io_sys (demo_io demo_net1)) 1) = []"
    using demo_bytes_ok(1,4) [of "[]"] demo_bytes_ok(5) demo_net1_client(1) demo_net_inv(2)
    by (simp_all add: demo_bytes_def idle_def net_inv_def chan_inv_def new_client_def del: One_nat_def)
  have q: "querybuf (client_of (io_sys (demo_io demo_net1)) 1) @ ?q = ?q" by (simp only: d(5) append_Nil)
  have "reads_lengths (io_string2ll demo_io_env)" "plain_env (srv_of demo_io_env)" using reads_lengths_parse_dec demo_plain(1) by simp_all
  then show ?thesis
    using consumer_thread_subscribes [where rd = "\<lambda>_. ReadBytes ?q" and io = "demo_io demo_net1" and c = 1 and E = demo_io_env, OF _ _ d(1,2) disjI1 [OF d(3)] d(4) t n refl q l]
    by (auto simp: c simp del: One_nat_def)
qed

text \<open>C36: a client that is sending a long argument while the clients are paused is disconnected: nothing is parsed during
  the pause, so once the argument has arrived in full the length of the next read is zero, \<open>read\<close> returns zero for it and
  the handler takes this for the end of the stream, although the peer has not closed the connection.\<close>

theorem pause_disconnects_long_argument:
  fixes io :: "'k io" and c :: nat
  defines "cl \<equiv> client_of (io_sys io) c"
  assumes E: "env_ok (net_of (srv_of E))" "\<And>n. \<not> has_master (net_of (srv_of E)) n"
    and n: "net_inv {} (nt (io_sys io))" "c \<in> allocated (sv (io_sys io))" "current_client (sv (io_sys io)) = None"
    and p: "clients_paused (io_sys io)" "mstime (io_sys io) \<le> clients_pause_end_time (io_sys io)" "\<not> bit (flags cl) CLIENT_SLAVE"
    and arg: "reqtype cl = PROTO_REQ_MULTIBULK" "0 < multibulklen cl" "PROTO_MBULK_BIG_ARG \<le> bulklen cl" "bulklen cl + 2 \<le> int (client_max_querybuf_len E)"
    and b: "int (length (querybuf cl)) + int (length b) = bulklen cl + 2" "0 < length b" "length b \<le> 1024 * 16"
    and rd: "rd (int (length b)) = ReadBytes b" "posix_read rd'"
  shows "\<exists>io1 io2. readQueryFromClient E rd c io = Some io1 \<and> querybuf (client_of (io_sys io1) c) = querybuf cl @ b \<and>
    c \<in> allocated (sv (io_sys io1)) \<and> readQueryFromClient E rd' c io1 = Some io2 \<and> c \<notin> allocated (sv (io_sys io2))"
proof -
  let ?st = "io_sys (take_bytes c b io)"
  let ?st1 = "on_sv (\<lambda>s. s\<lparr>current_client := None\<rparr>) ?st"
  note s = take_bytes_sys(1) [of c b io]
  have ne: "querybuf (client_of ?st c) = querybuf cl @ b" "flags (client_of ?st c) = flags cl" by (simp_all add: s cl_def)
  have "clients_paused ?st" "mstime ?st \<le> clients_pause_end_time ?st" using p by (simp_all add: take_bytes_sys(2) on_sv_def on_nt_def)
  then have run: "run_input E c ?st = Some ?st1" by (rule run_input_paused) (use ne p(3) b(2) in auto)
  have rl: "readlen cl = int (length b)" using arg b by (simp add: readlen_def)
  obtain io1 where io1: "readQueryFromClient E rd c io = Some io1" "io_sys io1 = ?st1"
  proof -
    have "rd (readlen (client_of (io_sys io) c)) = ReadBytes b" using rd(1) rl by (simp add: cl_def)
    moreover have "length (querybuf (client_of (io_sys io) c)) + length b \<le> client_max_querybuf_len E" using arg(4) b(1) by (simp add: cl_def)
    ultimately show ?thesis using read_processes [where rd = rd and io = io and c = c and b = b, OF _ _ run] that by metis
  qed
  have cl1: "client_of (io_sys io1) c = cl\<lparr>querybuf := querybuf cl @ b, lastinteraction := unixtime (sv (io_sys io))\<rparr>"
    using io1(2) by (simp add: on_sv_def on_nt_def on_srv_def s cl_def)
  have "readlen (client_of (io_sys io1) c) = 0" using arg b unfolding cl1 by (simp add: readlen_def)
  then have "read_closes E rd' (client_of (io_sys io1) c)" using rd(2) by (simp add: read_closes_def posix_read_def)
  moreover have "nt (io_sys io1) = nt ?st" using n(3) io1(2) by (simp add: on_sv_def on_nt_def on_srv_def s)
  then have "net_inv {} (nt (io_sys io1))" "allocated (sv (io_sys io1)) = allocated (sv (io_sys io))" using n(1) by (simp_all add: s take_bytes_inv)
  ultimately obtain io2 where "readQueryFromClient E rd' c io1 = Some io2" "allocated (sv (io_sys io2)) = allocated (sv (io_sys io)) - {c}"
    using read_closes_frees [OF E, of io1 c rd'] n(2) by metis
  then show ?thesis using io1(1) cl1 n(2) \<open>allocated (sv (io_sys io1)) = _\<close> by auto
qed

text \<open>An example: 40000 bytes are announced, 39998 have arrived, and the clients are paused.\<close>

definition demo_paused :: "int list io" where
  "demo_paused =
     (let st = demo_sys (on_srv (update_client 1 (\<lambda>cl. cl\<lparr>reqtype := 2, multibulklen := 1, bulklen := 40000, querybuf := replicate 39998 (CHR ''x'')\<rparr>)) demo_net1)
      in (demo_io demo_net1)\<lparr>io_sys := st\<lparr>clients_paused := True, clients_pause_end_time := 2000\<rparr>\<rparr>)"

theorem pause_disconnects_long_argument_witness:
  "\<exists>io1 io2. readQueryFromClient demo_io_env (\<lambda>_. ReadBytes ''xxxx'') 1 demo_paused = Some io1 \<and> 1 \<in> allocated (sv (io_sys io1)) \<and>
     readQueryFromClient demo_io_env (\<lambda>n. if n = 0 then ReadEof else ReadAgain) 1 io1 = Some io2 \<and> 1 \<notin> allocated (sv (io_sys io2))"
proof -
  let ?f = "\<lambda>cl. cl\<lparr>reqtype := 2, multibulklen := 1, bulklen := 40000, querybuf := replicate 39998 (CHR ''x'')\<rparr> :: client"
  have nt: "nt (io_sys demo_paused) = on_srv (update_client 1 ?f) demo_net1" "clients_paused (io_sys demo_paused)"
    "mstime (io_sys demo_paused) \<le> clients_pause_end_time (io_sys demo_paused)"
    by (simp_all add: demo_paused_def Let_def) (simp add: demo_sys_def)
  have cl: "client_of (io_sys demo_paused) 1 = ?f (new_client 5 0)" unfolding nt by (simp add: on_srv_def demo_net1_client(1) del: One_nat_def)
  have inv: "net_inv {} (nt (io_sys demo_paused))" "1 \<in> allocated (sv (io_sys demo_paused))" "current_client (sv (io_sys demo_paused)) = None"
    using demo_net_inv(2) net_inv_update [of ?f "{}" 1 demo_net1] demo_net_facts(3) unfolding nt
    by (simp_all add: on_srv_def demo_net1_def demo_net_def createClient_def initServer_lists_def)
  have "posix_read (\<lambda>n. if n = 0 then ReadEof else ReadAgain)" by (simp add: posix_read_def)
  then show ?thesis
    using pause_disconnects_long_argument [of demo_io_env demo_paused 1 "''xxxx''" "\<lambda>_. ReadBytes ''xxxx''" "\<lambda>n. if n = 0 then ReadEof else ReadAgain"]
      demo_srv_env_ok inv nt(2,3) unfolding cl by (auto simp: new_client_def simp del: One_nat_def)
qed

section \<open>Events while the server is busy\<close>

lemma blocked_rounds_inv:
  assumes E: "env_ok E" "\<And>n. \<not> has_master E n"
    and ae: "\<And>r st. r \<in> set rs \<Longrightarrow> net_inv {} (nt st) \<Longrightarrow> net_inv {} (nt (snd (aeProcessEvents r st)))"
  shows "net_inv {} (nt st) \<Longrightarrow> net_inv {} (nt (snd (blocked_rounds E rs count st)))"
  using ae
proof (induction rs arbitrary: count st)
  case (Cons r rs)
  obtain e1 st1 where r1: "aeProcessEvents r st = (e1, st1)" by (cases "aeProcessEvents r st")
  obtain e2 n2 where r2: "handleClientsWithPendingWrites E (round_writes r) (round_eagain r) (round_handler_ok r) (nt st1) = (e2, n2)" by fastforce
  have n1: "net_inv {} (nt st1)" using Cons.prems(2) [of r st] Cons.prems(1) r1 by simp
  then have "distinct (clients_pending_write (sv st1))" "set (clients_pending_write (sv st1)) \<subseteq> allocated (sv st1)"
    by (auto simp: net_inv_def srv_inv_def listed_def flagged_def)
  then have "net_inv {} n2" using pending_writes_inv [OF E n1] r2 by (auto simp: handleClientsWithPendingWrites_def)
  then show ?case using Cons.IH [of "st1\<lparr>nt := n2\<rparr>"] Cons.prems(2) by (simp add: r1 r2 Let_def)
qed simp

text \<open>Serving events in between keeps the lists of clients consistent when the handlers of the event loop do; nothing is
  counted exactly when the first round found nothing to do.\<close>

lemma processEventsWhileBlocked_inv:
  assumes "env_ok E" "\<And>n. \<not> has_master E n" and "\<And>k st. net_inv {} (nt st) \<Longrightarrow> net_inv {} (nt (snd (aeProcessEvents (rounds k) st)))"
    and "net_inv {} (nt st)"
  shows "net_inv {} (nt (snd (processEventsWhileBlocked E rounds st)))"
  unfolding processEventsWhileBlocked_def by (rule blocked_rounds_inv) (use assms in auto)

lemma blocked_rounds_count: "count \<le> fst (blocked_rounds E rs count st)"
proof (induction rs arbitrary: count st)
  case (Cons r rs)
  then show ?case by (auto simp: Let_def split: prod.split intro: order_trans [OF le_add1])
qed simp

end
