(* ===== verification/Redis_Cron.thy ===== *)
theory Redis_Cron
  imports Redis_Server
begin

text \<open>
  The periodic work of \<open>redis/src/server.c\<close>: the checks on the clients, the sweep of the share memory pool, the decisions
  to save, and \<open>serverCron\<close> and \<open>beforeSleep\<close>, which the event loop calls. The data base, replication, cluster and
  persistence functions they call are parameters. The clock readings of one run are one value.
\<close>

section \<open>State and environment\<close>

record metric =
  last_sample_time :: int
  last_sample_count :: int
  samples :: "int list"
  sample_idx :: nat

record 'k cron =
  csys :: "'k sys"
  cronloops :: int
  inst_metric :: "nat \<Rightarrow> metric"
  lruclock :: nat
  stat_peak_memory :: nat
  resident_set_size :: nat
  shutdown_asap :: bool
  rdb_child_pid :: int
  aof_child_pid :: int
  aof_rewrite_scheduled :: bool
  lastsave :: int
  lastbgsave_try :: int
  lastbgsave_ok :: bool
  aof_current_size :: int
  aof_rewrite_base_size :: int
  aof_flush_postponed_start :: int
  aof_last_write_ok :: bool
  get_ack_from_slaves :: bool

record 'k cron_env =
  senv :: "'k srv_env"
  hz :: int
  maxidletime :: int
  now_ms :: int
  bpop_timeout :: "nat \<Rightarrow> int"
  replyToBlockedClientTimedOut :: "nat \<Rightarrow> server \<Rightarrow> server"
  clusterRedirectBlockedClientIfNeeded :: "nat \<Rightarrow> server \<Rightarrow> bool \<times> server"
  stat_net_input_bytes :: int
  zmalloc_used_memory :: nat
  zmalloc_get_rss :: nat
  prepareForShutdown :: "'k cron \<Rightarrow> bool \<times> 'k cron"
  databasesCron :: "'k sys \<Rightarrow> 'k sys"
  sweep_order :: "server \<Rightarrow> string list \<times> string list"
  rewriteAppendOnlyFileBackground :: "'k cron \<Rightarrow> 'k cron"
  rdbSaveBackground :: "'k cron \<Rightarrow> 'k cron"
  ldbPendingChildren :: bool
  wait3 :: "int \<times> int \<times> int"
  backgroundSaveDoneHandler :: "int \<Rightarrow> int \<Rightarrow> 'k cron \<Rightarrow> 'k cron"
  backgroundRewriteDoneHandler :: "int \<Rightarrow> int \<Rightarrow> 'k cron \<Rightarrow> 'k cron"
  ldbRemoveChild :: "int \<Rightarrow> 'k cron \<Rightarrow> 'k cron"
  saveparams :: "(int \<times> int) list"
  aof_rewrite_perc :: int
  aof_rewrite_min_size :: int
  flushAppendOnlyFile :: "'k cron \<Rightarrow> 'k cron"
  replicationCron :: "'k cron \<Rightarrow> 'k cron"
  clusterCron :: "'k cron \<Rightarrow> 'k cron"
  sentinel_mode :: bool
  sentinelTimer :: "'k cron \<Rightarrow> 'k cron"
  migrateCloseTimedoutSockets :: "'k cron \<Rightarrow> 'k cron"
  clusterBeforeSleep :: "'k cron \<Rightarrow> 'k cron"
  active_expire_enabled :: bool
  activeExpireCycle_fast :: "'k cron \<Rightarrow> 'k cron"
  clients_waiting_acks :: "'k cron \<Rightarrow> bool"
  processClientsWaitingReplicas :: "'k cron \<Rightarrow> 'k cron"
  processUnblockedClients :: "'k cron \<Rightarrow> 'k cron"
  socket_writes :: "nat \<Rightarrow> int list"
  socket_eagain :: "nat \<Rightarrow> bool"
  write_handler_ok :: "nat \<Rightarrow> bool"

abbreviation cluster_on :: "'k cron_env \<Rightarrow> bool" where
  "cluster_on E \<equiv> cluster_enabled (pool_of (senv E))"

definition on_csys :: "('k sys \<Rightarrow> 'k sys) \<Rightarrow> 'k cron \<Rightarrow> 'k cron" where
  "on_csys f st = st\<lparr>csys := f (csys st)\<rparr>"

section \<open>Statistics\<close>

abbreviation (input) "STATS_METRIC_COMMAND \<equiv> (0 :: nat)"
abbreviation (input) "STATS_METRIC_NET_INPUT \<equiv> (1 :: nat)"
abbreviation (input) "STATS_METRIC_NET_OUTPUT \<equiv> (2 :: nat)"
abbreviation (input) "STATS_METRIC_SAMPLES \<equiv> (16 :: nat)"

definition getLRUClock :: "int \<Rightarrow> nat" where
  "getLRUClock ms = nat ((ms div 1000) mod 2 ^ 24)"

definition trackInstantaneousMetric :: "int \<Rightarrow> nat \<Rightarrow> int \<Rightarrow> 'k cron \<Rightarrow> 'k cron" where
  "trackInstantaneousMetric ms m current_reading st =
     (let x = inst_metric st m; t = ms - last_sample_time x; ops = current_reading - last_sample_count x;
          ops_sec = (if t > 0 then (ops * 1000) sdiv t else 0)
      in st\<lparr>inst_metric := (inst_metric st)(m :=
             x\<lparr>samples := (samples x)[sample_idx x := ops_sec], sample_idx := (sample_idx x + 1) mod STATS_METRIC_SAMPLES,
               last_sample_time := ms, last_sample_count := current_reading\<rparr>)\<rparr>)"

definition getInstantaneousMetric :: "nat \<Rightarrow> 'k cron \<Rightarrow> int" where
  "getInstantaneousMetric m st = sum_list (take STATS_METRIC_SAMPLES (samples (inst_metric st m))) sdiv int STATS_METRIC_SAMPLES"

section \<open>Checks on the clients\<close>

text \<open>Whether the client was terminated, and the server.\<close>

definition clientsCronHandleTimeout :: "'k cron_env \<Rightarrow> nat \<Rightarrow> net \<Rightarrow> bool \<times> net" where
  "clientsCronHandleTimeout E c n =
     (let cl = clients (srv n) c; N = net_of (senv E)
      in if maxidletime E \<noteq> 0 \<and> \<not> bit (flags cl) CLIENT_SLAVE \<and> \<not> bit (flags cl) CLIENT_MASTER \<and> \<not> bit (flags cl) CLIENT_BLOCKED \<and>
            \<not> bit (flags cl) CLIENT_PUBSUB \<and> now_ms E sdiv 1000 - lastinteraction cl > maxidletime E
         then (True, freeClient N c n)
         else if bit (flags cl) CLIENT_BLOCKED then
           (False,
            if bpop_timeout E c \<noteq> 0 \<and> bpop_timeout E c < now_ms E
            then unblockClient N c (on_srv (replyToBlockedClientTimedOut E c) n)
            else if cluster_on E then
              (case clusterRedirectBlockedClientIfNeeded E c (srv n) of
                 (r, s) \<Rightarrow> (if r then unblockClient N c (on_srv (\<lambda>_. s) n) else on_srv (\<lambda>_. s) n))
            else n)
         else (False, n))"

text \<open>\<open>listRotate\<close> moves the last node to the front. Resizing the query buffer gives unused memory back, which is not
  part of the state, and never terminates the client.\<close>

definition listRotate :: "'a list \<Rightarrow> 'a list" where
  "listRotate l = (case l of [] \<Rightarrow> [] | _ \<Rightarrow> last l # butlast l)"

abbreviation (input) "CLIENTS_CRON_MIN_ITERATIONS \<equiv> (5 :: int)"

definition cron_iterations :: "int \<Rightarrow> int \<Rightarrow> int" where
  "cron_iterations numclients h =
     (let iterations = numclients sdiv h
      in if iterations < CLIENTS_CRON_MIN_ITERATIONS
         then (if numclients < CLIENTS_CRON_MIN_ITERATIONS then numclients else CLIENTS_CRON_MIN_ITERATIONS)
         else iterations)"

fun clients_cron_loop :: "'k cron_env \<Rightarrow> nat \<Rightarrow> net \<Rightarrow> net" where
  "clients_cron_loop E 0 n = n"
| "clients_cron_loop E (Suc iterations) n =
     (if client_list (srv n) = [] then n
      else
        (let n1 = on_srv (\<lambda>s. s\<lparr>client_list := listRotate (client_list s)\<rparr>) n; c = hd (client_list (srv n1))
         in clients_cron_loop E iterations (snd (clientsCronHandleTimeout E c n1))))"

definition clientsCron :: "'k cron_env \<Rightarrow> net \<Rightarrow> net" where
  "clientsCron E n = clients_cron_loop E (nat (cron_iterations (int (length (client_list (srv n)))) (hz E))) n"

section \<open>The periodic function\<close>

definition run_with_period :: "int \<Rightarrow> int \<Rightarrow> int \<Rightarrow> bool" where
  "run_with_period h loops ms \<longleftrightarrow> ms \<le> 1000 sdiv h \<or> loops smod (ms sdiv (1000 sdiv h)) = 0"

definition period :: "'k cron_env \<Rightarrow> int \<Rightarrow> ('k cron \<Rightarrow> 'k cron) \<Rightarrow> 'k cron \<Rightarrow> 'k cron" where
  "period E ms f st = (if run_with_period (hz E) (cronloops st) ms then f st else st)"

definition updateCachedTime :: "int \<Rightarrow> 'k cron \<Rightarrow> 'k cron" where
  "updateCachedTime ms st = on_csys (\<lambda>x. (on_sv (\<lambda>s. s\<lparr>unixtime := ms div 1000\<rparr>) x)\<lparr>mstime := ms\<rparr>) st"

definition cron_statistics :: "'k cron_env \<Rightarrow> 'k cron \<Rightarrow> 'k cron" where
  "cron_statistics E st =
     (let st1 = updateCachedTime (now_ms E) st;
          st2 = period E 100 (\<lambda>st. trackInstantaneousMetric (now_ms E) STATS_METRIC_NET_OUTPUT (uint (stat_net_output_bytes (nt (csys st))))
                  (trackInstantaneousMetric (now_ms E) STATS_METRIC_NET_INPUT (stat_net_input_bytes E)
                    (trackInstantaneousMetric (now_ms E) STATS_METRIC_COMMAND (stat_numcommands (csys st)) st))) st1
      in st2\<lparr>lruclock := getLRUClock (now_ms E), stat_peak_memory := max (stat_peak_memory st2) (zmalloc_used_memory E),
             resident_set_size := zmalloc_get_rss E\<rparr>)"

text \<open>The share memory of buffers that nobody has touched for five seconds is freed every five seconds.\<close>

definition smem_cron :: "'k cron_env \<Rightarrow> 'k cron \<Rightarrow> 'k cron" where
  "smem_cron E st =
     period E 5000 (on_csys (\<lambda>x. on_pool (smemFreeShareMemory_cron (pool_of (senv E)) 5 (fst (sweep_order E (sv x))) (snd (sweep_order E (sv x)))) x)) st"

definition save_due :: "'k cron \<Rightarrow> int \<times> int \<Rightarrow> bool" where
  "save_due st sp \<longleftrightarrow>
     (case sp of (seconds, changes) \<Rightarrow>
        dirty (csys st) \<ge> changes \<and> unixtime (sv (csys st)) - lastsave st > seconds \<and>
        (unixtime (sv (csys st)) - lastbgsave_try st > 5 \<or> lastbgsave_ok st))"

definition aof_growth :: "'k cron \<Rightarrow> int" where
  "aof_growth st =
     (let base = (if aof_rewrite_base_size st \<noteq> 0 then aof_rewrite_base_size st else 1) in (aof_current_size st * 100) sdiv base - 100)"

definition cron_persistence :: "'k cron_env \<Rightarrow> 'k cron \<Rightarrow> 'k cron" where
  "cron_persistence E st0 =
     (let st = (if rdb_child_pid st0 = -1 \<and> aof_child_pid st0 = -1 \<and> aof_rewrite_scheduled st0 then rewriteAppendOnlyFileBackground E st0 else st0)
      in if rdb_child_pid st \<noteq> -1 \<or> aof_child_pid st \<noteq> -1 \<or> ldbPendingChildren E then
           (case wait3 E of
              (pid, exitcode, bysignal) \<Rightarrow>
                if pid = 0 \<or> pid = -1 then st
                else if pid = rdb_child_pid st then backgroundSaveDoneHandler E exitcode bysignal st
                else if pid = aof_child_pid st then backgroundRewriteDoneHandler E exitcode bysignal st
                else ldbRemoveChild E pid st)
         else
           (let st1 = (if \<exists>sp\<in>set (saveparams E). save_due st sp then rdbSaveBackground E st else st)
            in if rdb_child_pid st1 = -1 \<and> aof_child_pid st1 = -1 \<and> aof_rewrite_perc E \<noteq> 0 \<and> aof_current_size st1 > aof_rewrite_min_size E \<and>
                  aof_growth st1 \<ge> aof_rewrite_perc E
               then rewriteAppendOnlyFileBackground E st1 else st1))"

text \<open>The result of one run: the process has ended, or the time until the next run and the state. \<open>Hang\<close> would be a
  queue of deferred frees that is never worked off.\<close>

datatype 'k cron_result = Exit | Hang | Next int "'k cron"

definition cron_last :: "'k cron_env \<Rightarrow> 'k cron \<Rightarrow> 'k cron" where
  \<comment> \<open>from the end of a pause on\<close>
  "cron_last E st =
     (let st1 = on_csys (\<lambda>x. snd (clientsArePaused_sys x)) st;
          st2 = period E 1000 (replicationCron E) st1;
          st3 = period E 100 (\<lambda>st. if cluster_on E then clusterCron E st else st) st2;
          st4 = period E 100 (\<lambda>st. if sentinel_mode E then sentinelTimer E st else st) st3;
          st5 = period E 1000 (migrateCloseTimedoutSockets E) st4
      in st5\<lparr>cronloops := cronloops st5 + 1\<rparr>)"

definition cron_work :: "'k cron_env \<Rightarrow> 'k cron \<Rightarrow> 'k cron" where
  \<comment> \<open>from the checks on the clients to the flush of the append only file\<close>
  "cron_work E st =
     (let st1 = on_csys (on_nt (clientsCron E)) st;
          st2 = on_csys (databasesCron E) st1;
          st3 = cron_persistence E (smem_cron E st2);
          st4 = (if aof_flush_postponed_start st3 \<noteq> 0 then flushAppendOnlyFile E st3 else st3)
      in period E 1000 (\<lambda>st. if \<not> aof_last_write_ok st then flushAppendOnlyFile E st else st) st4)"

definition serverCron :: "'k cron_env \<Rightarrow> 'k cron \<Rightarrow> 'k cron_result" where
  "serverCron E st =
     (let st1 = cron_statistics E st
      in case (if shutdown_asap st1 then prepareForShutdown E st1 else (False, st1)) of
           (True, _) \<Rightarrow> Exit
         | (False, st2) \<Rightarrow>
             (let st3 = cron_work E (st2\<lparr>shutdown_asap := False\<rparr>); n = nt (csys st3)
              in case freeClientsInAsyncFreeQueue (net_of (senv E)) (Suc (length (clients_to_close (srv n)))) n of
                   None \<Rightarrow> Hang
                 | Some n' \<Rightarrow> Next (1000 sdiv hz E) (cron_last E (on_csys (\<lambda>x. x\<lparr>nt := n'\<rparr>) st3))))"

section \<open>Before the event loop sleeps\<close>

definition beforeSleep :: "'k cron_env \<Rightarrow> 'k cron \<Rightarrow> 'k cron" where
  "beforeSleep E st =
     (let st1 = (if cluster_on E then clusterBeforeSleep E st else st);
          st2 = (if active_expire_enabled E \<and> \<not> masterhost (senv E) then activeExpireCycle_fast E st1 else st1);
          st3 = (if get_ack_from_slaves st2
                 then (on_csys (replicationFeedSlaves (senv E) [''REPLCONF'', ''GETACK'', ''*'']) st2)\<lparr>get_ack_from_slaves := False\<rparr> else st2);
          st4 = (if clients_waiting_acks E st3 then processClientsWaitingReplicas E st3 else st3);
          st5 = (if unblocked_clients (sv (csys st4)) \<noteq> [] then processUnblockedClients E st4 else st4);
          st6 = flushAppendOnlyFile E st5
      in on_csys (on_nt (\<lambda>n. snd (handleClientsWithPendingWrites (net_of (senv E)) (socket_writes E) (socket_eagain E) (write_handler_ok E) n))) st6)"

section \<open>The checks keep the bookkeeping\<close>

lemma listRotate_snoc: "listRotate (xs @ [x]) = x # xs"
  by (cases xs) (simp_all add: listRotate_def)

lemma listRotate_simps [simp]:
  "set (listRotate l) = set l" "distinct (listRotate l) = distinct l" "length (listRotate l) = length l" "listRotate l = [] \<longleftrightarrow> l = []"
  by (cases l rule: rev_cases; auto simp: listRotate_snoc listRotate_def [of "[]"])+

lemma rotate_inv: "net_inv X n \<Longrightarrow> net_inv X (on_srv (\<lambda>s. s\<lparr>client_list := listRotate (client_list s)\<rparr>) n)"
  by (simp add: net_inv_def srv_inv_def chan_inv_def subs_ok_def listed_def flagged_def connected_def on_srv_def)

text \<open>What is relied on of the functions that answer a blocked client.\<close>

definition keeps_clients :: "(server \<Rightarrow> server) \<Rightarrow> bool" where
  "keeps_clients f \<longleftrightarrow> (\<forall>n. net_inv {} n \<longrightarrow> net_inv {} (on_srv f n) \<and> allocated (f (srv n)) = allocated (srv n) \<and> client_list (f (srv n)) = client_list (srv n))"

definition answers_blocked :: "'k cron_env \<Rightarrow> bool" where
  "answers_blocked E \<longleftrightarrow> env_ok (net_of (senv E)) \<and> (\<forall>n. \<not> has_master (net_of (senv E)) n) \<and>
     (\<forall>c. keeps_clients (replyToBlockedClientTimedOut E c) \<and> keeps_clients (\<lambda>s. snd (clusterRedirectBlockedClientIfNeeded E c s)))"

lemma keeps_clientsD:
  assumes "keeps_clients f" "net_inv {} n"
  shows "net_inv {} (on_srv f n)" "allocated (f (srv n)) = allocated (srv n)" "client_list (f (srv n)) = client_list (srv n)"
  using assms unfolding keeps_clients_def by blast+

lemma handle_timeout_inv:
  assumes E: "answers_blocked E" and n: "net_inv {} n" "c \<in> allocated (srv n)" and r: "clientsCronHandleTimeout E c n = (closed, m)"
  shows "net_inv {} m" "allocated (srv m) = allocated (srv n) - (if closed then {c} else {})"
    "client_list (srv m) = (if closed then remove1 c (client_list (srv n)) else client_list (srv n))"
    "closed \<Longrightarrow> maxidletime E \<noteq> 0 \<and> \<not> bit (flags (clients (srv n) c)) CLIENT_PUBSUB \<and> now_ms E sdiv 1000 - lastinteraction (clients (srv n) c) > maxidletime E"
proof -
  let ?N = "net_of (senv E)"
  from E have N: "env_ok ?N" "\<And>n. \<not> has_master ?N n" and k: "keeps_clients (replyToBlockedClientTimedOut E c)"
    "keeps_clients (\<lambda>s. snd (clusterRedirectBlockedClientIfNeeded E c s))" by (simp_all add: answers_blocked_def)
  have "\<not> caches_master ?N c n" using N(2) by (simp add: caches_master_def)
  note f = freeClient_inv [OF N(1) n this]
  have u: "keeps_refs (unblockClient ?N)" using N(1) by (simp add: env_ok_def)
  have unb: "net_inv {} (unblockClient ?N c (on_srv g n)) \<and> allocated (srv (unblockClient ?N c (on_srv g n))) = allocated (srv n) \<and>
      client_list (srv (unblockClient ?N c (on_srv g n))) = client_list (srv n)" if "keeps_clients g" for g
    using keeps_clientsD [OF that n(1)] keeps_refsD(1,2,5) [OF u, of "{}" "on_srv g n" c] n(2) by simp
  have c2: "on_srv (\<lambda>_. snd (clusterRedirectBlockedClientIfNeeded E c (srv n))) n = on_srv (\<lambda>s. snd (clusterRedirectBlockedClientIfNeeded E c s)) n"
    by (simp add: on_srv_def)
  have "net_inv {} m \<and> allocated (srv m) = allocated (srv n) - (if closed then {c} else {}) \<and>
    client_list (srv m) = (if closed then remove1 c (client_list (srv n)) else client_list (srv n))"
    using r f(1,2,5) unb [OF k(1)] unb [OF k(2)] keeps_clientsD [OF k(2) n(1)] n(1) c2
    by (auto simp: clientsCronHandleTimeout_def Let_def prod.case_eq_if split: if_splits)
  then show "net_inv {} m" "allocated (srv m) = allocated (srv n) - (if closed then {c} else {})"
    "client_list (srv m) = (if closed then remove1 c (client_list (srv n)) else client_list (srv n))" by simp_all
  show "closed \<Longrightarrow> maxidletime E \<noteq> 0 \<and> \<not> bit (flags (clients (srv n) c)) CLIENT_PUBSUB \<and> now_ms E sdiv 1000 - lastinteraction (clients (srv n) c) > maxidletime E"
    using r by (auto simp: clientsCronHandleTimeout_def Let_def split: if_splits)
qed

lemma cron_head:
  assumes "net_inv X n" "client_list (srv n) \<noteq> []"
  shows "hd (listRotate (client_list (srv n))) \<in> allocated (srv n)"
proof -
  have "hd (listRotate (client_list (srv n))) \<in> set (client_list (srv n))" using assms(2) hd_in_set [of "listRotate (client_list (srv n))"] by simp
  then show ?thesis using assms(1) by (auto simp: net_inv_def srv_inv_def listed_def connected_def)
qed

lemma cron_loop_inv:
  assumes E: "answers_blocked E"
  shows "net_inv {} n \<Longrightarrow> net_inv {} (clients_cron_loop E k n) \<and> allocated (srv (clients_cron_loop E k n)) \<subseteq> allocated (srv n) \<and>
    length (client_list (srv n)) \<le> length (client_list (srv (clients_cron_loop E k n))) + k"
proof (induction k arbitrary: n)
  case (Suc k)
  show ?case
  proof (cases "client_list (srv n) = []")
    case False
    let ?n = "on_srv (\<lambda>s. s\<lparr>client_list := listRotate (client_list s)\<rparr>) n" and ?c = "hd (listRotate (client_list (srv n)))"
    obtain closed m where r: "clientsCronHandleTimeout E ?c ?n = (closed, m)" by (cases "clientsCronHandleTimeout E ?c ?n")
    have c: "?c \<in> allocated (srv ?n)" using cron_head [OF Suc.prems False] by (simp add: on_srv_def)
    note h = handle_timeout_inv [OF E rotate_inv [OF Suc.prems] c r]
    have step: "clients_cron_loop E (Suc k) n = clients_cron_loop E k m" using False r by (simp add: on_srv_def)
    have "length (client_list (srv n)) \<le> Suc (length (client_list (srv m)))" using h(3) False by (simp add: length_remove1)
    moreover have "allocated (srv m) \<subseteq> allocated (srv n)" using h(2) by (auto simp: on_srv_def)
    ultimately show ?thesis unfolding step using Suc.IH [OF h(1)] by auto
  qed (use Suc.prems in simp)
qed simp

section \<open>The clients a run looks at\<close>

lemma listRotate_rotate: "l \<noteq> [] \<Longrightarrow> listRotate l = rotate (length l - 1) l"
  by (cases l rule: rev_cases) (simp_all add: listRotate_snoc rotate_append)

text \<open>When nobody is closed, a run moves its clients from the end of the list to the front.\<close>

lemma cron_loop_rotates:
  assumes E: "answers_blocked E" "maxidletime E = 0"
  shows "net_inv {} n \<Longrightarrow> k \<le> length (client_list (srv n)) \<Longrightarrow>
    client_list (srv (clients_cron_loop E k n)) = rotate (length (client_list (srv n)) - k) (client_list (srv n))"
proof (induction k arbitrary: n)
  case (Suc k)
  let ?l = "client_list (srv n)" and ?n = "on_srv (\<lambda>s. s\<lparr>client_list := listRotate (client_list s)\<rparr>) n" and ?c = "hd (listRotate (client_list (srv n)))"
  have ne: "?l \<noteq> []" using Suc.prems(2) by auto
  obtain closed m where r: "clientsCronHandleTimeout E ?c ?n = (closed, m)" by (cases "clientsCronHandleTimeout E ?c ?n")
  have c: "?c \<in> allocated (srv ?n)" using cron_head [OF Suc.prems(1) ne] by simp
  note h = handle_timeout_inv [OF E(1) rotate_inv [OF Suc.prems(1)] c r]
  have m: "client_list (srv m) = listRotate ?l" using h(3,4) E(2) by auto
  have "client_list (srv (clients_cron_loop E (Suc k) n)) = rotate (length ?l - k) (rotate (length ?l - 1) ?l)"
    using Suc.IH [OF h(1)] Suc.prems(2) m ne r listRotate_rotate [OF ne] by simp
  also have "\<dots> = rotate ((length ?l - Suc k) + length ?l) ?l" using Suc.prems(2) by (simp add: rotate_rotate)
  also have "\<dots> = rotate (length ?l - Suc k) ?l" by (metis rotate_conv_mod mod_add_self2)
  finally show ?case .
qed simp

text \<open>With 59 clients and the default frequency, the ten runs of a second look at 50 of them.\<close>

lemma cron_iterations_short: "10 * cron_iterations 59 10 < 59"
  by (simp add: cron_iterations_def Let_def)

section \<open>The sweep and the clients\<close>

text \<open>The sweep works on the pool only.\<close>

definition clear_pool :: "server \<Rightarrow> server" where
  "clear_pool s = s\<lparr>smempubsub_memorys := Map.empty, smempubsub_memorys_available := Map.empty, smem_list_available := [], share_memory_size := 0\<rparr>"

definition pool_frame :: "server \<Rightarrow> server \<Rightarrow> bool" where
  "pool_frame s t \<longleftrightarrow> clear_pool t = clear_pool s"

lemma pool_frame_refl: "pool_frame s s"
  by (simp add: pool_frame_def)

lemma pool_frame_trans: "pool_frame s t \<Longrightarrow> pool_frame t u \<Longrightarrow> pool_frame s u"
  by (simp add: pool_frame_def)

lemma pool_frame_update:
  "pool_frame s t \<Longrightarrow> pool_frame s (t\<lparr>smempubsub_memorys := m\<rparr>)" "pool_frame s t \<Longrightarrow> pool_frame s (t\<lparr>smempubsub_memorys_available := a\<rparr>)"
  "pool_frame s t \<Longrightarrow> pool_frame s (t\<lparr>share_memory_size := z\<rparr>)"
  by (simp_all add: pool_frame_def clear_pool_def)

lemma pool_frame_fields:
  assumes "pool_frame s t"
  shows "clients t = clients s" "allocated t = allocated s" "current_client t = current_client s" "client_list t = client_list s"
    "clients_pending_write t = clients_pending_write s" "clients_to_close t = clients_to_close s" "unblocked_clients t = unblocked_clients s"
    "smempubsub_channels t = smempubsub_channels s"
  using arg_cong [OF assms [unfolded pool_frame_def], of clients] arg_cong [OF assms [unfolded pool_frame_def], of allocated]
    arg_cong [OF assms [unfolded pool_frame_def], of current_client] arg_cong [OF assms [unfolded pool_frame_def], of client_list]
    arg_cong [OF assms [unfolded pool_frame_def], of clients_pending_write] arg_cong [OF assms [unfolded pool_frame_def], of clients_to_close]
    arg_cong [OF assms [unfolded pool_frame_def], of unblocked_clients] arg_cong [OF assms [unfolded pool_frame_def], of smempubsub_channels]
  by (simp_all add: clear_pool_def)

lemma reclaim_frame: "pool_frame s (fst (snd (reclaim E p s k)))"
  by (auto simp: reclaim_def Let_def intro: pool_frame_update pool_frame_refl split: prod.split)

lemma sweep_list_frame: "pool_frame s (fst (snd (sweep_list E timeout ps s k)))"
proof (induction ps arbitrary: s k)
  case (Cons p ps)
  obtain q s1 k1 where r: "reclaim E p s k = (q, s1, k1)" by (metis prod_cases3)
  have "pool_frame s s1" using reclaim_frame [of s E p k] r by simp
  from pool_frame_trans [OF this Cons.IH] Cons.IH [of s k] r show ?case by (auto simp: split: prod.split) (metis fst_conv snd_conv)+
qed (simp add: pool_frame_refl)

lemma sweep_frame: "pool_frame s (fst (smemFreeShareMemory_cron E timeout ks ks' s k))"
proof -
  have folded: "pool_frame (fst st) (fst (fold f xs st))" if "\<And>x st. pool_frame (fst st) (fst (f x st))" for f :: "string \<Rightarrow> server \<times> 'a \<Rightarrow> server \<times> 'a" and xs st
  proof (induction xs arbitrary: st)
    case (Cons x xs)
    from pool_frame_trans [OF that Cons.IH] show ?case by simp
  qed (simp add: pool_frame_refl)
  have a: "pool_frame (fst st) (fst (sweep_available E timeout x st))" for x st
  proof -
    obtain s k where st: "st = (s, k)" by (cases st)
    have "pool_frame s (s1\<lparr>smempubsub_memorys_available := y\<rparr>)" if "sweep_list E timeout l s k = (l', s1, k1)" for l l' s1 k1 y
      using sweep_list_frame [of s E timeout l k] that by (simp add: pool_frame_update)
    then show ?thesis using pool_frame_refl [of s] by (auto simp: sweep_available_def st split: option.split prod.split)
  qed
  have u: "pool_frame (fst st) (fst (sweep_used E timeout x st))" for x st
  proof -
    obtain s k where st: "st = (s, k)" by (cases st)
    have "pool_frame s (s1\<lparr>smempubsub_memorys := y\<rparr>)" if "reclaim E p s k = (q, s1, k1)" for p q s1 k1 y
      using reclaim_frame [of s E p k] that by (simp add: pool_frame_update)
    then show ?thesis using pool_frame_refl [of s] by (auto simp: sweep_used_def st split: option.split prod.split)
  qed
  have "pool_frame s (fst (fold (sweep_available E timeout) ks (s, k)))" using folded [OF a, where st = "(s, k)" and xs = ks] by simp
  from pool_frame_trans [OF this folded [OF u]] show ?thesis by (simp add: smemFreeShareMemory_cron_def)
qed

lemma pool_frame_inv: "net_inv X n \<Longrightarrow> pool_frame (srv n) s \<Longrightarrow> net_inv X (on_srv (\<lambda>_. s) n)"
  using pool_frame_fields [of "srv n" s]
  by (simp add: net_inv_def srv_inv_def chan_inv_def subs_ok_def listed_def flagged_def connected_def on_srv_def)

section \<open>One run\<close>

definition cron_good :: "'k cron \<Rightarrow> bool" where
  "cron_good st \<longleftrightarrow> net_inv {} (nt (csys st)) \<and> \<not> clients_paused (csys st)"

definition keeps_cron :: "('k cron \<Rightarrow> 'k cron) \<Rightarrow> bool" where
  "keeps_cron f \<longleftrightarrow> (\<forall>st. cron_good st \<longrightarrow> cron_good (f st) \<and> cronloops (f st) = cronloops st)"

named_theorems keeps_crons \<open>phases that keep the bookkeeping\<close>

lemma keeps_cronD: "keeps_cron f \<Longrightarrow> cron_good st \<Longrightarrow> cron_good (f st) \<and> cronloops (f st) = cronloops st"
  by (simp add: keeps_cron_def)

lemma keeps_cron_comp: "keeps_cron g \<Longrightarrow> keeps_cron f \<Longrightarrow> keeps_cron (\<lambda>st. f (g st))"
  by (simp add: keeps_cron_def)

lemma keeps_cron_if [keeps_crons]: "keeps_cron f \<Longrightarrow> keeps_cron g \<Longrightarrow> keeps_cron (\<lambda>st. if P st then f st else g st)"
  by (simp add: keeps_cron_def)

lemma keeps_cron_id [keeps_crons]: "keeps_cron (\<lambda>st. st)"
  by (simp add: keeps_cron_def)

lemma keeps_cron_period [keeps_crons]: "keeps_cron f \<Longrightarrow> keeps_cron (period E ms f)"
  unfolding period_def [abs_def] by (rule keeps_cron_if [OF _ keeps_cron_id])

lemma keeps_cron_nt: "(\<And>n. net_inv {} n \<Longrightarrow> net_inv {} (f n)) \<Longrightarrow> keeps_cron (on_csys (on_nt f))"
  by (simp add: keeps_cron_def cron_good_def on_csys_def on_nt_def)

lemma keeps_cron_fields: "(\<And>st. csys (f st) = csys st \<and> cronloops (f st) = cronloops st) \<Longrightarrow> keeps_cron f"
  by (simp add: keeps_cron_def cron_good_def)

text \<open>What is relied on of the functions of other files: they keep the bookkeeping of the clients and do not pause them.\<close>

definition params_keep :: "'k cron_env \<Rightarrow> bool" where
  "params_keep E \<longleftrightarrow> answers_blocked E \<and> keeps_cron (on_csys (databasesCron E)) \<and> keeps_cron (rewriteAppendOnlyFileBackground E) \<and>
     keeps_cron (rdbSaveBackground E) \<and> (\<forall>x y. keeps_cron (backgroundSaveDoneHandler E x y) \<and> keeps_cron (backgroundRewriteDoneHandler E x y)) \<and>
     (\<forall>p. keeps_cron (ldbRemoveChild E p)) \<and> keeps_cron (flushAppendOnlyFile E) \<and> keeps_cron (replicationCron E) \<and> keeps_cron (clusterCron E) \<and>
     keeps_cron (sentinelTimer E) \<and> keeps_cron (migrateCloseTimedoutSockets E)"

lemma keeps_cron_statistics: "keeps_cron (cron_statistics E)"
proof -
  have t: "csys (trackInstantaneousMetric ms m r st) = csys st" "cronloops (trackInstantaneousMetric ms m r st) = cronloops st" for ms m r st
    by (simp_all add: trackInstantaneousMetric_def Let_def)
  have m: "keeps_cron (\<lambda>st. trackInstantaneousMetric a b (g st) (trackInstantaneousMetric a' b' g' (trackInstantaneousMetric a'' b'' (g'' st) st)))" for a b g a' b' g' a'' b'' g''
    by (rule keeps_cron_fields) (simp add: t)
  have u: "keeps_cron (updateCachedTime ms)" for ms
    by (simp add: keeps_cron_def cron_good_def updateCachedTime_def on_csys_def on_sv_def on_nt_def on_srv_def net_inv_def srv_inv_def chan_inv_def
        subs_ok_def listed_def flagged_def connected_def)
  have l: "keeps_cron (\<lambda>st. st\<lparr>lruclock := a, stat_peak_memory := max (stat_peak_memory st) b, resident_set_size := d\<rparr>)" for a b d
    by (rule keeps_cron_fields) simp
  show ?thesis unfolding cron_statistics_def [abs_def] Let_def
    by (rule keeps_cron_comp [OF keeps_cron_comp [OF u keeps_cron_period [OF m]] l])
qed

lemma keeps_cron_smem: "keeps_cron (smem_cron E)"
proof -
  have "keeps_cron (on_csys (\<lambda>x. on_pool (f x) x))" if "\<And>x. pool_frame (sv x) (fst (f x (sv x) (shm x)))" for f :: "'a sys \<Rightarrow> server \<Rightarrow> 'a \<Rightarrow> server \<times> 'a"
    unfolding keeps_cron_def
  proof (intro allI impI)
    fix st :: "'a cron"
    assume g: "cron_good st"
    obtain s k where r: "f (csys st) (sv (csys st)) (shm (csys st)) = (s, k)" by (cases "f (csys st) (sv (csys st)) (shm (csys st))")
    have "net_inv {} (on_srv (\<lambda>_. s) (nt (csys st)))" by (rule pool_frame_inv) (use g that [of "csys st"] r in \<open>simp_all add: cron_good_def\<close>)
    then show "cron_good (on_csys (\<lambda>x. on_pool (f x) x) st) \<and> cronloops (on_csys (\<lambda>x. on_pool (f x) x) st) = cronloops st"
      using g r by (simp add: cron_good_def on_csys_def on_pool_def on_sv_def on_nt_def)
  qed
  then show ?thesis unfolding smem_cron_def [abs_def] by (intro keeps_cron_period) (simp add: sweep_frame)
qed

lemma keeps_cron_cases:
  assumes E: "params_keep E"
  shows "keeps_cron (cron_persistence E)" "keeps_cron (cron_work E)"
proof -
  from E have b: "keeps_cron (rewriteAppendOnlyFileBackground E)" "keeps_cron (rdbSaveBackground E)" "\<And>x y. keeps_cron (backgroundSaveDoneHandler E x y)"
    "\<And>x y. keeps_cron (backgroundRewriteDoneHandler E x y)" "\<And>p. keeps_cron (ldbRemoveChild E p)" "keeps_cron (on_csys (databasesCron E))"
    "keeps_cron (flushAppendOnlyFile E)" and a: "answers_blocked E" by (simp_all add: params_keep_def)
  obtain pid ec sig where w: "wait3 E = (pid, ec, sig)" by (metis prod_cases3)
  note k = b keeps_cron_id
  show p: "keeps_cron (cron_persistence E)"
    unfolding cron_persistence_def [abs_def] Let_def w prod.case
    by (rule keeps_cron_comp [where g = "\<lambda>st. if rdb_child_pid st = -1 \<and> aof_child_pid st = -1 \<and> aof_rewrite_scheduled st then rewriteAppendOnlyFileBackground E st else st"])
      (intro keeps_cron_if k keeps_cron_comp [where g = "\<lambda>st. if \<exists>sp\<in>set (saveparams E). save_due st sp then rdbSaveBackground E st else st"])+
  have c: "keeps_cron (on_csys (on_nt (clientsCron E)))"
    by (rule keeps_cron_nt) (use cron_loop_inv [OF a] in \<open>simp add: clientsCron_def\<close>)
  have f: "keeps_cron (\<lambda>st. if aof_flush_postponed_start st \<noteq> 0 then flushAppendOnlyFile E st else st)"
    "keeps_cron (\<lambda>st. if \<not> aof_last_write_ok st then flushAppendOnlyFile E st else st)" by (intro keeps_cron_if k)+
  show "keeps_cron (cron_work E)" unfolding cron_work_def [abs_def] Let_def
    by (rule keeps_cron_comp [OF keeps_cron_comp [OF keeps_cron_comp [OF keeps_cron_comp [OF keeps_cron_comp [OF c b(6)] keeps_cron_smem] p] f(1)]
        keeps_cron_period [OF f(2)]])
qed

lemma cron_last_good:
  assumes E: "params_keep E" and st: "cron_good st"
  shows "cron_good (cron_last E st) \<and> cronloops (cron_last E st) = cronloops st + 1"
proof -
  from E have b: "keeps_cron (replicationCron E)" "keeps_cron (clusterCron E)" "keeps_cron (sentinelTimer E)" "keeps_cron (migrateCloseTimedoutSockets E)"
    by (simp_all add: params_keep_def)
  have p: "keeps_cron (on_csys (\<lambda>x. snd (clientsArePaused_sys x)))"
    by (simp add: keeps_cron_def cron_good_def on_csys_def clientsArePaused_sys_def)
  have "keeps_cron (\<lambda>st. if cluster_on E then clusterCron E st else st)" "keeps_cron (\<lambda>st. if sentinel_mode E then sentinelTimer E st else st)"
    by (intro keeps_cron_if b keeps_cron_id)+
  note all = keeps_cron_comp [OF keeps_cron_comp [OF keeps_cron_comp [OF keeps_cron_comp [OF p keeps_cron_period [OF b(1)]]
        keeps_cron_period [OF this(1)]] keeps_cron_period [OF this(2)]] keeps_cron_period [OF b(4)]]
  from keeps_cronD [OF all st] show ?thesis by (simp add: cron_last_def Let_def cron_good_def)
qed

section \<open>The period of the sweep\<close>

lemma sdiv_nonneg: "0 \<le> a \<Longrightarrow> 0 < b \<Longrightarrow> a sdiv b = a div (b :: int)"
  by (cases "a = 0") (simp_all add: signed_divide_int_def)

lemma mod_hits_once:
  fixes a p :: int
  assumes "0 < p"
  shows "\<exists>!j. 0 \<le> j \<and> j < p \<and> (a + j) mod p = 0"
proof (rule ex1I [of _ "(- a) mod p"])
  show "0 \<le> (- a) mod p \<and> (- a) mod p < p \<and> (a + (- a) mod p) mod p = 0" using assms by (simp add: mod_add_right_eq)
next
  fix j assume j: "0 \<le> j \<and> j < p \<and> (a + j) mod p = 0"
  then have "p dvd (- a) - j" by (metis dvd_minus_iff minus_add_distrib mod_0_imp_dvd uminus_add_conv_diff add.commute diff_conv_add_uminus)
  then have "(- a) mod p = j mod p" by (simp add: mod_eq_dvd_iff)
  with j show "j = (- a) mod p" by simp
qed

lemma sweep_due_once:
  assumes h: "1 \<le> h" "h \<le> 500" and l: "0 \<le> loops"
  defines "p \<equiv> 5000 sdiv (1000 sdiv h)"
  shows "0 < p" "p * (1000 sdiv h) \<le> 5000" "\<exists>!j. 0 \<le> j \<and> j < p \<and> run_with_period h (loops + j) 5000"
proof -
  let ?t = "1000 div h"
  have d: "1000 sdiv h = ?t" using h by (simp add: sdiv_nonneg)
  have t: "1 < ?t" "?t \<le> 1000"
  proof -
    have "500 * h \<le> 250000" using h by simp
    have "2 * h \<le> 1000" using h by simp
    then have "(2 * h) div h \<le> 1000 div h" using h by (intro zdiv_mono1) simp_all
    then show "1 < ?t" using h by simp
    have "1000 div h \<le> 1000 div 1" using h by (intro zdiv_mono2) simp_all
    then show "?t \<le> 1000" by simp
  qed
  have pd: "p = 5000 div ?t" using t by (simp add: p_def d sdiv_nonneg)
  have "5 * ?t \<le> 5000" using t by simp
  then have "(5 * ?t) div ?t \<le> 5000 div ?t" using t by (intro zdiv_mono1) simp_all
  then show p0: "0 < p" using t by (simp add: pd)
  show "p * (1000 sdiv h) \<le> 5000" unfolding d pd using minus_mod_eq_div_mult [of 5000 ?t] t pos_mod_sign [of ?t 5000] by linarith
  have "run_with_period h (loops + j) 5000 \<longleftrightarrow> (loops + j) mod p = 0" if "0 \<le> j" for j
    using t(2) p0 l that smod_nonneg [of "loops + j" p] by (simp add: run_with_period_def p_def d)
  then show "\<exists>!j. 0 \<le> j \<and> j < p \<and> run_with_period h (loops + j) 5000" using mod_hits_once [OF p0, of loops] by metis
qed

section \<open>Properties\<close>

text \<open>A server whose external functions do nothing.\<close>

definition demo_cron_env :: "int list cron_env" where
  "demo_cron_env =
     \<lparr>senv = demo_srv_env, hz = 10, maxidletime = 0, now_ms = 7000, bpop_timeout = (\<lambda>_. 0), replyToBlockedClientTimedOut = (\<lambda>_ s. s),
      clusterRedirectBlockedClientIfNeeded = (\<lambda>_ s. (False, s)), stat_net_input_bytes = 0, zmalloc_used_memory = 0, zmalloc_get_rss = 0,
      prepareForShutdown = (\<lambda>st. (True, st)), databasesCron = (\<lambda>st. st), sweep_order = (\<lambda>s. ([dec_int 8192], [dec_int 7])),
      rewriteAppendOnlyFileBackground = (\<lambda>st. st), rdbSaveBackground = (\<lambda>st. st), ldbPendingChildren = False, wait3 = (0, 0, 0),
      backgroundSaveDoneHandler = (\<lambda>_ _ st. st), backgroundRewriteDoneHandler = (\<lambda>_ _ st. st), ldbRemoveChild = (\<lambda>_ st. st), saveparams = [(900, 1)],
      aof_rewrite_perc = 100, aof_rewrite_min_size = 67108864, flushAppendOnlyFile = (\<lambda>st. st), replicationCron = (\<lambda>st. st), clusterCron = (\<lambda>st. st),
      sentinel_mode = False, sentinelTimer = (\<lambda>st. st), migrateCloseTimedoutSockets = (\<lambda>st. st), clusterBeforeSleep = (\<lambda>st. st),
      active_expire_enabled = True, activeExpireCycle_fast = (\<lambda>st. st), clients_waiting_acks = (\<lambda>_. False), processClientsWaitingReplicas = (\<lambda>st. st),
      processUnblockedClients = (\<lambda>st. st), socket_writes = (\<lambda>_. []), socket_eagain = (\<lambda>_. True), write_handler_ok = (\<lambda>_. True)\<rparr>"

definition demo_cron :: "int list sys \<Rightarrow> int list cron" where
  "demo_cron x =
     \<lparr>csys = x, cronloops = 100, inst_metric = (\<lambda>_. \<lparr>last_sample_time = 0, last_sample_count = 0, samples = replicate 16 0, sample_idx = 0\<rparr>),
      lruclock = 0, stat_peak_memory = 0, resident_set_size = 0, shutdown_asap = False, rdb_child_pid = -1, aof_child_pid = -1,
      aof_rewrite_scheduled = False, lastsave = 0, lastbgsave_try = 0, lastbgsave_ok = True, aof_current_size = 0, aof_rewrite_base_size = 0,
      aof_flush_postponed_start = 0, aof_last_write_ok = True, get_ack_from_slaves = False\<rparr>"

lemma demo_params_keep: "params_keep demo_cron_env"
proof -
  have "keeps_cron (on_csys (\<lambda>st. st))" by (simp add: keeps_cron_def on_csys_def)
  moreover have "keeps_clients (\<lambda>s. s)" by (simp add: keeps_clients_def on_srv_def)
  ultimately show ?thesis using demo_srv_env_ok keeps_cron_id by (simp add: params_keep_def answers_blocked_def demo_cron_env_def)
qed

text \<open>C19: a run of \<open>serverCron\<close> on a server whose clients are not paused comes to an end, also with any number of deferred
  frees, is due again after \<open>1000 / hz\<close> milliseconds, and keeps the bookkeeping of the clients consistent: idle clients
  are closed, the share memory pool is swept and the queue of deferred frees is worked off without a dangling reference.\<close>

theorem serverCron_keeps_clients:
  assumes E: "params_keep E" and st: "net_inv {} (nt (csys st))" "\<not> clients_paused (csys st)" "\<not> shutdown_asap st"
  shows "\<exists>st'. serverCron E st = Next (1000 sdiv hz E) st' \<and> net_inv {} (nt (csys st')) \<and> \<not> clients_paused (csys st') \<and>
    cronloops st' = cronloops st + 1"
proof -
  let ?N = "net_of (senv E)"
  from E have N: "env_ok ?N" "\<And>n. \<not> has_master ?N n" by (simp_all add: params_keep_def answers_blocked_def)
  let ?s = "cron_statistics E st"
  have s: "cron_good ?s" "cronloops ?s = cronloops st" using keeps_cronD [OF keeps_cron_statistics, of st E] st by (simp_all add: cron_good_def)
  have sd: "\<not> shutdown_asap ?s" using st(3)
    by (simp add: cron_statistics_def Let_def updateCachedTime_def on_csys_def period_def trackInstantaneousMetric_def)
  let ?w = "cron_work E (?s\<lparr>shutdown_asap := False\<rparr>)"
  have "cron_good (?s\<lparr>shutdown_asap := False\<rparr>)" using s(1) by (simp add: cron_good_def)
  from keeps_cronD [OF keeps_cron_cases(2) [OF E] this] s(2) have w: "cron_good ?w" "cronloops ?w = cronloops st" by simp_all
  from async_queue_freed [OF N, of "nt (csys ?w)" "Suc (length (clients_to_close (sv (csys ?w))))"] w(1)
  obtain m where m: "freeClientsInAsyncFreeQueue ?N (Suc (length (clients_to_close (sv (csys ?w))))) (nt (csys ?w)) = Some m" "net_inv {} m"
    by (auto simp: cron_good_def)
  let ?l = "on_csys (\<lambda>x. x\<lparr>nt := m\<rparr>) ?w"
  have "cron_good ?l" "cronloops ?l = cronloops st" using w m(2) by (simp_all add: cron_good_def on_csys_def)
  with cron_last_good [OF E, of ?l] m(1) sd show ?thesis by (simp add: serverCron_def Let_def cron_good_def)
qed

theorem serverCron_keeps_clients_witness:
  "\<exists>st'. serverCron demo_cron_env (demo_cron (demo_sys demo_net1)) = Next 100 st' \<and> net_inv {} (nt (csys st')) \<and> cronloops st' = 101"
proof -
  have e: "1000 sdiv hz demo_cron_env = 100" by (simp add: demo_cron_env_def)
  show ?thesis
    using serverCron_keeps_clients [OF demo_params_keep, of "demo_cron (demo_sys demo_net1)"] demo_net_inv(2)
    unfolding e by (auto simp: demo_cron_def demo_sys_def)
qed


text \<open>The pool of the example seven seconds after its last use.\<close>

definition demo_late :: "int list cron" where
  "demo_late = demo_cron ((demo_sys (demo_net\<lparr>srv := demo_server\<lparr>unixtime := 7\<rparr>\<rparr>))\<lparr>shm := [7, 9]\<rparr>)"


end
