(* ===== verification/Redis_Evict.thy ===== *)
theory Redis_Evict
  imports Redis_Admin "HOL-Library.Multiset"
begin

text \<open>
  The memory limit of \<open>server.c\<close>: the pool of eviction candidates (\<open>evictionPoolPopulate\<close>), the choice of a key under each
  policy, and the loop of \<open>freeMemoryIfNeeded\<close>. A data base is the tables of its keys and of their expiry times; a value is
  the number of its object. The dictionary (\<open>dict.c\<close>), the deletion of keys (\<open>db.c\<close>) and the allocator are parameters.
\<close>

section \<open>The pool of candidates\<close>

abbreviation (input) "MAXMEMORY_EVICTION_POOL_SIZE \<equiv> (16 :: nat)"

record evictionPoolEntry =
  idle_time :: "64 word"
  pkey :: "string option"

definition free_slot :: evictionPoolEntry where
  "free_slot = \<lparr>idle_time = 0, pkey = None\<rparr>"

definition evictionPoolAlloc :: "evictionPoolEntry list" where
  "evictionPoolAlloc = replicate MAXMEMORY_EVICTION_POOL_SIZE free_slot"

text \<open>\<open>memmove (pool + d) (pool + s) n\<close> on an array of elements.\<close>

definition memmove :: "nat \<Rightarrow> nat \<Rightarrow> nat \<Rightarrow> 'a list \<Rightarrow> 'a list" where
  "memmove d s n xs = take d xs @ take n (drop s xs) @ drop (d + n) xs"

text \<open>The first slot that is free or whose idle time is not smaller; the length of the pool when there is none.\<close>

definition pool_slot :: "64 word \<Rightarrow> evictionPoolEntry list \<Rightarrow> nat" where
  "pool_slot t pool = length (takeWhile (\<lambda>e. pkey e \<noteq> None \<and> idle_time e < t) pool)"

definition pool_insert :: "string \<Rightarrow> 64 word \<Rightarrow> evictionPoolEntry list \<Rightarrow> evictionPoolEntry list" where
  "pool_insert key t pool =
     (let k = pool_slot t pool;
          new = \<lparr>idle_time = t, pkey = Some key\<rparr>;
          full = (pkey (pool ! (MAXMEMORY_EVICTION_POOL_SIZE - 1)) \<noteq> None)
      in if k = 0 \<and> full then pool
         else if k < MAXMEMORY_EVICTION_POOL_SIZE \<and> pkey (pool ! k) = None then pool[k := new]
         else if \<not> full then (memmove (k + 1) k (MAXMEMORY_EVICTION_POOL_SIZE - k - 1) pool)[k := new]
         else (memmove 0 1 (k - 1) pool)[k - 1 := new])"

text \<open>\<open>idle\<close> gives the idle time of the value of a key; \<open>None\<close> is a key without a value, on which the code would crash.\<close>

fun evictionPoolPopulate :: "(string \<Rightarrow> 64 word option) \<Rightarrow> string list \<Rightarrow> evictionPoolEntry list \<Rightarrow> evictionPoolEntry list option" where
  "evictionPoolPopulate idle [] pool = Some pool"
| "evictionPoolPopulate idle (key # keys) pool =
     (case idle key of None \<Rightarrow> None | Some t \<Rightarrow> evictionPoolPopulate idle keys (pool_insert key t pool))"

text \<open>From the best candidate to the worst: every one looked at leaves the pool, the first that still exists is chosen.\<close>

definition pool_remove :: "nat \<Rightarrow> evictionPoolEntry list \<Rightarrow> evictionPoolEntry list" where
  "pool_remove k pool =
     (memmove k (k + 1) (MAXMEMORY_EVICTION_POOL_SIZE - k - 1) pool)[MAXMEMORY_EVICTION_POOL_SIZE - 1 := free_slot]"

fun pool_pick :: "(string \<Rightarrow> bool) \<Rightarrow> nat \<Rightarrow> evictionPoolEntry list \<Rightarrow> string option \<times> evictionPoolEntry list" where
  "pool_pick ex 0 pool = (None, pool)"
| "pool_pick ex (Suc k) pool =
     (case pkey (pool ! k) of
        None \<Rightarrow> pool_pick ex k pool
      | Some key \<Rightarrow> if ex key then (Some key, pool_remove k pool) else pool_pick ex k (pool_remove k pool))"

section \<open>Choosing a key\<close>

datatype maxmemory_policy = VOLATILE_LRU | VOLATILE_TTL | VOLATILE_RANDOM | ALLKEYS_LRU | ALLKEYS_RANDOM | NO_EVICTION

text \<open>The dictionaries of a data base as association lists.\<close>

record redisDb =
  kdict :: "(string \<times> nat) list"
  expires :: "(string \<times> int) list"
  eviction_pool :: "evictionPoolEntry list"
  avg_ttl :: int

record 'k keyspace =
  ks_sys :: "'k sys"
  dbs :: "redisDb list"
  draws :: nat
  stat_evictedkeys :: int
  stat_expiredkeys :: int

text \<open>The random draws of \<open>dict.c\<close> are positions in the dictionary, as functions of the number of draws made so far
  and the size of the dictionary.\<close>

record 'k evict_env =
  ev_srv :: "'k srv_env"
  policy :: maxmemory_policy
  maxmemory_samples :: nat
  aof_buf_len :: size_t
  aofRewriteBufferSize :: size_t
  zmalloc_used_memory :: "'k keyspace \<Rightarrow> size_t"
  estimateObjectIdleTime :: "nat \<Rightarrow> 64 word"
  dictGetSomeKeys :: "nat \<Rightarrow> nat \<Rightarrow> nat \<Rightarrow> nat list"
  dictGetRandomKey :: "nat \<Rightarrow> nat \<Rightarrow> nat"
  propagateExpire :: "nat \<Rightarrow> string \<Rightarrow> 'k sys \<Rightarrow> 'k sys"
  dbDelete :: "nat \<Rightarrow> string \<Rightarrow> 'k keyspace \<Rightarrow> 'k keyspace"
  notifyKeyspaceEvent :: "string \<Rightarrow> string \<Rightarrow> nat \<Rightarrow> 'k sys \<Rightarrow> 'k sys"

definition policy_keys :: "maxmemory_policy \<Rightarrow> redisDb \<Rightarrow> string list" where
  \<comment> \<open>the keys of the dictionary the policy evicts from\<close>
  "policy_keys p db = (if p = ALLKEYS_LRU \<or> p = ALLKEYS_RANDOM then map fst (kdict db) else map fst (expires db))"

definition idle_of :: "'k evict_env \<Rightarrow> redisDb \<Rightarrow> string \<Rightarrow> 64 word option" where
  "idle_of E db key = map_option (estimateObjectIdleTime E) (map_of (kdict db) key)"

text \<open>\<open>None\<close> means that the rounds did not suffice, or a crash.\<close>

fun lru_loop :: "'k evict_env \<Rightarrow> nat \<Rightarrow> redisDb \<Rightarrow> nat \<Rightarrow> evictionPoolEntry list \<Rightarrow> (string \<times> nat \<times> evictionPoolEntry list) option" where
  "lru_loop E 0 db d pool = None"
| "lru_loop E (Suc n) db d pool =
     (let keys = policy_keys (policy E) db
      in case evictionPoolPopulate (idle_of E db) (map ((!) keys) (dictGetSomeKeys E d (length keys) (maxmemory_samples E))) pool of
           None \<Rightarrow> None
         | Some pool1 \<Rightarrow>
             (case pool_pick (\<lambda>key. key \<in> set keys) MAXMEMORY_EVICTION_POOL_SIZE pool1 of
                (Some key, pool2) \<Rightarrow> Some (key, Suc d, pool2)
              | (None, pool2) \<Rightarrow> lru_loop E n db (Suc d) pool2))"

fun ttl_loop :: "'k evict_env \<Rightarrow> redisDb \<Rightarrow> nat \<Rightarrow> nat \<Rightarrow> (string \<times> int) option \<Rightarrow> (string \<times> int) option \<times> nat" where
  "ttl_loop E db 0 d bst = (bst, d)"
| "ttl_loop E db (Suc k) d bst =
     (let de = expires db ! dictGetRandomKey E d (length (expires db))
      in ttl_loop E db k (Suc d) (case bst of None \<Rightarrow> Some de | Some b \<Rightarrow> if snd de < snd b then Some de else Some b))"

definition best_key :: "'k evict_env \<Rightarrow> nat \<Rightarrow> redisDb \<Rightarrow> nat \<Rightarrow> (string option \<times> nat \<times> evictionPoolEntry list) option" where
  "best_key E fuel db d =
     (let keys = policy_keys (policy E) db; pool = eviction_pool db
      in if policy E = ALLKEYS_RANDOM \<or> policy E = VOLATILE_RANDOM
         then Some (Some (keys ! dictGetRandomKey E d (length keys)), Suc d, pool)
         else if policy E = ALLKEYS_LRU \<or> policy E = VOLATILE_LRU
         then map_option (\<lambda>(key, d1, pool1). (Some key, d1, pool1)) (lru_loop E fuel db d pool)
         else if policy E = VOLATILE_TTL
         then (case ttl_loop E db (maxmemory_samples E) d None of (bst, d1) \<Rightarrow> Some (map_option fst bst, d1, pool))
         else Some (None, d, pool))"

section \<open>Freeing memory\<close>

definition on_ks_sys :: "('k sys \<Rightarrow> 'k sys) \<Rightarrow> 'k keyspace \<Rightarrow> 'k keyspace" where
  "on_ks_sys f ks = ks\<lparr>ks_sys := f (ks_sys ks)\<rparr>"

definition evict_key :: "'k evict_env \<Rightarrow> bool \<Rightarrow> nat \<Rightarrow> string \<Rightarrow> size_t \<times> nat \<times> 'k keyspace \<Rightarrow> size_t \<times> nat \<times> 'k keyspace" where
  "evict_key E has_slaves j key = (\<lambda>(freed, n, ks).
     (let ks1 = on_ks_sys (propagateExpire E j key) ks;
          ks2 = dbDelete E j key ks1;
          freed1 = freed + (zmalloc_used_memory E ks1 - zmalloc_used_memory E ks2);
          ks3 = on_ks_sys (notifyKeyspaceEvent E ''evicted'' key j) (ks2\<lparr>stat_evictedkeys := stat_evictedkeys ks2 + 1\<rparr>)
      in (freed1, n + 1, if has_slaves then on_ks_sys (flushSlavesOutputBuffers (ev_srv E)) ks3 else ks3)))"

definition evict_db :: "'k evict_env \<Rightarrow> nat \<Rightarrow> bool \<Rightarrow> nat \<Rightarrow> size_t \<times> nat \<times> 'k keyspace \<Rightarrow> (size_t \<times> nat \<times> 'k keyspace) option" where
  "evict_db E fuel has_slaves j = (\<lambda>(freed, n, ks).
     (let db = dbs ks ! j
      in if policy_keys (policy E) db = [] then Some (freed, n, ks)
         else
           (case best_key E fuel db (draws ks) of
              None \<Rightarrow> None
            | Some (bst, d, pool) \<Rightarrow>
                (let ks1 = ks\<lparr>draws := d, dbs := (dbs ks)[j := db\<lparr>eviction_pool := pool\<rparr>]\<rparr>
                 in case bst of
                      None \<Rightarrow> Some (freed, n, ks1)
                    | Some key \<Rightarrow> Some (evict_key E has_slaves j key (freed, n, ks1))))))"

fun evict_dbs :: "'k evict_env \<Rightarrow> nat \<Rightarrow> bool \<Rightarrow> nat list \<Rightarrow> size_t \<times> nat \<times> 'k keyspace \<Rightarrow> (size_t \<times> nat \<times> 'k keyspace) option" where
  "evict_dbs E fuel has_slaves [] st = Some st"
| "evict_dbs E fuel has_slaves (j # js) st =
     (case evict_db E fuel has_slaves j st of None \<Rightarrow> None | Some st1 \<Rightarrow> evict_dbs E fuel has_slaves js st1)"

fun free_loop :: "'k evict_env \<Rightarrow> nat \<Rightarrow> nat \<Rightarrow> bool \<Rightarrow> size_t \<Rightarrow> size_t \<Rightarrow> 'k keyspace \<Rightarrow> (bool \<times> 'k keyspace) option" where
  "free_loop E fuel 0 has_slaves tofree freed ks = (if freed < tofree then None else Some (True, ks))"
| "free_loop E fuel (Suc rounds) has_slaves tofree freed ks =
     (if freed < tofree then
        (case evict_dbs E fuel has_slaves [0..<length (dbs ks)] (freed, 0, ks) of
           None \<Rightarrow> None
         | Some (freed1, n, ks1) \<Rightarrow> if n = 0 then Some (False, ks1) else free_loop E fuel rounds has_slaves tofree freed1 ks1)
      else Some (True, ks))"

definition counted_memory :: "'k evict_env \<Rightarrow> 'k keyspace \<Rightarrow> size_t" where
  \<comment> \<open>used memory without the output buffers of slaves and the buffers of the append only file\<close>
  "counted_memory E ks =
     (let st = ks_sys ks;
          used = fold (\<lambda>c m. let b = getClientOutputBufferMemoryUsage (client_of st c) in if b > m then 0 else m - b)
                   (slaves (nt st)) (zmalloc_used_memory E ks)
      in if aof_on (ev_srv E) then used - aof_buf_len E - aofRewriteBufferSize E else used)"

text \<open>Every round evicts a key or is the last, so one round per key and one more are enough.\<close>

definition total_keys :: "redisDb list \<Rightarrow> nat" where
  "total_keys xs = sum_list (map (\<lambda>db. length (kdict db)) xs)"

definition freeMemoryIfNeeded_ks :: "'k evict_env \<Rightarrow> nat \<Rightarrow> 'k keyspace \<Rightarrow> (bool \<times> 'k keyspace) option" where
  "freeMemoryIfNeeded_ks E fuel ks =
     (let used = counted_memory E ks
      in if unat used \<le> maxmemory (ev_srv E) then Some (True, ks)
         else if policy E = NO_EVICTION then Some (False, ks)
         else free_loop E fuel (Suc (total_keys (dbs ks))) (slaves (nt (ks_sys ks)) \<noteq> []) (used - of_nat (maxmemory (ev_srv E))) 0 ks)"

section \<open>What the pool holds\<close>

text \<open>A pool in order: its candidates with increasing idle times, then free slots.\<close>

definition slot :: "string \<times> 64 word \<Rightarrow> evictionPoolEntry" where
  "slot e = \<lparr>idle_time = snd e, pkey = Some (fst e)\<rparr>"

definition pool_with :: "(string \<times> 64 word) list \<Rightarrow> evictionPoolEntry list" where
  "pool_with es = map slot es @ replicate (MAXMEMORY_EVICTION_POOL_SIZE - length es) free_slot"

definition pool_good :: "(string \<times> 64 word) list \<Rightarrow> bool" where
  "pool_good es \<longleftrightarrow> length es \<le> MAXMEMORY_EVICTION_POOL_SIZE \<and> sorted (map snd es)"

definition best :: "'a list \<Rightarrow> 'a list" where
  "best xs = drop (length xs - MAXMEMORY_EVICTION_POOL_SIZE) xs"

lemma slot_simps [simp]: "pkey (slot e) = Some (fst e)" "idle_time (slot e) = snd e" "pkey free_slot = None"
  by (simp_all add: slot_def free_slot_def)

lemma pool_with_length [simp]: "length es \<le> MAXMEMORY_EVICTION_POOL_SIZE \<Longrightarrow> length (pool_with es) = MAXMEMORY_EVICTION_POOL_SIZE"
  by (simp add: pool_with_def)

lemma pool_with_nth:
  "k < MAXMEMORY_EVICTION_POOL_SIZE \<Longrightarrow> pkey (pool_with es ! k) = (if k < length es then Some (fst (es ! k)) else None)"
  by (simp add: pool_with_def nth_append)

text \<open>The slot splits the candidates as insertion into a sorted list does.\<close>

lemma pool_slot_with: "pool_slot t (pool_with es) = length (takeWhile (\<lambda>e. snd e < t) es)"
proof -
  have "takeWhile (\<lambda>e. pkey e \<noteq> None \<and> idle_time e < t) (map slot es @ replicate n free_slot) = map slot (takeWhile (\<lambda>e. snd e < t) es)" for n
    by (induction es) simp_all
  then show ?thesis by (simp add: pool_slot_def pool_with_def)
qed

lemma insort_split:
  fixes e :: "'a \<times> 'b :: linorder"
  shows "insort_key snd e es = takeWhile (\<lambda>x. snd x < snd e) es @ e # dropWhile (\<lambda>x. snd x < snd e) es"
  by (induction es) auto

lemma memmove_right:
  assumes "length xs = Suc (k + n)"
  shows "(memmove (k + 1) k n xs)[k := v] = take k xs @ v # take n (drop k xs)"
proof -
  have "memmove (k + 1) k n xs = take k xs @ (xs ! k) # take n (drop k xs)"
    using assms by (simp add: memmove_def take_Suc_conv_app_nth)
  then show ?thesis using assms by (simp add: list_update_append)
qed

lemma memmove_left: "k < length xs \<Longrightarrow> (memmove 0 1 k xs)[k := v] = take k (tl xs) @ v # drop (Suc k) xs"
  by (simp add: memmove_def list_update_append drop_Suc Cons_nth_drop_Suc [symmetric])

lemma pool_remove_with:
  assumes "length (es @ [e]) \<le> MAXMEMORY_EVICTION_POOL_SIZE"
  shows "pool_remove (length es) (pool_with (es @ [e])) = pool_with es"
proof -
  let ?m = "15 - length es"
  have p: "pool_with (es @ [e]) = map slot es @ slot e # replicate ?m free_slot" by (simp add: pool_with_def)
  have "memmove (length es) (length es + 1) ?m (pool_with (es @ [e])) = map slot es @ replicate ?m free_slot @ drop ?m (slot e # replicate ?m free_slot)"
    unfolding p by (simp add: memmove_def)
  moreover have "drop ?m (slot e # replicate ?m free_slot) = [if ?m = 0 then slot e else free_slot]"
    using drop_replicate [of "?m - 1" ?m free_slot] by (cases ?m) simp_all
  ultimately have "pool_remove (length es) (pool_with (es @ [e])) = map slot es @ replicate ?m free_slot @ [free_slot]"
    using assms by (simp add: pool_remove_def list_update_append)
  also have "\<dots> = pool_with es" using assms by (simp add: pool_with_def replicate_append_same flip: replicate_Suc)
  finally show ?thesis .
qed

lemma pool_insert_best:
  assumes "pool_good es"
  shows "pool_insert key t (pool_with es) = pool_with (best (insort_key snd (key, t) es))"
proof -
  define l r where "l = takeWhile (\<lambda>x. snd x < t) es" and "r = dropWhile (\<lambda>x. snd x < t) es"
  have es: "es = l @ r" and k: "pool_slot t (pool_with es) = length l" and i: "insort_key snd (key, t) es = l @ (key, t) # r"
    by (simp_all add: l_def r_def pool_slot_with insort_split)
  have n: "length l + length r \<le> 16" using assms es by (simp add: pool_good_def)
  then have len: "length (pool_with es) = 16" using es by simp
  have new: "\<lparr>idle_time = t, pkey = Some key\<rparr> = slot (key, t)" by (simp add: slot_def)
  have full: "pkey (pool_with es ! 15) \<noteq> None \<longleftrightarrow> length l + length r = 16" using n es by (auto simp: pool_with_nth)
  have at: "k < 16 \<Longrightarrow> pkey (pool_with es ! k) = None \<longleftrightarrow> length l + length r \<le> k" for k using es by (auto simp: pool_with_nth)
  consider (worst) "length l + length r = 16" "l = []" | (full) x l' where "length l + length r = 16" "l = x # l'"
    | (last) "length l < 16" "r = []" | (middle) "length l + length r < 16" "r \<noteq> []"
    using n by (cases l; cases "length l + length r = 16"; cases r) auto
  then show ?thesis
  proof cases
    case worst
    then show ?thesis using full i es unfolding pool_insert_def k Let_def by (simp add: best_def)
  next
    case (full x l')
    have p: "pool_with es = slot x # map slot l' @ map slot r" using full es by (simp add: pool_with_def)
    have "(memmove 0 1 (length l') (pool_with es))[length l' := slot (key, t)] = map slot l' @ slot (key, t) # map slot r"
      by (subst memmove_left) (simp_all add: p)
    moreover have "pool_with (best (l @ (key, t) # r)) = map slot l' @ slot (key, t) # map slot r" using full by (simp add: best_def pool_with_def)
    ultimately show ?thesis using full(1,2) \<open>pkey (pool_with es ! 15) \<noteq> None \<longleftrightarrow> _\<close> at [of "length l"]
      unfolding pool_insert_def k Let_def new i by auto
  next
    case last
    have "pool_with es = map slot l @ free_slot # replicate (15 - length l) free_slot" using last es by (simp add: pool_with_def flip: replicate_Suc)
    then have "(pool_with es)[length l := slot (key, t)] = pool_with (best (l @ (key, t) # r))"
      using last by (simp add: best_def list_update_append pool_with_def)
    then show ?thesis using last full at [of "length l"] unfolding pool_insert_def k Let_def new i by simp
  next
    case middle
    have p: "pool_with es = map slot l @ map slot r @ replicate (16 - (length l + length r)) free_slot"
      using es by (simp add: pool_with_def)
    have "take (15 - length l) (map slot r @ replicate (16 - (length l + length r)) free_slot) = map slot r @ replicate (15 - (length l + length r)) free_slot"
      using middle(1) by simp
    then have "(memmove (length l + 1) (length l) (15 - length l) (pool_with es))[length l := slot (key, t)] = pool_with (l @ (key, t) # r)"
      using memmove_right [of "pool_with es" "length l" "15 - length l" "slot (key, t)"] middle len by (simp add: p) (simp add: pool_with_def)
    then show ?thesis using middle full at [of "length l"] unfolding pool_insert_def k Let_def new i by (auto simp: best_def)
  qed
qed

text \<open>Keeping the best after every insertion is keeping the best in the end.\<close>

lemma best_length [simp]: "length (best xs) = min (length xs) MAXMEMORY_EVICTION_POOL_SIZE"
  by (simp add: best_def)

lemma best_good: "sorted (map snd es) \<Longrightarrow> pool_good (best es)"
  by (simp add: pool_good_def best_def sorted_wrt_drop flip: drop_map)

lemma best_short: "length xs \<le> MAXMEMORY_EVICTION_POOL_SIZE \<Longrightarrow> best xs = xs"
  by (simp add: best_def)

lemma drop_insort:
  fixes e :: "'a \<times> 'b :: linorder"
  shows "sorted (map snd es) \<Longrightarrow> n \<le> length es \<Longrightarrow> drop (Suc n) (insort_key snd e es) = tl (insort_key snd e (drop n es))"
proof (induction n arbitrary: es)
  case 0
  then show ?case by (simp add: drop_Suc)
next
  case (Suc n)
  then obtain x xs where x: "es = x # xs" by (cases es) auto
  show ?case
  proof (cases "snd e \<le> snd x")
    case True
    then have "\<forall>y\<in>set (drop n xs). snd e \<le> snd y" using Suc.prems(1) x by (auto dest!: in_set_dropD)
    then have "insort_key snd e (drop n xs) = e # drop n xs" by (cases "drop n xs") auto
    with True show ?thesis by (simp add: x)
  next
    case False
    then show ?thesis using Suc x by simp
  qed
qed

lemma best_insort:
  fixes e :: "'a \<times> 'b :: linorder"
  assumes "sorted (map snd es)"
  shows "best (insort_key snd e (best es)) = best (insort_key snd e es)"
proof (cases "length es \<le> 16")
  case False
  then have "length (insort_key snd e es) - 16 = Suc (length es - 16)" by simp
  with False show ?thesis using drop_insort [OF assms, of "length es - 16" e] by (simp add: best_def drop_Suc)
qed (simp add: best_short)

definition add_all :: "(string \<times> 64 word) list \<Rightarrow> (string \<times> 64 word) list \<Rightarrow> (string \<times> 64 word) list" where
  "add_all = fold (insort_key snd)"

lemma add_all_sorted: "sorted (map snd es) \<Longrightarrow> sorted (map snd (add_all xs es))"
  by (induction xs arbitrary: es) (simp_all add: add_all_def sorted_insort_key)

lemma add_all_mset: "mset (add_all xs es) = mset xs + mset es"
  by (induction xs arbitrary: es) (simp_all add: add_all_def mset_insort)

lemma best_add_all: "sorted (map snd es) \<Longrightarrow> best (add_all xs (best es)) = best (add_all xs es)"
proof (induction xs arbitrary: es)
  case (Cons x xs)
  have s: "sorted (map snd (insort_key snd x es))" "sorted (map snd (best es))" using Cons.prems best_good [OF Cons.prems]
    by (simp_all add: sorted_insort_key pool_good_def)
  have "best (add_all xs (insort_key snd x (best es))) = best (add_all xs (best (insort_key snd x (best es))))"
    using Cons.IH [of "insort_key snd x (best es)"] s(2) by (simp add: sorted_insort_key)
  then show ?case using Cons.IH [OF s(1)] best_insort [OF Cons.prems, of x] by (simp add: add_all_def)
qed (simp add: add_all_def best_def)

text \<open>The choice takes the last candidate that exists and drops it and those behind it.\<close>

lemma pool_pick_with:
  assumes "length es \<le> MAXMEMORY_EVICTION_POOL_SIZE"
  shows "pool_pick ex MAXMEMORY_EVICTION_POOL_SIZE (pool_with es) =
    (case dropWhile (\<lambda>e. \<not> ex (fst e)) (rev es) of [] \<Rightarrow> (None, pool_with []) | e # r \<Rightarrow> (Some (fst e), pool_with (rev r)))"
proof -
  have skip: "pool_pick ex (length es + k) (pool_with es) = pool_pick ex (length es) (pool_with es)" if "length es + k \<le> 16" for k es
    using that by (induction k) (simp_all add: pool_with_nth)
  have "pool_pick ex (length es) (pool_with es) =
    (case dropWhile (\<lambda>e. \<not> ex (fst e)) (rev es) of [] \<Rightarrow> (None, pool_with []) | e # r \<Rightarrow> (Some (fst e), pool_with (rev r)))"
    using assms
  proof (induction es rule: rev_induct)
    case (snoc e es)
    then show ?case using pool_remove_with [of es e] by (simp add: pool_with_nth nth_append)
  qed simp
  then show ?thesis using skip [of es "16 - length es"] assms by simp
qed

text \<open>What is dropped from the candidates has been idle for no longer than what is kept.\<close>

lemma best_split:
  assumes "sorted (map snd xs)"
  obtains d where "xs = d @ best xs" "\<And>a b. a \<in> set d \<Longrightarrow> b \<in> set (best xs) \<Longrightarrow> snd a \<le> snd b"
proof -
  let ?n = "length xs - 16"
  have "xs = take ?n xs @ best xs" by (simp add: best_def)
  moreover from this assms have "\<forall>a\<in>set (take ?n xs). \<forall>b\<in>set (best xs). snd a \<le> snd b"
    by (metis image_eqI map_append set_map sorted_append)
  ultimately show ?thesis using that by blast
qed

subsection \<open>The contract of a pool of candidates\<close>

text \<open>What the eviction relies on of its pool: represented by a sorted list, an insertion keeps the best candidates of the list
  with the new one, and a choice takes the last candidate that exists and drops it and those behind it.\<close>

locale candidate_pool =
  fixes pool :: "(string \<times> 64 word) list \<Rightarrow> 'q" and ins :: "string \<Rightarrow> 64 word \<Rightarrow> 'q \<Rightarrow> 'q"
    and pick :: "(string \<Rightarrow> bool) \<Rightarrow> 'q \<Rightarrow> string option \<times> 'q"
  assumes inserts: "pool_good es \<Longrightarrow> ins key t (pool es) = pool (best (insort_key snd (key, t) es))"
    and picks: "pool_good es \<Longrightarrow> pick ex (pool es) =
      (case dropWhile (\<lambda>e. \<not> ex (fst e)) (rev es) of [] \<Rightarrow> (None, pool []) | e # r \<Rightarrow> (Some (fst e), pool (rev r)))"
begin

lemma insert_all: "pool_good es \<Longrightarrow> fold (\<lambda>(key, t). ins key t) xs (pool es) = pool (best (add_all xs es))"
proof (induction xs arbitrary: es)
  case Nil
  then show ?case by (simp add: add_all_def best_short pool_good_def)
next
  case (Cons x xs)
  let ?e = "insort_key snd x es"
  have s: "sorted (map snd ?e)" using Cons.prems by (simp add: pool_good_def sorted_insort_key)
  have "fold (\<lambda>(key, t). ins key t) (x # xs) (pool es) = fold (\<lambda>(key, t). ins key t) xs (pool (best ?e))"
    using inserts [OF Cons.prems, of "fst x" "snd x"] by (simp add: split_beta)
  also have "\<dots> = pool (best (add_all xs (best ?e)))" by (rule Cons.IH [OF best_good [OF s]])
  finally show ?case using best_add_all [OF s] by (simp add: add_all_def)
qed

lemma pick_cases:
  assumes "pool_good es"
  obtains (none) "pick ex (pool es) = (None, pool [])" "\<forall>e\<in>set es. \<not> ex (fst e)"
    | (some) l e r where "pick ex (pool es) = (Some (fst e), pool l)" "es = l @ e # r" "ex (fst e)"
      "\<forall>x\<in>set r. \<not> ex (fst x)"
proof -
  show ?thesis
  proof (cases "dropWhile (\<lambda>e. \<not> ex (fst e)) (rev es)")
    case Nil
    have "pick ex (pool es) = (None, pool [])" using picks [OF assms, of ex, unfolded Nil] by simp
    moreover have "\<forall>e\<in>set es. \<not> ex (fst e)" using Nil by (simp add: dropWhile_eq_Nil_conv)
    ultimately show ?thesis by (rule none)
  next
    case (Cons e r)
    let ?t = "takeWhile (\<lambda>e. \<not> ex (fst e)) (rev es)"
    have "rev es = ?t @ e # r" using Cons takeWhile_dropWhile_id [of "\<lambda>e. \<not> ex (fst e)" "rev es"] by simp
    then have "es = rev (?t @ e # r)" by (metis rev_rev_ident)
    then have "es = rev r @ e # rev ?t" by simp
    moreover have "ex (fst e)" using hd_dropWhile [of "\<lambda>e. \<not> ex (fst e)" "rev es"] Cons by simp
    moreover have "\<forall>x\<in>set (rev ?t). \<not> ex (fst x)" using set_takeWhileD [of _ "\<lambda>e. \<not> ex (fst e)" "rev es"] by auto
    moreover have "pick ex (pool es) = (Some (fst e), pool (rev r))"
      using picks [OF assms, of ex, unfolded Cons] by simp
    ultimately show ?thesis by (intro some)
  qed
qed

lemma pick_some:
  assumes "pool_good es" and "\<exists>e\<in>set es. ex (fst e)"
  obtains l key where "pick ex (pool es) = (Some key, pool l)" "ex key" "pool_good l"
proof (rule pick_cases [OF assms(1), of ex])
  assume "\<forall>e\<in>set es. \<not> ex (fst e)"
  with assms(2) show thesis by blast
next
  fix l e r assume a: "pick ex (pool es) = (Some (fst e), pool l)" "es = l @ e # r" "ex (fst e)"
  then have "pool_good l" using assms(1) by (auto simp: pool_good_def sorted_append)
  from that [OF a(1,3) this] show thesis .
qed

lemma picked_idlest:
  assumes s: "sorted (map snd xs)" and p: "pick ex (pool (best xs)) = (Some key, q)"
  shows "ex key \<and> (\<exists>t. (key, t) \<in> set xs \<and> (\<forall>(k', t')\<in>set xs. ex k' \<longrightarrow> t' \<le> t))"
proof -
  from p obtain l e r where some: "pick ex (pool (best xs)) = (Some (fst e), pool l)"
    "best xs = l @ e # r" "ex (fst e)" "\<forall>x\<in>set r. \<not> ex (fst x)"
    by (rule_tac pick_cases [OF best_good [OF s], of ex]) auto
  obtain d where d: "xs = d @ best xs" "\<And>a b. a \<in> set d \<Longrightarrow> b \<in> set (best xs) \<Longrightarrow> snd a \<le> snd b" using best_split [OF s] by blast
  have e: "e \<in> set (best xs)" "key = fst e" using some p by auto
  have "sorted (map snd (l @ e # r))" using best_good [OF s] some(2) by (simp add: pool_good_def)
  then have l: "\<forall>x\<in>set l. snd x \<le> snd e" by (auto simp: sorted_append)
  have "snd x \<le> snd e" if "x \<in> set xs" "ex (fst x)" for x
    using that d(1) d(2) [OF _ e(1)] some(2,4) l by (metis Un_iff order_refl set_ConsD set_append)
  then have "(key, snd e) \<in> set xs \<and> (\<forall>(k', t')\<in>set xs. ex k' \<longrightarrow> t' \<le> snd e)" using e d(1) by (auto simp: split_beta) (metis Un_iff prod.collapse set_append)
  then show ?thesis using some(3) e(2) by blast
qed

end

interpretation lru_pool: candidate_pool pool_with pool_insert "\<lambda>ex. pool_pick ex MAXMEMORY_EVICTION_POOL_SIZE"
  by unfold_locales (simp_all add: pool_insert_best pool_pick_with pool_good_def)

lemma evictionPoolPopulate_fold:
  "(\<And>k. k \<in> set keys \<Longrightarrow> idle k = Some (t k)) \<Longrightarrow>
     evictionPoolPopulate idle keys pool = Some (fold (\<lambda>(key, t). pool_insert key t) (map (\<lambda>k. (k, t k)) keys) pool)"
  by (induction keys arbitrary: pool) simp_all

lemma evictionPoolPopulate_best:
  assumes "pool_good es" and "\<And>k. k \<in> set keys \<Longrightarrow> idle k = Some (t k)"
  shows "evictionPoolPopulate idle keys (pool_with es) = Some (pool_with (best (add_all (map (\<lambda>k. (k, t k)) keys) es)))"
  using evictionPoolPopulate_fold [of keys idle t, OF assms(2)] lru_pool.insert_all [OF assms(1)] by simp

section \<open>The loop ends\<close>

text \<open>What is relied on of the dictionary: draws are positions in it, and of \<open>R\<close> successive samples of a dictionary that
  is not empty at least one is not empty. (\<open>dictGetSomeKeys\<close> may return fewer keys than asked for.) The number of samples
  is positive, which the configuration makes sure of.\<close>

definition sampler_ok :: "nat \<Rightarrow> 'k evict_env \<Rightarrow> bool" where
  "sampler_ok R E \<longleftrightarrow> 0 < maxmemory_samples E \<and> (\<forall>d n. 0 < n \<longrightarrow> dictGetRandomKey E d n < n) \<and>
     (\<forall>d n m. \<forall>i\<in>set (dictGetSomeKeys E d n m). i < n) \<and> (\<forall>d n. 0 < n \<longrightarrow> (\<exists>i<R. dictGetSomeKeys E (d + i) n (maxmemory_samples E) \<noteq> []))"

text \<open>\<open>dbDelete\<close> removes a key from both dictionaries of its data base.\<close>

definition without_key :: "string \<Rightarrow> redisDb \<Rightarrow> redisDb" where
  "without_key key db = db\<lparr>kdict := filter (\<lambda>e. fst e \<noteq> key) (kdict db), expires := filter (\<lambda>e. fst e \<noteq> key) (expires db)\<rparr>"

definition deletes :: "'k evict_env \<Rightarrow> bool" where
  "deletes E \<longleftrightarrow> (\<forall>j key ks. dbs (dbDelete E j key ks) = (dbs ks)[j := without_key key (dbs ks ! j)] \<and>
     stat_evictedkeys (dbDelete E j key ks) = stat_evictedkeys ks \<and> stat_expiredkeys (dbDelete E j key ks) = stat_expiredkeys ks)"

text \<open>Keys are unique, only keys that exist expire, and the pool is in order.\<close>

definition db_ok :: "redisDb \<Rightarrow> bool" where
  "db_ok db \<longleftrightarrow> distinct (map fst (kdict db)) \<and> set (map fst (expires db)) \<subseteq> set (map fst (kdict db)) \<and>
     (\<exists>es. pool_good es \<and> eviction_pool db = pool_with es)"

lemma policy_keys_exist: "db_ok db \<Longrightarrow> set (policy_keys p db) \<subseteq> set (map fst (kdict db))"
  by (auto simp: db_ok_def policy_keys_def)

lemma idle_exists:
  assumes "key \<in> set (map fst (kdict db))"
  shows "idle_of E db key = Some (the (idle_of E db key))"
proof -
  have "map_of (kdict db) key \<noteq> None" using assms by (simp add: map_of_eq_None_iff)
  then show ?thesis by (auto simp: idle_of_def)
qed

lemma populate_sample:
  fixes d :: nat
  assumes s: "sampler_ok R E" and db: "db_ok db" and es: "pool_good es"
  defines "keys \<equiv> policy_keys (policy E) db"
  defines "xs \<equiv> map ((!) keys) (dictGetSomeKeys E d (length keys) (maxmemory_samples E))"
  shows "evictionPoolPopulate (idle_of E db) xs (pool_with es) = Some (pool_with (best (add_all (map (\<lambda>k. (k, the (idle_of E db k))) xs) es)))"
    and "set xs \<subseteq> set keys"
proof -
  show "set xs \<subseteq> set keys" using s by (auto simp: xs_def sampler_ok_def)
  then show "evictionPoolPopulate (idle_of E db) xs (pool_with es) = Some (pool_with (best (add_all (map (\<lambda>k. (k, the (idle_of E db k))) xs) es)))"
    using policy_keys_exist [OF db, of "policy E"] idle_exists [of _ db E] by (intro evictionPoolPopulate_best [OF es]) (auto simp: keys_def)
qed

text \<open>From an empty pool the first sample that is not empty gives a key.\<close>

lemma lru_loop_empty:
  assumes s: "sampler_ok R E" and db: "db_ok db"
  shows "\<exists>i<n. dictGetSomeKeys E (d + i) (length (policy_keys (policy E) db)) (maxmemory_samples E) \<noteq> [] \<Longrightarrow>
    \<exists>key d' es. lru_loop E n db d (pool_with []) = Some (key, d', pool_with es) \<and> key \<in> set (policy_keys (policy E) db) \<and> pool_good es"
proof (induction n arbitrary: d)
  case (Suc n)
  define keys xs c where "keys = policy_keys (policy E) db" and "xs = map ((!) keys) (dictGetSomeKeys E d (length keys) (maxmemory_samples E))"
    and "c = add_all (map (\<lambda>k. (k, the (idle_of E db k))) xs) []"
  have "pool_good []" by (simp add: pool_good_def)
  note p = populate_sample [OF s db this, of d, folded keys_def, folded xs_def, folded c_def]
  have m: "mset c = mset (map (\<lambda>k. (k, the (idle_of E db k))) xs)" by (simp add: c_def add_all_mset)
  have c: "sorted (map snd c)" "length c = length xs" using add_all_sorted [of "[]"] mset_eq_length [OF m] by (simp_all add: c_def)
  have sub: "\<forall>e\<in>set c. fst e \<in> set keys" using mset_eq_setD [OF m] p(2) by auto
  have step: "lru_loop E (Suc n) db d (pool_with []) =
      (case pool_pick (\<lambda>key. key \<in> set keys) 16 (pool_with (best c)) of (Some key, pool) \<Rightarrow> Some (key, Suc d, pool) | (None, pool) \<Rightarrow> lru_loop E n db (Suc d) pool)"
    using p(1) by (simp add: keys_def [symmetric] xs_def [symmetric] Let_def)
  show ?case
  proof (cases "xs = []")
    case True
    obtain i where i: "i < Suc n" "dictGetSomeKeys E (d + i) (length keys) (maxmemory_samples E) \<noteq> []" using Suc.prems by (auto simp: keys_def)
    with True obtain i' where "i = Suc i'" by (cases i) (auto simp: xs_def)
    then have "\<exists>i<n. dictGetSomeKeys E (Suc d + i) (length keys) (maxmemory_samples E) \<noteq> []" using i by auto
    moreover have "lru_loop E (Suc n) db d (pool_with []) = lru_loop E n db (Suc d) (pool_with [])"
      unfolding step using c(2) True pool_pick_with [of "[]"] by (simp add: best_def)
    ultimately show ?thesis using Suc.IH [of "Suc d"] by (simp add: keys_def)
  next
    case False
    then have "0 < min (length c) 16" using c(2) by simp
    then have "best c \<noteq> []" unfolding best_length [symmetric] by (simp only: length_greater_0_conv not_False_eq_True)
    moreover have "\<forall>e\<in>set (best c). fst e \<in> set keys" using sub set_drop_subset [of _ c] by (auto simp: best_def)
    ultimately have "\<exists>e\<in>set (best c). fst e \<in> set keys" using hd_in_set by blast
    from lru_pool.pick_some [OF best_good [OF c(1)] this] obtain l key where
      "pool_pick (\<lambda>key. key \<in> set keys) 16 (pool_with (best c)) = (Some key, pool_with l)" "key \<in> set keys" "pool_good l" .
    then show ?thesis unfolding step by (auto simp: keys_def)
  qed
qed simp

lemma lru_loop_ends:
  assumes s: "sampler_ok R E" and db: "db_ok db" and k: "policy_keys (policy E) db \<noteq> []"
  shows "\<exists>key d' es. lru_loop E (Suc R) db d (eviction_pool db) = Some (key, d', pool_with es) \<and> key \<in> set (policy_keys (policy E) db) \<and> pool_good es"
proof -
  define keys xs where "keys = policy_keys (policy E) db" and "xs = map ((!) keys) (dictGetSomeKeys E d (length keys) (maxmemory_samples E))"
  obtain es where es: "pool_good es" "eviction_pool db = pool_with es" using db by (auto simp: db_ok_def)
  define c where "c = add_all (map (\<lambda>k. (k, the (idle_of E db k))) xs) es"
  note p = populate_sample [OF s db es(1), of d, folded keys_def, folded xs_def, folded c_def]
  have c: "sorted (map snd c)" using add_all_sorted es(1) by (simp add: c_def pool_good_def)
  have step: "lru_loop E (Suc R) db d (eviction_pool db) =
      (case pool_pick (\<lambda>key. key \<in> set keys) 16 (pool_with (best c)) of (Some key, pool) \<Rightarrow> Some (key, Suc d, pool) | (None, pool) \<Rightarrow> lru_loop E R db (Suc d) pool)"
    using p(1) by (simp add: keys_def [symmetric] xs_def [symmetric] Let_def es(2))
  have R: "\<exists>i<R. dictGetSomeKeys E (Suc d + i) (length keys) (maxmemory_samples E) \<noteq> []" using s k unfolding sampler_ok_def keys_def by blast
  show ?thesis
  proof (rule lru_pool.pick_cases [OF best_good [OF c], of "\<lambda>key. key \<in> set keys"])
    assume "pool_pick (\<lambda>key. key \<in> set keys) 16 (pool_with (best c)) = (None, pool_with [])"
    then show ?thesis using lru_loop_empty [OF s db R [unfolded keys_def]] step by simp
  next
    fix l e r assume "pool_pick (\<lambda>key. key \<in> set keys) 16 (pool_with (best c)) = (Some (fst e), pool_with l)" "best c = l @ e # r" "fst e \<in> set keys"
    moreover from this have "pool_good l" using best_good [OF c] by (auto simp: pool_good_def sorted_append)
    ultimately show ?thesis unfolding step by (auto simp: keys_def)
  qed
qed

text \<open>The choice by expiry time takes an entry with the earliest time of those drawn.\<close>

lemma ttl_loop_drawn:
  assumes "sampler_ok R E" "expires db \<noteq> []"
  shows "\<exists>b d'. ttl_loop E db k d (Some a) = (Some b, d') \<and> snd b \<le> snd a \<and> (b = a \<or> b \<in> set (expires db))"
proof (induction k arbitrary: d a)
  case (Suc k)
  let ?de = "expires db ! dictGetRandomKey E d (length (expires db))"
  have "?de \<in> set (expires db)" using assms by (simp add: sampler_ok_def)
  moreover obtain b d' where "ttl_loop E db k (Suc d) (Some (if snd ?de < snd a then ?de else a)) = (Some b, d')"
    "snd b \<le> snd (if snd ?de < snd a then ?de else a)" "b = (if snd ?de < snd a then ?de else a) \<or> b \<in> set (expires db)"
    using Suc by blast
  ultimately show ?case by (intro exI [of _ b] exI [of _ d']) (auto simp: Let_def split: if_splits)
qed simp

lemma best_key_ends:
  assumes s: "sampler_ok R E" and db: "db_ok db" and k: "policy_keys (policy E) db \<noteq> []" and ne: "policy E \<noteq> NO_EVICTION"
  obtains key d' es where "best_key E (Suc R) db d = Some (Some key, d', pool_with es)" "key \<in> set (map fst (kdict db))" "pool_good es"
proof -
  let ?keys = "policy_keys (policy E) db"
  obtain es where es: "pool_good es" "eviction_pool db = pool_with es" using db by (auto simp: db_ok_def)
  have sub: "x \<in> set ?keys \<Longrightarrow> x \<in> set (map fst (kdict db))" for x using policy_keys_exist [OF db, of "policy E"] by blast
  consider (random) "policy E = ALLKEYS_RANDOM \<or> policy E = VOLATILE_RANDOM" | (lru) "policy E = ALLKEYS_LRU \<or> policy E = VOLATILE_LRU" | (ttl) "policy E = VOLATILE_TTL"
    using ne by (cases "policy E") auto
  then show ?thesis
  proof cases
    case random
    have "?keys ! dictGetRandomKey E d (length ?keys) \<in> set ?keys" using s k by (simp add: sampler_ok_def)
    from that [OF _ sub [OF this] es(1)] random es(2) show ?thesis by (simp add: best_key_def Let_def)
  next
    case lru
    obtain key d' es' where l: "lru_loop E (Suc R) db d (eviction_pool db) = Some (key, d', pool_with es')" "key \<in> set ?keys" "pool_good es'"
      using lru_loop_ends [OF s db k] by blast
    have "best_key E (Suc R) db d = Some (Some key, d', pool_with es')" using lru l(1) by (auto simp: best_key_def Let_def simp del: lru_loop.simps)
    from that [OF this sub [OF l(2)] l(3)] show ?thesis .
  next
    case ttl
    then have e: "expires db \<noteq> []" "?keys = map fst (expires db)" using k by (simp_all add: policy_keys_def)
    obtain m where m: "maxmemory_samples E = Suc m" using s by (auto simp: sampler_ok_def gr0_conv_Suc)
    let ?de = "expires db ! dictGetRandomKey E d (length (expires db))"
    have de: "?de \<in> set (expires db)" using s e(1) by (simp add: sampler_ok_def)
    obtain b d' where b: "ttl_loop E db m (Suc d) (Some ?de) = (Some b, d')" "b = ?de \<or> b \<in> set (expires db)"
      using ttl_loop_drawn [OF s e(1)] by metis
    have "best_key E (Suc R) db d = Some (Some (fst b), d', pool_with es)" using ttl m b(1) es(2) by (simp add: best_key_def Let_def)
    moreover have "fst b \<in> set ?keys" using b(2) de unfolding e(2) by auto
    ultimately show ?thesis using that sub es(1) by blast
  qed
qed

text \<open>What evicting promises: it takes exactly the counted keys, counts them in the statistics, keeps the data bases in order,
  and when it takes none it changes no data base.\<close>

definition evicts :: "nat \<times> 'k keyspace \<Rightarrow> nat \<times> 'k keyspace \<Rightarrow> bool" where
  "evicts = (\<lambda>(n, ks) (n', ks'). n \<le> n' \<and> total_keys (dbs ks') + n' = total_keys (dbs ks) + n \<and>
     stat_evictedkeys ks' - stat_evictedkeys ks = int n' - int n \<and> length (dbs ks') = length (dbs ks) \<and>
     (list_all db_ok (dbs ks) \<longrightarrow> list_all db_ok (dbs ks')) \<and> (n' = n \<longrightarrow> dbs ks' = dbs ks))"

lemma evicts_refl [simp]: "evicts (n, ks) (n, ks)"
  by (simp add: evicts_def)

lemma evicts_trans: "evicts (n, ks) (m, ks1) \<Longrightarrow> evicts (m, ks1) (l, ks2) \<Longrightarrow> evicts (n, ks) (l, ks2)"
  by (auto simp: evicts_def)

lemma filter_other_length: "distinct (map fst xs) \<Longrightarrow> key \<in> set (map fst xs) \<Longrightarrow> Suc (length (filter (\<lambda>e. fst e \<noteq> key) xs)) = length xs"
proof (induction xs)
  case (Cons x xs)
  show ?case
  proof (cases "fst x = key")
    case True
    then have "filter (\<lambda>e. fst e \<noteq> key) xs = xs" using Cons.prems(1) by (auto simp: filter_id_conv image_iff)
    then show ?thesis using True by simp
  qed (use Cons in auto)
qed simp

lemma total_keys_update: "j < length xs \<Longrightarrow> length (kdict y) + d = length (kdict (xs ! j)) \<Longrightarrow> total_keys (xs[j := y]) + d = total_keys xs"
proof (induction xs arbitrary: j)
  case (Cons x xs)
  then show ?case by (cases j) (auto simp: total_keys_def)
qed simp

lemma without_key_ok: "db_ok db \<Longrightarrow> db_ok (without_key key db)"
  by (auto simp: db_ok_def without_key_def distinct_map_filter)

lemma list_all_update: "list_all P xs \<Longrightarrow> P y \<Longrightarrow> list_all P (xs[j := y])"
  by (auto simp: list_all_iff dest: set_update_subset_insert [THEN subsetD])

lemma evict_key_evicts:
  assumes D: "deletes E" and j: "j < length (dbs ks)" and k: "key \<in> set (map fst (kdict (dbs ks ! j)))" and ok: "list_all db_ok (dbs ks)"
    and r: "evict_key E sl j key (freed, n, ks) = (freed', n', ks')"
  shows "evicts (n, ks) (n', ks')" "n' = Suc n"
proof -
  let ?db = "dbs ks ! j"
  have db: "db_ok ?db" using ok j by (simp add: list_all_length)
  have d: "dbs ks' = (dbs ks)[j := without_key key ?db]" "stat_evictedkeys ks' = stat_evictedkeys ks + 1" "n' = Suc n"
    using r D by (auto simp: evict_key_def on_ks_sys_def deletes_def Let_def split: if_splits)
  have "length (kdict (without_key key ?db)) + 1 = length (kdict ?db)"
    using filter_other_length [OF _ k] db by (simp add: without_key_def db_ok_def)
  from total_keys_update [OF j this] show "evicts (n, ks) (n', ks')" using d list_all_update [OF ok without_key_ok [OF db]]
    by (simp add: evicts_def)
  show "n' = Suc n" by (rule d(3))
qed

lemma evict_db_evicts:
  assumes s: "sampler_ok R E" and D: "deletes E" and ne: "policy E \<noteq> NO_EVICTION" and j: "j < length (dbs ks)" and ok: "list_all db_ok (dbs ks)"
  obtains freed' n' ks' where "evict_db E (Suc R) sl j (freed, n, ks) = Some (freed', n', ks')" "evicts (n, ks) (n', ks')"
    "n' = n \<Longrightarrow> policy_keys (policy E) (dbs ks ! j) = []"
proof (cases "policy_keys (policy E) (dbs ks ! j) = []")
  case True
  then show ?thesis using that [of freed n ks] by (simp add: evict_db_def)
next
  case False
  have db: "db_ok (dbs ks ! j)" using ok j by (simp add: list_all_length)
  obtain key d es where b: "best_key E (Suc R) (dbs ks ! j) (draws ks) = Some (Some key, d, pool_with es)" "key \<in> set (map fst (kdict (dbs ks ! j)))" "pool_good es"
    using best_key_ends [OF s db False ne] by blast
  define ks1 where "ks1 = ks\<lparr>draws := d, dbs := (dbs ks)[j := (dbs ks ! j)\<lparr>eviction_pool := pool_with es\<rparr>]\<rparr>"
  have ok1: "list_all db_ok (dbs ks1)" using db b(3) by (auto simp: ks1_def db_ok_def intro!: list_all_update [OF ok])
  have t1: "total_keys (dbs ks1) = total_keys (dbs ks)" "j < length (dbs ks1)" "length (dbs ks1) = length (dbs ks)" "stat_evictedkeys ks1 = stat_evictedkeys ks"
    "kdict (dbs ks1 ! j) = kdict (dbs ks ! j)"
    using j total_keys_update [OF j, of "(dbs ks ! j)\<lparr>eviction_pool := pool_with es\<rparr>" 0] by (simp_all add: ks1_def)
  obtain freed' n' ks' where e: "evict_key E sl j key (freed, n, ks1) = (freed', n', ks')" using prod_cases3 by blast
  have k: "key \<in> set (map fst (kdict (dbs ks1 ! j)))" using b(2) t1(5) by simp
  note v = evict_key_evicts [OF D t1(2) k ok1 e]
  have "evict_db E (Suc R) sl j (freed, n, ks) = Some (freed', n', ks')" using False b(1) e by (simp add: evict_db_def Let_def ks1_def)
  moreover have "evicts (n, ks) (n', ks')" using v t1 ok ok1 by (auto simp: evicts_def)
  ultimately show ?thesis using that v(2) by simp
qed

lemma evict_dbs_evicts:
  assumes s: "sampler_ok R E" and D: "deletes E" and ne: "policy E \<noteq> NO_EVICTION"
  shows "list_all db_ok (dbs ks) \<Longrightarrow> \<forall>j\<in>set js. j < length (dbs ks) \<Longrightarrow>
    \<exists>freed' n' ks'. evict_dbs E (Suc R) sl js (freed, n, ks) = Some (freed', n', ks') \<and> evicts (n, ks) (n', ks') \<and>
      (n' = n \<longrightarrow> (\<forall>j\<in>set js. policy_keys (policy E) (dbs ks ! j) = []))"
proof (induction js arbitrary: freed n ks)
  case (Cons j js)
  obtain f1 n1 ks1 where e: "evict_db E (Suc R) sl j (freed, n, ks) = Some (f1, n1, ks1)" "evicts (n, ks) (n1, ks1)"
    "n1 = n \<Longrightarrow> policy_keys (policy E) (dbs ks ! j) = []"
    using evict_db_evicts [OF s D ne _ Cons.prems(1)] Cons.prems(2) by (metis list.set_intros(1))
  have "list_all db_ok (dbs ks1)" "\<forall>j\<in>set js. j < length (dbs ks1)" using e(2) Cons.prems by (simp_all add: evicts_def)
  from Cons.IH [OF this, of f1 n1] obtain f2 n2 ks2 where r: "evict_dbs E (Suc R) sl js (f1, n1, ks1) = Some (f2, n2, ks2)" "evicts (n1, ks1) (n2, ks2)"
    "n2 = n1 \<longrightarrow> (\<forall>j\<in>set js. policy_keys (policy E) (dbs ks1 ! j) = [])" by blast
  have "n2 = n \<longrightarrow> n1 = n \<and> n2 = n1 \<and> dbs ks1 = dbs ks" using e(2) r(2) by (auto simp: evicts_def)
  then show ?case using e r evicts_trans [OF e(2) r(2)] by auto
qed simp

lemma free_loop_ends:
  assumes s: "sampler_ok R E" and D: "deletes E" and ne: "policy E \<noteq> NO_EVICTION"
  shows "list_all db_ok (dbs ks) \<Longrightarrow> total_keys (dbs ks) < rounds \<Longrightarrow>
    \<exists>ok ks'. free_loop E (Suc R) rounds sl tofree freed ks = Some (ok, ks') \<and> list_all db_ok (dbs ks') \<and>
      stat_evictedkeys ks' - stat_evictedkeys ks = int (total_keys (dbs ks)) - int (total_keys (dbs ks')) \<and>
      (\<not> ok \<longrightarrow> (\<forall>db\<in>set (dbs ks'). policy_keys (policy E) db = []))"
proof (induction rounds arbitrary: freed ks)
  case (Suc rounds)
  obtain f1 n1 ks1 where e: "evict_dbs E (Suc R) sl [0..<length (dbs ks)] (freed, 0, ks) = Some (f1, n1, ks1)" "evicts (0, ks) (n1, ks1)"
    "n1 = 0 \<longrightarrow> (\<forall>j\<in>set [0..<length (dbs ks)]. policy_keys (policy E) (dbs ks ! j) = [])"
    using evict_dbs_evicts [OF s D ne Suc.prems(1)] by (metis atLeastLessThan_iff set_upt)
  have v: "list_all db_ok (dbs ks1)" "total_keys (dbs ks1) + n1 = total_keys (dbs ks)" "stat_evictedkeys ks1 - stat_evictedkeys ks = int n1"
    "n1 = 0 \<Longrightarrow> dbs ks1 = dbs ks" using e(2) Suc.prems(1) by (simp_all add: evicts_def)
  consider "\<not> freed < tofree" | "freed < tofree" "n1 = 0" | "freed < tofree" "0 < n1" by blast
  then show ?case
  proof cases
    case 1
    then show ?thesis using Suc.prems(1) by (intro exI [of _ True] exI [of _ ks]) simp
  next
    case 2
    then have "\<forall>db\<in>set (dbs ks1). policy_keys (policy E) db = []" using e(3) v(4) by (auto simp: in_set_conv_nth)
    then show ?thesis using 2 e(1) v by (intro exI [of _ False] exI [of _ ks1]) simp
  next
    case 3
    then have "total_keys (dbs ks1) < rounds" using v(2) Suc.prems(2) by simp
    from Suc.IH [OF v(1) this, of f1] obtain ok ks' where r: "free_loop E (Suc R) rounds sl tofree f1 ks1 = Some (ok, ks')" "list_all db_ok (dbs ks')"
      "stat_evictedkeys ks' - stat_evictedkeys ks1 = int (total_keys (dbs ks1)) - int (total_keys (dbs ks'))"
      "\<not> ok \<longrightarrow> (\<forall>db\<in>set (dbs ks'). policy_keys (policy E) db = [])" by blast
    have "stat_evictedkeys ks' - stat_evictedkeys ks = int (total_keys (dbs ks)) - int (total_keys (dbs ks'))" using v(2,3) r(3) by linarith
    then show ?thesis using 3 e(1) r by simp
  qed
qed simp

section \<open>Properties\<close>

text \<open>C31: the shifting insertions of \<open>evictionPoolPopulate\<close> compute what a sorted list would: afterwards the pool holds, in
  ascending order, the sixteen idlest of the candidates it had and the keys that were sampled, and the key chosen from it is one
  that exists and has been idle for at least as long as every candidate that exists.\<close>

theorem eviction_pool_keeps_idlest:
  assumes "pool_good es" and "list_all (\<lambda>k. idle k = Some (t k)) keys"
  shows "\<exists>xs. sorted (map snd xs) \<and> mset xs = mset (map (\<lambda>k. (k, t k)) keys) + mset es \<and>
    evictionPoolPopulate idle keys (pool_with es) = Some (pool_with (drop (length xs - 16) xs)) \<and>
    (case pool_pick ex 16 (pool_with (drop (length xs - 16) xs)) of
       (None, pool) \<Rightarrow> pool = evictionPoolAlloc \<and> list_all (\<lambda>e. \<not> ex (fst e)) (drop (length xs - 16) xs)
     | (Some key, pool) \<Rightarrow> ex key \<and> (\<exists>i. (key, i) \<in> set xs \<and> list_all (\<lambda>(k', i'). ex k' \<longrightarrow> i' \<le> i) xs))"
proof -
  define xs where "xs = add_all (map (\<lambda>k. (k, t k)) keys) es"
  have s: "sorted (map snd xs)" using assms(1) by (simp add: xs_def add_all_sorted pool_good_def)
  have "evictionPoolPopulate idle keys (pool_with es) = Some (pool_with (best xs))"
    using evictionPoolPopulate_best [OF assms(1), of keys idle t] assms(2) by (simp add: xs_def list_all_iff)
  moreover have "case pool_pick ex 16 (pool_with (best xs)) of
      (None, pool) \<Rightarrow> pool = evictionPoolAlloc \<and> list_all (\<lambda>e. \<not> ex (fst e)) (best xs)
    | (Some key, pool) \<Rightarrow> ex key \<and> (\<exists>i. (key, i) \<in> set xs \<and> list_all (\<lambda>(k', i'). ex k' \<longrightarrow> i' \<le> i) xs)"
  proof (rule lru_pool.pick_cases [OF best_good [OF s], of ex])
    assume "pool_pick ex 16 (pool_with (best xs)) = (None, pool_with [])" "\<forall>e\<in>set (best xs). \<not> ex (fst e)"
    then show ?thesis by (simp add: list_all_iff pool_with_def evictionPoolAlloc_def)
  next
    fix l e r assume p: "pool_pick ex 16 (pool_with (best xs)) = (Some (fst e), pool_with l)"
    from lru_pool.picked_idlest [OF s p] show ?thesis unfolding p by (auto simp: list_all_iff)
  qed
  ultimately show ?thesis using s unfolding best_def by (intro exI [of _ xs]) (simp add: xs_def add_all_mset)
qed

theorem eviction_pool_keeps_idlest_witness:
  "\<exists>xs. evictionPoolPopulate (\<lambda>k. Some (of_nat (length k))) [''abc'', ''a''] (pool_with [(''ghost'', 9)]) = Some (pool_with (drop (length xs - 16) xs)) \<and>
     mset xs = {#(''abc'', 3), (''a'', 1), (''ghost'', 9)#} \<and> sorted (map snd xs)"
  using eviction_pool_keeps_idlest [of "[(''ghost'', 9)]" "\<lambda>k. Some (of_nat (length k))" "\<lambda>k. of_nat (length k)" "[''abc'', ''a'']" "\<lambda>_. True"]
  by (auto simp: pool_good_def)

text \<open>C13: \<open>freeMemoryIfNeeded\<close> ends: when of \<open>R\<close> samples at least one is not empty, \<open>R + 1\<close> rounds find a key to evict, and
  one round per key and one more are enough for the memory loop. It keeps the pools in order, every key it takes is counted,
  and it fails only when the policy forbids eviction or no key is left that the policy may evict.\<close>

theorem freeMemoryIfNeeded_ends:
  assumes s: "sampler_ok R E" and D: "deletes E" and ok: "list_all db_ok (dbs ks)"
  shows "\<exists>ok ks'. freeMemoryIfNeeded_ks E (Suc R) ks = Some (ok, ks') \<and> list_all db_ok (dbs ks') \<and>
    stat_evictedkeys ks' - stat_evictedkeys ks = int (total_keys (dbs ks)) - int (total_keys (dbs ks')) \<and>
    (ok \<or> policy E = NO_EVICTION \<and> ks' = ks \<or> list_all (\<lambda>db. policy_keys (policy E) db = []) (dbs ks'))"
proof -
  let ?u = "counted_memory E ks"
  consider "unat ?u \<le> maxmemory (ev_srv E)" | "\<not> unat ?u \<le> maxmemory (ev_srv E)" "policy E = NO_EVICTION"
    | "\<not> unat ?u \<le> maxmemory (ev_srv E)" "policy E \<noteq> NO_EVICTION" by blast
  then show ?thesis
  proof cases
    case 3
    obtain ok' ks' where "free_loop E (Suc R) (Suc (total_keys (dbs ks))) (slaves (nt (ks_sys ks)) \<noteq> []) (?u - of_nat (maxmemory (ev_srv E))) 0 ks = Some (ok', ks')"
      "list_all db_ok (dbs ks')" "stat_evictedkeys ks' - stat_evictedkeys ks = int (total_keys (dbs ks)) - int (total_keys (dbs ks'))"
      "\<not> ok' \<longrightarrow> (\<forall>db\<in>set (dbs ks'). policy_keys (policy E) db = [])"
      using free_loop_ends [OF s D 3(2) ok lessI] by blast
    then show ?thesis using 3 by (auto simp: freeMemoryIfNeeded_ks_def Let_def list_all_iff simp del: free_loop.simps)
  qed (use ok in \<open>auto simp: freeMemoryIfNeeded_ks_def Let_def\<close>)
qed

text \<open>An example: two keys, no memory allowed, and every key uses a thousand bytes.\<close>

definition demo_evict_env :: "int list evict_env" where
  "demo_evict_env =
     \<lparr>ev_srv = demo_srv_env, policy = ALLKEYS_LRU, maxmemory_samples = 5, aof_buf_len = 0, aofRewriteBufferSize = 0,
      zmalloc_used_memory = (\<lambda>ks. of_nat (1000 * total_keys (dbs ks))), estimateObjectIdleTime = of_nat,
      dictGetSomeKeys = (\<lambda>d n m. [0..<min n m]), dictGetRandomKey = (\<lambda>d n. d mod n), propagateExpire = (\<lambda>_ _ st. st),
      dbDelete = (\<lambda>j key ks. ks\<lparr>dbs := (dbs ks)[j := without_key key (dbs ks ! j)]\<rparr>), notifyKeyspaceEvent = (\<lambda>_ _ _ st. st)\<rparr>"

definition demo_keyspace :: "int list keyspace" where
  "demo_keyspace = \<lparr>ks_sys = demo_sys demo_net1, dbs = [\<lparr>kdict = [(''a'', 3), (''b'', 7)], expires = [], eviction_pool = evictionPoolAlloc, avg_ttl = 0\<rparr>],
     draws = 0, stat_evictedkeys = 0, stat_expiredkeys = 0\<rparr>"

theorem freeMemoryIfNeeded_ends_witness:
  "\<exists>ok ks'. freeMemoryIfNeeded_ks demo_evict_env (Suc 1) demo_keyspace = Some (ok, ks') \<and>
     stat_evictedkeys ks' = 2 - int (total_keys (dbs ks')) \<and> (ok \<or> list_all (\<lambda>db. kdict db = []) (dbs ks'))"
proof -
  have e: "evictionPoolAlloc = pool_with []" "pool_good []" by (simp_all add: evictionPoolAlloc_def pool_with_def pool_good_def)
  have "list_all db_ok (dbs demo_keyspace)" using e by (auto simp: demo_keyspace_def db_ok_def)
  moreover have "sampler_ok 1 demo_evict_env" "deletes demo_evict_env" by (auto simp: sampler_ok_def deletes_def demo_evict_env_def)
  moreover have "policy demo_evict_env = ALLKEYS_LRU" "policy_keys ALLKEYS_LRU db = [] \<longleftrightarrow> kdict db = []" for db
    by (simp_all add: demo_evict_env_def policy_keys_def)
  moreover have "total_keys (dbs demo_keyspace) = 2" "stat_evictedkeys demo_keyspace = 0" by (simp_all add: demo_keyspace_def total_keys_def)
  ultimately show ?thesis using freeMemoryIfNeeded_ends [of 1 demo_evict_env demo_keyspace] by auto
qed

text \<open>The buffers of the append only file are subtracted without a check: when the output buffers of the slaves, which count an object
  once per slave, already exceed the used memory, the difference wraps around and the server refuses to use any more memory although
  nothing is counted as used.\<close>

theorem aof_buffers_wrap_memory:
  assumes "slaves (nt (ks_sys ks)) = cs @ [c]" and "getClientOutputBufferMemoryUsage (client_of (ks_sys ks) c) > zmalloc_used_memory E ks"
    and "aof_on (ev_srv E)" "0 < aof_buf_len E" "aofRewriteBufferSize E = 0" "maxmemory (ev_srv E) < 2 ^ 64 - unat (aof_buf_len E)"
    and "policy E = NO_EVICTION"
  shows "freeMemoryIfNeeded_ks E fuel ks = Some (False, ks)"
proof -
  let ?f = "\<lambda>c m. let b = getClientOutputBufferMemoryUsage (client_of (ks_sys ks) c) in if b > m then 0 else m - b"
  have le: "fold ?f xs m \<le> m" for xs m
  proof (induction xs arbitrary: m)
    case (Cons x xs)
    have "?f x m \<le> m" by (simp add: Let_def word_sub_le)
    then show ?case using Cons [of "?f x m"] by (simp only: fold_Cons o_apply)
  qed simp
  have "fold ?f (slaves (nt (ks_sys ks))) (zmalloc_used_memory E ks) = 0"
    using le [of cs "zmalloc_used_memory E ks"] assms(1,2) by (simp add: Let_def le_less_trans)
  then have "counted_memory E ks = - aof_buf_len E" using assms(3,5) by (simp add: counted_memory_def Let_def)
  moreover have "unat (- aof_buf_len E) = 2 ^ 64 - unat (aof_buf_len E)" using assms(4) unat_sub_if' [of 0 "aof_buf_len E"] by (simp add: word_less_nat_alt)
  ultimately show ?thesis using assms(6,7) by (simp add: freeMemoryIfNeeded_ks_def)
qed

end
