(* ===== verification/Redis_Expire.thy ===== *)
theory Redis_Expire
  imports Redis_Evict
begin

text \<open>
  The periodic work of \<open>server.c\<close> on the data bases: expiring keys by sampling (\<open>activeExpireCycle\<close>) and resizing and
  rehashing the tables (\<open>databasesCron\<close>). The clock and the layout of the hash tables (\<open>dict.c\<close>) are parameters; a clock
  is a function of the state, which changes with every random draw.
\<close>

section \<open>Expiring keys\<close>

abbreviation (input) "CRON_DBS_PER_CALL \<equiv> (16 :: nat)"
abbreviation (input) "ACTIVE_EXPIRE_CYCLE_LOOKUPS_PER_LOOP \<equiv> (20 :: nat)"
abbreviation (input) "ACTIVE_EXPIRE_CYCLE_FAST_DURATION \<equiv> (1000 :: int)"
abbreviation (input) "ACTIVE_EXPIRE_CYCLE_SLOW_TIME_PERC \<equiv> (25 :: int)"
abbreviation (input) "HASHTABLE_MIN_FILL \<equiv> (10 :: nat)"

datatype expire_cycle = ACTIVE_EXPIRE_CYCLE_SLOW | ACTIVE_EXPIRE_CYCLE_FAST

record 'k expire_env =
  ex_ev :: "'k evict_env"
  ex_mstime :: "'k keyspace \<Rightarrow> int"
  ex_ustime :: "'k keyspace \<Rightarrow> int"
  ex_hz :: int
  DICT_HT_INITIAL_SIZE :: nat
  dict_slots :: "nat \<Rightarrow> 'k keyspace \<Rightarrow> nat"
  expires_slots :: "nat \<Rightarrow> 'k keyspace \<Rightarrow> nat"
  active_expire_enabled :: bool
  activerehashing :: bool
  child_running :: bool
  resize_dict :: "nat \<Rightarrow> 'k keyspace \<Rightarrow> 'k keyspace"
  resize_expires :: "nat \<Rightarrow> 'k keyspace \<Rightarrow> 'k keyspace"
  dict_rehashing :: "nat \<Rightarrow> 'k keyspace \<Rightarrow> bool"
  expires_rehashing :: "nat \<Rightarrow> 'k keyspace \<Rightarrow> bool"
  rehash_dict :: "nat \<Rightarrow> 'k keyspace \<Rightarrow> 'k keyspace"
  rehash_expires :: "nat \<Rightarrow> 'k keyspace \<Rightarrow> 'k keyspace"

text \<open>The static variables of the functions.\<close>

record 'k dbcron =
  dc_ks :: "'k keyspace"
  current_db :: "32 word"
  timelimit_exit :: bool
  last_fast_cycle :: int
  resize_db :: "32 word"
  rehash_db :: "32 word"

definition activeExpireCycleTryExpire :: "'k evict_env \<Rightarrow> nat \<Rightarrow> string \<times> int \<Rightarrow> int \<Rightarrow> 'k keyspace \<Rightarrow> bool \<times> 'k keyspace" where
  "activeExpireCycleTryExpire E j de now ks =
     (if now > snd de then
        (let ks1 = dbDelete E j (fst de) (on_ks_sys (propagateExpire E j (fst de)) ks);
             ks2 = on_ks_sys (notifyKeyspaceEvent E ''expired'' (fst de) j) ks1
         in (True, ks2\<lparr>stat_expiredkeys := stat_expiredkeys ks2 + 1\<rparr>))
      else (False, ks))"

record 'k sampling =
  expired :: nat
  ttl_sum :: int
  ttl_samples :: nat
  sm_ks :: "'k keyspace"

fun sample_loop :: "'k evict_env \<Rightarrow> nat \<Rightarrow> int \<Rightarrow> nat \<Rightarrow> 'k sampling \<Rightarrow> 'k sampling" where
  "sample_loop E j now 0 s = s"
| "sample_loop E j now (Suc num) s =
     (let ks = sm_ks s; entries = expires (dbs ks ! j)
      in if entries = [] then s
         else
           (let de = entries ! dictGetRandomKey E (draws ks) (length entries);
                ttl = snd de - now;
                (b, ks1) = activeExpireCycleTryExpire E j de now (ks\<lparr>draws := Suc (draws ks)\<rparr>);
                s1 = s\<lparr>sm_ks := ks1, expired := expired s + of_bool b\<rparr>;
                s2 = (if ttl > 0 then s1\<lparr>ttl_sum := ttl_sum s1 + ttl, ttl_samples := ttl_samples s1 + 1\<rparr> else s1)
            in sample_loop E j now num s2))"

definition running_average :: "int \<Rightarrow> nat \<Rightarrow> int \<Rightarrow> int" where
  "running_average tsum n old =
     (if n = 0 then old
      else
        (let avg = tsum sdiv int n; a = (if old = 0 then avg else old)
         in (a sdiv 50) * 49 + avg sdiv 50))"

definition set_avg :: "nat \<Rightarrow> (int \<Rightarrow> int) \<Rightarrow> 'k keyspace \<Rightarrow> 'k keyspace" where
  "set_avg j f ks = ks\<lparr>dbs := (dbs ks)[j := (dbs ks ! j)\<lparr>avg_ttl := f (avg_ttl (dbs ks ! j))\<rparr>]\<rparr>"

text \<open>The rounds on one data base: whether the time limit was hit, the number of rounds so far, and the state. \<open>None\<close> means
  that the rounds did not suffice.\<close>

fun expire_db :: "'k expire_env \<Rightarrow> int \<Rightarrow> int \<Rightarrow> nat \<Rightarrow> nat \<Rightarrow> nat \<times> 'k keyspace \<Rightarrow> (bool \<times> nat \<times> 'k keyspace) option" where
  "expire_db E start timelimit j 0 st = None"
| "expire_db E start timelimit j (Suc fuel) (iteration, ks) =
     (let num = length (expires (dbs ks ! j)); slots = expires_slots E j ks
      in if num = 0 then Some (False, iteration, set_avg j (\<lambda>_. 0) ks)
         else if slots > DICT_HT_INITIAL_SIZE E \<and> num * 100 div slots < 1 then Some (False, iteration, ks)
         else
           (let s = sample_loop (ex_ev E) j (ex_mstime E ks) (min num ACTIVE_EXPIRE_CYCLE_LOOKUPS_PER_LOOP)
                      \<lparr>expired = 0, ttl_sum = 0, ttl_samples = 0, sm_ks = ks\<rparr>;
                ks1 = set_avg j (running_average (ttl_sum s) (ttl_samples s)) (sm_ks s);
                i1 = iteration + 1
            in if i1 mod 16 = 0 \<and> ex_ustime E ks1 - start > timelimit then Some (True, i1, ks1)
               else if expired s > ACTIVE_EXPIRE_CYCLE_LOOKUPS_PER_LOOP div 4 then expire_db E start timelimit j fuel (i1, ks1)
               else Some (False, i1, ks1)))"

fun expire_dbs :: "'k expire_env \<Rightarrow> int \<Rightarrow> int \<Rightarrow> nat \<Rightarrow> nat \<Rightarrow> 'k dbcron \<Rightarrow> 'k dbcron option" where
  "expire_dbs E start timelimit 0 iteration st = Some st"
| "expire_dbs E start timelimit (Suc n) iteration st =
     (let ks = dc_ks st; j = unat (current_db st) mod length (dbs ks)
      in case expire_db E start timelimit j (Suc (length (expires (dbs ks ! j)))) (iteration, ks) of
           None \<Rightarrow> None
         | Some (limit, i1, ks1) \<Rightarrow>
             (let st1 = st\<lparr>dc_ks := ks1, current_db := current_db st + 1, timelimit_exit := limit\<rparr>
              in if limit then Some st1 else expire_dbs E start timelimit n i1 st1))"

definition expire_timelimit :: "expire_cycle \<Rightarrow> int \<Rightarrow> int" where
  "expire_timelimit t hz =
     (if t = ACTIVE_EXPIRE_CYCLE_FAST then ACTIVE_EXPIRE_CYCLE_FAST_DURATION
      else (let l = (1000000 * ACTIVE_EXPIRE_CYCLE_SLOW_TIME_PERC) sdiv hz sdiv 100 in if l \<le> 0 then 1 else l))"

definition dbs_per_call :: "nat \<Rightarrow> bool \<Rightarrow> nat" where
  "dbs_per_call dbnum limit = (if CRON_DBS_PER_CALL > dbnum \<or> limit then dbnum else CRON_DBS_PER_CALL)"

definition activeExpireCycle :: "'k expire_env \<Rightarrow> expire_cycle \<Rightarrow> 'k dbcron \<Rightarrow> 'k dbcron option" where
  "activeExpireCycle E t st =
     (let start = ex_ustime E (dc_ks st)
      in if t = ACTIVE_EXPIRE_CYCLE_FAST \<and> (\<not> timelimit_exit st \<or> start < last_fast_cycle st + ACTIVE_EXPIRE_CYCLE_FAST_DURATION * 2) then Some st
         else
           (let st1 = (if t = ACTIVE_EXPIRE_CYCLE_FAST then st\<lparr>last_fast_cycle := start\<rparr> else st)
            in expire_dbs E start (expire_timelimit t (ex_hz E)) (dbs_per_call (length (dbs (dc_ks st))) (timelimit_exit st)) 0
                 (st1\<lparr>timelimit_exit := False\<rparr>)))"

section \<open>Resizing and rehashing\<close>

definition htNeedsResize :: "'k expire_env \<Rightarrow> nat \<Rightarrow> nat \<Rightarrow> bool" where
  "htNeedsResize E slots used \<longleftrightarrow> slots \<noteq> 0 \<and> used \<noteq> 0 \<and> slots > DICT_HT_INITIAL_SIZE E \<and> used * 100 div slots < HASHTABLE_MIN_FILL"

definition tryResizeHashTables :: "'k expire_env \<Rightarrow> nat \<Rightarrow> 'k keyspace \<Rightarrow> 'k keyspace" where
  "tryResizeHashTables E j ks =
     (let ks1 = (if htNeedsResize E (dict_slots E j ks) (length (kdict (dbs ks ! j))) then resize_dict E j ks else ks)
      in if htNeedsResize E (expires_slots E j ks1) (length (expires (dbs ks1 ! j))) then resize_expires E j ks1 else ks1)"

definition incrementallyRehash :: "'k expire_env \<Rightarrow> nat \<Rightarrow> 'k keyspace \<Rightarrow> bool \<times> 'k keyspace" where
  "incrementallyRehash E j ks =
     (if dict_rehashing E j ks then (True, rehash_dict E j ks)
      else if expires_rehashing E j ks then (True, rehash_expires E j ks)
      else (False, ks))"

fun resize_loop :: "'k expire_env \<Rightarrow> nat \<Rightarrow> 'k dbcron \<Rightarrow> 'k dbcron" where
  "resize_loop E 0 st = st"
| "resize_loop E (Suc n) st =
     resize_loop E n (st\<lparr>dc_ks := tryResizeHashTables E (unat (resize_db st) mod length (dbs (dc_ks st))) (dc_ks st), resize_db := resize_db st + 1\<rparr>)"

fun rehash_loop :: "'k expire_env \<Rightarrow> nat \<Rightarrow> 'k dbcron \<Rightarrow> 'k dbcron" where
  "rehash_loop E 0 st = st"
| "rehash_loop E (Suc n) st =
     (case incrementallyRehash E (unat (rehash_db st) mod length (dbs (dc_ks st))) (dc_ks st) of
        (work_done, ks) \<Rightarrow>
          (let st1 = st\<lparr>dc_ks := ks, rehash_db := rehash_db st + 1\<rparr> in if work_done then st1 else rehash_loop E n st1))"

definition databasesCron_db :: "'k expire_env \<Rightarrow> 'k dbcron \<Rightarrow> 'k dbcron option" where
  "databasesCron_db E st =
     (case (if active_expire_enabled E \<and> \<not> masterhost (ev_srv (ex_ev E)) then activeExpireCycle E ACTIVE_EXPIRE_CYCLE_SLOW st else Some st) of
        None \<Rightarrow> None
      | Some st1 \<Rightarrow>
          Some (if child_running E then st1
                else
                  (let n = dbs_per_call (length (dbs (dc_ks st1))) False; st2 = resize_loop E n st1
                   in if activerehashing E then rehash_loop E n st2 else st2)))"

section \<open>What expiring may take\<close>

text \<open>From one data base to another only keys are gone whose time was up before \<open>T\<close>.\<close>

definition shrinks :: "int \<Rightarrow> redisDb \<Rightarrow> redisDb \<Rightarrow> bool" where
  "shrinks T db db' \<longleftrightarrow> (\<exists>D. D \<subseteq> fst ` {e \<in> set (expires db). snd e < T} \<and>
     kdict db' = filter (\<lambda>e. fst e \<notin> D) (kdict db) \<and> expires db' = filter (\<lambda>e. fst e \<notin> D) (expires db))"

lemma shrinks_refl: "kdict db' = kdict db \<Longrightarrow> expires db' = expires db \<Longrightarrow> shrinks T db db'"
  unfolding shrinks_def by (rule exI [of _ "{}"]) simp

lemma shrinks_trans:
  assumes "shrinks T a b" and "shrinks T b c"
  shows "shrinks T a c"
proof -
  obtain D where D: "D \<subseteq> fst ` {e \<in> set (expires a). snd e < T}" "kdict b = filter (\<lambda>e. fst e \<notin> D) (kdict a)" "expires b = filter (\<lambda>e. fst e \<notin> D) (expires a)"
    using assms(1) unfolding shrinks_def by blast
  obtain D' where D': "D' \<subseteq> fst ` {e \<in> set (expires b). snd e < T}" "kdict c = filter (\<lambda>e. fst e \<notin> D') (kdict b)" "expires c = filter (\<lambda>e. fst e \<notin> D') (expires b)"
    using assms(2) unfolding shrinks_def by blast
  have "D' \<subseteq> fst ` {e \<in> set (expires a). snd e < T}" using D'(1) D(3) by auto
  moreover have "(\<lambda>e. fst e \<notin> D \<union> D') = (\<lambda>e. fst e \<notin> D \<and> fst e \<notin> D')" by auto
  ultimately show ?thesis unfolding shrinks_def using D D' by (intro exI [of _ "D \<union> D'"]) (auto simp: conj_commute)
qed

lemma without_key_shrinks: "de \<in> set (expires db) \<Longrightarrow> snd de < T \<Longrightarrow> shrinks T db (without_key (fst de) db)"
  unfolding shrinks_def by (rule exI [of _ "{fst de}"]) (auto simp: without_key_def)

text \<open>What a step of the cycle promises.\<close>

definition expires_only :: "int \<Rightarrow> 'k keyspace \<Rightarrow> 'k keyspace \<Rightarrow> bool" where
  "expires_only T ks ks' \<longleftrightarrow> list_all2 (shrinks T) (dbs ks) (dbs ks') \<and> list_all db_ok (dbs ks') \<and>
     stat_expiredkeys ks' - stat_expiredkeys ks = int (total_keys (dbs ks)) - int (total_keys (dbs ks'))"

lemma expires_only_refl: "list_all db_ok (dbs ks) \<Longrightarrow> expires_only T ks ks"
  by (simp add: expires_only_def shrinks_refl list_all2_refl)

lemma expires_only_trans: "expires_only T a b \<Longrightarrow> expires_only T b c \<Longrightarrow> expires_only T a c"
  unfolding expires_only_def using list_all2_trans [of "shrinks T" "shrinks T" "shrinks T" "dbs a" "dbs b" "dbs c"] shrinks_trans by auto

lemma expires_only_length: "expires_only T a b \<Longrightarrow> length (dbs b) = length (dbs a)"
  unfolding expires_only_def using list_all2_lengthD [of "shrinks T" "dbs a" "dbs b"] by simp

lemma list_all2_update_one: "(\<And>x. P x x) \<Longrightarrow> P (xs ! j) y \<Longrightarrow> list_all2 P xs (xs[j := y])"
  by (auto simp: list_all2_conv_all_nth) (metis nth_list_update_eq nth_list_update_neq)

lemma set_avg_only:
  assumes "list_all db_ok (dbs ks)" "j < length (dbs ks)"
  shows "expires_only T ks (set_avg j f ks)" "expires (dbs (set_avg j f ks) ! j) = expires (dbs ks ! j)"
proof -
  let ?db = "(dbs ks ! j)\<lparr>avg_ttl := f (avg_ttl (dbs ks ! j))\<rparr>"
  have "db_ok ?db" using assms by (simp add: list_all_length db_ok_def)
  then show "expires_only T ks (set_avg j f ks)"
    using total_keys_update [OF assms(2), of ?db 0] list_all_update [OF assms(1)]
    by (simp add: expires_only_def set_avg_def list_all2_update_one shrinks_refl)
  show "expires (dbs (set_avg j f ks) ! j) = expires (dbs ks ! j)" using assms(2) by (simp add: set_avg_def)
qed

lemma try_expire_only:
  assumes D: "deletes E" and ok: "list_all db_ok (dbs ks)" and j: "j < length (dbs ks)" and de: "de \<in> set (expires (dbs ks ! j))" and now: "now \<le> T"
    and r: "activeExpireCycleTryExpire E j de now ks = (b, ks')"
  shows "expires_only T ks ks'" "length (expires (dbs ks' ! j)) + of_bool b \<le> length (expires (dbs ks ! j))"
proof -
  let ?db = "dbs ks ! j"
  have db: "db_ok ?db" using ok j by (simp add: list_all_length)
  show "expires_only T ks ks'" "length (expires (dbs ks' ! j)) + of_bool b \<le> length (expires ?db)"
  proof (atomize (full), cases b)
    case True
    then have d: "dbs ks' = (dbs ks)[j := without_key (fst de) ?db]" "stat_expiredkeys ks' = stat_expiredkeys ks + 1" "snd de < T"
      using r D now by (auto simp: activeExpireCycleTryExpire_def on_ks_sys_def deletes_def Let_def split: if_splits)
    have "fst de \<in> set (map fst (kdict ?db))" using de db by (auto simp: db_ok_def)
    then have "length (kdict (without_key (fst de) ?db)) + 1 = length (kdict ?db)"
      using filter_other_length [of "kdict ?db"] db by (simp add: without_key_def db_ok_def)
    from total_keys_update [OF j this] have "expires_only T ks ks'"
      using d list_all_update [OF ok without_key_ok [OF db]] list_all2_update_one [of "shrinks T"] without_key_shrinks [OF de d(3)]
      by (simp add: expires_only_def shrinks_refl)
    moreover have "length (filter (\<lambda>e. fst e \<noteq> fst de) (expires ?db)) < length (expires ?db)" using de by (intro length_filter_less [of de]) simp_all
    ultimately show "expires_only T ks ks' \<and> length (expires (dbs ks' ! j)) + of_bool b \<le> length (expires ?db)"
      using d(1) j True by (simp add: without_key_def)
  next
    case False
    then have "ks' = ks" using r by (auto simp: activeExpireCycleTryExpire_def Let_def split: if_splits)
    with False show "expires_only T ks ks' \<and> length (expires (dbs ks' ! j)) + of_bool b \<le> length (expires ?db)" using ok by (simp add: expires_only_refl)
  qed
qed

lemma sample_loop_only:
  assumes s: "sampler_ok R E" and D: "deletes E" and now: "now \<le> T"
  shows "list_all db_ok (dbs (sm_ks sm)) \<Longrightarrow> j < length (dbs (sm_ks sm)) \<Longrightarrow>
    expires_only T (sm_ks sm) (sm_ks (sample_loop E j now n sm)) \<and>
    length (expires (dbs (sm_ks (sample_loop E j now n sm)) ! j)) + expired (sample_loop E j now n sm) \<le> length (expires (dbs (sm_ks sm) ! j)) + expired sm"
proof (induction n arbitrary: sm)
  case 0
  then show ?case by (simp add: expires_only_refl)
next
  case (Suc n)
  let ?ks = "(sm_ks sm)\<lparr>draws := Suc (draws (sm_ks sm))\<rparr>" and ?es = "expires (dbs (sm_ks sm) ! j)"
  show ?case
  proof (cases "?es = []")
    case True
    then show ?thesis using Suc.prems by (simp add: expires_only_refl)
  next
    case False
    define de where "de = ?es ! dictGetRandomKey E (draws (sm_ks sm)) (length ?es)"
    obtain b ks1 where r: "activeExpireCycleTryExpire E j de now ?ks = (b, ks1)" by fastforce
    have de: "de \<in> set (expires (dbs ?ks ! j))" using s False by (simp add: de_def sampler_ok_def)
    have "list_all db_ok (dbs ?ks)" "j < length (dbs ?ks)" using Suc.prems by simp_all
    note e = try_expire_only [OF D this de now r]
    have e1: "expires_only T (sm_ks sm) ks1" using e(1) by (simp add: expires_only_def)
    define s1 where "s1 = sm\<lparr>sm_ks := ks1, expired := expired sm + of_bool b\<rparr>"
    define s2 where "s2 = (if snd de - now > 0 then s1\<lparr>ttl_sum := ttl_sum s1 + (snd de - now), ttl_samples := ttl_samples s1 + 1\<rparr> else s1)"
    have s2: "sm_ks s2 = ks1" "expired s2 = expired sm + of_bool b" by (simp_all add: s2_def s1_def)
    have step: "sample_loop E j now (Suc n) sm = sample_loop E j now n s2"
      using False r by (simp add: de_def [symmetric] s1_def [symmetric] Let_def) (simp add: s2_def)
    have "list_all db_ok (dbs (sm_ks s2))" "j < length (dbs (sm_ks s2))" using e1 expires_only_length [OF e1] Suc.prems(2) by (simp_all add: s2 expires_only_def)
    from Suc.IH [OF this] expires_only_trans [OF e1] e(2) show ?thesis unfolding step by (simp add: s2)
  qed
qed

lemma expire_db_only:
  assumes s: "sampler_ok R (ex_ev E)" and D: "deletes (ex_ev E)" and clock: "\<And>ks. ex_mstime E ks \<le> T"
  shows "list_all db_ok (dbs ks) \<Longrightarrow> j < length (dbs ks) \<Longrightarrow> length (expires (dbs ks ! j)) < fuel \<Longrightarrow>
    \<exists>limit i' ks'. expire_db E start timelimit j fuel (i, ks) = Some (limit, i', ks') \<and> expires_only T ks ks'"
proof (induction fuel arbitrary: i ks)
  case (Suc fuel)
  let ?num = "length (expires (dbs ks ! j))"
  define sm where "sm = sample_loop (ex_ev E) j (ex_mstime E ks) (min ?num 20) \<lparr>expired = 0, ttl_sum = 0, ttl_samples = 0, sm_ks = ks\<rparr>"
  define ks1 where "ks1 = set_avg j (running_average (ttl_sum sm) (ttl_samples sm)) (sm_ks sm)"
  have "list_all db_ok (dbs (sm_ks \<lparr>expired = 0, ttl_sum = 0, ttl_samples = 0, sm_ks = ks\<rparr>))"
    "j < length (dbs (sm_ks \<lparr>expired = 0, ttl_sum = 0, ttl_samples = 0, sm_ks = ks\<rparr>))" using Suc.prems by simp_all
  from sample_loop_only [OF s D clock this, of ks "min ?num 20", folded sm_def]
  have e: "expires_only T ks (sm_ks sm)" "length (expires (dbs (sm_ks sm) ! j)) + expired sm \<le> ?num" by simp_all
  have j1: "list_all db_ok (dbs (sm_ks sm))" "j < length (dbs (sm_ks sm))" using e(1) expires_only_length [OF e(1)] Suc.prems(2) by (simp_all add: expires_only_def)
  note a = set_avg_only(1) [OF j1, of T "running_average (ttl_sum sm) (ttl_samples sm)", folded ks1_def]
    set_avg_only(2) [OF j1, of "running_average (ttl_sum sm) (ttl_samples sm)", folded ks1_def]
  have e1: "expires_only T ks ks1" by (rule expires_only_trans [OF e(1) a(1)])
  have n1: "list_all db_ok (dbs ks1)" "j < length (dbs ks1)" using e1 expires_only_length [OF e1] Suc.prems(2) by (simp_all add: expires_only_def)
  have IH: "\<exists>limit i' ks'. expire_db E start timelimit j fuel (i + 1, ks1) = Some (limit, i', ks') \<and> expires_only T ks ks'" if "expired sm > 5"
  proof -
    have "length (expires (dbs ks1 ! j)) < fuel" using that e(2) a(2) Suc.prems(3) by simp
    from Suc.IH [OF n1 this, of "i + 1"] show ?thesis using expires_only_trans [OF e1] by blast
  qed
  have step: "expire_db E start timelimit j (Suc fuel) (i, ks) =
      (if ?num = 0 then Some (False, i, set_avg j (\<lambda>_. 0) ks)
       else if expires_slots E j ks > DICT_HT_INITIAL_SIZE E \<and> ?num * 100 div expires_slots E j ks < 1 then Some (False, i, ks)
       else if (i + 1) mod 16 = 0 \<and> ex_ustime E ks1 - start > timelimit then Some (True, i + 1, ks1)
       else if expired sm > 5 then expire_db E start timelimit j fuel (i + 1, ks1) else Some (False, i + 1, ks1))"
    unfolding expire_db.simps Let_def sm_def [symmetric] ks1_def [symmetric] by simp
  show ?case unfolding step using IH e1 set_avg_only(1) [OF Suc.prems(1,2)] expires_only_refl [OF Suc.prems(1)] by auto
qed simp

lemma expire_dbs_only:
  assumes s: "sampler_ok R (ex_ev E)" and D: "deletes (ex_ev E)" and clock: "\<And>ks. ex_mstime E ks \<le> T"
  shows "list_all db_ok (dbs (dc_ks st)) \<Longrightarrow> dbs (dc_ks st) \<noteq> [] \<Longrightarrow>
    \<exists>st'. expire_dbs E start timelimit n i st = Some st' \<and> expires_only T (dc_ks st) (dc_ks st') \<and>
      (\<not> timelimit_exit st \<longrightarrow> \<not> timelimit_exit st' \<longrightarrow> current_db st' = current_db st + of_nat n)"
proof (induction n arbitrary: i st)
  case 0
  then show ?case by (simp add: expires_only_refl)
next
  case (Suc n)
  let ?ks = "dc_ks st" and ?j = "unat (current_db st) mod length (dbs (dc_ks st))"
  have "?j < length (dbs ?ks)" using Suc.prems(2) by simp
  from expire_db_only [OF s D clock Suc.prems(1) this lessI] obtain limit i1 ks1 where
    e: "expire_db E start timelimit ?j (Suc (length (expires (dbs ?ks ! ?j)))) (i, ?ks) = Some (limit, i1, ks1)" "expires_only T ?ks ks1" by blast
  let ?st1 = "st\<lparr>dc_ks := ks1, current_db := current_db st + 1, timelimit_exit := limit\<rparr>"
  have p: "list_all db_ok (dbs (dc_ks ?st1))" "dbs (dc_ks ?st1) \<noteq> []" using e(2) expires_only_length [OF e(2)] Suc.prems(2) by (auto simp: expires_only_def)
  have step: "expire_dbs E start timelimit (Suc n) i st = (if limit then Some ?st1 else expire_dbs E start timelimit n i1 ?st1)"
    using e(1) by (simp add: Let_def del: expire_db.simps)
  show ?case
  proof (cases limit)
    case True
    then show ?thesis unfolding step using e(2) by simp
  next
    case False
    from Suc.IH [OF p, of i1] obtain st' where "expire_dbs E start timelimit n i1 ?st1 = Some st'" "expires_only T ks1 (dc_ks st')"
      "\<not> timelimit_exit st' \<longrightarrow> current_db st' = current_db st + 1 + of_nat n" using False by auto
    then show ?thesis unfolding step using False expires_only_trans [OF e(2)] by (auto simp: algebra_simps)
  qed
qed

text \<open>What is relied on of \<open>dict.c\<close>: changing the layout of a table does not change its entries.\<close>

definition keeps_entries :: "'k expire_env \<Rightarrow> bool" where
  "keeps_entries E \<longleftrightarrow> (\<forall>f\<in>{resize_dict E, resize_expires E, rehash_dict E, rehash_expires E}. \<forall>j ks.
     dbs (f j ks) = dbs ks \<and> stat_expiredkeys (f j ks) = stat_expiredkeys ks)"

lemma expires_only_same: "dbs b = dbs a \<Longrightarrow> stat_expiredkeys b = stat_expiredkeys a \<Longrightarrow> list_all db_ok (dbs a) \<Longrightarrow> expires_only T a b"
  using expires_only_refl [of a T] by (simp add: expires_only_def)

lemma tryResizeHashTables_keeps:
  "keeps_entries E \<Longrightarrow> dbs (tryResizeHashTables E j ks) = dbs ks \<and> stat_expiredkeys (tryResizeHashTables E j ks) = stat_expiredkeys ks"
  by (simp add: tryResizeHashTables_def keeps_entries_def Let_def)

lemma resize_loop_keeps:
  "keeps_entries E \<Longrightarrow> dbs (dc_ks (resize_loop E n st)) = dbs (dc_ks st) \<and> stat_expiredkeys (dc_ks (resize_loop E n st)) = stat_expiredkeys (dc_ks st)"
  by (induction n arbitrary: st) (simp_all add: tryResizeHashTables_keeps)

lemma rehash_loop_keeps:
  "keeps_entries E \<Longrightarrow> dbs (dc_ks (rehash_loop E n st)) = dbs (dc_ks st) \<and> stat_expiredkeys (dc_ks (rehash_loop E n st)) = stat_expiredkeys (dc_ks st)"
  by (induction n arbitrary: st) (auto simp: incrementallyRehash_def keeps_entries_def Let_def)

lemma resize_loop_db: "resize_db (resize_loop E n st) = resize_db st + of_nat n"
  by (induction n arbitrary: st) (simp_all add: algebra_simps)

lemma activeExpireCycle_only:
  assumes "sampler_ok R (ex_ev E)" and "deletes (ex_ev E)" and "\<And>ks. ex_mstime E ks \<le> T" and "list_all db_ok (dbs (dc_ks st))" and "dbs (dc_ks st) \<noteq> []"
  obtains st' where "activeExpireCycle E t st = Some st'" "expires_only T (dc_ks st) (dc_ks st')"
    "t = ACTIVE_EXPIRE_CYCLE_SLOW \<Longrightarrow> \<not> timelimit_exit st' \<Longrightarrow>
       current_db st' = current_db st + of_nat (dbs_per_call (length (dbs (dc_ks st))) (timelimit_exit st))"
proof (cases "t = ACTIVE_EXPIRE_CYCLE_FAST \<and> (\<not> timelimit_exit st \<or> ex_ustime E (dc_ks st) < last_fast_cycle st + 1000 * 2)")
  case True
  then show ?thesis using that [of st] expires_only_refl [OF assms(4)] by (auto simp: activeExpireCycle_def)
next
  case False
  define st1 where "st1 = (if t = ACTIVE_EXPIRE_CYCLE_FAST then st\<lparr>last_fast_cycle := ex_ustime E (dc_ks st)\<rparr> else st)\<lparr>timelimit_exit := False\<rparr>"
  have s: "dc_ks st1 = dc_ks st" "current_db st1 = current_db st" "\<not> timelimit_exit st1" by (simp_all add: st1_def)
  have "activeExpireCycle E t st = expire_dbs E (ex_ustime E (dc_ks st)) (expire_timelimit t (ex_hz E)) (dbs_per_call (length (dbs (dc_ks st))) (timelimit_exit st)) 0 st1"
    using False by (auto simp: activeExpireCycle_def Let_def st1_def)
  moreover obtain st' where "expire_dbs E (ex_ustime E (dc_ks st)) (expire_timelimit t (ex_hz E)) (dbs_per_call (length (dbs (dc_ks st))) (timelimit_exit st)) 0 st1 = Some st'"
    "expires_only T (dc_ks st) (dc_ks st')" "\<not> timelimit_exit st' \<longrightarrow> current_db st' = current_db st + of_nat (dbs_per_call (length (dbs (dc_ks st))) (timelimit_exit st))"
    using expire_dbs_only [OF assms(1-3), of st1] assms(4,5) s by metis
  ultimately show ?thesis using that by simp
qed

section \<open>Properties\<close>

text \<open>C24: the periodic work on the data bases ends and takes nothing but keys whose time is up: when no reading of the clock
  is later than \<open>T\<close>, every data base afterwards has the keys it had without some whose expiry time was before \<open>T\<close>, in both of
  its tables, the keys taken are counted, and the pools and tables stay in order.\<close>

theorem databasesCron_expires_only:
  assumes "sampler_ok R (ex_ev E)" and "deletes (ex_ev E)" and "keeps_entries E" and "\<And>ks. ex_mstime E ks \<le> T"
    and "list_all db_ok (dbs (dc_ks st))" and "dbs (dc_ks st) \<noteq> []"
  shows "\<exists>st'. databasesCron_db E st = Some st' \<and> list_all2 (shrinks T) (dbs (dc_ks st)) (dbs (dc_ks st')) \<and> list_all db_ok (dbs (dc_ks st')) \<and>
    stat_expiredkeys (dc_ks st') - stat_expiredkeys (dc_ks st) = int (total_keys (dbs (dc_ks st))) - int (total_keys (dbs (dc_ks st')))"
proof -
  obtain st1 where e: "(if active_expire_enabled E \<and> \<not> masterhost (ev_srv (ex_ev E)) then activeExpireCycle E ACTIVE_EXPIRE_CYCLE_SLOW st else Some st) = Some st1"
    "expires_only T (dc_ks st) (dc_ks st1)"
    using activeExpireCycle_only [OF assms(1,2,4-6), of ACTIVE_EXPIRE_CYCLE_SLOW] expires_only_refl [OF assms(5)] by (metis (full_types))
  have "\<exists>st'. databasesCron_db E st = Some st' \<and> dbs (dc_ks st') = dbs (dc_ks st1) \<and> stat_expiredkeys (dc_ks st') = stat_expiredkeys (dc_ks st1)"
    unfolding databasesCron_db_def e(1) using resize_loop_keeps [OF assms(3)] rehash_loop_keeps [OF assms(3)] by (simp add: Let_def)
  then show ?thesis using e(2) unfolding expires_only_def by auto
qed

definition demo_expire_env :: "int list expire_env" where
  "demo_expire_env =
     \<lparr>ex_ev = demo_evict_env, ex_mstime = (\<lambda>_. 500), ex_ustime = (\<lambda>ks. int (draws ks)), ex_hz = 10, DICT_HT_INITIAL_SIZE = 4,
      dict_slots = (\<lambda>_ _. 4), expires_slots = (\<lambda>_ _. 4), active_expire_enabled = True, activerehashing = True, child_running = False,
      resize_dict = (\<lambda>_ ks. ks), resize_expires = (\<lambda>_ ks. ks), dict_rehashing = (\<lambda>_ _. True), expires_rehashing = (\<lambda>_ _. False),
      rehash_dict = (\<lambda>_ ks. ks), rehash_expires = (\<lambda>_ ks. ks)\<rparr>"

definition demo_dbcron :: "int list dbcron" where
  "demo_dbcron =
     \<lparr>dc_ks = demo_keyspace\<lparr>dbs := [\<lparr>kdict = [(''a'', 3), (''b'', 7)], expires = [(''a'', 400)], eviction_pool = evictionPoolAlloc, avg_ttl = 0\<rparr>]\<rparr>,
      current_db = 0, timelimit_exit = False, last_fast_cycle = 0, resize_db = 0, rehash_db = 0\<rparr>"

theorem databasesCron_expires_only_witness:
  "\<exists>st'. databasesCron_db demo_expire_env demo_dbcron = Some st' \<and> list_all2 (shrinks 500) (dbs (dc_ks demo_dbcron)) (dbs (dc_ks st')) \<and>
     stat_expiredkeys (dc_ks st') = 2 - int (total_keys (dbs (dc_ks st')))"
proof -
  have e: "evictionPoolAlloc = pool_with []" "pool_good []" by (simp_all add: evictionPoolAlloc_def pool_with_def pool_good_def)
  have "list_all db_ok (dbs (dc_ks demo_dbcron))" "dbs (dc_ks demo_dbcron) \<noteq> []" using e by (auto simp: demo_dbcron_def db_ok_def)
  moreover have "sampler_ok 1 (ex_ev demo_expire_env)" "deletes (ex_ev demo_expire_env)" "keeps_entries demo_expire_env" "ex_mstime demo_expire_env ks \<le> 500" for ks
    by (auto simp: sampler_ok_def deletes_def demo_evict_env_def demo_expire_env_def keeps_entries_def)
  moreover have "total_keys (dbs (dc_ks demo_dbcron)) = 2" "stat_expiredkeys (dc_ks demo_dbcron) = 0" by (simp_all add: demo_dbcron_def demo_keyspace_def total_keys_def)
  ultimately show ?thesis using databasesCron_expires_only [of 1 demo_expire_env 500 demo_dbcron] by auto
qed

end
