(* ===== verification/Redis_Process.thy ===== *)
theory Redis_Process
  imports Redis_Admin
begin

text \<open>
  The process side of \<open>server.c\<close>: the limit of open files that bounds the number of clients (\<open>adjustOpenFilesLimit\<close>),
  the listening sockets (\<open>listenToPort\<close>) and the shutdown (\<open>prepareForShutdown\<close>). System calls are arguments, and what a
  shutdown does to the outside is a list of actions.
\<close>

section \<open>The limit of open files\<close>

abbreviation (input) "CONFIG_MIN_RESERVED_FDS \<equiv> (32 :: nat)"

text \<open>Lower and lower limits are tried until one is accepted; \<open>setrl l\<close> says whether the system accepts \<open>l\<close>. The result is the
  last limit tried and whether it was accepted.\<close>

function limit_loop :: "(64 word \<Rightarrow> bool) \<Rightarrow> 64 word \<Rightarrow> 64 word \<Rightarrow> 64 word \<times> bool" where
  "limit_loop setrl oldlimit bestlimit =
     (if bestlimit > oldlimit then
        (if setrl bestlimit then (bestlimit, True)
         else if bestlimit < 16 then (bestlimit, False)
         else limit_loop setrl oldlimit (bestlimit - 16))
      else (bestlimit, False))"
  by pat_completeness auto
termination
proof (relation "measure (\<lambda>(setrl, oldlimit, bestlimit). unat bestlimit)")
  fix b :: "64 word" assume "\<not> b < 16"
  then have "unat (b - 16) < unat b" by (simp add: unat_sub not_less word_le_nat_alt)
  then show "((s, o1, b - 16), s, o1, b) \<in> measure (\<lambda>(setrl, oldlimit, bestlimit). unat bestlimit)" for s :: "64 word \<Rightarrow> bool" and o1 :: "64 word"
    by simp
qed simp

declare limit_loop.simps [simp del]

text \<open>\<open>getrl\<close> is the current limit, \<open>None\<close> when it cannot be obtained. The result is the number of clients and the limit in
  force, or \<open>None\<close> when the process exits. \<open>maxclients\<close> is an \<open>unsigned int\<close>.\<close>

definition adjustOpenFilesLimit :: "64 word option \<Rightarrow> (64 word \<Rightarrow> bool) \<Rightarrow> 32 word \<Rightarrow> (32 word \<times> 64 word option) option" where
  "adjustOpenFilesLimit getrl setrl clients_max =
     (let maxfiles = ucast (clients_max + of_nat CONFIG_MIN_RESERVED_FDS) :: 64 word
      in case getrl of
           None \<Rightarrow> Some (1024 - of_nat CONFIG_MIN_RESERVED_FDS, None)
         | Some oldlimit \<Rightarrow>
             if oldlimit < maxfiles then
               (case limit_loop setrl oldlimit maxfiles of
                  (l, accepted) \<Rightarrow>
                    (let bestlimit = (if l < oldlimit then oldlimit else l);
                         inforce = (if accepted then l else oldlimit)
                     in if bestlimit < maxfiles then
                          (let m = ucast (bestlimit - of_nat CONFIG_MIN_RESERVED_FDS) :: 32 word
                           in if m < 1 then None else Some (m, Some inforce))
                        else Some (clients_max, Some inforce)))
             else Some (clients_max, Some oldlimit))"

section \<open>Listening sockets\<close>

text \<open>\<open>bind6\<close> and \<open>bind4\<close> stand for \<open>anetTcp6Server\<close> and \<open>anetTcpServer\<close>, which return a descriptor or \<open>-1\<close>; no address is \<open>*\<close>.
  The result is whether it worked, and the descriptors stored.\<close>

fun listen_addresses :: "(string option \<Rightarrow> int) \<Rightarrow> (string option \<Rightarrow> int) \<Rightarrow> string list \<Rightarrow> int list \<Rightarrow> bool \<times> int list" where
  "listen_addresses bind6 bind4 [] fds = (True, fds)"
| "listen_addresses bind6 bind4 (a # as) fds =
     (let x = (if CHR '':'' \<in> set a then bind6 (Some a) else bind4 (Some a))
      in if x = -1 then (False, fds) else listen_addresses bind6 bind4 as (fds @ [x]))"

definition listenToPort :: "(string option \<Rightarrow> int) \<Rightarrow> (string option \<Rightarrow> int) \<Rightarrow> string list \<Rightarrow> bool \<times> int list" where
  \<comment> \<open>called with an empty array of descriptors\<close>
  "listenToPort bind6 bind4 addresses =
     (if addresses = [] then
        (let a = bind6 None
         in if a = -1 then (False, [])
            else (let b = bind4 None in if b = -1 then (False, [a]) else (True, [a, b])))
      else listen_addresses bind6 bind4 addresses [])"

section \<open>Shutting down\<close>

datatype action = KillLdbSessions | Kill int | RemoveTempFile int | FsyncAof | SaveRdb | UnlinkPidFile | FlushSlaves | Close int | UnlinkSocket

record shutdown_state =
  rdb_child :: int
  aof_child :: int
  aof_enabled :: bool
  aof_wait_rewrite :: bool
  saveparams :: nat
  has_pid_file :: bool
  ipfds :: "int list"
  sofd :: int
  cfds :: "int list"
  in_cluster :: bool
  has_unixsocket :: bool

definition closeListeningSockets :: "bool \<Rightarrow> shutdown_state \<Rightarrow> action list" where
  "closeListeningSockets unlink_unix_socket s =
     map Close (ipfds s) @ (if sofd s \<noteq> -1 then [Close (sofd s)] else []) @ (if in_cluster s then map Close (cfds s) else []) @
     (if unlink_unix_socket \<and> has_unixsocket s then [UnlinkSocket] else [])"

text \<open>\<open>save_ok\<close> is the result of \<open>rdbSave\<close>.\<close>

definition prepareForShutdown :: "bool \<Rightarrow> bool \<Rightarrow> bool \<Rightarrow> shutdown_state \<Rightarrow> bool \<times> action list" where
  "prepareForShutdown save nosave save_ok s =
     (let a0 = KillLdbSessions # (if rdb_child s \<noteq> -1 then [Kill (rdb_child s), RemoveTempFile (rdb_child s)] else [])
      in if aof_enabled s \<and> aof_child s \<noteq> -1 \<and> aof_wait_rewrite s then (False, a0)
         else
           (let a1 = a0 @ (if aof_enabled s then (if aof_child s \<noteq> -1 then [Kill (aof_child s)] else []) @ [FsyncAof] else []);
                saving = (saveparams s > 0 \<and> \<not> nosave \<or> save);
                a2 = a1 @ (if saving then [SaveRdb] else [])
            in if saving \<and> \<not> save_ok then (False, a2)
               else (True, a2 @ (if has_pid_file s then [UnlinkPidFile] else []) @ [FlushSlaves] @ closeListeningSockets True s)))"

section \<open>Lemmas\<close>

lemma limit_loop_result:
  "limit_loop setrl old b = (l, acc) \<Longrightarrow> l \<le> b \<and> (acc \<longrightarrow> setrl l \<and> old < l) \<and> (\<not> acc \<longrightarrow> l \<le> old \<or> l < 16)"
proof (induction setrl old b rule: limit_loop.induct)
  case (1 setrl old b)
  show ?case
  proof (cases "old < b \<and> \<not> setrl b \<and> \<not> b < 16")
    case True
    then have "b - 16 \<le> b" by (simp add: word_le_nat_alt unat_sub not_less)
    moreover have "limit_loop setrl old (b - 16) = (l, acc)" using 1(2) True by (simp add: limit_loop.simps [of setrl old b])
    ultimately show ?thesis using 1(1) True by (meson order_trans)
  next
    case False
    then show ?thesis using 1(2) by (auto simp: limit_loop.simps [of setrl old b] split: if_splits)
  qed
qed

lemma unat_widen: "unat (ucast (x :: 32 word) :: 64 word) = unat x"
proof -
  have "unat x < 2 ^ 64" using unsigned_less [of x, where ?'a = nat] by simp
  then show ?thesis by (simp add: unsigned_ucast_eq take_bit_nat_eq_self)
qed

lemma unat_narrow: "unat (b :: 64 word) < 2 ^ 32 \<Longrightarrow> unat (ucast b :: 32 word) = unat b"
  by (simp add: unsigned_ucast_eq take_bit_nat_eq_self)

lemma unat_limit:
  assumes "(b :: 64 word) < ucast (x :: 32 word)" "32 \<le> b"
  shows "unat (ucast (b - 32) :: 32 word) = unat b - 32" "unat b < unat x"
proof -
  show b: "unat b < unat x" using assms(1) by (simp add: word_less_nat_alt unat_widen)
  have "unat (b - 32) = unat b - 32" using assms(2) by (simp add: unat_sub)
  moreover have "unat x < 2 ^ 32" using unsigned_less [of x, where ?'a = nat] by simp
  ultimately show "unat (ucast (b - 32) :: 32 word) = unat b - 32" using b by (simp add: unat_narrow)
qed

section \<open>Properties\<close>

text \<open>When the limit of open files exceeds the reserved descriptors, the number of clients is never raised, is at least one,
  and with the reserved descriptors fits into the limit in force.\<close>

theorem maxclients_fits_limit:
  assumes "32 < old" and "0 < n" "unat n + 32 < 2 ^ 32"
  shows "\<exists>m lim. adjustOpenFilesLimit (Some old) setrl n = Some (m, Some lim) \<and> m \<le> n \<and> 0 < m \<and> unat m + 32 \<le> unat lim"
proof -
  let ?mf = "ucast (n + 32) :: 64 word"
  have mf: "unat (n + 32) = unat n + 32" "unat ?mf = unat n + 32" using assms(3) by (simp_all add: unat_widen unat_word_ariths)
  have old: "32 < unat old" using assms(1) by (simp add: word_less_nat_alt)
  show ?thesis
  proof (cases "old < ?mf")
    case False
    then have "unat n + 32 \<le> unat old" using mf(2) by (simp add: word_less_nat_alt not_less)
    then show ?thesis using False assms(2) by (simp add: adjustOpenFilesLimit_def Let_def)
  next
    case True
    obtain l acc where r: "limit_loop setrl old ?mf = (l, acc)" by fastforce
    note c = limit_loop_result [OF r]
    have "\<not> l < 16 \<or> l < old" using old by (auto simp: word_less_nat_alt)
    define best where "best = (if l < old then old else l)"
    have best: "32 < best" "best \<le> ?mf" "(if acc then l else old) = best"
      using c True assms(1) \<open>\<not> l < 16 \<or> l < old\<close> by (auto simp: best_def)
    show ?thesis
    proof (cases "best < ?mf")
      case True
      have m: "unat (ucast (best - 32) :: 32 word) = unat best - 32" "unat best < unat (n + 32)" using unat_limit [OF True] best(1) by simp_all
      have b: "32 < unat best" using best(1) by (simp add: word_less_nat_alt)
      have "0 < unat (ucast (best - 32) :: 32 word)" using m(1) b by simp
      then have p: "0 < (ucast (best - 32) :: 32 word)" "\<not> (ucast (best - 32) :: 32 word) < 1" by (simp_all add: word_less_nat_alt)
      have "(ucast (best - 32) :: 32 word) \<le> n" using m mf(1) b by (simp add: word_le_nat_alt)
      moreover have "adjustOpenFilesLimit (Some old) setrl n = Some (ucast (best - 32), Some best)"
        using \<open>old < ?mf\<close> True p(2) best(3) by (simp add: adjustOpenFilesLimit_def Let_def r best_def [symmetric])
      ultimately show ?thesis using p(1) m(1) b by simp
    next
      case False
      with best(2) have "unat best = unat n + 32" using mf(2) by (simp add: word_less_nat_alt word_le_nat_alt)
      moreover have "adjustOpenFilesLimit (Some old) setrl n = Some (n, Some best)"
        using \<open>old < ?mf\<close> False best(3) by (simp add: adjustOpenFilesLimit_def Let_def r best_def [symmetric])
      ultimately show ?thesis using assms(2) by simp
    qed
  qed
qed

text \<open>A limit below the reserved descriptors is not noticed: the difference is computed in unsigned arithmetic, so the test
  for less than one client fails and the server goes on with more than four billion clients.\<close>

theorem low_limit_wraps:
  assumes "old < 32" and "unat n + 32 < 2 ^ 32" and "\<And>l. \<not> setrl l"
  shows "\<exists>m. adjustOpenFilesLimit (Some old) setrl n = Some (m, Some old) \<and> 2 ^ 32 - 32 \<le> unat m"
proof -
  let ?mf = "ucast (n + 32) :: 64 word"
  have mf: "unat ?mf = unat n + 32" using assms(2) by (simp add: unat_widen unat_word_ariths)
  then have old: "old < ?mf" using assms(1) by (simp add: word_less_nat_alt)
  obtain l acc where r: "limit_loop setrl old ?mf = (l, acc)" by fastforce
  note c = limit_loop_result [OF r]
  have acc: "\<not> acc" using c assms(3) by blast
  define best where "best = (if l < old then old else l)"
  have b: "unat best < 32" using c acc assms(1) by (auto simp: best_def word_less_nat_alt word_le_nat_alt)
  then have lt: "best < ?mf" using mf by (simp add: word_less_nat_alt)
  have "unat (best - 32) = 2 ^ 64 + unat best - 32" using b by (simp add: unat_sub_if')
  then have u: "unat (ucast (best - 32) :: 32 word) = 2 ^ 32 - 32 + unat best"
    using b mod_mult_self1 [of "4294967264 + unat best" 4294967295 4294967296] by (simp add: unsigned_ucast_eq take_bit_eq_mod)
  then have "\<not> (ucast (best - 32) :: 32 word) < 1" by (simp add: word_less_nat_alt)
  then have "adjustOpenFilesLimit (Some old) setrl n = Some (ucast (best - 32), Some old)"
    using old lt acc by (simp add: adjustOpenFilesLimit_def Let_def r best_def [symmetric])
  with u show ?thesis by auto
qed

text \<open>Listening works exactly when every address can be bound; the descriptors are those of the addresses before the first one
  that fails, in order. Without addresses both protocols are needed.\<close>

lemma listen_addresses_result:
  fixes bind6 bind4 :: "string option \<Rightarrow> int"
  defines "b \<equiv> \<lambda>a. if CHR '':'' \<in> set a then bind6 (Some a) else bind4 (Some a)"
  shows "listen_addresses bind6 bind4 as fds = (list_all (\<lambda>a. b a \<noteq> -1) as, fds @ map b (takeWhile (\<lambda>a. b a \<noteq> -1) as))"
  by (induction as arbitrary: fds) (simp_all add: b_def Let_def)

text \<open>A shutdown is refused only while the first append only file is being written or when saving fails; a refused shutdown closes
  no socket and removes no file but the temporary one of the killed child. An accepted one has saved the data when saving is configured or asked for,
  before it closes every socket.\<close>

theorem shutdown_saves_first:
  assumes "prepareForShutdown save nosave save_ok s = (ok, acts)"
  defines "saving \<equiv> saveparams s > 0 \<and> \<not> nosave \<or> save"
  shows "if ok then (\<exists>before after. acts = before @ after \<and> (saving \<longrightarrow> save_ok \<and> SaveRdb \<in> set before) \<and> (aof_enabled s \<longrightarrow> FsyncAof \<in> set before) \<and>
      (\<forall>x. Close x \<notin> set before) \<and> set (map Close (ipfds s)) \<subseteq> set after)
    else (saving \<and> \<not> save_ok \<or> aof_enabled s \<and> aof_child s \<noteq> -1 \<and> aof_wait_rewrite s) \<and> (\<forall>x. Close x \<notin> set acts) \<and> UnlinkPidFile \<notin> set acts \<and> UnlinkSocket \<notin> set acts"
proof (cases ok)
  case False
  then show ?thesis using assms(1) by (auto simp: prepareForShutdown_def Let_def saving_def split: if_splits)
next
  case True
  define a0 where "a0 = KillLdbSessions # (if rdb_child s \<noteq> -1 then [Kill (rdb_child s), RemoveTempFile (rdb_child s)] else [])"
  define a1 where "a1 = a0 @ (if aof_enabled s then (if aof_child s \<noteq> -1 then [Kill (aof_child s)] else []) @ [FsyncAof] else [])"
  define a2 where "a2 = a1 @ (if saving then [SaveRdb] else [])"
  define rest where "rest = (if has_pid_file s then [UnlinkPidFile] else []) @ [FlushSlaves] @ closeListeningSockets True s"
  have r: "acts = a2 @ rest" "saving \<longrightarrow> save_ok"
    using assms(1) True by (auto simp: prepareForShutdown_def Let_def a0_def [symmetric] a1_def [symmetric] saving_def [symmetric] a2_def [symmetric] rest_def split: if_splits)
  have "(saving \<longrightarrow> SaveRdb \<in> set a2) \<and> (aof_enabled s \<longrightarrow> FsyncAof \<in> set a2) \<and> (\<forall>x. Close x \<notin> set a2)"
    by (simp add: a0_def a1_def a2_def)
  moreover have "set (map Close (ipfds s)) \<subseteq> set rest" by (auto simp: closeListeningSockets_def rest_def)
  ultimately show ?thesis using True r by (simp only: if_True) blast
qed

end
