(* ===== verification/Hiredis_Async.thy ===== *)
theory Hiredis_Async
  imports Redis_Proto Redis_Commands Smem_Client "HOL-Library.Multiset"
begin

text \<open>
  The asynchronous connection of the subscriber thread: \<open>async.c\<close> of hiredis as modified for this transport. The command
  \<open>SMEMSUBSCRIBE\<close> is treated as a subscription, and a message is given to the first registered callback whatever its channel
  is called, because \<open>SMEMSWITCH\<close> moves a subscriber to channels it has not asked for. Parsing replies (\<open>hiredis.c\<close>), the
  order of a dictionary (\<open>dict.c\<close>) and the event library are parameters. A callback is a value of type \<open>'f\<close> or NULL.
\<close>

section \<open>The context\<close>

text \<open>Failed assertions end the process. The two status fields hold what the connect and disconnect callbacks are called with.\<close>

datatype async_fault = AssertFailed | OutOfBounds | CallbackFault c_fault

record 'f redisAsyncContext =
  c_err :: bool
  ac_err :: bool
  connected_flag :: bool
  disconnecting :: bool
  freeing :: bool
  in_callback :: bool
  subscribed :: bool
  monitoring :: bool
  replies :: "'f option list"
  sub_invalid :: "'f option list"
  sub_channels :: "(string \<times> 'f option) list"
  sub_patterns :: "(string \<times> 'f option) list"
  obuf :: string
  onConnect :: bool
  onDisconnect :: bool
  add_write :: bool
  add_read :: bool
  alive :: bool
  connect_status :: "bool option"
  disconnect_status :: "bool option"

definition redisAsyncInitialize :: "bool \<Rightarrow> 'f redisAsyncContext" where
  "redisAsyncInitialize err0 =
     \<lparr>c_err = err0, ac_err = False, connected_flag = False, disconnecting = False, freeing = False, in_callback = False, subscribed = False,
      monitoring = False, replies = [], sub_invalid = [], sub_channels = [], sub_patterns = [], obuf = [], onConnect = False, onDisconnect = False,
      add_write = False, add_read = False, alive = True, connect_status = None, disconnect_status = None\<rparr>"

definition redisAsyncCopyError :: "'f redisAsyncContext \<Rightarrow> 'f redisAsyncContext" where
  "redisAsyncCopyError ac = ac\<lparr>ac_err := c_err ac\<rparr>"

text \<open>The context made by \<open>redisAsyncConnect\<close> and \<open>redisAsyncConnectUnix\<close> from a context that may hold an error, or NULL.\<close>

definition redisAsyncConnect :: "bool option \<Rightarrow> 'f redisAsyncContext option" where
  "redisAsyncConnect c = map_option (\<lambda>e. redisAsyncCopyError (redisAsyncInitialize e)) c"

definition redisAsyncSetConnectCallback :: "'f redisAsyncContext \<Rightarrow> bool \<times> 'f redisAsyncContext" where
  "redisAsyncSetConnectCallback ac = (if onConnect ac then (False, ac) else (True, ac\<lparr>onConnect := True, add_write := True\<rparr>))"

definition redisAsyncSetDisconnectCallback :: "'f redisAsyncContext \<Rightarrow> bool \<times> 'f redisAsyncContext" where
  "redisAsyncSetDisconnectCallback ac = (if onDisconnect ac then (False, ac) else (True, ac\<lparr>onDisconnect := True\<rparr>))"

section \<open>Running callbacks\<close>

text \<open>What a callback may ask of the library while it runs, and the callbacks themselves: functions of the reply, NULL when there
  is none, and of a state of their own. (They issue no commands.)\<close>

datatype lib_call = CallFree | CallDisconnect

type_synonym ('f, 'u) runner = "'f \<Rightarrow> redisReply option \<Rightarrow> 'u \<Rightarrow> c_fault + lib_call list \<times> 'u"

definition lib_flag :: "lib_call \<Rightarrow> 'f redisAsyncContext \<Rightarrow> 'f redisAsyncContext" where
  \<comment> \<open>\<open>redisAsyncFree\<close> and \<open>redisAsyncDisconnect\<close> called from a callback\<close>
  "lib_flag l ac = (case l of CallFree \<Rightarrow> ac\<lparr>freeing := True\<rparr> | CallDisconnect \<Rightarrow> ac\<lparr>disconnecting := True\<rparr>)"

definition redisRunCallback ::
    "('f, 'u) runner \<Rightarrow> 'f option \<Rightarrow> redisReply option \<Rightarrow> 'f redisAsyncContext \<times> 'u \<Rightarrow> async_fault + 'f redisAsyncContext \<times> 'u" where
  "redisRunCallback run cb r = (\<lambda>(ac, u).
     (case cb of
        None \<Rightarrow> Inr (ac, u)
      | Some f \<Rightarrow>
          (case run f r u of
             Inl x \<Rightarrow> Inl (CallbackFault x)
           | Inr (calls, u1) \<Rightarrow> Inr ((fold lib_flag calls (ac\<lparr>in_callback := True\<rparr>))\<lparr>in_callback := False\<rparr>, u1))))"

fun run_pending ::
    "('f, 'u) runner \<Rightarrow> 'f option list \<Rightarrow> 'f redisAsyncContext \<times> 'u \<Rightarrow> async_fault + 'f redisAsyncContext \<times> 'u" where
  "run_pending run [] st = Inr st"
| "run_pending run (cb # cbs) st = (case redisRunCallback run cb None st of Inl x \<Rightarrow> Inl x | Inr st1 \<Rightarrow> run_pending run cbs st1)"

text \<open>\<open>ord\<close> is the order in which a dictionary is iterated.\<close>

definition redisAsyncFree_now ::
    "('f, 'u) runner \<Rightarrow> ((string \<times> 'f option) list \<Rightarrow> (string \<times> 'f option) list) \<Rightarrow> 'f redisAsyncContext \<times> 'u \<Rightarrow>
     async_fault + 'f redisAsyncContext \<times> 'u" where
  "redisAsyncFree_now run ord = (\<lambda>(ac, u).
     (case run_pending run (replies ac @ sub_invalid ac @ map snd (ord (sub_channels ac)) @ map snd (ord (sub_patterns ac)))
             (ac\<lparr>replies := [], sub_invalid := []\<rparr>, u) of
        Inl x \<Rightarrow> Inl x
      | Inr (ac1, u1) \<Rightarrow>
          Inr (ac1\<lparr>alive := False, sub_channels := [], sub_patterns := [],
                 disconnect_status := (if onDisconnect ac1 \<and> connected_flag ac1 then Some (freeing ac1 \<or> \<not> ac_err ac1) else None)\<rparr>, u1)))"

definition redisAsyncFree ::
    "('f, 'u) runner \<Rightarrow> ((string \<times> 'f option) list \<Rightarrow> (string \<times> 'f option) list) \<Rightarrow> 'f redisAsyncContext \<times> 'u \<Rightarrow>
     async_fault + 'f redisAsyncContext \<times> 'u" where
  "redisAsyncFree run ord = (\<lambda>(ac, u).
     (let ac1 = ac\<lparr>freeing := True\<rparr> in if in_callback ac1 then Inr (ac1, u) else redisAsyncFree_now run ord (ac1, u)))"

definition redisAsyncDisconnect_now ::
    "('f, 'u) runner \<Rightarrow> ((string \<times> 'f option) list \<Rightarrow> (string \<times> 'f option) list) \<Rightarrow> 'f redisAsyncContext \<times> 'u \<Rightarrow>
     async_fault + 'f redisAsyncContext \<times> 'u" where
  "redisAsyncDisconnect_now run ord = (\<lambda>(ac, u).
     (let ac1 = redisAsyncCopyError ac
      in if \<not> ac_err ac1 then (if replies ac1 \<noteq> [] then Inl AssertFailed else redisAsyncFree_now run ord (ac1, u))
         else redisAsyncFree_now run ord (ac1\<lparr>disconnecting := True\<rparr>, u)))"

definition redisAsyncDisconnect ::
    "('f, 'u) runner \<Rightarrow> ((string \<times> 'f option) list \<Rightarrow> (string \<times> 'f option) list) \<Rightarrow> 'f redisAsyncContext \<times> 'u \<Rightarrow>
     async_fault + 'f redisAsyncContext \<times> 'u" where
  "redisAsyncDisconnect run ord = (\<lambda>(ac, u).
     (let ac1 = ac\<lparr>disconnecting := True\<rparr>
      in if \<not> in_callback ac1 \<and> replies ac1 = [] then redisAsyncDisconnect_now run ord (ac1, u) else Inr (ac1, u)))"

section \<open>Replies\<close>

definition first_lower_is :: "char \<Rightarrow> string \<Rightarrow> bool" where
  "first_lower_is ch x \<longleftrightarrow> x \<noteq> [] \<and> tolower (hd x) = ch"

definition shift_callback :: "'f option list \<Rightarrow> 'f option \<Rightarrow> 'f option \<times> 'f option list" where
  \<comment> \<open>\<open>__redisShiftCallback\<close>; the target keeps its value when the list is empty\<close>
  "shift_callback l cb = (case l of [] \<Rightarrow> (cb, []) | x # xs \<Rightarrow> (x, xs))"

definition redisGetSubscribeCallback ::
    "((string \<times> 'f option) list \<Rightarrow> (string \<times> 'f option) list) \<Rightarrow> redisReply \<Rightarrow> 'f option \<Rightarrow> 'f redisAsyncContext \<Rightarrow>
     async_fault + 'f option \<times> 'f redisAsyncContext" where
  "redisGetSubscribeCallback ord r cb ac =
     (case r of
        REDIS_REPLY_ARRAY es \<Rightarrow>
          (case es of
             REDIS_REPLY_STRING stype # REDIS_REPLY_STRING sname # rest \<Rightarrow>
               (let pvariant = first_lower_is (CHR ''p'') stype;
                    callbacks = (if pvariant then sub_patterns ac else sub_channels ac)
                in case ord callbacks of
                     [] \<Rightarrow> Inr (cb, ac)
                   | de # _ \<Rightarrow>
                       if strcaseeq (if pvariant then tl stype else stype) ''unsubscribe'' then
                         (let left = filter (\<lambda>e. fst e \<noteq> sname) callbacks;
                              ac1 = (if pvariant then ac\<lparr>sub_patterns := left\<rparr> else ac\<lparr>sub_channels := left\<rparr>)
                          in case rest of
                               REDIS_REPLY_INTEGER n # _ \<Rightarrow> Inr (snd de, if n = 0 then ac1\<lparr>subscribed := False\<rparr> else ac1)
                             | [] \<Rightarrow> Inl OutOfBounds
                             | _ \<Rightarrow> Inl AssertFailed)
                       else Inr (snd de, ac))
           | _ \<Rightarrow> Inl AssertFailed)
      | _ \<Rightarrow> (case shift_callback (sub_invalid ac) cb of (cb1, l) \<Rightarrow> Inr (cb1, ac\<lparr>sub_invalid := l\<rparr>)))"

text \<open>The loop over the replies that have arrived; \<open>status\<close> tells whether the reader has no more of them (\<open>True\<close>) or failed. The
  callback of the round before is still in the variable \<open>cb\<close>.\<close>

fun process_replies ::
    "('f, 'u) runner \<Rightarrow> ((string \<times> 'f option) list \<Rightarrow> (string \<times> 'f option) list) \<Rightarrow> bool \<Rightarrow> redisReply list \<Rightarrow> 'f option \<Rightarrow>
     'f redisAsyncContext \<times> 'u \<Rightarrow> async_fault + 'f redisAsyncContext \<times> 'u" where
  "process_replies run ord status [] cb (ac, u) =
     (if \<not> status then redisAsyncDisconnect_now run ord (ac\<lparr>c_err := True\<rparr>, u)
      else if disconnecting ac \<and> obuf ac = [] then redisAsyncDisconnect_now run ord (ac, u)
      else Inr (if monitoring ac then ac\<lparr>replies := replies ac @ [cb]\<rparr> else ac, u))"
| "process_replies run ord status (r # rs) cb (ac, u) =
     (if replies ac = [] \<and> (case r of REDIS_REPLY_ERROR _ \<Rightarrow> True | _ \<Rightarrow> False)
      then redisAsyncDisconnect_now run ord (ac\<lparr>c_err := True\<rparr>, u)
      else
        (case (if replies ac \<noteq> [] then Inr (hd (replies ac), ac\<lparr>replies := tl (replies ac)\<rparr>)
               else if \<not> (subscribed ac \<or> monitoring ac) then Inl AssertFailed
               else if subscribed ac then redisGetSubscribeCallback ord r cb ac
               else Inr (cb, ac)) of
           Inl x \<Rightarrow> Inl x
         | Inr (cb1, ac1) \<Rightarrow>
             (case redisRunCallback run cb1 (Some r) (ac1, u) of
                Inl x \<Rightarrow> Inl x
              | Inr (ac2, u2) \<Rightarrow>
                  if cb1 \<noteq> None \<and> freeing ac2 then redisAsyncFree_now run ord (ac2, u2)
                  else process_replies run ord status rs cb1 (ac2, u2))))"

definition redisProcessCallbacks ::
    "('f, 'u) runner \<Rightarrow> ((string \<times> 'f option) list \<Rightarrow> (string \<times> 'f option) list) \<Rightarrow> bool \<Rightarrow> redisReply list \<Rightarrow>
     'f redisAsyncContext \<times> 'u \<Rightarrow> async_fault + 'f redisAsyncContext \<times> 'u" where
  "redisProcessCallbacks run ord status rs st = process_replies run ord status rs None st"

section \<open>Socket events\<close>

text \<open>The state of a connection that is being made, as \<open>redisCheckSocketError\<close> reports it.\<close>

datatype sock = SockOk | SockInProgress | SockError

definition redisAsyncHandleConnect ::
    "('f, 'u) runner \<Rightarrow> ((string \<times> 'f option) list \<Rightarrow> (string \<times> 'f option) list) \<Rightarrow> sock \<Rightarrow> 'f redisAsyncContext \<times> 'u \<Rightarrow>
     async_fault + bool \<times> 'f redisAsyncContext \<times> 'u" where
  "redisAsyncHandleConnect run ord sk = (\<lambda>(ac, u).
     (case sk of
        SockInProgress \<Rightarrow> Inr (True, ac, u)
      | SockError \<Rightarrow> map_sum id (\<lambda>st. (False, st)) (redisAsyncDisconnect_now run ord (ac\<lparr>c_err := True, connect_status := (if onConnect ac then Some False else None)\<rparr>, u))
      | SockOk \<Rightarrow> Inr (True, ac\<lparr>connected_flag := True, connect_status := (if onConnect ac then Some True else None)\<rparr>, u)))"

definition on_connected ::
    "('f, 'u) runner \<Rightarrow> ((string \<times> 'f option) list \<Rightarrow> (string \<times> 'f option) list) \<Rightarrow> sock \<Rightarrow>
     ('f redisAsyncContext \<times> 'u \<Rightarrow> async_fault + 'f redisAsyncContext \<times> 'u) \<Rightarrow> 'f redisAsyncContext \<times> 'u \<Rightarrow> async_fault + 'f redisAsyncContext \<times> 'u" where
  "on_connected run ord sk f st =
     (if connected_flag (fst st) then f st
      else
        (case redisAsyncHandleConnect run ord sk st of
           Inl x \<Rightarrow> Inl x
         | Inr (ok, st1) \<Rightarrow> if \<not> ok \<or> \<not> connected_flag (fst st1) then Inr st1 else f st1))"

text \<open>\<open>input\<close> is what \<open>redisBufferRead\<close> and the reader deliver: \<open>None\<close> when reading fails.\<close>

definition redisAsyncHandleRead ::
    "('f, 'u) runner \<Rightarrow> ((string \<times> 'f option) list \<Rightarrow> (string \<times> 'f option) list) \<Rightarrow> sock \<Rightarrow> (bool \<times> redisReply list) option \<Rightarrow>
     'f redisAsyncContext \<times> 'u \<Rightarrow> async_fault + 'f redisAsyncContext \<times> 'u" where
  "redisAsyncHandleRead run ord sk input = on_connected run ord sk (\<lambda>(ac, u).
     (case input of
        None \<Rightarrow> redisAsyncDisconnect_now run ord (ac\<lparr>c_err := True\<rparr>, u)
      | Some (status, rs) \<Rightarrow> redisProcessCallbacks run ord status rs (ac\<lparr>add_read := True\<rparr>, u)))"

text \<open>\<open>written\<close> is how many bytes \<open>redisBufferWrite\<close> sent: \<open>None\<close> when writing fails.\<close>

definition redisAsyncHandleWrite ::
    "('f, 'u) runner \<Rightarrow> ((string \<times> 'f option) list \<Rightarrow> (string \<times> 'f option) list) \<Rightarrow> sock \<Rightarrow> nat option \<Rightarrow>
     'f redisAsyncContext \<times> 'u \<Rightarrow> async_fault + 'f redisAsyncContext \<times> 'u" where
  "redisAsyncHandleWrite run ord sk written = on_connected run ord sk (\<lambda>(ac, u).
     (case written of
        None \<Rightarrow> redisAsyncDisconnect_now run ord (ac\<lparr>c_err := True\<rparr>, u)
      | Some n \<Rightarrow> (let left = drop n (obuf ac) in Inr (ac\<lparr>obuf := left, add_write := (left \<noteq> []), add_read := True\<rparr>, u))))"

section \<open>Commands\<close>

text \<open>The next argument of a formatted command: the rest of the text from its first byte, its length, and the text behind it.\<close>

definition nextArgument :: "string \<Rightarrow> async_fault + (string \<times> nat \<times> string) option" where
  "nextArgument start =
     (case (if start \<noteq> [] \<and> hd start = CHR ''$'' then Some 0 else strchr (CHR ''$'') start) of
        None \<Rightarrow> Inr None
      | Some i \<Rightarrow>
          (let p = drop i start; len = atoi (tl p)
           in case strchr (CHR 0x0D) p of
                None \<Rightarrow> Inl AssertFailed
              | Some k \<Rightarrow>
                  (let str = drop (k + 2) p
                   in if len < 0 \<or> nat len + 2 > length str then Inl OutOfBounds
                      else Inr (Some (str, nat len, drop (nat len + 2) str)))))"

lemma nextArgument_shorter: "nextArgument p = Inr (Some (s, n, rest)) \<Longrightarrow> length rest < length p"
  by (auto simp: nextArgument_def Let_def split: option.splits if_splits)

definition dict_replace :: "string \<Rightarrow> 'v \<Rightarrow> (string \<times> 'v) list \<Rightarrow> (string \<times> 'v) list" where
  "dict_replace k v d = (if k \<in> set (map fst d) then map (\<lambda>e. if fst e = k then (k, v) else e) d else d @ [(k, v)])"

function register_channels :: "'f option \<Rightarrow> bool \<Rightarrow> string \<Rightarrow> 'f redisAsyncContext \<Rightarrow> async_fault + 'f redisAsyncContext" where
  "register_channels cb pvariant p ac =
     (case nextArgument p of
        Inl x \<Rightarrow> Inl x
      | Inr None \<Rightarrow> Inr ac
      | Inr (Some (astr, alen, rest)) \<Rightarrow>
          register_channels cb pvariant rest
            (if pvariant then ac\<lparr>sub_patterns := dict_replace (take alen astr) cb (sub_patterns ac)\<rparr>
             else ac\<lparr>sub_channels := dict_replace (take alen astr) cb (sub_channels ac)\<rparr>))"
  by pat_completeness auto
termination by (relation "measure (\<lambda>(cb, pv, p, ac). length p)") (auto dest: nextArgument_shorter)

declare register_channels.simps [simp del]

definition starts_with :: "string \<Rightarrow> string \<Rightarrow> bool" where
  \<comment> \<open>\<open>strncasecmp (x, lit, strlen lit) == 0\<close>\<close>
  "starts_with lit x \<longleftrightarrow> map tolower (take (length lit) x) = map tolower lit"

definition redisAsyncCommand :: "'f option \<Rightarrow> string \<Rightarrow> 'f redisAsyncContext \<Rightarrow> async_fault + bool \<times> 'f redisAsyncContext" where
  "redisAsyncCommand cb text1 ac =
     (if disconnecting ac \<or> freeing ac then Inr (False, ac)
      else
        (case nextArgument text1 of
           Inl x \<Rightarrow> Inl x
         | Inr None \<Rightarrow> Inl AssertFailed
         | Inr (Some (cstr0, clen, p)) \<Rightarrow>
             (let hasnext = (p \<noteq> [] \<and> hd p = CHR ''$'');
                  pvariant = first_lower_is (CHR ''p'') cstr0;
                  cstr = (if pvariant then tl cstr0 else cstr0);
                  send = (\<lambda>ac. (True, ac\<lparr>obuf := obuf ac @ text1, add_write := True\<rparr>))
              in if hasnext \<and> starts_with (''smemsubscribe'' @ crlf) cstr \<or> hasnext \<and> starts_with (''subscribe'' @ crlf) cstr
                 then map_sum id send (register_channels cb pvariant p (ac\<lparr>subscribed := True\<rparr>))
                 else if starts_with (''unsubscribe'' @ crlf) cstr
                 then Inr (if \<not> subscribed ac then (False, ac) else send ac)
                 else if starts_with (''monitor'' @ crlf) cstr then Inr (send (ac\<lparr>monitoring := True, replies := replies ac @ [cb]\<rparr>))
                 else Inr (send (if subscribed ac then ac\<lparr>sub_invalid := sub_invalid ac @ [cb]\<rparr> else ac\<lparr>replies := replies ac @ [cb]\<rparr>)))))"

section \<open>The subscriber thread on this connection\<close>

text \<open>The callbacks that \<open>smem_client.c\<close> registers: \<open>setnameCallback\<close> only prints.\<close>

datatype consumer_callback = SetnameCallback | SubCallback

definition consumer_run :: "'w redisCommand \<Rightarrow> (consumer_callback, smemContext \<times> 'w) runner" where
  "consumer_run redisCommand f r = (\<lambda>(cx, w).
     (case f of
        SetnameCallback \<Rightarrow> Inr ([], cx, w)
      | SubCallback \<Rightarrow> map_sum id (\<lambda>u. ([], u)) (subCallback redisCommand cx r w)))"

text \<open>The commands of \<open>smemAsyncThread\<close>, whose results it does not look at, after connecting; \<open>conn\<close> is the error flag of the
  new context, if there is one.\<close>

fun issue :: "('f \<times> string list) list \<Rightarrow> 'f redisAsyncContext \<Rightarrow> async_fault + 'f redisAsyncContext" where
  "issue [] ac = Inr ac"
| "issue ((f, args) # cs) ac =
     (case redisAsyncCommand (Some f) (mbulk args) ac of Inl x \<Rightarrow> Inl x | Inr (_, ac1) \<Rightarrow> issue cs ac1)"

definition start_subscriber :: "bool option \<Rightarrow> smemContext \<Rightarrow> async_fault + consumer_callback redisAsyncContext option" where
  "start_subscriber conn cx =
     (case redisAsyncConnect conn of
        None \<Rightarrow> Inr None
      | Some ac \<Rightarrow>
          if ac_err ac then Inr (Some ac)
          else
            map_sum id Some
              (issue ((if length (cname cx) > 0 then [(SetnameCallback, [''CLIENT'', ''SETNAME'', cname cx])] else []) @
                      [(SubCallback, [''SMEMSUBSCRIBE'', channel cx])])
                 (snd (redisAsyncSetDisconnectCallback (snd (redisAsyncSetConnectCallback ac))))))"

section \<open>Taking commands apart\<close>

lemma strchr_skip:
  "(\<And>x. x \<in> set h \<Longrightarrow> x \<noteq> ch \<and> x \<noteq> CHR 0x00) \<Longrightarrow> strchr ch (h @ y) = map_option (\<lambda>k. length h + k) (strchr ch y)"
proof (induction h)
  case (Cons a h)
  then have "strchr ch (h @ y) = map_option (\<lambda>k. length h + k) (strchr ch y)" by simp
  with Cons.prems [of a] show ?case by (simp add: option.map_comp o_def)
qed (cases "strchr ch y"; simp)

lemma atoi_length:
  assumes "n < 2 ^ 31"
  shows "atoi (dec_nat n @ CHR 0x0D # y) = int n"
proof -
  obtain a as where d: "dec_nat n = a # as" using dec_nat_nonempty [of n] by (cases "dec_nat n") auto
  have a: "is_dec a" using dec_nat_digits [of n] d by simp
  then have "\<not> isspace a" "a \<noteq> CHR ''-''" "a \<noteq> CHR ''+''" by (auto simp: is_dec_def isspace_def)
  moreover have "takeWhile is_dec (dec_nat n @ CHR 0x0D # y) = dec_nat n"
    using dec_nat_digits [of n] by (subst takeWhile_append2) (auto simp: list_all_iff is_dec_def)
  ultimately have "atoi (dec_nat n @ CHR 0x0D # y) = c_int (max (- (2 ^ 63)) (min (2 ^ 63 - 1) (int n)))"
    using dec_val_dec_nat [of n] by (simp add: atoi_def Let_def d del: dec_val_dec_nat)
  also have "\<dots> = int n" using assms by (simp add: c_int_id int_range_def)
  finally show ?thesis .
qed

lemma nextArgument_bulk:
  assumes h: "\<And>x. x \<in> set h \<Longrightarrow> x \<noteq> CHR ''$'' \<and> x \<noteq> CHR 0x00" and l: "length x < 2 ^ 31"
  shows "nextArgument (h @ bulk x @ rest) = Inr (Some (x @ crlf @ rest, length x, rest))"
proof -
  let ?d = "CHR ''$'' # dec_nat (length x)" and ?r = "CHR 0x0A # x @ crlf @ rest"
  have b: "bulk x @ rest = ?d @ CHR 0x0D # ?r" by (simp add: bulk_def)
  have "(if h @ bulk x @ rest \<noteq> [] \<and> hd (h @ bulk x @ rest) = CHR ''$'' then Some 0 else strchr (CHR ''$'') (h @ bulk x @ rest)) = Some (length h)"
    using h by (cases h) (simp_all add: bulk_def strchr_skip)
  moreover have "strchr (CHR 0x0D) (?d @ CHR 0x0D # ?r) = Some (length ?d)"
    by (rule strchr_found) (auto simp: plain_def dec_nat_plain)
  moreover have "atoi (tl (?d @ CHR 0x0D # ?r)) = int (length x)" using atoi_length [OF l] by simp
  moreover have "drop (length ?d + 2) (?d @ CHR 0x0D # ?r) = x @ crlf @ rest" by simp
  ultimately show ?thesis by (simp only: nextArgument_def Let_def option.case b) (simp add: b)
qed

lemma nextArgument_none [simp]: "nextArgument [] = Inr None"
  by (simp add: nextArgument_def)

lemma mbulk_arguments:
  assumes "length x < 2 ^ 31"
  shows "nextArgument (mbulk (x # xs)) = Inr (Some (x @ crlf @ concat (map bulk xs), length x, concat (map bulk xs)))"
proof -
  let ?h = "CHR ''*'' # dec_nat (length (x # xs)) @ crlf"
  have "a \<noteq> CHR ''$'' \<and> a \<noteq> CHR 0x00" if "a \<in> set ?h" for a
  proof -
    have "is_dec b" if "b \<in> set (dec_nat n)" for b n using that dec_nat_digits [of n] by (simp add: list_all_iff)
    with that show ?thesis by (force simp: is_dec_def)
  qed
  from nextArgument_bulk [of ?h, OF this assms, of "concat (map bulk xs)"] show ?thesis by (simp add: mbulk_def)
qed

text \<open>A subscription registers its callback for each of its arguments.\<close>

lemma register_channels_bulks:
  assumes "\<And>x. x \<in> set xs \<Longrightarrow> length x < 2 ^ 31"
  shows "register_channels cb False (concat (map bulk xs)) ac = Inr (ac\<lparr>sub_channels := fold (\<lambda>x. dict_replace x cb) xs (sub_channels ac)\<rparr>)"
  using assms
proof (induction xs arbitrary: ac)
  case (Cons x xs)
  then have "nextArgument (bulk x @ concat (map bulk xs)) = Inr (Some (x @ crlf @ concat (map bulk xs), length x, concat (map bulk xs)))"
    using nextArgument_bulk [of "[]" x "concat (map bulk xs)"] by simp
  with Cons show ?case by (subst register_channels.simps) simp
qed (subst register_channels.simps, simp)

lemma starts_with_append: "map tolower a = map tolower lit \<Longrightarrow> starts_with lit (a @ b)"
proof -
  assume a: "map tolower a = map tolower lit"
  then have "length a = length lit" by (rule map_eq_imp_length_eq)
  with a show ?thesis by (simp add: starts_with_def)
qed

lemma starts_with_first: "tolower a \<noteq> tolower l \<Longrightarrow> \<not> starts_with (l # ls) (a # as)"
  by (simp add: starts_with_def)

lemma command_setname:
  assumes "\<not> disconnecting ac" "\<not> freeing ac" "\<not> subscribed ac"
  shows "redisAsyncCommand cb (mbulk [''CLIENT'', ''SETNAME'', nm]) ac =
    Inr (True, ac\<lparr>replies := replies ac @ [cb], obuf := obuf ac @ mbulk [''CLIENT'', ''SETNAME'', nm], add_write := True\<rparr>)"
proof -
  have "tolower (CHR ''C'') = CHR ''c''" "tolower (CHR ''s'') = CHR ''s''" "tolower (CHR ''u'') = CHR ''u''" "tolower (CHR ''m'') = CHR ''m''"
    by code_simp+
  then show ?thesis
    using assms by (simp add: redisAsyncCommand_def mbulk_arguments Let_def first_lower_is_def starts_with_first)
qed

lemma command_smemsubscribe:
  assumes "\<not> disconnecting ac" "\<not> freeing ac" "length ch < 2 ^ 31"
  shows "redisAsyncCommand cb (mbulk [''SMEMSUBSCRIBE'', ch]) ac =
    Inr (True, ac\<lparr>subscribed := True, sub_channels := dict_replace ch cb (sub_channels ac),
                  obuf := obuf ac @ mbulk [''SMEMSUBSCRIBE'', ch], add_write := True\<rparr>)"
proof -
  let ?c = "''SMEMSUBSCRIBE'' @ crlf @ bulk ch"
  have s: "tolower (CHR ''S'') \<noteq> CHR ''p''" by code_simp
  have "map tolower (''SMEMSUBSCRIBE'' @ crlf) = map tolower (''smemsubscribe'' @ crlf)" by code_simp
  from starts_with_append [OF this, of "bulk ch"] have w: "starts_with (''smemsubscribe'' @ crlf) ?c" by (simp only: append.assoc)
  have r: "register_channels cb False (bulk ch) (ac\<lparr>subscribed := True\<rparr>) =
      Inr (ac\<lparr>subscribed := True, sub_channels := dict_replace ch cb (sub_channels ac)\<rparr>)"
    using register_channels_bulks [of "[ch]" cb "ac\<lparr>subscribed := True\<rparr>"] assms(3) by simp
  have n: "nextArgument (mbulk [''SMEMSUBSCRIBE'', ch]) = Inr (Some (?c, 13, bulk ch))"
    using mbulk_arguments [of "''SMEMSUBSCRIBE''" "[ch]"] by simp
  have f: "\<not> first_lower_is (CHR ''p'') ?c" using s by (simp add: first_lower_is_def)
  have b: "bulk ch \<noteq> []" "hd (bulk ch) = CHR ''$''" by (simp_all add: bulk_def)
  show ?thesis unfolding redisAsyncCommand_def n using assms(1,2) w f r b by (simp only: sum.case option.case prod.case Let_def) simp
qed

section \<open>Messages\<close>

text \<open>A callback that asks nothing of the library leaves the context as it is.\<close>

lemma run_quiet_callback:
  "\<not> in_callback ac \<Longrightarrow> run f r u = Inr ([], u1) \<Longrightarrow> redisRunCallback run (Some f) r (ac, u) = Inr (ac, u1)"
  by (simp add: redisRunCallback_def)

text \<open>A connection that waits for messages of one subscription, and a dictionary iterated in any order.\<close>

definition listening :: "'f \<Rightarrow> 'f redisAsyncContext \<Rightarrow> bool" where
  "listening f ac \<longleftrightarrow> replies ac = [] \<and> subscribed ac \<and> map snd (sub_channels ac) = [Some f] \<and>
     \<not> in_callback ac \<and> \<not> freeing ac \<and> \<not> disconnecting ac \<and> \<not> monitoring ac \<and> alive ac"

definition iterates :: "('a list \<Rightarrow> 'a list) \<Rightarrow> bool" where
  "iterates ord \<longleftrightarrow> (\<forall>d. mset (ord d) = mset d)"

lemma iterates_single: "iterates ord \<Longrightarrow> ord [e] = [e]"
proof -
  assume "iterates ord"
  then have "mset (ord [e]) = {#e#}" by (simp add: iterates_def)
  then show ?thesis by simp
qed

text \<open>What a message carries besides the type: the channel and the rest.\<close>

definition push_reply :: "string \<Rightarrow> string \<Rightarrow> redisReply list \<Rightarrow> redisReply" where
  "push_reply kind ch rest = REDIS_REPLY_ARRAY (REDIS_REPLY_STRING kind # REDIS_REPLY_STRING ch # rest)"

lemma listening_step:
  assumes l: "listening f ac" "iterates ord" and k: "\<not> first_lower_is (CHR ''p'') kind" "\<not> strcaseeq kind ''unsubscribe''"
    and r: "run f (Some (push_reply kind ch rest)) u = Inr ([], u1)"
  shows "process_replies run ord st (push_reply kind ch rest # rs) cb (ac, u) = process_replies run ord st rs (Some f) (ac, u1)"
proof -
  obtain c where c: "sub_channels ac = [(c, Some f)]" using l(1) by (cases "sub_channels ac") (auto simp: listening_def)
  have "redisGetSubscribeCallback ord (push_reply kind ch rest) cb ac = Inr (Some f, ac)"
    using k by (simp add: redisGetSubscribeCallback_def push_reply_def c iterates_single [OF l(2)] Let_def)
  moreover have "redisRunCallback run (Some f) (Some (push_reply kind ch rest)) (ac, u) = Inr (ac, u1)"
    using l(1) r by (intro run_quiet_callback) (auto simp: listening_def)
  ultimately show ?thesis using l(1) by (simp add: listening_def) (simp add: push_reply_def)
qed

lemma listening_waits:
  "listening f ac \<Longrightarrow> process_replies run ord True [] cb (ac, u) = Inr (ac, u)"
  by (simp add: listening_def)

lemma message_kinds: "\<not> first_lower_is (CHR ''p'') ''message''" "\<not> strcaseeq ''message'' ''unsubscribe''"
    "\<not> first_lower_is (CHR ''p'') ''subscribe''" "\<not> strcaseeq ''subscribe'' ''unsubscribe''"
  by code_simp+

lemma push_queued:
  assumes "queue_wf cx" "length (queue_contents cx) < 255"
  obtains cx' where "smem_queue_push cx i = (1, cx')" "queue_wf cx'" "queue_contents cx' = queue_contents cx @ [i]"
proof -
  have "\<not> queue_full cx" using assms by (simp add: queue_full_contents)
  then obtain cx' where p: "smem_queue_push cx i = (1, cx')" by (simp add: smem_queue_push_def Let_def)
  with push_wf [OF assms(1), of i] push_contents_eq [OF assms(1), of i] assms(2) that show ?thesis by simp
qed

definition id_message :: "string \<times> int \<Rightarrow> redisReply" where
  "id_message m = push_reply ''message'' (fst m) [REDIS_REPLY_STRING (dec_int (snd m))]"

lemma messages_are_queued:
  assumes "listening SubCallback ac" "iterates ord" "queue_wf cx" "length (queue_contents cx) + length ms \<le> 255"
    and "list_all (\<lambda>m. 0 < snd m \<and> int_range (snd m)) ms"
  shows "\<exists>cx'. process_replies (consumer_run redisCommand) ord True (map id_message ms) cb (ac, cx, w) = Inr (ac, cx', w) \<and>
    queue_wf cx' \<and> queue_contents cx' = queue_contents cx @ map snd ms"
  using assms(3-)
proof (induction ms arbitrary: cx cb)
  case (Cons m ms)
  obtain ch i where m: "m = (ch, i)" by fastforce
  obtain cx1 where p: "smem_queue_push cx i = (1, cx1)" "queue_wf cx1" "queue_contents cx1 = queue_contents cx @ [i]"
    using push_queued [OF Cons.prems(1)] Cons.prems(2) by auto
  have "consumer_run redisCommand SubCallback (Some (push_reply ''message'' ch [REDIS_REPLY_STRING (dec_int i)])) (cx, w) = Inr ([], cx1, w)"
    using Cons.prems(3) m by (simp add: consumer_run_def subCallback_def push_reply_def atoi_dec_int p(1))
  from listening_step [where run = "consumer_run redisCommand" and st = True, OF assms(1,2) message_kinds(1,2) this]
  have s: "process_replies (consumer_run redisCommand) ord True (map id_message (m # ms)) cb (ac, cx, w) =
      process_replies (consumer_run redisCommand) ord True (map id_message ms) (Some SubCallback) (ac, cx1, w)"
    by (simp only: list.map id_message_def m fst_conv snd_conv)
  have "\<exists>cx'. process_replies (consumer_run redisCommand) ord True (map id_message ms) (Some SubCallback) (ac, cx1, w) = Inr (ac, cx', w) \<and>
      queue_wf cx' \<and> queue_contents cx' = queue_contents cx1 @ map snd ms"
    using Cons.prems(2,3) p(2,3) by (intro Cons.IH) auto
  then show ?case unfolding s using p(3) m by simp
qed (use assms(1) listening_waits in fastforce)

lemma acknowledgement_is_queued:
  assumes l: "listening SubCallback ac" "iterates ord" and q: "queue_wf cx" "length (queue_contents cx) < 255"
  shows "\<exists>cx'. process_replies (consumer_run redisCommand) ord True [push_reply ''subscribe'' c0 [REDIS_REPLY_INTEGER 1]] cb (ac, cx, w) =
      Inr (ac, cx', w) \<and> queue_wf cx' \<and> queue_contents cx' = queue_contents cx @ [1]"
proof -
  obtain cx1 where p: "smem_queue_push cx 1 = (1, cx1)" "queue_wf cx1" "queue_contents cx1 = queue_contents cx @ [1]"
    using push_queued [OF q] by auto
  have "consumer_run redisCommand SubCallback (Some (push_reply ''subscribe'' c0 [REDIS_REPLY_INTEGER 1])) (cx, w) = Inr ([], cx1, w)"
    by (simp add: consumer_run_def subCallback_def push_reply_def p(1) c_int_def)
  from listening_step [where run = "consumer_run redisCommand" and st = True and rs = "[]" and cb = cb, OF l message_kinds(3,4) this] p(2,3)
  show ?thesis by (simp only: listening_waits [OF l(1)]) simp
qed

lemma answered_callback:
  assumes "replies ac = Some f # l" "\<not> in_callback ac" "\<not> freeing ac" "run f (Some r) u = Inr ([], u1)"
  shows "process_replies run ord st (r # rs) cb (ac, u) = process_replies run ord st rs (Some f) (ac\<lparr>replies := l\<rparr>, u1)"
  using assms run_quiet_callback [of "ac\<lparr>replies := l\<rparr>" run f "Some r" u u1] by simp

lemma answers_are_processed:
  assumes r: "replies ac = (if nm = [] then [] else [Some SetnameCallback])"
    and l: "listening SubCallback (ac\<lparr>replies := []\<rparr>)" "iterates ord" and q: "queue_wf cx" "length (queue_contents cx) < 255"
  shows "\<exists>cx'. process_replies (consumer_run redisCommand) ord True
      ((if nm = [] then [] else [REDIS_REPLY_STATUS ''OK'']) @ [push_reply ''subscribe'' c0 [REDIS_REPLY_INTEGER 1]]) None (ac, cx, w) =
      Inr (ac\<lparr>replies := []\<rparr>, cx', w) \<and> queue_wf cx' \<and> queue_contents cx' = queue_contents cx @ [1]"
proof (cases "nm = []")
  case True
  with r have "ac\<lparr>replies := []\<rparr> = ac" by simp
  with acknowledgement_is_queued [OF l q, of redisCommand c0 None w] True show ?thesis by (simp only: refl if_True append_Nil)
next
  case False
  let ?run = "consumer_run redisCommand" and ?ack = "push_reply ''subscribe'' c0 [REDIS_REPLY_INTEGER 1]"
  have "process_replies ?run ord True (REDIS_REPLY_STATUS ''OK'' # [?ack]) None (ac, cx, w) =
      process_replies ?run ord True [?ack] (Some SetnameCallback) (ac\<lparr>replies := []\<rparr>, cx, w)"
    using r l(1) False by (intro answered_callback) (simp_all add: listening_def consumer_run_def)
  with acknowledgement_is_queued [OF l q, of redisCommand c0 "Some SetnameCallback" w] False show ?thesis
    by (simp only: if_False append_Cons append_Nil)
qed

section \<open>Read events\<close>

text \<open>Successive read events of a connection whose socket works, each with the replies it delivers.\<close>

fun read_events ::
    "('f, 'u) runner \<Rightarrow> ((string \<times> 'f option) list \<Rightarrow> (string \<times> 'f option) list) \<Rightarrow> redisReply list list \<Rightarrow>
     'f redisAsyncContext \<times> 'u \<Rightarrow> async_fault + 'f redisAsyncContext \<times> 'u" where
  "read_events run ord [] st = Inr st"
| "read_events run ord (rs # bs) st =
     (case redisAsyncHandleRead run ord SockOk (Some (True, rs)) st of Inl x \<Rightarrow> Inl x | Inr st1 \<Rightarrow> read_events run ord bs st1)"

definition ready :: "'f redisAsyncContext \<Rightarrow> 'f redisAsyncContext" where
  "ready ac = (if connected_flag ac then ac else ac\<lparr>connected_flag := True, connect_status := (if onConnect ac then Some True else None)\<rparr>)\<lparr>add_read := True\<rparr>"

lemma handle_read:
  "redisAsyncHandleRead run ord SockOk (Some (st, rs)) (ac, u) = process_replies run ord st rs None (ready ac, u)"
  by (simp add: redisAsyncHandleRead_def on_connected_def redisAsyncHandleConnect_def redisProcessCallbacks_def ready_def)

lemma ready_simps [simp]:
  "listening f (ready ac) \<longleftrightarrow> listening f ac" "replies (ready ac) = replies ac" "in_callback (ready ac) = in_callback ac"
  "ready (ac\<lparr>replies := l\<rparr>) = (ready ac)\<lparr>replies := l\<rparr>"
  by (simp_all add: ready_def listening_def)

lemma batches_are_queued:
  assumes "listening SubCallback ac" "iterates ord" "queue_wf cx" "length (queue_contents cx) + length (concat mss) \<le> 255"
    and "list_all (\<lambda>m. 0 < snd m \<and> int_range (snd m)) (concat mss)"
  shows "\<exists>ac' cx'. read_events (consumer_run redisCommand) ord (map (map id_message) mss) (ac, cx, w) = Inr (ac', cx', w) \<and>
    listening SubCallback ac' \<and> queue_contents cx' = queue_contents cx @ map snd (concat mss)"
  using assms(1,3-)
proof (induction mss arbitrary: ac cx)
  case (Cons ms mss)
  have l: "listening SubCallback (ready ac)" using Cons.prems(1) by simp
  obtain cx1 where 1: "process_replies (consumer_run redisCommand) ord True (map id_message ms) None (ready ac, cx, w) = Inr (ready ac, cx1, w)"
    "queue_wf cx1" "queue_contents cx1 = queue_contents cx @ map snd ms"
    using messages_are_queued [OF l assms(2) Cons.prems(2), of ms redisCommand None w] Cons.prems(3,4) by auto
  obtain ac' cx' where "read_events (consumer_run redisCommand) ord (map (map id_message) mss) (ready ac, cx1, w) = Inr (ac', cx', w)"
    "listening SubCallback ac'" "queue_contents cx' = queue_contents cx1 @ map snd (concat mss)"
    using Cons.IH [OF l 1(2)] 1(3) Cons.prems(3,4) by auto
  with 1 show ?case by (simp add: handle_read)
qed simp

text \<open>The context of the thread when it enters its event loop.\<close>

lemma start_subscriber_context:
  assumes "length (channel cx) < 2 ^ 31" "smemAsyncThread (Some (h, False)) cx = (cx', reqs)"
  obtains ac where "start_subscriber (Some False) cx = Inr (Some ac)" "obuf ac = concat (map mbulk reqs)"
    "replies ac = (if cname cx = [] then [] else [Some SetnameCallback])" "listening SubCallback (ac\<lparr>replies := []\<rparr>)"
proof -
  define ac0 :: "consumer_callback redisAsyncContext" where
    "ac0 = snd (redisAsyncSetDisconnectCallback (snd (redisAsyncSetConnectCallback (redisAsyncCopyError (redisAsyncInitialize False)))))"
  have a: "\<not> disconnecting ac0" "\<not> freeing ac0" "\<not> subscribed ac0" "replies ac0 = []" "obuf ac0 = []" "sub_channels ac0 = []"
    "\<not> in_callback ac0" "\<not> monitoring ac0" "alive ac0"
    by (simp_all add: ac0_def redisAsyncSetDisconnectCallback_def redisAsyncSetConnectCallback_def redisAsyncCopyError_def redisAsyncInitialize_def)
  have s: "start_subscriber (Some False) cx = map_sum id Some
      (issue ((if length (cname cx) > 0 then [(SetnameCallback, [''CLIENT'', ''SETNAME'', cname cx])] else []) @
              [(SubCallback, [''SMEMSUBSCRIBE'', channel cx])]) ac0)"
    by (simp add: start_subscriber_def redisAsyncConnect_def ac0_def) (simp add: redisAsyncCopyError_def redisAsyncInitialize_def)
  define ac1 where "ac1 = ac0\<lparr>replies := (if cname cx = [] then [] else [Some SetnameCallback]), subscribed := True,
      sub_channels := [(channel cx, Some SubCallback)], obuf := concat (map mbulk reqs), add_write := True\<rparr>"
  have "start_subscriber (Some False) cx = Inr (Some ac1)"
    using assms a by (cases "cname cx = []") (auto simp: s command_setname command_smemsubscribe smemAsyncThread_def dict_replace_def ac1_def)
  with a that [of ac1] show ?thesis by (simp add: ac1_def listening_def)
qed

text \<open>C15: a consumer receives what is published on the channels it is moved to. Once its subscriber thread has named itself and
  subscribed, the answers of the server and the messages of later read events, in any number and under any channel names, put
  their ids in its queue in order, behind the number in the acknowledgement of the subscription; what the thread sends for
  this are the requests of \<open>smemAsyncThread\<close>.\<close>

theorem switched_messages_reach_consumer:
  assumes t: "length (channel cx) < 128" "smemAsyncThread (Some (h, False)) cx = (cx', reqs)"
    and q: "queue_wf cx" "length (queue_contents cx) + 1 + length (concat mss) \<le> 255" and o: "iterates ord"
    and ms: "list_all (\<lambda>m. 0 < snd m \<and> int_range (snd m)) (concat mss)"
  shows "\<exists>ac ac1 cx1. start_subscriber (Some False) cx = Inr (Some ac) \<and> obuf ac = concat (map mbulk reqs) \<and>
    read_events (consumer_run redisCommand) ord
      (((if cname cx = [] then [] else [REDIS_REPLY_STATUS ''OK'']) @ [push_reply ''subscribe'' (channel cx) [REDIS_REPLY_INTEGER 1]]) #
       map (map id_message) mss) (ac, cx, w) = Inr (ac1, cx1, w) \<and>
    alive ac1 \<and> queue_contents cx1 = queue_contents cx @ 1 # map snd (concat mss)"
proof -
  have "length (channel cx) < 2 ^ 31" using t(1) by simp
  then obtain ac where ac: "start_subscriber (Some False) cx = Inr (Some ac)" "obuf ac = concat (map mbulk reqs)"
    "replies ac = (if cname cx = [] then [] else [Some SetnameCallback])" "listening SubCallback (ac\<lparr>replies := []\<rparr>)"
    using start_subscriber_context t(2) by metis
  have "listening SubCallback ((ready ac)\<lparr>replies := []\<rparr>)" using ac(4) ready_simps(1) [of SubCallback "ac\<lparr>replies := []\<rparr>"] by simp
  moreover from this obtain cx2 where a: "process_replies (consumer_run redisCommand) ord True
      ((if cname cx = [] then [] else [REDIS_REPLY_STATUS ''OK'']) @ [push_reply ''subscribe'' (channel cx) [REDIS_REPLY_INTEGER 1]]) None (ready ac, cx, w) =
      Inr ((ready ac)\<lparr>replies := []\<rparr>, cx2, w)" "queue_wf cx2" "queue_contents cx2 = queue_contents cx @ [1]"
    using answers_are_processed [of "ready ac" "cname cx" ord cx redisCommand "channel cx" w] ac(3) o q by auto
  moreover have "length (queue_contents cx2) + length (concat mss) \<le> 255" using q(2) a(3) by simp
  ultimately obtain ac1 cx1 where "read_events (consumer_run redisCommand) ord (map (map id_message) mss) ((ready ac)\<lparr>replies := []\<rparr>, cx2, w) = Inr (ac1, cx1, w)"
    "listening SubCallback ac1" "queue_contents cx1 = queue_contents cx2 @ map snd (concat mss)"
    using batches_are_queued [OF _ o _ _ ms] by metis
  with ac(1,2) a show ?thesis
    by (intro exI [of _ ac] exI [of _ ac1] exI [of _ cx1]) (simp only: read_events.simps handle_read, simp add: listening_def)
qed

theorem switched_messages_reach_consumer_witness:
  "\<exists>ac ac1 cx1. start_subscriber (Some False) (smemContext_calloc\<lparr>cname := ''viewer'', channel := ''tv''\<rparr>) = Inr (Some ac) \<and>
    read_events (consumer_run (\<lambda>h c w. (None, w))) rev
      [[REDIS_REPLY_STATUS ''OK'', push_reply ''subscribe'' ''tv'' [REDIS_REPLY_INTEGER 1]], [id_message (''tv'', 655360)], [id_message (''radio'', 688129)]]
      (ac, smemContext_calloc\<lparr>cname := ''viewer'', channel := ''tv''\<rparr>, ()) = Inr (ac1, cx1, ()) \<and>
    alive ac1 \<and> queue_contents cx1 = [1, 655360, 688129]"
proof -
  let ?cx = "smemContext_calloc\<lparr>cname := ''viewer'', channel := ''tv''\<rparr>"
  have q: "queue_wf ?cx" "queue_contents ?cx = []"
    by (simp_all add: queue_wf_def queue_contents_def ring_list_def ring_len_def smemContext_calloc_def)
  have "smemAsyncThread (Some (4, False)) ?cx = (?cx\<lparr>rasync := Some 4\<rparr>, [[''CLIENT'', ''SETNAME'', ''viewer''], [''SMEMSUBSCRIBE'', ''tv'']])"
    by (simp add: smemAsyncThread_def)
  from switched_messages_reach_consumer [where ord = rev and cx = ?cx and mss = "[[(''tv'', 655360)], [(''radio'', 688129)]]" and redisCommand = "\<lambda>h c w. (None, w)" and w = "()",
      OF _ this q(1)] show ?thesis
    by (simp add: q(2) iterates_def int_range_def del: read_events.simps) blast
qed

section \<open>Losing the connection\<close>

text \<open>A runner that also records the calls.\<close>

definition logged :: "('f, 'u) runner \<Rightarrow> ('f, 'u \<times> ('f \<times> redisReply option) list) runner" where
  "logged run f r = (\<lambda>(u, l). map_sum id (\<lambda>(calls, u1). (calls, u1, l @ [(f, r)])) (run f r u))"

definition waiting :: "'f redisAsyncContext \<Rightarrow> 'f option list" where
  "waiting ac = replies ac @ sub_invalid ac @ map snd (sub_channels ac) @ map snd (sub_patterns ac)"

definition non_null :: "'f option list \<Rightarrow> 'f list" where
  "non_null cbs = map the (filter (\<lambda>cb. cb \<noteq> None) cbs)"

definition same_setup :: "'f redisAsyncContext \<Rightarrow> 'f redisAsyncContext \<Rightarrow> bool" where
  "same_setup ac ac1 \<longleftrightarrow> onDisconnect ac1 = onDisconnect ac \<and> connected_flag ac1 = connected_flag ac \<and>
     replies ac1 = replies ac \<and> sub_invalid ac1 = sub_invalid ac"

lemma lib_flags_setup [simp]: "same_setup ac (fold lib_flag calls ac1) \<longleftrightarrow> same_setup ac ac1"
  by (induction calls arbitrary: ac1) (auto simp: same_setup_def lib_flag_def split: lib_call.splits)

lemma run_pending_logged:
  assumes "\<And>f u. \<exists>calls u1. run f None u = Inr (calls, u1)"
  shows "\<exists>ac1 u1. run_pending (logged run) cbs (ac, u, l) = Inr (ac1, u1, l @ map (\<lambda>f. (f, None)) (non_null cbs)) \<and> same_setup ac ac1"
proof (induction cbs arbitrary: ac u l)
  case (Cons cb cbs)
  show ?case
  proof (cases cb)
    case None
    with Cons show ?thesis by (simp add: redisRunCallback_def non_null_def)
  next
    case (Some f)
    obtain calls u1 where r: "run f None u = Inr (calls, u1)" using assms by blast
    define ac1 where "ac1 = (fold lib_flag calls (ac\<lparr>in_callback := True\<rparr>))\<lparr>in_callback := False\<rparr>"
    have s: "same_setup ac ac1" using lib_flags_setup [of ac calls "ac\<lparr>in_callback := True\<rparr>"] by (simp add: ac1_def same_setup_def)
    have "redisRunCallback (logged run) cb None (ac, u, l) = Inr (ac1, u1, l @ [(f, None)])"
      by (simp add: redisRunCallback_def logged_def r Some ac1_def)
    moreover obtain ac2 u2 where "run_pending (logged run) cbs (ac1, u1, l @ [(f, None)]) =
        Inr (ac2, u2, (l @ [(f, None)]) @ map (\<lambda>f. (f, None)) (non_null cbs))" "same_setup ac1 ac2" using Cons by blast
    ultimately show ?thesis using s by (simp add: Some non_null_def same_setup_def)
  qed
qed (simp add: same_setup_def non_null_def)

lemma non_null_mset: "mset xs = mset ys \<Longrightarrow> mset (non_null xs) = mset (non_null ys)"
  by (simp add: non_null_def)

text \<open>C16: a subscriber that loses its connection is told so once for everything it waits for: when reading fails, each callback that waits
  for a reply, and each one registered for a channel or pattern, is called exactly once and with no reply, the disconnect callback
  is called if there is one, and the context is freed with nothing left in its lists.\<close>

theorem lost_connection_settles_callbacks:
  assumes o: "iterates ord" and c: "connected_flag ac" and run: "\<And>f u. \<exists>calls u1. run f None u = Inr (calls, u1)"
  shows "\<exists>ac1 u1 l. redisAsyncHandleRead (logged run) ord sk None (ac, u, []) = Inr (ac1, u1, l) \<and>
    mset l = mset (map (\<lambda>f. (f, None)) (non_null (waiting ac))) \<and>
    \<not> alive ac1 \<and> waiting ac1 = [] \<and> (disconnect_status ac1 \<noteq> None \<longleftrightarrow> onDisconnect ac)"
proof -
  define ac0 where "ac0 = ac\<lparr>c_err := True, ac_err := True, disconnecting := True\<rparr>"
  have f: "redisAsyncHandleRead (logged run) ord sk None (ac, u, []) = redisAsyncFree_now (logged run) ord (ac0, u, [])"
    using c by (simp add: redisAsyncHandleRead_def on_connected_def redisAsyncDisconnect_now_def redisAsyncCopyError_def Let_def ac0_def)
  let ?cbs = "replies ac0 @ sub_invalid ac0 @ map snd (ord (sub_channels ac0)) @ map snd (ord (sub_patterns ac0))"
  obtain ac1 u1 where r: "run_pending (logged run) ?cbs (ac0\<lparr>replies := [], sub_invalid := []\<rparr>, u, []) =
      Inr (ac1, u1, [] @ map (\<lambda>f. (f, None)) (non_null ?cbs))" "same_setup (ac0\<lparr>replies := [], sub_invalid := []\<rparr>) ac1"
    using run_pending_logged [of run, OF run] by blast
  have "mset (map snd (ord d)) = mset (map snd d)" for d using o by (simp add: iterates_def)
  then have "mset ?cbs = mset (waiting ac)" by (simp add: waiting_def ac0_def)
  from non_null_mset [OF this] have "mset (map (\<lambda>f. (f, None :: redisReply option)) (non_null ?cbs)) = mset (map (\<lambda>f. (f, None)) (non_null (waiting ac)))"
    by (simp only: mset_map)
  with r c show ?thesis unfolding f redisAsyncFree_now_def by (simp add: waiting_def same_setup_def ac0_def)
qed

theorem lost_connection_settles_callbacks_witness:
  "\<exists>ac1 u1 l. redisAsyncHandleRead (logged (consumer_run (\<lambda>h c w. (None, w)))) rev SockOk None
      ((redisAsyncInitialize False)\<lparr>connected_flag := True, onDisconnect := True, subscribed := True, replies := [Some SetnameCallback],
         sub_channels := [(''tv'', Some SubCallback)]\<rparr>, (smemContext_calloc, ()), []) = Inr (ac1, u1, l) \<and>
    mset l = {#(SetnameCallback, None), (SubCallback, None)#} \<and> \<not> alive ac1 \<and> disconnect_status ac1 \<noteq> None"
proof -
  let ?ac = "(redisAsyncInitialize False)\<lparr>connected_flag := True, onDisconnect := True, subscribed := True, replies := [Some SetnameCallback],
         sub_channels := [(''tv'', Some SubCallback)]\<rparr>"
  let ?run = "consumer_run (\<lambda>h c w. (None, w)) :: (consumer_callback, smemContext \<times> unit) runner"
  have "\<exists>calls u1. ?run f None u = Inr (calls, u1)" for f u
    by (cases f; cases u) (simp_all add: consumer_run_def subCallback_def)
  then obtain ac1 u1 l where "redisAsyncHandleRead (logged ?run) rev SockOk None (?ac, (smemContext_calloc, ()), []) = Inr (ac1, u1, l)"
    "mset l = mset (map (\<lambda>f. (f, None)) (non_null (waiting ?ac)))" "\<not> alive ac1" "disconnect_status ac1 \<noteq> None"
    using lost_connection_settles_callbacks [of rev ?ac ?run SockOk "(smemContext_calloc, ())"] by (auto simp: iterates_def)
  moreover have "waiting ?ac = [Some SetnameCallback, Some SubCallback]" by (simp add: waiting_def redisAsyncInitialize_def)
  ultimately show ?thesis by (intro exI [of _ ac1] exI [of _ u1] exI [of _ l]) (simp add: non_null_def)
qed

text \<open>A message for which nothing is registered is not ignored: the callback of the reply before it is still in place and is
  called a second time.\<close>

lemma unclaimed_message_repeats_callback:
  assumes ac: "replies ac = [Some f]" "sub_channels ac = []" "subscribed ac" "\<not> in_callback ac" "\<not> freeing ac" and o: "iterates ord"
    and k: "\<not> first_lower_is (CHR ''p'') kind" and r: "run f (Some r) u = Inr ([], u1)" "run f (Some (push_reply kind ch rest)) u1 = Inr ([], u2)"
  shows "process_replies run ord st (r # push_reply kind ch rest # rs) None (ac, u) = process_replies run ord st rs (Some f) (ac\<lparr>replies := []\<rparr>, u2)"
proof -
  let ?ac = "ac\<lparr>replies := []\<rparr>"
  have "ord [] = []" using o by (simp add: iterates_def flip: mset_zero_iff)
  then have "redisGetSubscribeCallback ord (push_reply kind ch rest) (Some f) ?ac = Inr (Some f, ?ac)"
    using ac(2) k by (simp add: redisGetSubscribeCallback_def push_reply_def)
  moreover have "redisRunCallback run (Some f) (Some (push_reply kind ch rest)) (?ac, u1) = Inr (?ac, u2)"
    using ac(4) r(2) by (intro run_quiet_callback) simp_all
  ultimately have "process_replies run ord st (push_reply kind ch rest # rs) (Some f) (?ac, u1) = process_replies run ord st rs (Some f) (?ac, u2)"
    using ac(3,5) by simp (simp add: push_reply_def)
  with answered_callback [where run = run, OF ac(1,4,5) r(1)] show ?thesis by simp
qed

end
