(* ===== verification/Smem_Media.thy ===== *)
theory Smem_Media
  imports Prelude
begin

text \<open>
  The media types, codecs, pixel and sample formats of the transport
  (\<open>ffmpeg-device-add/src/ffmpeg-3.0.2/libavdevice/smem.h\<close>) and their conversion to and
  from the constants of FFmpeg (\<open>smem_com.c\<close>). The enumeration constants of the transport
  have the values the header gives them; those of FFmpeg are a parameter, of which the
  conversions need that distinct names have distinct values, as the \<open>switch\<close> statements
  do to compile.
\<close>

section \<open>The enumerations of the transport (smem.h)\<close>

datatype (plugins only: code size) SMemMediaType =
    SMEM_MEDIA_TYPE_UNKNOWN | SMEM_MEDIA_TYPE_VIDEO | SMEM_MEDIA_TYPE_AUDIO | SMEM_MEDIA_TYPE_DATA |
  SMEM_MEDIA_TYPE_SUBTITLE

definition SMemMediaType_values :: "(SMemMediaType \<times> int) list" where
  "SMemMediaType_values = [(SMEM_MEDIA_TYPE_UNKNOWN, -1), (SMEM_MEDIA_TYPE_VIDEO, 0), (SMEM_MEDIA_TYPE_AUDIO, 1),
     (SMEM_MEDIA_TYPE_DATA, 2), (SMEM_MEDIA_TYPE_SUBTITLE, 3)]"

definition media_num :: "SMemMediaType \<Rightarrow> int" where
  "media_num x = the (map_of SMemMediaType_values x)"

datatype (plugins only: code size) SMemCodecID =
    SMEM_CODEC_ID_NONE | SMEM_CODEC_ID_MPEG1VIDEO | SMEM_CODEC_ID_MPEG2VIDEO | SMEM_CODEC_ID_H261 |
  SMEM_CODEC_ID_H263 | SMEM_CODEC_ID_MJPEG | SMEM_CODEC_ID_MPEG4 | SMEM_CODEC_ID_RAWVIDEO |
  SMEM_CODEC_ID_H264 | SMEM_CODEC_ID_PNG | SMEM_CODEC_ID_JPEG2000 | SMEM_CODEC_ID_VP9 |
  SMEM_CODEC_ID_HEVC | SMEM_CODEC_ID_PCM_S16LE | SMEM_CODEC_ID_PCM_S16BE | SMEM_CODEC_ID_PCM_U16LE |
  SMEM_CODEC_ID_PCM_U16BE | SMEM_CODEC_ID_PCM_S8 | SMEM_CODEC_ID_PCM_U8 | SMEM_CODEC_ID_PCM_MULAW |
  SMEM_CODEC_ID_PCM_ALAW | SMEM_CODEC_ID_PCM_S32LE | SMEM_CODEC_ID_PCM_S32BE | SMEM_CODEC_ID_PCM_U32LE |
  SMEM_CODEC_ID_PCM_U32BE | SMEM_CODEC_ID_PCM_S24LE | SMEM_CODEC_ID_PCM_S24BE |
  SMEM_CODEC_ID_PCM_U24LE | SMEM_CODEC_ID_PCM_U24BE | SMEM_CODEC_ID_PCM_S24DAUD |
  SMEM_CODEC_ID_PCM_ZORK | SMEM_CODEC_ID_PCM_S16LE_PLANAR | SMEM_CODEC_ID_PCM_DVD |
  SMEM_CODEC_ID_PCM_F32BE | SMEM_CODEC_ID_PCM_F32LE | SMEM_CODEC_ID_PCM_F64BE |
  SMEM_CODEC_ID_PCM_F64LE | SMEM_CODEC_ID_PCM_BLURAY | SMEM_CODEC_ID_PCM_LXF | SMEM_CODEC_ID_S302M |
  SMEM_CODEC_ID_PCM_S8_PLANAR | SMEM_CODEC_ID_PCM_S24LE_PLANAR | SMEM_CODEC_ID_PCM_S32LE_PLANAR |
  SMEM_CODEC_ID_PCM_S16BE_PLANAR | SMEM_CODEC_ID_MP2 | SMEM_CODEC_ID_MP3 | SMEM_CODEC_ID_AAC |
  SMEM_CODEC_ID_AC3 | SMEM_CODEC_ID_DTS | SMEM_CODEC_ID_VORBIS | SMEM_CODEC_ID_WMAV1 |
  SMEM_CODEC_ID_WMAV2 | SMEM_CODEC_ID_FLAC

definition SMemCodecID_values :: "(SMemCodecID \<times> int) list" where
  "SMemCodecID_values = [(SMEM_CODEC_ID_NONE, 0), (SMEM_CODEC_ID_MPEG1VIDEO, 1), (SMEM_CODEC_ID_MPEG2VIDEO, 2),
     (SMEM_CODEC_ID_H261, 3), (SMEM_CODEC_ID_H263, 4), (SMEM_CODEC_ID_MJPEG, 5), (SMEM_CODEC_ID_MPEG4, 6),
     (SMEM_CODEC_ID_RAWVIDEO, 7), (SMEM_CODEC_ID_H264, 8), (SMEM_CODEC_ID_PNG, 9),
     (SMEM_CODEC_ID_JPEG2000, 10), (SMEM_CODEC_ID_VP9, 11), (SMEM_CODEC_ID_HEVC, 12),
     (SMEM_CODEC_ID_PCM_S16LE, 65536), (SMEM_CODEC_ID_PCM_S16BE, 65537), (SMEM_CODEC_ID_PCM_U16LE, 65538),
     (SMEM_CODEC_ID_PCM_U16BE, 65539), (SMEM_CODEC_ID_PCM_S8, 65540), (SMEM_CODEC_ID_PCM_U8, 65541),
     (SMEM_CODEC_ID_PCM_MULAW, 65542), (SMEM_CODEC_ID_PCM_ALAW, 65543), (SMEM_CODEC_ID_PCM_S32LE, 65544),
     (SMEM_CODEC_ID_PCM_S32BE, 65545), (SMEM_CODEC_ID_PCM_U32LE, 65546), (SMEM_CODEC_ID_PCM_U32BE, 65547),
     (SMEM_CODEC_ID_PCM_S24LE, 65548), (SMEM_CODEC_ID_PCM_S24BE, 65549), (SMEM_CODEC_ID_PCM_U24LE, 65550),
     (SMEM_CODEC_ID_PCM_U24BE, 65551), (SMEM_CODEC_ID_PCM_S24DAUD, 65552),
     (SMEM_CODEC_ID_PCM_ZORK, 65553), (SMEM_CODEC_ID_PCM_S16LE_PLANAR, 65554),
     (SMEM_CODEC_ID_PCM_DVD, 65555), (SMEM_CODEC_ID_PCM_F32BE, 65556), (SMEM_CODEC_ID_PCM_F32LE, 65557),
     (SMEM_CODEC_ID_PCM_F64BE, 65558), (SMEM_CODEC_ID_PCM_F64LE, 65559),
     (SMEM_CODEC_ID_PCM_BLURAY, 65560), (SMEM_CODEC_ID_PCM_LXF, 65561), (SMEM_CODEC_ID_S302M, 65562),
     (SMEM_CODEC_ID_PCM_S8_PLANAR, 65563), (SMEM_CODEC_ID_PCM_S24LE_PLANAR, 65564),
     (SMEM_CODEC_ID_PCM_S32LE_PLANAR, 65565), (SMEM_CODEC_ID_PCM_S16BE_PLANAR, 65566),
     (SMEM_CODEC_ID_MP2, 86016), (SMEM_CODEC_ID_MP3, 86017), (SMEM_CODEC_ID_AAC, 86018),
     (SMEM_CODEC_ID_AC3, 86019), (SMEM_CODEC_ID_DTS, 86020), (SMEM_CODEC_ID_VORBIS, 86021),
     (SMEM_CODEC_ID_WMAV1, 86022), (SMEM_CODEC_ID_WMAV2, 86023), (SMEM_CODEC_ID_FLAC, 86024)]"

definition codec_num :: "SMemCodecID \<Rightarrow> int" where
  "codec_num x = the (map_of SMemCodecID_values x)"

datatype (plugins only: code size) SMemPixelFormat =
    SMEM_PIX_FMT_NONE | SMEM_PIX_FMT_YUV420P | SMEM_PIX_FMT_YUYV422 | SMEM_PIX_FMT_RGB24 |
  SMEM_PIX_FMT_BGR24 | SMEM_PIX_FMT_YUV422P | SMEM_PIX_FMT_YUV444P | SMEM_PIX_FMT_YUV410P |
  SMEM_PIX_FMT_YUV411P | SMEM_PIX_FMT_GRAY8 | SMEM_PIX_FMT_MONOWHITE | SMEM_PIX_FMT_MONOBLACK |
  SMEM_PIX_FMT_PAL8 | SMEM_PIX_FMT_YUVJ420P | SMEM_PIX_FMT_YUVJ422P | SMEM_PIX_FMT_YUVJ444P |
  SMEM_PIX_FMT_UYVY422 | SMEM_PIX_FMT_UYYVYY411 | SMEM_PIX_FMT_BGR8 | SMEM_PIX_FMT_BGR4 |
  SMEM_PIX_FMT_BGR4_BYTE | SMEM_PIX_FMT_RGB8 | SMEM_PIX_FMT_RGB4 | SMEM_PIX_FMT_RGB4_BYTE |
  SMEM_PIX_FMT_NV12 | SMEM_PIX_FMT_NV21 | SMEM_PIX_FMT_ARGB | SMEM_PIX_FMT_RGBA | SMEM_PIX_FMT_ABGR |
  SMEM_PIX_FMT_BGRA | SMEM_PIX_FMT_GRAY16BE | SMEM_PIX_FMT_GRAY16LE | SMEM_PIX_FMT_YUV440P |
  SMEM_PIX_FMT_YUVJ440P | SMEM_PIX_FMT_YUVA420P | SMEM_PIX_FMT_RGB48BE | SMEM_PIX_FMT_RGB48LE |
  SMEM_PIX_FMT_RGB565BE | SMEM_PIX_FMT_RGB565LE | SMEM_PIX_FMT_RGB555BE | SMEM_PIX_FMT_RGB555LE |
  SMEM_PIX_FMT_BGR565BE | SMEM_PIX_FMT_BGR565LE | SMEM_PIX_FMT_BGR555BE | SMEM_PIX_FMT_BGR555LE

definition SMemPixelFormat_values :: "(SMemPixelFormat \<times> int) list" where
  "SMemPixelFormat_values = [(SMEM_PIX_FMT_NONE, -1), (SMEM_PIX_FMT_YUV420P, 0), (SMEM_PIX_FMT_YUYV422, 1),
     (SMEM_PIX_FMT_RGB24, 2), (SMEM_PIX_FMT_BGR24, 3), (SMEM_PIX_FMT_YUV422P, 4),
     (SMEM_PIX_FMT_YUV444P, 5), (SMEM_PIX_FMT_YUV410P, 6), (SMEM_PIX_FMT_YUV411P, 7),
     (SMEM_PIX_FMT_GRAY8, 8), (SMEM_PIX_FMT_MONOWHITE, 9), (SMEM_PIX_FMT_MONOBLACK, 10),
     (SMEM_PIX_FMT_PAL8, 11), (SMEM_PIX_FMT_YUVJ420P, 12), (SMEM_PIX_FMT_YUVJ422P, 13),
     (SMEM_PIX_FMT_YUVJ444P, 14), (SMEM_PIX_FMT_UYVY422, 15), (SMEM_PIX_FMT_UYYVYY411, 16),
     (SMEM_PIX_FMT_BGR8, 17), (SMEM_PIX_FMT_BGR4, 18), (SMEM_PIX_FMT_BGR4_BYTE, 19),
     (SMEM_PIX_FMT_RGB8, 20), (SMEM_PIX_FMT_RGB4, 21), (SMEM_PIX_FMT_RGB4_BYTE, 22),
     (SMEM_PIX_FMT_NV12, 23), (SMEM_PIX_FMT_NV21, 24), (SMEM_PIX_FMT_ARGB, 25), (SMEM_PIX_FMT_RGBA, 26),
     (SMEM_PIX_FMT_ABGR, 27), (SMEM_PIX_FMT_BGRA, 28), (SMEM_PIX_FMT_GRAY16BE, 29),
     (SMEM_PIX_FMT_GRAY16LE, 30), (SMEM_PIX_FMT_YUV440P, 31), (SMEM_PIX_FMT_YUVJ440P, 32),
     (SMEM_PIX_FMT_YUVA420P, 33), (SMEM_PIX_FMT_RGB48BE, 34), (SMEM_PIX_FMT_RGB48LE, 35),
     (SMEM_PIX_FMT_RGB565BE, 36), (SMEM_PIX_FMT_RGB565LE, 37), (SMEM_PIX_FMT_RGB555BE, 38),
     (SMEM_PIX_FMT_RGB555LE, 39), (SMEM_PIX_FMT_BGR565BE, 40), (SMEM_PIX_FMT_BGR565LE, 41),
     (SMEM_PIX_FMT_BGR555BE, 42), (SMEM_PIX_FMT_BGR555LE, 43)]"

definition pix_num :: "SMemPixelFormat \<Rightarrow> int" where
  "pix_num x = the (map_of SMemPixelFormat_values x)"

datatype (plugins only: code size) SMemSampleFormat =
    SMEM_SAMPLE_FMT_NONE | SMEM_SAMPLE_FMT_U8 | SMEM_SAMPLE_FMT_S16 | SMEM_SAMPLE_FMT_S32 |
  SMEM_SAMPLE_FMT_FLT | SMEM_SAMPLE_FMT_DBL | SMEM_SAMPLE_FMT_U8P | SMEM_SAMPLE_FMT_S16P |
  SMEM_SAMPLE_FMT_S32P | SMEM_SAMPLE_FMT_FLTP | SMEM_SAMPLE_FMT_DBLP | SMEM_SAMPLE_FMT_NB

definition SMemSampleFormat_values :: "(SMemSampleFormat \<times> int) list" where
  "SMemSampleFormat_values = [(SMEM_SAMPLE_FMT_NONE, -1), (SMEM_SAMPLE_FMT_U8, 0), (SMEM_SAMPLE_FMT_S16, 1),
     (SMEM_SAMPLE_FMT_S32, 2), (SMEM_SAMPLE_FMT_FLT, 3), (SMEM_SAMPLE_FMT_DBL, 4),
     (SMEM_SAMPLE_FMT_U8P, 5), (SMEM_SAMPLE_FMT_S16P, 6), (SMEM_SAMPLE_FMT_S32P, 7),
     (SMEM_SAMPLE_FMT_FLTP, 8), (SMEM_SAMPLE_FMT_DBLP, 9), (SMEM_SAMPLE_FMT_NB, 10)]"

definition sample_num :: "SMemSampleFormat \<Rightarrow> int" where
  "sample_num x = the (map_of SMemSampleFormat_values x)"

section \<open>FFmpeg constants\<close>

text \<open>The constants of FFmpeg that the conversions name. Their values are FFmpeg's, a parameter of
  the conversions.\<close>

datatype (plugins only: code size) AVMediaType =
    AVMEDIA_TYPE_UNKNOWN | AVMEDIA_TYPE_VIDEO | AVMEDIA_TYPE_AUDIO | AVMEDIA_TYPE_DATA |
  AVMEDIA_TYPE_SUBTITLE

datatype (plugins only: code size) AVCodecID =
    AV_CODEC_ID_NONE | AV_CODEC_ID_MPEG1VIDEO | AV_CODEC_ID_MPEG2VIDEO | AV_CODEC_ID_H261 |
  AV_CODEC_ID_H263 | AV_CODEC_ID_MJPEG | AV_CODEC_ID_MPEG4 | AV_CODEC_ID_RAWVIDEO | AV_CODEC_ID_H264 |
  AV_CODEC_ID_PNG | AV_CODEC_ID_JPEG2000 | AV_CODEC_ID_VP9 | AV_CODEC_ID_HEVC | AV_CODEC_ID_PCM_S16LE |
  AV_CODEC_ID_PCM_S16BE | AV_CODEC_ID_PCM_U16LE | AV_CODEC_ID_PCM_U16BE | AV_CODEC_ID_PCM_S8 |
  AV_CODEC_ID_PCM_U8 | AV_CODEC_ID_PCM_MULAW | AV_CODEC_ID_PCM_ALAW | AV_CODEC_ID_PCM_S32LE |
  AV_CODEC_ID_PCM_S32BE | AV_CODEC_ID_PCM_U32LE | AV_CODEC_ID_PCM_U32BE | AV_CODEC_ID_PCM_S24LE |
  AV_CODEC_ID_PCM_S24BE | AV_CODEC_ID_PCM_U24LE | AV_CODEC_ID_PCM_U24BE | AV_CODEC_ID_PCM_S24DAUD |
  AV_CODEC_ID_PCM_ZORK | AV_CODEC_ID_PCM_S16LE_PLANAR | AV_CODEC_ID_PCM_DVD | AV_CODEC_ID_PCM_F32BE |
  AV_CODEC_ID_PCM_F32LE | AV_CODEC_ID_PCM_F64BE | AV_CODEC_ID_PCM_F64LE | AV_CODEC_ID_PCM_BLURAY |
  AV_CODEC_ID_PCM_LXF | AV_CODEC_ID_S302M | AV_CODEC_ID_PCM_S8_PLANAR | AV_CODEC_ID_PCM_S24LE_PLANAR |
  AV_CODEC_ID_PCM_S32LE_PLANAR | AV_CODEC_ID_PCM_S16BE_PLANAR | AV_CODEC_ID_MP2 | AV_CODEC_ID_MP3 |
  AV_CODEC_ID_AAC | AV_CODEC_ID_AC3 | AV_CODEC_ID_DTS | AV_CODEC_ID_VORBIS | AV_CODEC_ID_WMAV1 |
  AV_CODEC_ID_WMAV2 | AV_CODEC_ID_FLAC

datatype (plugins only: code size) AVPixelFormat =
    AV_PIX_FMT_NONE | AV_PIX_FMT_YUV420P | AV_PIX_FMT_YUYV422 | AV_PIX_FMT_RGB24 | AV_PIX_FMT_BGR24 |
  AV_PIX_FMT_YUV422P | AV_PIX_FMT_YUV444P | AV_PIX_FMT_YUV410P | AV_PIX_FMT_YUV411P | AV_PIX_FMT_GRAY8 |
  AV_PIX_FMT_MONOWHITE | AV_PIX_FMT_MONOBLACK | AV_PIX_FMT_PAL8 | AV_PIX_FMT_YUVJ420P |
  AV_PIX_FMT_YUVJ422P | AV_PIX_FMT_YUVJ444P | AV_PIX_FMT_UYVY422 | AV_PIX_FMT_UYYVYY411 |
  AV_PIX_FMT_BGR8 | AV_PIX_FMT_BGR4 | AV_PIX_FMT_BGR4_BYTE | AV_PIX_FMT_RGB8 | AV_PIX_FMT_RGB4 |
  AV_PIX_FMT_RGB4_BYTE | AV_PIX_FMT_NV12 | AV_PIX_FMT_NV21 | AV_PIX_FMT_ARGB | AV_PIX_FMT_RGBA |
  AV_PIX_FMT_ABGR | AV_PIX_FMT_BGRA | AV_PIX_FMT_GRAY16BE | AV_PIX_FMT_GRAY16LE | AV_PIX_FMT_YUV440P |
  AV_PIX_FMT_YUVJ440P | AV_PIX_FMT_YUVA420P | AV_PIX_FMT_RGB48BE | AV_PIX_FMT_RGB48LE |
  AV_PIX_FMT_RGB565BE | AV_PIX_FMT_RGB565LE | AV_PIX_FMT_RGB555BE | AV_PIX_FMT_RGB555LE |
  AV_PIX_FMT_BGR565BE | AV_PIX_FMT_BGR565LE | AV_PIX_FMT_BGR555BE | AV_PIX_FMT_BGR555LE

datatype (plugins only: code size) AVSampleFormat =
    AV_SAMPLE_FMT_NONE | AV_SAMPLE_FMT_U8 | AV_SAMPLE_FMT_S16 | AV_SAMPLE_FMT_S32 | AV_SAMPLE_FMT_FLT |
  AV_SAMPLE_FMT_DBL | AV_SAMPLE_FMT_U8P | AV_SAMPLE_FMT_S16P | AV_SAMPLE_FMT_S32P | AV_SAMPLE_FMT_FLTP |
  AV_SAMPLE_FMT_DBLP | AV_SAMPLE_FMT_NB

section \<open>The conversions (smem_com.c)\<close>

text \<open>A \<open>switch\<close> over integer constants with a default.\<close>

definition switch :: "(int \<times> int) list \<Rightarrow> int \<Rightarrow> int \<Rightarrow> int" where
  "switch cs dflt x = (case map_of cs x of Some y \<Rightarrow> y | None \<Rightarrow> dflt)"

definition smem2av_media_type_cases :: "(SMemMediaType \<times> AVMediaType) list" where
  "smem2av_media_type_cases = [(SMEM_MEDIA_TYPE_VIDEO, AVMEDIA_TYPE_VIDEO), (SMEM_MEDIA_TYPE_AUDIO, AVMEDIA_TYPE_AUDIO),
     (SMEM_MEDIA_TYPE_DATA, AVMEDIA_TYPE_DATA), (SMEM_MEDIA_TYPE_SUBTITLE, AVMEDIA_TYPE_SUBTITLE)]"

definition smem2av_media_type :: "(AVMediaType \<Rightarrow> int) \<Rightarrow> int \<Rightarrow> int" where
  "smem2av_media_type av x = switch (map (\<lambda>(s, a). (media_num s, av a)) smem2av_media_type_cases) (av AVMEDIA_TYPE_UNKNOWN) x"

definition smem2av_codec_id_cases :: "(SMemCodecID \<times> AVCodecID) list" where
  "smem2av_codec_id_cases = [(SMEM_CODEC_ID_MPEG1VIDEO, AV_CODEC_ID_MPEG1VIDEO),
     (SMEM_CODEC_ID_MPEG2VIDEO, AV_CODEC_ID_MPEG2VIDEO), (SMEM_CODEC_ID_H261, AV_CODEC_ID_H261),
     (SMEM_CODEC_ID_H263, AV_CODEC_ID_H263), (SMEM_CODEC_ID_MJPEG, AV_CODEC_ID_MJPEG),
     (SMEM_CODEC_ID_MPEG4, AV_CODEC_ID_MPEG4), (SMEM_CODEC_ID_RAWVIDEO, AV_CODEC_ID_RAWVIDEO),
     (SMEM_CODEC_ID_H264, AV_CODEC_ID_H264), (SMEM_CODEC_ID_PNG, AV_CODEC_ID_PNG),
     (SMEM_CODEC_ID_JPEG2000, AV_CODEC_ID_JPEG2000), (SMEM_CODEC_ID_VP9, AV_CODEC_ID_VP9),
     (SMEM_CODEC_ID_HEVC, AV_CODEC_ID_HEVC), (SMEM_CODEC_ID_PCM_S16LE, AV_CODEC_ID_PCM_S16LE),
     (SMEM_CODEC_ID_PCM_S16BE, AV_CODEC_ID_PCM_S16BE), (SMEM_CODEC_ID_PCM_U16LE, AV_CODEC_ID_PCM_U16LE),
     (SMEM_CODEC_ID_PCM_U16BE, AV_CODEC_ID_PCM_U16BE), (SMEM_CODEC_ID_PCM_S8, AV_CODEC_ID_PCM_S8),
     (SMEM_CODEC_ID_PCM_U8, AV_CODEC_ID_PCM_U8), (SMEM_CODEC_ID_PCM_MULAW, AV_CODEC_ID_PCM_MULAW),
     (SMEM_CODEC_ID_PCM_ALAW, AV_CODEC_ID_PCM_ALAW), (SMEM_CODEC_ID_PCM_S32LE, AV_CODEC_ID_PCM_S32LE),
     (SMEM_CODEC_ID_PCM_S32BE, AV_CODEC_ID_PCM_S32BE), (SMEM_CODEC_ID_PCM_U32LE, AV_CODEC_ID_PCM_U32LE),
     (SMEM_CODEC_ID_PCM_U32BE, AV_CODEC_ID_PCM_U32BE), (SMEM_CODEC_ID_PCM_S24LE, AV_CODEC_ID_PCM_S24LE),
     (SMEM_CODEC_ID_PCM_S24BE, AV_CODEC_ID_PCM_S24BE), (SMEM_CODEC_ID_PCM_U24LE, AV_CODEC_ID_PCM_U24LE),
     (SMEM_CODEC_ID_PCM_U24BE, AV_CODEC_ID_PCM_U24BE),
     (SMEM_CODEC_ID_PCM_S24DAUD, AV_CODEC_ID_PCM_S24DAUD), (SMEM_CODEC_ID_PCM_ZORK, AV_CODEC_ID_PCM_ZORK),
     (SMEM_CODEC_ID_PCM_S16LE_PLANAR, AV_CODEC_ID_PCM_S16LE_PLANAR),
     (SMEM_CODEC_ID_PCM_DVD, AV_CODEC_ID_PCM_DVD), (SMEM_CODEC_ID_PCM_F32BE, AV_CODEC_ID_PCM_F32BE),
     (SMEM_CODEC_ID_PCM_F32LE, AV_CODEC_ID_PCM_F32LE), (SMEM_CODEC_ID_PCM_F64BE, AV_CODEC_ID_PCM_F64BE),
     (SMEM_CODEC_ID_PCM_F64LE, AV_CODEC_ID_PCM_F64LE), (SMEM_CODEC_ID_PCM_BLURAY, AV_CODEC_ID_PCM_BLURAY),
     (SMEM_CODEC_ID_PCM_LXF, AV_CODEC_ID_PCM_LXF), (SMEM_CODEC_ID_S302M, AV_CODEC_ID_S302M),
     (SMEM_CODEC_ID_PCM_S8_PLANAR, AV_CODEC_ID_PCM_S8_PLANAR),
     (SMEM_CODEC_ID_PCM_S24LE_PLANAR, AV_CODEC_ID_PCM_S24LE_PLANAR),
     (SMEM_CODEC_ID_PCM_S32LE_PLANAR, AV_CODEC_ID_PCM_S32LE_PLANAR),
     (SMEM_CODEC_ID_PCM_S16BE_PLANAR, AV_CODEC_ID_PCM_S16BE_PLANAR), (SMEM_CODEC_ID_MP2, AV_CODEC_ID_MP2),
     (SMEM_CODEC_ID_MP3, AV_CODEC_ID_MP3), (SMEM_CODEC_ID_AAC, AV_CODEC_ID_AAC),
     (SMEM_CODEC_ID_AC3, AV_CODEC_ID_AC3), (SMEM_CODEC_ID_DTS, AV_CODEC_ID_DTS),
     (SMEM_CODEC_ID_VORBIS, AV_CODEC_ID_VORBIS), (SMEM_CODEC_ID_WMAV1, AV_CODEC_ID_WMAV1),
     (SMEM_CODEC_ID_WMAV2, AV_CODEC_ID_WMAV2), (SMEM_CODEC_ID_FLAC, AV_CODEC_ID_FLAC)]"

definition smem2av_codec_id :: "(AVCodecID \<Rightarrow> int) \<Rightarrow> int \<Rightarrow> int" where
  "smem2av_codec_id av x = switch (map (\<lambda>(s, a). (codec_num s, av a)) smem2av_codec_id_cases) (av AV_CODEC_ID_NONE) x"

definition av2smem_codec_id_cases :: "(AVCodecID \<times> SMemCodecID) list" where
  "av2smem_codec_id_cases = [(AV_CODEC_ID_MPEG1VIDEO, SMEM_CODEC_ID_MPEG1VIDEO),
     (AV_CODEC_ID_MPEG2VIDEO, SMEM_CODEC_ID_MPEG2VIDEO), (AV_CODEC_ID_H261, SMEM_CODEC_ID_H261),
     (AV_CODEC_ID_H263, SMEM_CODEC_ID_H263), (AV_CODEC_ID_MJPEG, SMEM_CODEC_ID_MJPEG),
     (AV_CODEC_ID_MPEG4, SMEM_CODEC_ID_MPEG4), (AV_CODEC_ID_RAWVIDEO, SMEM_CODEC_ID_RAWVIDEO),
     (AV_CODEC_ID_H264, SMEM_CODEC_ID_H264), (AV_CODEC_ID_PNG, SMEM_CODEC_ID_PNG),
     (AV_CODEC_ID_JPEG2000, SMEM_CODEC_ID_JPEG2000), (AV_CODEC_ID_VP9, SMEM_CODEC_ID_VP9),
     (AV_CODEC_ID_HEVC, SMEM_CODEC_ID_HEVC), (AV_CODEC_ID_PCM_S16LE, SMEM_CODEC_ID_PCM_S16LE),
     (AV_CODEC_ID_PCM_S16BE, SMEM_CODEC_ID_PCM_S16BE), (AV_CODEC_ID_PCM_U16LE, SMEM_CODEC_ID_PCM_U16LE),
     (AV_CODEC_ID_PCM_U16BE, SMEM_CODEC_ID_PCM_U16BE), (AV_CODEC_ID_PCM_S8, SMEM_CODEC_ID_PCM_S8),
     (AV_CODEC_ID_PCM_U8, SMEM_CODEC_ID_PCM_U8), (AV_CODEC_ID_PCM_MULAW, SMEM_CODEC_ID_PCM_MULAW),
     (AV_CODEC_ID_PCM_ALAW, SMEM_CODEC_ID_PCM_ALAW), (AV_CODEC_ID_PCM_S32LE, SMEM_CODEC_ID_PCM_S32LE),
     (AV_CODEC_ID_PCM_S32BE, SMEM_CODEC_ID_PCM_S32BE), (AV_CODEC_ID_PCM_U32LE, SMEM_CODEC_ID_PCM_U32LE),
     (AV_CODEC_ID_PCM_U32BE, SMEM_CODEC_ID_PCM_U32BE), (AV_CODEC_ID_PCM_S24LE, SMEM_CODEC_ID_PCM_S24LE),
     (AV_CODEC_ID_PCM_S24BE, SMEM_CODEC_ID_PCM_S24BE), (AV_CODEC_ID_PCM_U24LE, SMEM_CODEC_ID_PCM_U24LE),
     (AV_CODEC_ID_PCM_U24BE, SMEM_CODEC_ID_PCM_U24BE),
     (AV_CODEC_ID_PCM_S24DAUD, SMEM_CODEC_ID_PCM_S24DAUD), (AV_CODEC_ID_PCM_ZORK, SMEM_CODEC_ID_PCM_ZORK),
     (AV_CODEC_ID_PCM_S16LE_PLANAR, SMEM_CODEC_ID_PCM_S16LE_PLANAR),
     (AV_CODEC_ID_PCM_DVD, SMEM_CODEC_ID_PCM_DVD), (AV_CODEC_ID_PCM_F32BE, SMEM_CODEC_ID_PCM_F32BE),
     (AV_CODEC_ID_PCM_F32LE, SMEM_CODEC_ID_PCM_F32LE), (AV_CODEC_ID_PCM_F64BE, SMEM_CODEC_ID_PCM_F64BE),
     (AV_CODEC_ID_PCM_F64LE, SMEM_CODEC_ID_PCM_F64LE), (AV_CODEC_ID_PCM_BLURAY, SMEM_CODEC_ID_PCM_BLURAY),
     (AV_CODEC_ID_PCM_LXF, SMEM_CODEC_ID_PCM_LXF), (AV_CODEC_ID_S302M, SMEM_CODEC_ID_S302M),
     (AV_CODEC_ID_PCM_S8_PLANAR, SMEM_CODEC_ID_PCM_S8_PLANAR),
     (AV_CODEC_ID_PCM_S24LE_PLANAR, SMEM_CODEC_ID_PCM_S24LE_PLANAR),
     (AV_CODEC_ID_PCM_S32LE_PLANAR, SMEM_CODEC_ID_PCM_S32LE_PLANAR),
     (AV_CODEC_ID_PCM_S16BE_PLANAR, SMEM_CODEC_ID_PCM_S16BE_PLANAR), (AV_CODEC_ID_MP2, SMEM_CODEC_ID_MP2),
     (AV_CODEC_ID_MP3, SMEM_CODEC_ID_MP3), (AV_CODEC_ID_AAC, SMEM_CODEC_ID_AAC),
     (AV_CODEC_ID_AC3, SMEM_CODEC_ID_AC3), (AV_CODEC_ID_DTS, SMEM_CODEC_ID_DTS),
     (AV_CODEC_ID_VORBIS, SMEM_CODEC_ID_VORBIS), (AV_CODEC_ID_WMAV1, SMEM_CODEC_ID_WMAV1),
     (AV_CODEC_ID_WMAV2, SMEM_CODEC_ID_WMAV2), (AV_CODEC_ID_FLAC, SMEM_CODEC_ID_FLAC)]"

definition av2smem_codec_id :: "(AVCodecID \<Rightarrow> int) \<Rightarrow> int \<Rightarrow> int" where
  "av2smem_codec_id av x = switch (map (\<lambda>(a, s). (av a, codec_num s)) av2smem_codec_id_cases) (codec_num SMEM_CODEC_ID_NONE) x"

definition smem2av_pix_fmt_cases :: "(SMemPixelFormat \<times> AVPixelFormat) list" where
  "smem2av_pix_fmt_cases = [(SMEM_PIX_FMT_NONE, AV_PIX_FMT_NONE), (SMEM_PIX_FMT_YUV420P, AV_PIX_FMT_YUV420P),
     (SMEM_PIX_FMT_YUYV422, AV_PIX_FMT_YUYV422), (SMEM_PIX_FMT_RGB24, AV_PIX_FMT_RGB24),
     (SMEM_PIX_FMT_BGR24, AV_PIX_FMT_BGR24), (SMEM_PIX_FMT_YUV422P, AV_PIX_FMT_YUV422P),
     (SMEM_PIX_FMT_YUV444P, AV_PIX_FMT_YUV444P), (SMEM_PIX_FMT_YUV410P, AV_PIX_FMT_YUV410P),
     (SMEM_PIX_FMT_YUV411P, AV_PIX_FMT_YUV411P), (SMEM_PIX_FMT_GRAY8, AV_PIX_FMT_GRAY8),
     (SMEM_PIX_FMT_MONOWHITE, AV_PIX_FMT_MONOWHITE), (SMEM_PIX_FMT_MONOBLACK, AV_PIX_FMT_MONOBLACK),
     (SMEM_PIX_FMT_PAL8, AV_PIX_FMT_PAL8), (SMEM_PIX_FMT_YUVJ420P, AV_PIX_FMT_YUVJ420P),
     (SMEM_PIX_FMT_YUVJ422P, AV_PIX_FMT_YUVJ422P), (SMEM_PIX_FMT_YUVJ444P, AV_PIX_FMT_YUVJ444P),
     (SMEM_PIX_FMT_UYVY422, AV_PIX_FMT_UYVY422), (SMEM_PIX_FMT_UYYVYY411, AV_PIX_FMT_UYYVYY411),
     (SMEM_PIX_FMT_BGR8, AV_PIX_FMT_BGR8), (SMEM_PIX_FMT_BGR4, AV_PIX_FMT_BGR4),
     (SMEM_PIX_FMT_BGR4_BYTE, AV_PIX_FMT_BGR4_BYTE), (SMEM_PIX_FMT_RGB8, AV_PIX_FMT_RGB8),
     (SMEM_PIX_FMT_RGB4, AV_PIX_FMT_RGB4), (SMEM_PIX_FMT_RGB4_BYTE, AV_PIX_FMT_RGB4_BYTE),
     (SMEM_PIX_FMT_NV12, AV_PIX_FMT_NV12), (SMEM_PIX_FMT_NV21, AV_PIX_FMT_NV21),
     (SMEM_PIX_FMT_ARGB, AV_PIX_FMT_ARGB), (SMEM_PIX_FMT_RGBA, AV_PIX_FMT_RGBA),
     (SMEM_PIX_FMT_ABGR, AV_PIX_FMT_ABGR), (SMEM_PIX_FMT_BGRA, AV_PIX_FMT_BGRA),
     (SMEM_PIX_FMT_GRAY16BE, AV_PIX_FMT_GRAY16BE), (SMEM_PIX_FMT_GRAY16LE, AV_PIX_FMT_GRAY16LE),
     (SMEM_PIX_FMT_YUV440P, AV_PIX_FMT_YUV440P), (SMEM_PIX_FMT_YUVJ440P, AV_PIX_FMT_YUVJ440P),
     (SMEM_PIX_FMT_YUVA420P, AV_PIX_FMT_YUVA420P), (SMEM_PIX_FMT_RGB48BE, AV_PIX_FMT_RGB48BE),
     (SMEM_PIX_FMT_RGB48LE, AV_PIX_FMT_RGB48LE), (SMEM_PIX_FMT_RGB565BE, AV_PIX_FMT_RGB565BE),
     (SMEM_PIX_FMT_RGB565LE, AV_PIX_FMT_RGB565LE), (SMEM_PIX_FMT_RGB555BE, AV_PIX_FMT_RGB555BE),
     (SMEM_PIX_FMT_RGB555LE, AV_PIX_FMT_RGB555LE), (SMEM_PIX_FMT_BGR565BE, AV_PIX_FMT_BGR565BE),
     (SMEM_PIX_FMT_BGR565LE, AV_PIX_FMT_BGR565LE), (SMEM_PIX_FMT_BGR555BE, AV_PIX_FMT_BGR555BE),
     (SMEM_PIX_FMT_BGR555LE, AV_PIX_FMT_BGR555LE)]"

definition smem2av_pix_fmt :: "(AVPixelFormat \<Rightarrow> int) \<Rightarrow> int \<Rightarrow> int" where
  "smem2av_pix_fmt av x = switch (map (\<lambda>(s, a). (pix_num s, av a)) smem2av_pix_fmt_cases) (av AV_PIX_FMT_NONE) x"

definition av2smem_pix_fmt_cases :: "(AVPixelFormat \<times> SMemPixelFormat) list" where
  "av2smem_pix_fmt_cases = [(AV_PIX_FMT_NONE, SMEM_PIX_FMT_NONE), (AV_PIX_FMT_YUV420P, SMEM_PIX_FMT_YUV420P),
     (AV_PIX_FMT_YUYV422, SMEM_PIX_FMT_YUYV422), (AV_PIX_FMT_RGB24, SMEM_PIX_FMT_RGB24),
     (AV_PIX_FMT_BGR24, SMEM_PIX_FMT_BGR24), (AV_PIX_FMT_YUV422P, SMEM_PIX_FMT_YUV422P),
     (AV_PIX_FMT_YUV444P, SMEM_PIX_FMT_YUV444P), (AV_PIX_FMT_YUV410P, SMEM_PIX_FMT_YUV410P),
     (AV_PIX_FMT_YUV411P, SMEM_PIX_FMT_YUV411P), (AV_PIX_FMT_GRAY8, SMEM_PIX_FMT_GRAY8),
     (AV_PIX_FMT_MONOWHITE, SMEM_PIX_FMT_MONOWHITE), (AV_PIX_FMT_MONOBLACK, SMEM_PIX_FMT_MONOBLACK),
     (AV_PIX_FMT_PAL8, SMEM_PIX_FMT_PAL8), (AV_PIX_FMT_YUVJ420P, SMEM_PIX_FMT_YUVJ420P),
     (AV_PIX_FMT_YUVJ422P, SMEM_PIX_FMT_YUVJ422P), (AV_PIX_FMT_YUVJ444P, SMEM_PIX_FMT_YUVJ444P),
     (AV_PIX_FMT_UYVY422, SMEM_PIX_FMT_UYVY422), (AV_PIX_FMT_UYYVYY411, SMEM_PIX_FMT_UYYVYY411),
     (AV_PIX_FMT_BGR8, SMEM_PIX_FMT_BGR8), (AV_PIX_FMT_BGR4, SMEM_PIX_FMT_BGR4),
     (AV_PIX_FMT_BGR4_BYTE, SMEM_PIX_FMT_BGR4_BYTE), (AV_PIX_FMT_RGB8, SMEM_PIX_FMT_RGB8),
     (AV_PIX_FMT_RGB4, SMEM_PIX_FMT_RGB4), (AV_PIX_FMT_RGB4_BYTE, SMEM_PIX_FMT_RGB4_BYTE),
     (AV_PIX_FMT_NV12, SMEM_PIX_FMT_NV12), (AV_PIX_FMT_NV21, SMEM_PIX_FMT_NV21),
     (AV_PIX_FMT_ARGB, SMEM_PIX_FMT_ARGB), (AV_PIX_FMT_RGBA, SMEM_PIX_FMT_RGBA),
     (AV_PIX_FMT_ABGR, SMEM_PIX_FMT_ABGR), (AV_PIX_FMT_BGRA, SMEM_PIX_FMT_BGRA),
     (AV_PIX_FMT_GRAY16BE, SMEM_PIX_FMT_GRAY16BE), (AV_PIX_FMT_GRAY16LE, SMEM_PIX_FMT_GRAY16LE),
     (AV_PIX_FMT_YUV440P, SMEM_PIX_FMT_YUV440P), (AV_PIX_FMT_YUVJ440P, SMEM_PIX_FMT_YUVJ440P),
     (AV_PIX_FMT_YUVA420P, SMEM_PIX_FMT_YUVA420P), (AV_PIX_FMT_RGB48BE, SMEM_PIX_FMT_RGB48BE),
     (AV_PIX_FMT_RGB48LE, SMEM_PIX_FMT_RGB48LE), (AV_PIX_FMT_RGB565BE, SMEM_PIX_FMT_RGB565BE),
     (AV_PIX_FMT_RGB565LE, SMEM_PIX_FMT_RGB565LE), (AV_PIX_FMT_RGB555BE, SMEM_PIX_FMT_RGB555BE),
     (AV_PIX_FMT_RGB555LE, SMEM_PIX_FMT_RGB555LE), (AV_PIX_FMT_BGR565BE, SMEM_PIX_FMT_BGR565BE),
     (AV_PIX_FMT_BGR565LE, SMEM_PIX_FMT_BGR565LE), (AV_PIX_FMT_BGR555BE, SMEM_PIX_FMT_BGR555BE),
     (AV_PIX_FMT_BGR555LE, SMEM_PIX_FMT_BGR555LE)]"

definition av2smem_pix_fmt :: "(AVPixelFormat \<Rightarrow> int) \<Rightarrow> int \<Rightarrow> int" where
  "av2smem_pix_fmt av x = switch (map (\<lambda>(a, s). (av a, pix_num s)) av2smem_pix_fmt_cases) (pix_num SMEM_PIX_FMT_NONE) x"

definition smem2av_sample_fmt_cases :: "(SMemSampleFormat \<times> AVSampleFormat) list" where
  "smem2av_sample_fmt_cases = [(SMEM_SAMPLE_FMT_NONE, AV_SAMPLE_FMT_NONE), (SMEM_SAMPLE_FMT_U8, AV_SAMPLE_FMT_U8),
     (SMEM_SAMPLE_FMT_S16, AV_SAMPLE_FMT_S16), (SMEM_SAMPLE_FMT_S32, AV_SAMPLE_FMT_S32),
     (SMEM_SAMPLE_FMT_FLT, AV_SAMPLE_FMT_FLT), (SMEM_SAMPLE_FMT_DBL, AV_SAMPLE_FMT_DBL),
     (SMEM_SAMPLE_FMT_U8P, AV_SAMPLE_FMT_U8P), (SMEM_SAMPLE_FMT_S16P, AV_SAMPLE_FMT_S16P),
     (SMEM_SAMPLE_FMT_S32P, AV_SAMPLE_FMT_S32P), (SMEM_SAMPLE_FMT_FLTP, AV_SAMPLE_FMT_FLTP),
     (SMEM_SAMPLE_FMT_DBLP, AV_SAMPLE_FMT_DBLP), (SMEM_SAMPLE_FMT_NB, AV_SAMPLE_FMT_NB)]"

definition smem2av_sample_fmt :: "(AVSampleFormat \<Rightarrow> int) \<Rightarrow> int \<Rightarrow> int" where
  "smem2av_sample_fmt av x = switch (map (\<lambda>(s, a). (sample_num s, av a)) smem2av_sample_fmt_cases) (av AV_SAMPLE_FMT_NONE) x"

definition av2smem_sample_fmt_cases :: "(AVSampleFormat \<times> SMemSampleFormat) list" where
  "av2smem_sample_fmt_cases = [(AV_SAMPLE_FMT_NONE, SMEM_SAMPLE_FMT_NONE), (AV_SAMPLE_FMT_U8, SMEM_SAMPLE_FMT_U8),
     (AV_SAMPLE_FMT_S16, SMEM_SAMPLE_FMT_S16), (AV_SAMPLE_FMT_S32, SMEM_SAMPLE_FMT_S32),
     (AV_SAMPLE_FMT_FLT, SMEM_SAMPLE_FMT_FLT), (AV_SAMPLE_FMT_DBL, SMEM_SAMPLE_FMT_DBL),
     (AV_SAMPLE_FMT_U8P, SMEM_SAMPLE_FMT_U8P), (AV_SAMPLE_FMT_S16P, SMEM_SAMPLE_FMT_S16P),
     (AV_SAMPLE_FMT_S32P, SMEM_SAMPLE_FMT_S32P), (AV_SAMPLE_FMT_FLTP, SMEM_SAMPLE_FMT_FLTP),
     (AV_SAMPLE_FMT_DBLP, SMEM_SAMPLE_FMT_DBLP), (AV_SAMPLE_FMT_NB, SMEM_SAMPLE_FMT_NB)]"

definition av2smem_sample_fmt :: "(AVSampleFormat \<Rightarrow> int) \<Rightarrow> int \<Rightarrow> int" where
  "av2smem_sample_fmt av x = switch (map (\<lambda>(a, s). (av a, sample_num s)) av2smem_sample_fmt_cases) (sample_num SMEM_SAMPLE_FMT_NONE) x"

section \<open>Round trips\<close>

text \<open>What two conversions that undo each other have in common: their tables list the same pairs,
  each constant once.\<close>

locale conversion =
  fixes num :: "'s \<Rightarrow> int"
    and fwd :: "('s \<times> 'a) list"
    and bwd :: "('a \<times> 's) list"
  assumes inverse: "bwd = map prod.swap fwd"
    and nums: "distinct (map (\<lambda>p. num (fst p)) fwd)"
    and avs: "distinct (map snd fwd)"
begin

lemma forward:
  assumes "(s, a) \<in> set fwd"
  shows "switch (map (\<lambda>(s, a). (num s, av a)) fwd) d (num s) = av a"
proof -
  have "distinct (map fst (map (\<lambda>(s, a). (num s, av a)) fwd))" using nums by (simp add: comp_def case_prod_beta)
  moreover have "(num s, av a) \<in> set (map (\<lambda>(s, a). (num s, av a)) fwd)" using assms by (force simp: image_iff)
  ultimately show ?thesis by (simp only: switch_def map_of_is_SomeI option.case)
qed

lemma backward:
  assumes "(s, a) \<in> set fwd" and inj: "inj av"
  shows "switch (map (\<lambda>(a, s). (av a, num s)) bwd) d (av a) = num s"
proof -
  have names: "map fst (map (\<lambda>(a, s). (av a, num s)) bwd) = map av (map snd fwd)"
    by (simp add: inverse case_prod_beta comp_def)
  have "inj_on av (set (map snd fwd))" using inj by (rule inj_on_subset) simp
  then have "distinct (map fst (map (\<lambda>(a, s). (av a, num s)) bwd))"
    unfolding names using avs by (simp only: distinct_map [of av])
  moreover have "(av a, num s) \<in> set (map (\<lambda>(a, s). (av a, num s)) bwd)"
    using assms(1) by (force simp: inverse image_iff)
  ultimately show ?thesis by (simp only: switch_def map_of_is_SomeI option.case)
qed

lemma unknown:
  assumes "x \<notin> num ` fst ` set fwd"
  shows "switch (map (\<lambda>(s, a). (num s, av a)) fwd) d x = d"
proof -
  have "map_of (map (\<lambda>(s, a). (num s, av a)) fwd) x = None"
    using assms by (auto simp: map_of_eq_None_iff image_iff)
  then show ?thesis by (simp add: switch_def)
qed

end

interpretation codecs: conversion codec_num smem2av_codec_id_cases av2smem_codec_id_cases
  by unfold_locales code_simp+

interpretation pix: conversion pix_num smem2av_pix_fmt_cases av2smem_pix_fmt_cases
  by unfold_locales code_simp+

interpretation samples: conversion sample_num smem2av_sample_fmt_cases av2smem_sample_fmt_cases
  by unfold_locales code_simp+

text \<open>The conversions between the constants of the transport and of FFmpeg are inverse to each
  other on every codec, pixel format and sample format in their tables, for any values of
  the FFmpeg constants that differ.\<close>

theorem conversions_roundtrip:
  assumes "inj avc" and "inj avp" and "inj avs"
    and "(sc, ac) \<in> set smem2av_codec_id_cases" and "(sp, ap) \<in> set smem2av_pix_fmt_cases"
    and "(sf, af) \<in> set smem2av_sample_fmt_cases"
  shows "smem2av_codec_id avc (codec_num sc) = avc ac \<and> av2smem_codec_id avc (avc ac) = codec_num sc \<and>
    smem2av_pix_fmt avp (pix_num sp) = avp ap \<and> av2smem_pix_fmt avp (avp ap) = pix_num sp \<and>
    smem2av_sample_fmt avs (sample_num sf) = avs af \<and> av2smem_sample_fmt avs (avs af) = sample_num sf"
  unfolding smem2av_codec_id_def av2smem_codec_id_def smem2av_pix_fmt_def av2smem_pix_fmt_def
    smem2av_sample_fmt_def av2smem_sample_fmt_def
  using codecs.forward [OF assms(4)] codecs.backward [OF assms(4,1)] pix.forward [OF assms(5)] pix.backward [OF assms(5,2)]
    samples.forward [OF assms(6)] samples.backward [OF assms(6,3)] by blast

text \<open>FFmpeg values for the witness: the position of the name in the table.\<close>

definition position :: "'a list \<Rightarrow> 'a \<Rightarrow> int" where
  "position xs x = int (length (takeWhile (\<lambda>y. y \<noteq> x) xs))"

lemma takeWhile_neq_inj:
  "x \<in> set xs \<Longrightarrow> y \<in> set xs \<Longrightarrow> length (takeWhile (\<lambda>z. z \<noteq> x) xs) = length (takeWhile (\<lambda>z. z \<noteq> y) xs) \<Longrightarrow> x = y"
  by (induction xs) (auto split: if_splits)

lemma inj_position: "(\<And>x. x \<in> set xs) \<Longrightarrow> inj (position xs)"
  by (rule injI) (auto simp: position_def intro: takeWhile_neq_inj)

lemma all_codecs: "c \<in> set (AV_CODEC_ID_NONE # map snd smem2av_codec_id_cases)"
  by (cases c; simp add: smem2av_codec_id_cases_def)

lemma all_pix: "p \<in> set (map snd smem2av_pix_fmt_cases)"
  by (cases p; simp add: smem2av_pix_fmt_cases_def)

lemma all_samples: "f \<in> set (map snd smem2av_sample_fmt_cases)"
  by (cases f; simp add: smem2av_sample_fmt_cases_def)

theorem conversions_roundtrip_witness:
  "av2smem_codec_id (position (AV_CODEC_ID_NONE # map snd smem2av_codec_id_cases))
     (smem2av_codec_id (position (AV_CODEC_ID_NONE # map snd smem2av_codec_id_cases)) (codec_num SMEM_CODEC_ID_H264)) =
   codec_num SMEM_CODEC_ID_H264"
  using conversions_roundtrip [OF inj_position [OF all_codecs] inj_position [OF all_pix] inj_position [OF all_samples],
      of SMEM_CODEC_ID_H264 AV_CODEC_ID_H264 SMEM_PIX_FMT_NONE AV_PIX_FMT_NONE SMEM_SAMPLE_FMT_NONE AV_SAMPLE_FMT_NONE]
  by (simp add: smem2av_codec_id_cases_def smem2av_pix_fmt_cases_def smem2av_sample_fmt_cases_def)

end
