(* ===== verification/Smem_Layout.thy ===== *)
theory Smem_Layout
  imports Prelude
begin

text \<open>
  The bytes of a share memory segment. A frame travels between the muxer and the
  demuxer of \<open>ffmpeg-device-add\<close> as a \<open>struct memory_info\<close>, an array of \<open>struct
  stream_info\<close> and the data, laid out in one segment by the x86-64 ABI, with integers in
  little endian order (\<open>libavdevice/smem.h\<close>). Accesses outside of a block fault.
\<close>

type_synonym block = "8 word list"

section \<open>Little endian integers\<close>

fun le_enc :: "nat \<Rightarrow> int \<Rightarrow> block" where
  "le_enc 0 v = []"
| "le_enc (Suc n) v = word_of_int v # le_enc n (v div 256)"

fun le_dec :: "block \<Rightarrow> int" where
  "le_dec [] = 0"
| "le_dec (b # bs) = uint b + 256 * le_dec bs"

definition le_signed :: "block \<Rightarrow> int" where
  "le_signed bs =
     (let u = le_dec bs in if 2 * u < 256 ^ length bs then u else u - 256 ^ length bs)"

lemma length_le_enc [simp]: "length (le_enc n v) = n"
  by (induction n arbitrary: v) simp_all

lemma le_dec_enc: "le_dec (le_enc n v) = v mod 256 ^ n"
proof (induction n arbitrary: v)
  case (Suc n)
  have "uint (word_of_int v :: 8 word) = v mod 256" by (simp add: uint_word_of_int)
  with Suc show ?case by (simp add: zmod_zmult2_eq)
qed simp

lemma signed_mod:
  fixes v N :: int
  assumes "0 < N"
  shows "(let u = v mod (2 * N) in if 2 * u < 2 * N then u else u - 2 * N) = (v + N) mod (2 * N) - N"
proof (cases "v mod (2 * N) < N")
  case True
  have "(v + N) mod (2 * N) = (v mod (2 * N) + N) mod (2 * N)" by (simp add: mod_add_left_eq)
  also have "\<dots> = v mod (2 * N) + N"
    using True assms pos_mod_sign [of "2 * N" v] by (intro mod_pos_pos_trivial) linarith+
  finally show ?thesis using True by (simp add: Let_def)
next
  case False
  have "(v + N) mod (2 * N) = (v mod (2 * N) + N) mod (2 * N)" by (simp add: mod_add_left_eq)
  also have "\<dots> = (v mod (2 * N) - N + 2 * N) mod (2 * N)" by (simp add: algebra_simps)
  also have "\<dots> = (v mod (2 * N) - N) mod (2 * N)" by (rule mod_add_self2)
  also have "\<dots> = v mod (2 * N) - N"
    using False assms pos_mod_bound [of "2 * N" v] by (intro mod_pos_pos_trivial) linarith+
  finally show ?thesis using False by (simp add: Let_def)
qed

lemma le_signed_int [simp]: "le_signed (le_enc 4 v) = c_int v"
  using signed_mod [of 2147483648 v] by (simp add: le_signed_def le_dec_enc c_int_def Let_def split: if_splits)

lemma le_signed_llong [simp]: "le_signed (le_enc 8 v) = c_llong v"
  using signed_mod [of 9223372036854775808 v] by (simp add: le_signed_def le_dec_enc c_llong_def Let_def split: if_splits)

section \<open>Access to a block\<close>

definition peek :: "int \<Rightarrow> nat \<Rightarrow> block \<Rightarrow> c_fault + block" where
  "peek off n m =
     (if 0 \<le> off \<and> nat off + n \<le> length m then Inr (take n (drop (nat off) m)) else Inl BufferOverflow)"

definition poke :: "int \<Rightarrow> block \<Rightarrow> block \<Rightarrow> c_fault + block" where
  "poke off bs m =
     (if 0 \<le> off \<and> nat off + length bs \<le> length m
      then Inr (take (nat off) m @ bs @ drop (nat off + length bs) m) else Inl BufferOverflow)"

text \<open>\<open>memcpy\<close> and \<open>memset\<close> take their length as a \<open>size_t\<close>: a negative length is
  larger than any block.\<close>

definition prefix_of :: "int \<Rightarrow> block \<Rightarrow> c_fault + block" where
  "prefix_of n bs = (if 0 \<le> n \<and> nat n \<le> length bs then Inr (take (nat n) bs) else Inl BufferOverflow)"

definition memset0 :: "int \<Rightarrow> block \<Rightarrow> c_fault + block" where
  "memset0 n m = (if 0 \<le> n then poke 0 (replicate (nat n) 0) m else Inl BufferOverflow)"

definition i32 :: "int \<Rightarrow> block" where
  "i32 v = le_enc 4 v"

definition i64 :: "int \<Rightarrow> block" where
  "i64 v = le_enc 8 v"

lemma length_i32 [simp]: "length (i32 v) = 4" by (simp add: i32_def)

lemma length_i64 [simp]: "length (i64 v) = 8" by (simp add: i64_def)

lemma peek_length: "peek off n m = Inr bs \<Longrightarrow> length bs = n"
  by (auto simp: peek_def split: if_splits)

lemma poke_length: "poke off bs m = Inr m' \<Longrightarrow> length m' = length m"
  by (auto simp: poke_def split: if_splits)

lemma poke_defined: "0 \<le> off \<Longrightarrow> nat off + length bs \<le> length m \<Longrightarrow> \<exists>m'. poke off bs m = Inr m'"
  by (simp add: poke_def)

lemma peek_poke_same: "poke off bs m = Inr m' \<Longrightarrow> n = length bs \<Longrightarrow> peek off n m' = Inr bs"
  by (auto simp: poke_def peek_def split: if_splits)

lemma peek_poke_other:
  assumes "poke off bs m = Inr m'" and "off' + int n \<le> off \<or> off + int (length bs) \<le> off'"
  shows "peek off' n m' = peek off' n m"
proof (cases "0 \<le> off' \<and> nat off' + n \<le> length m")
  case True
  have "take n (drop (nat off') m') ! i = take n (drop (nat off') m) ! i" if "i < n" for i
    using assms True that by (auto simp: poke_def nth_append split: if_splits)
  then have "take n (drop (nat off') m') = take n (drop (nat off') m)"
    using True poke_length [OF assms(1)] by (intro nth_equalityI) auto
  with True show ?thesis using poke_length [OF assms(1)] by (simp add: peek_def)
next
  case False
  then show ?thesis using poke_length [OF assms(1)] by (auto simp: peek_def)
qed

section \<open>The structures of smem.h\<close>

definition field :: "nat \<Rightarrow> nat \<Rightarrow> block \<Rightarrow> int" where
  "field off n bs = le_signed (take n (drop off bs))"

record memory_info =
  index :: int
  m_pts :: int
  m_dts :: int
  stream_info_offset :: int
  stream_info_number :: int
  data_offset :: int
  data_size :: int
  is_key :: int
  m_id :: int

abbreviation (input) "sizeof_memory_info \<equiv> (48 :: nat)"

text \<open>The four bytes after \<open>index\<close> align \<open>pts\<close>; the writer has cleared the segment.\<close>

definition memory_info_bytes :: "memory_info \<Rightarrow> block" where
  "memory_info_bytes i =
     i32 (index i) @ replicate 4 0 @ i64 (m_pts i) @ i64 (m_dts i) @ i32 (stream_info_offset i) @
     i32 (stream_info_number i) @ i32 (data_offset i) @ i32 (data_size i) @ i32 (is_key i) @ i32 (m_id i)"

definition memory_info_at :: "block \<Rightarrow> c_fault + memory_info" where
  "memory_info_at m =
     (if length m < sizeof_memory_info then Inl BufferOverflow
      else Inr \<lparr>index = field 0 4 m, m_pts = field 8 8 m, m_dts = field 16 8 m,
                stream_info_offset = field 24 4 m, stream_info_number = field 28 4 m,
                data_offset = field 32 4 m, data_size = field 36 4 m, is_key = field 40 4 m,
                m_id = field 44 4 m\<rparr>)"

record video_stream_info =
  v_width :: int
  v_height :: int
  v_pix_fmt :: int
  v_extradata_size :: int
  v_extradata :: block

record audio_stream_info =
  a_sample_rate :: int
  a_channels :: int
  a_sample_fmt :: int
  a_extradata_size :: int
  a_extradata :: block

abbreviation (input) "EXTRADATA_MAX \<equiv> (128 :: nat)"
abbreviation (input) "sizeof_union \<equiv> (256 :: nat)"

definition video_stream_info_bytes :: "video_stream_info \<Rightarrow> block" where
  "video_stream_info_bytes v =
     i32 (v_width v) @ i32 (v_height v) @ i32 (v_pix_fmt v) @ i32 (v_extradata_size v) @ v_extradata v @ replicate 112 0"

definition video_stream_info_of :: "block \<Rightarrow> video_stream_info" where
  "video_stream_info_of u =
     \<lparr>v_width = field 0 4 u, v_height = field 4 4 u, v_pix_fmt = field 8 4 u, v_extradata_size = field 12 4 u,
      v_extradata = take EXTRADATA_MAX (drop 16 u)\<rparr>"

definition audio_stream_info_bytes :: "audio_stream_info \<Rightarrow> block" where
  "audio_stream_info_bytes a =
     i32 (a_sample_rate a) @ i32 (a_channels a) @ i32 (a_sample_fmt a) @ i32 (a_extradata_size a) @ a_extradata a @ replicate 112 0"

definition audio_stream_info_of :: "block \<Rightarrow> audio_stream_info" where
  "audio_stream_info_of u =
     \<lparr>a_sample_rate = field 0 4 u, a_channels = field 4 4 u, a_sample_fmt = field 8 4 u, a_extradata_size = field 12 4 u,
      a_extradata = take EXTRADATA_MAX (drop 16 u)\<rparr>"

text \<open>The union is kept as its bytes.\<close>

record stream_info =
  s_index :: int
  s_codec_type :: int
  s_codec_id :: int
  s_stream_id :: int
  s_time_base :: "int \<times> int"
  s_info :: block

abbreviation (input) "sizeof_stream_info \<equiv> (280 :: nat)"

definition stream_info_bytes :: "stream_info \<Rightarrow> block" where
  "stream_info_bytes s =
     i32 (s_index s) @ i32 (s_codec_type s) @ i32 (s_codec_id s) @ i32 (s_stream_id s) @
     i32 (fst (s_time_base s)) @ i32 (snd (s_time_base s)) @ s_info s"

definition stream_info_of :: "block \<Rightarrow> stream_info" where
  "stream_info_of b =
     \<lparr>s_index = field 0 4 b, s_codec_type = field 4 4 b, s_codec_id = field 8 4 b, s_stream_id = field 12 4 b,
      s_time_base = (field 16 4 b, field 20 4 b), s_info = take sizeof_union (drop 24 b)\<rparr>"

definition stream_infos_bytes :: "stream_info list \<Rightarrow> block" where
  "stream_infos_bytes ss = concat (map stream_info_bytes ss)"

fun stream_infos_of :: "nat \<Rightarrow> block \<Rightarrow> stream_info list" where
  "stream_infos_of 0 b = []"
| "stream_infos_of (Suc n) b = stream_info_of (take sizeof_stream_info b) # stream_infos_of n (drop sizeof_stream_info b)"

section \<open>Round trips of the structures\<close>

text \<open>The values a structure of the header can hold.\<close>

definition memory_info_ok :: "memory_info \<Rightarrow> bool" where
  "memory_info_ok i \<longleftrightarrow>
     int_range (index i) \<and> llong_range (m_pts i) \<and> llong_range (m_dts i) \<and> int_range (stream_info_offset i) \<and>
     int_range (stream_info_number i) \<and> int_range (data_offset i) \<and> int_range (data_size i) \<and> int_range (is_key i) \<and> int_range (m_id i)"

definition video_stream_info_ok :: "video_stream_info \<Rightarrow> bool" where
  "video_stream_info_ok v \<longleftrightarrow>
     int_range (v_width v) \<and> int_range (v_height v) \<and> int_range (v_pix_fmt v) \<and> int_range (v_extradata_size v) \<and>
     length (v_extradata v) = EXTRADATA_MAX"

definition audio_stream_info_ok :: "audio_stream_info \<Rightarrow> bool" where
  "audio_stream_info_ok a \<longleftrightarrow>
     int_range (a_sample_rate a) \<and> int_range (a_channels a) \<and> int_range (a_sample_fmt a) \<and> int_range (a_extradata_size a) \<and>
     length (a_extradata a) = EXTRADATA_MAX"

definition stream_info_ok :: "stream_info \<Rightarrow> bool" where
  "stream_info_ok s \<longleftrightarrow>
     int_range (s_index s) \<and> int_range (s_codec_type s) \<and> int_range (s_codec_id s) \<and> int_range (s_stream_id s) \<and>
     int_range (fst (s_time_base s)) \<and> int_range (snd (s_time_base s)) \<and> length (s_info s) = sizeof_union"

lemma field_i32 [simp]: "field 0 4 (i32 v @ r) = c_int v"
  by (simp add: field_def) (simp add: i32_def)

lemma field_i64 [simp]: "field 0 8 (i64 v @ r) = c_llong v"
  by (simp add: field_def) (simp add: i64_def)

lemma field_skip: "length a \<le> off \<Longrightarrow> field off n (a @ r) = field (off - length a) n r"
  by (simp add: field_def)

lemma length_memory_info_bytes [simp]: "length (memory_info_bytes i) = sizeof_memory_info"
  by (simp add: memory_info_bytes_def)

lemma length_video_stream_info_bytes: "length (v_extradata v) = EXTRADATA_MAX \<Longrightarrow> length (video_stream_info_bytes v) = sizeof_union"
  by (simp add: video_stream_info_bytes_def)

lemma length_audio_stream_info_bytes: "length (a_extradata a) = EXTRADATA_MAX \<Longrightarrow> length (audio_stream_info_bytes a) = sizeof_union"
  by (simp add: audio_stream_info_bytes_def)

lemma length_stream_info_bytes: "length (s_info s) = sizeof_union \<Longrightarrow> length (stream_info_bytes s) = sizeof_stream_info"
  by (simp add: stream_info_bytes_def)

lemma length_stream_infos_bytes:
  "\<forall>s\<in>set ss. length (s_info s) = sizeof_union \<Longrightarrow> length (stream_infos_bytes ss) = sizeof_stream_info * length ss"
  by (induction ss) (simp_all add: stream_infos_bytes_def length_stream_info_bytes)

lemma memory_info_roundtrip: "memory_info_ok i \<Longrightarrow> memory_info_at (memory_info_bytes i @ r) = Inr i"
  by (simp add: memory_info_at_def memory_info_ok_def c_int_id c_llong_id)
    (simp add: memory_info_bytes_def field_skip c_int_id c_llong_id)

lemma video_stream_info_roundtrip: "video_stream_info_ok v \<Longrightarrow> video_stream_info_of (video_stream_info_bytes v) = v"
  by (simp add: video_stream_info_of_def video_stream_info_ok_def video_stream_info_bytes_def field_skip c_int_id)

lemma audio_stream_info_roundtrip: "audio_stream_info_ok a \<Longrightarrow> audio_stream_info_of (audio_stream_info_bytes a) = a"
  by (simp add: audio_stream_info_of_def audio_stream_info_ok_def audio_stream_info_bytes_def field_skip c_int_id)

lemma stream_info_roundtrip: "stream_info_ok s \<Longrightarrow> stream_info_of (stream_info_bytes s) = s"
  by (simp add: stream_info_of_def stream_info_ok_def stream_info_bytes_def field_skip c_int_id)

lemma stream_infos_roundtrip:
  "\<forall>s\<in>set ss. stream_info_ok s \<Longrightarrow> stream_infos_of (length ss) (stream_infos_bytes ss @ r) = ss"
proof (induction ss)
  case (Cons s ss)
  then have "length (stream_info_bytes s) = 280" by (simp add: length_stream_info_bytes stream_info_ok_def)
  with Cons show ?case by (simp add: stream_infos_bytes_def stream_info_roundtrip)
qed (simp add: stream_infos_bytes_def)

end
