(* ===== verification/Smem_Device.thy ===== *)
theory Smem_Device
  imports Smem_Client Smem_Media Smem_Layout
begin

text \<open>
  What the two FFmpeg devices (\<open>ffmpeg-device-add/src/ffmpeg-3.0.2/libavdevice/smem_enc.c\<close>
  and \<open>smem_dec.c\<close>) share: the share memory segments with their contents and the
  attachments of the process, the parts of FFmpeg's streams and packets they use, and what
  they call of FFmpeg, hiredis and the kernel as fields of a parameter.
\<close>

section \<open>Segments\<close>

text \<open>\<open>outside\<close> is everything else commands to the server may read and change.\<close>

record 'w shm_world =
  segs :: "int \<rightharpoonup> block"
  attached :: "int \<Rightarrow> nat"
  outside :: 'w

section \<open>Streams and packets of FFmpeg\<close>

record av_stream =
  st_id :: int
  st_codec_type :: int
  st_codec_id :: int
  st_time_base :: "int \<times> int"
  st_sample_rate :: int
  st_channels :: int
  st_sample_fmt :: int
  st_width :: int
  st_height :: int
  st_pix_fmt :: int
  st_extradata :: block

text \<open>\<open>extradata_size\<close> is the length of the extradata. Of the flags of a packet the devices use
  \<open>AV_PKT_FLAG_KEY\<close>.\<close>

record av_packet =
  stream_index :: int
  pts :: int
  dts :: int
  key_flag :: bool
  pkt_data :: block
  pkt_size :: int

section \<open>The environment\<close>

record 'w dev_env =
  avm :: "AVMediaType \<Rightarrow> int"
  avc :: "AVCodecID \<Rightarrow> int"
  avp :: "AVPixelFormat \<Rightarrow> int"
  avs :: "AVSampleFormat \<Rightarrow> int"
  averror_eio :: int
  av_image_get_buffer_size :: "int \<Rightarrow> int \<Rightarrow> int \<Rightarrow> int \<Rightarrow> int"
  av_rescale_q :: "int \<Rightarrow> int \<times> int \<Rightarrow> int \<times> int \<Rightarrow> int"
  av_malloc_ok :: bool
  calloc_ok :: bool
  command :: "'w shm_world redisCommand"
  connect_ip :: "string \<Rightarrow> int \<Rightarrow> 'w shm_world redisConnect"
  connect_unix :: "string \<Rightarrow> 'w shm_world redisConnect"
  redisFree :: "nat \<Rightarrow> 'w shm_world \<Rightarrow> 'w shm_world"
  shmat_denied :: "int \<Rightarrow> 'w shm_world \<Rightarrow> bool"
  shmdt_fails :: "int \<Rightarrow> 'w shm_world \<Rightarrow> bool"

definition shmat :: "'w dev_env \<Rightarrow> int \<Rightarrow> 'w shm_world \<Rightarrow> block option \<times> 'w shm_world" where
  "shmat E i w =
     (case segs w i of
        None \<Rightarrow> (None, w)
      | Some b \<Rightarrow>
          if shmat_denied E i w then (None, w)
          else (Some b, w\<lparr>attached := (attached w)(i := attached w i + 1)\<rparr>))"

definition shmdt :: "'w dev_env \<Rightarrow> int \<Rightarrow> 'w shm_world \<Rightarrow> int \<times> 'w shm_world" where
  "shmdt E i w =
     (if shmdt_fails E i w then (-1, w)
      else (0, w\<lparr>attached := (attached w)(i := attached w i - 1)\<rparr>))"

definition store_seg :: "int \<Rightarrow> block \<Rightarrow> 'w shm_world \<Rightarrow> 'w shm_world" where
  "store_seg i b w = w\<lparr>segs := (segs w)(i \<mapsto> b)\<rparr>"

text \<open>The context of the client library as the devices hold it: a pointer that may be NULL, and
  whether its target was freed. Every call of the library reads through the pointer.\<close>

definition live_ctx :: "bool \<Rightarrow> c_fault + unit" where
  "live_ctx freed = (if freed then Inl UseAfterFree else Inr ())"

definition free_ctx :: "'w dev_env \<Rightarrow> smemContext option \<Rightarrow> 'w shm_world \<Rightarrow> 'w shm_world" where
  "free_ctx E co w = fold (redisFree E) (smemFree co) w"

text \<open>The check both headers make after connecting: a context with an error is freed, and its
  pointer kept.\<close>

definition check_connection ::
    "'w dev_env \<Rightarrow> smemContext option \<Rightarrow> 'w shm_world \<Rightarrow> bool \<times> 'w shm_world" where
  "check_connection E co w =
     (case co of
        None \<Rightarrow> (False, w)
      | Some c \<Rightarrow> if err c < 0 then (True, free_ctx E (Some c) w) else (False, w))"

lemma shmat_shmdt:
  assumes "shmat E i w = (Some b, w1)" and "segs w2 = segs w1" and "attached w2 = attached w1" and "\<not> shmdt_fails E i w2"
  shows "attached (snd (shmdt E i w2)) = attached w \<and> segs (snd (shmdt E i w2)) = segs w"
  using assms by (auto simp: shmat_def shmdt_def split: option.splits if_splits)

definition media_value :: "AVMediaType \<Rightarrow> int" where
  "media_value t =
     (case t of AVMEDIA_TYPE_UNKNOWN \<Rightarrow> -1 | AVMEDIA_TYPE_VIDEO \<Rightarrow> 0 | AVMEDIA_TYPE_AUDIO \<Rightarrow> 1 |
        AVMEDIA_TYPE_DATA \<Rightarrow> 2 | AVMEDIA_TYPE_SUBTITLE \<Rightarrow> 3)"

text \<open>A server with one segment, for the witnesses.\<close>

definition demo_world :: "unit shm_world" where
  "demo_world = \<lparr>segs = Map.empty, attached = (\<lambda>_. 0), outside = ()\<rparr>"

definition demo_dev :: "unit dev_env" where
  "demo_dev =
     \<lparr>avm = media_value, avc = position (AV_CODEC_ID_NONE # map snd smem2av_codec_id_cases),
      avp = position (map snd smem2av_pix_fmt_cases), avs = position (map snd smem2av_sample_fmt_cases),
      averror_eio = -5, av_image_get_buffer_size = (\<lambda>f x y a. x * y), av_rescale_q = (\<lambda>t p q. t),
      av_malloc_ok = True, calloc_ok = True,
      command = (\<lambda>h args w. if hd args = ''SMEMGET'' then (Some (REDIS_REPLY_INTEGER 5), w\<lparr>segs := (segs w)(5 \<mapsto> replicate 400 1)\<rparr>)
                            else (Some (REDIS_REPLY_INTEGER 1), w)),
      connect_ip = (\<lambda>ip p w. (Some (3, False), w)), connect_unix = (\<lambda>p w. (Some (3, False), w)),
      redisFree = (\<lambda>h w. w), shmat_denied = (\<lambda>i w. False), shmdt_fails = (\<lambda>i w. False)\<rparr>"

end
