(* ===== verification/Smem_Mux.thy ===== *)
theory Smem_Mux
  imports Smem_Device
begin

text \<open>
  The muxer \<open>smem_enc.c\<close>: it describes its streams once, and for every packet asks the server
  for a segment, writes the \<open>memory_info\<close>, the stream descriptions and the data into it, and
  publishes its id.
\<close>

record smem_enc_ctx =
  e_sctx :: "smemContext option"
  e_sctx_freed :: bool
  e_stream_number :: int
  e_stream_infos :: "stream_info list"
  e_stream_info_size :: int
  e_pic_size :: int
  e_width :: int
  e_height :: int
  e_path :: "string option"
  e_port :: int

section \<open>The header\<close>

text \<open>\<open>memcpy\<close> of the extradata into its array of 128 zero bytes.\<close>

definition copy_extradata :: "block \<Rightarrow> c_fault + block" where
  "copy_extradata d =
     (if length d \<le> EXTRADATA_MAX then Inr (d @ replicate (EXTRADATA_MAX - length d) 0) else Inl BufferOverflow)"

definition audio_info :: "'w dev_env \<Rightarrow> int \<Rightarrow> av_stream \<Rightarrow> c_fault + stream_info" where
  "audio_info E n st =
     bindE (copy_extradata (st_extradata st)) (\<lambda>x.
       Inr \<lparr>s_index = n, s_codec_type = media_num SMEM_MEDIA_TYPE_AUDIO,
            s_codec_id = av2smem_codec_id (avc E) (st_codec_id st), s_stream_id = st_id st,
            s_time_base = st_time_base st,
            s_info = audio_stream_info_bytes
              \<lparr>a_sample_rate = st_sample_rate st, a_channels = st_channels st,
               a_sample_fmt = av2smem_sample_fmt (avs E) (st_sample_fmt st),
               a_extradata_size = int (length (st_extradata st)), a_extradata = x\<rparr>\<rparr>)"

definition video_info :: "'w dev_env \<Rightarrow> int \<Rightarrow> av_stream \<Rightarrow> c_fault + stream_info" where
  "video_info E n st =
     bindE (copy_extradata (st_extradata st)) (\<lambda>x.
       Inr \<lparr>s_index = n, s_codec_type = media_num SMEM_MEDIA_TYPE_VIDEO,
            s_codec_id = av2smem_codec_id (avc E) (st_codec_id st), s_stream_id = st_id st,
            s_time_base = st_time_base st,
            s_info = video_stream_info_bytes
              \<lparr>v_width = st_width st, v_height = st_height st,
               v_pix_fmt = av2smem_pix_fmt (avp E) (st_pix_fmt st),
               v_extradata_size = int (length (st_extradata st)), v_extradata = x\<rparr>\<rparr>)"

text \<open>The loop over the streams; \<open>False\<close> is the jump to the error label. The entries
  of the array that the loop has not reached are zero.\<close>

fun describe_streams ::
    "'w dev_env \<Rightarrow> int \<Rightarrow> av_stream list \<Rightarrow> smem_enc_ctx \<Rightarrow> c_fault + bool \<times> smem_enc_ctx" where
  "describe_streams E n [] cx = Inr (True, cx)"
| "describe_streams E n (st # sts) cx =
     (if st_codec_type st = avm E AVMEDIA_TYPE_AUDIO then
        bindE (audio_info E n st) (\<lambda>s.
          describe_streams E (n + 1) sts (cx\<lparr>e_stream_infos := (e_stream_infos cx)[nat n := s]\<rparr>))
      else if st_codec_type st = avm E AVMEDIA_TYPE_VIDEO then
        bindE (video_info E n st) (\<lambda>s.
          describe_streams E (n + 1) sts
            (cx\<lparr>e_width := st_width st, e_height := st_height st,
                 e_stream_infos := (e_stream_infos cx)[nat n := s],
                 e_pic_size := av_image_get_buffer_size E (st_pix_fmt st) (st_width st) (st_height st) 1\<rparr>))
      else
        Inr (False, cx\<lparr>e_stream_infos :=
               (e_stream_infos cx)[nat n := (e_stream_infos cx ! nat n)\<lparr>s_index := n, s_stream_id := st_id st\<rparr>]\<rparr>))"

definition zero_info :: stream_info where
  "zero_info =
     \<lparr>s_index = 0, s_codec_type = 0, s_codec_id = 0, s_stream_id = 0, s_time_base = (0, 0), s_info = replicate 256 0\<rparr>"

definition ff_smem_write_header ::
    "'w dev_env \<Rightarrow> string \<Rightarrow> av_stream list \<Rightarrow> smem_enc_ctx \<Rightarrow> 'w shm_world \<Rightarrow>
     c_fault + int \<times> smem_enc_ctx \<times> 'w shm_world" where
  "ff_smem_write_header E filename streams cx0 w =
     (let cx1 = cx0\<lparr>e_pic_size := 0\<rparr>
      in if length filename \<le> 0 then Inr (averror_eio E, cx1, w)
      else
        (let n = length streams;
             cx2 = cx1\<lparr>e_stream_number := c_int (int n)\<rparr>
         in if e_stream_number cx2 > 0 \<and> \<not> av_malloc_ok E then Inl NullDeref \<comment> \<open>\<open>memset\<close> comes before the check\<close>
         else
           bindE (describe_streams E 0 streams
                    (if e_stream_number cx2 > 0
                     then cx2\<lparr>e_stream_info_size := c_int (e_stream_number cx2 * int sizeof_stream_info),
                               e_stream_infos := replicate n zero_info\<rparr>
                     else cx2)) (\<lambda>(ok, cx3).
             if \<not> ok then Inr (averror_eio E, cx3, w)
             else
               bindE (case e_path cx3 of
                        None \<Rightarrow> smemCreateProducer (connect_ip E) (redisFree E) (calloc_ok E) ''127.0.0.1'' (e_port cx3) filename w
                      | Some path \<Rightarrow> smemCreateProducerUnix (connect_unix E) (redisFree E) (calloc_ok E) path filename w) (\<lambda>(sctx, w1).
                 case check_connection E sctx w1 of
                   (freed, w2) \<Rightarrow> Inr (0, cx3\<lparr>e_sctx := sctx, e_sctx_freed := freed\<rparr>, w2)))))"

section \<open>Packets\<close>

text \<open>The bodies of the two packet functions differ in the size of the data only.\<close>

definition frame_info :: "smem_enc_ctx \<Rightarrow> av_packet \<Rightarrow> int \<Rightarrow> int \<Rightarrow> memory_info" where
  "frame_info cx pkt n mem_id =
     \<lparr>index = stream_index pkt, m_pts = pts pkt, m_dts = dts pkt,
      stream_info_offset = int sizeof_memory_info, stream_info_number = e_stream_number cx,
      data_offset = c_int (int sizeof_memory_info + e_stream_info_size cx), data_size = n,
      is_key = (if key_flag pkt then 1 else 0), m_id = mem_id\<rparr>"

definition fill_frame :: "smem_enc_ctx \<Rightarrow> av_packet \<Rightarrow> int \<Rightarrow> int \<Rightarrow> int \<Rightarrow> block \<Rightarrow> c_fault + block" where
  "fill_frame cx pkt n mem_size mem_id b =
     (let mi = frame_info cx pkt n mem_id
      in bindE (memset0 mem_size b) (\<lambda>b1.
         bindE (poke 0 (memory_info_bytes mi) b1) (\<lambda>b2.
         bindE (prefix_of (e_stream_info_size cx) (stream_infos_bytes (e_stream_infos cx))) (\<lambda>ss.
         bindE (poke (stream_info_offset mi) ss b2) (\<lambda>b3.
         bindE (prefix_of (data_size mi) (pkt_data pkt)) (\<lambda>d.
         poke (data_offset mi) d b3))))))"

definition write_frame ::
    "'w dev_env \<Rightarrow> smem_enc_ctx \<Rightarrow> av_packet \<Rightarrow> int \<Rightarrow> 'w shm_world \<Rightarrow> c_fault + int \<times> smem_enc_ctx \<times> 'w shm_world" where
  "write_frame E cx pkt n w =
     bindE (live_ctx (e_sctx_freed cx)) (\<lambda>_.
       let mem_size = c_int (int sizeof_memory_info + e_stream_info_size cx + n)
       in case smemGetShareMemory (command E) (e_sctx cx) mem_size w of
            (mem_id, sctx, w1) \<Rightarrow>
              let cx1 = cx\<lparr>e_sctx := sctx\<rparr>
              in if mem_id = -1 then Inr (0, cx1, w1)
                 else
                   (case shmat E mem_id w1 of
                      (None, w2) \<Rightarrow> Inr (0, cx1, w2)
                    | (Some b, w2) \<Rightarrow>
                        bindE (fill_frame cx1 pkt n mem_size mem_id b) (\<lambda>b1.
                          case shmdt E mem_id (store_seg mem_id b1 w2) of
                            (r, w3) \<Rightarrow>
                              if r < 0 then Inr (-1, cx1, w3)
                              else Inr (0, cx1, smemPublish (command E) (e_sctx cx1) mem_id w3))))"

definition ff_smem_write_video_packet ::
    "'w dev_env \<Rightarrow> smem_enc_ctx \<Rightarrow> av_packet \<Rightarrow> 'w shm_world \<Rightarrow> c_fault + int \<times> smem_enc_ctx \<times> 'w shm_world" where
  "ff_smem_write_video_packet E cx pkt w = write_frame E cx pkt (e_pic_size cx) w"

definition ff_smem_write_audio_packet ::
    "'w dev_env \<Rightarrow> smem_enc_ctx \<Rightarrow> av_packet \<Rightarrow> 'w shm_world \<Rightarrow> c_fault + int \<times> smem_enc_ctx \<times> 'w shm_world" where
  "ff_smem_write_audio_packet E cx pkt w = write_frame E cx pkt (pkt_size pkt) w"

definition ff_smem_write_packet ::
    "'w dev_env \<Rightarrow> av_stream list \<Rightarrow> smem_enc_ctx \<Rightarrow> av_packet \<Rightarrow> 'w shm_world \<Rightarrow>
     c_fault + int \<times> smem_enc_ctx \<times> 'w shm_world" where
  "ff_smem_write_packet E streams cx pkt w =
     (if stream_index pkt < 0 \<or> int (length streams) \<le> stream_index pkt then Inl BufferOverflow
      else
        (let st = streams ! nat (stream_index pkt)
         in if st_codec_type st = avm E AVMEDIA_TYPE_VIDEO then
              (if st_codec_id st = avc E AV_CODEC_ID_RAWVIDEO then ff_smem_write_video_packet E cx pkt w
               else ff_smem_write_audio_packet E cx pkt w)
            else if st_codec_type st = avm E AVMEDIA_TYPE_AUDIO then ff_smem_write_audio_packet E cx pkt w
            else Inr (averror_eio E, cx, w)))"

definition ff_smem_write_close ::
    "'w dev_env \<Rightarrow> smem_enc_ctx \<Rightarrow> 'w shm_world \<Rightarrow> c_fault + int \<times> 'w shm_world" where
  "ff_smem_write_close E cx w =
     (case e_sctx cx of
        None \<Rightarrow> Inr (0, w)
      | Some c \<Rightarrow> bindE (live_ctx (e_sctx_freed cx)) (\<lambda>_. Inr (0, free_ctx E (Some c) w)))"

section \<open>What a packet function writes\<close>

text \<open>A context whose header has been written: the array of stream descriptions has the size
  the context says.\<close>

definition enc_ready :: "smem_enc_ctx \<Rightarrow> bool" where
  "enc_ready cx \<longleftrightarrow>
     e_stream_number cx = int (length (e_stream_infos cx)) \<and>
     e_stream_info_size cx = int (sizeof_stream_info * length (e_stream_infos cx)) \<and>
     (\<forall>s\<in>set (e_stream_infos cx). stream_info_ok s)"

definition frame_bytes :: "smem_enc_ctx \<Rightarrow> av_packet \<Rightarrow> int \<Rightarrow> int \<Rightarrow> block" where
  "frame_bytes cx pkt n mem_id =
     memory_info_bytes (frame_info cx pkt n mem_id) @ stream_infos_bytes (e_stream_infos cx) @ take (nat n) (pkt_data pkt)"

definition frame_size :: "smem_enc_ctx \<Rightarrow> int \<Rightarrow> int" where
  "frame_size cx n = int sizeof_memory_info + e_stream_info_size cx + n"

lemma enc_ready_bytes: "enc_ready cx \<Longrightarrow> int (length (stream_infos_bytes (e_stream_infos cx))) = e_stream_info_size cx"
  by (subst length_stream_infos_bytes) (simp_all add: enc_ready_def stream_info_ok_def)

lemma length_frame_bytes:
  "enc_ready cx \<Longrightarrow> 0 \<le> n \<Longrightarrow> nat n \<le> length (pkt_data pkt) \<Longrightarrow> int (length (frame_bytes cx pkt n i)) = frame_size cx n"
  using enc_ready_bytes [of cx] by (simp add: frame_bytes_def frame_size_def)

lemma prefix_of_all: "prefix_of (int (length b)) b = Inr b"
  by (simp add: prefix_of_def)

lemma poke_middle: "length p = nat off \<Longrightarrow> length q = length bs \<Longrightarrow> 0 \<le> off \<Longrightarrow> poke off bs (p @ q @ r) = Inr (p @ bs @ r)"
  by (simp add: poke_def)

lemma split_block:
  assumes "k \<le> length (b :: block)"
  obtains p q where "b = p @ q" and "length p = k"
  using assms by (metis append_take_drop_id length_take min.absorb2)

lemma fill_frame_bytes:
  assumes r: "enc_ready cx" and n: "0 \<le> n" "nat n \<le> length (pkt_data pkt)"
    and fits: "frame_size cx n < 2 ^ 31" and b: "nat (frame_size cx n) \<le> length b"
  shows "fill_frame cx pkt n (frame_size cx n) i b = Inr (frame_bytes cx pkt n i @ drop (nat (frame_size cx n)) b)"
proof -
  let ?ss = "stream_infos_bytes (e_stream_infos cx)" and ?mi = "frame_info cx pkt n i"
  let ?k = "length ?ss" and ?d = "take (nat n) (pkt_data pkt)" and ?rest = "drop (nat (frame_size cx n)) b"
  have k: "e_stream_info_size cx = int ?k" using enc_ready_bytes [OF r] by simp
  have sz: "frame_size cx n = 48 + int ?k + n" by (simp add: frame_size_def k)
  have off: "data_offset ?mi = 48 + int ?k" "data_size ?mi = n" "stream_info_offset ?mi = 48"
    using fits n by (simp_all add: frame_info_def k frame_size_def c_int_id int_range_def)
  have nsz: "nat (frame_size cx n) = 48 + (?k + nat n)" "0 \<le> frame_size cx n" using n by (simp_all add: sz)
  have zeros: "replicate (nat (frame_size cx n)) (0 :: 8 word) = replicate 48 0 @ replicate ?k 0 @ replicate (nat n) 0"
    unfolding nsz replicate_add by simp
  have "memset0 (frame_size cx n) b = Inr (replicate 48 0 @ replicate ?k 0 @ replicate (nat n) 0 @ ?rest)"
    using b nsz(2) unfolding memset0_def poke_def zeros by (simp add: nsz(1))
  moreover have "poke 0 (memory_info_bytes ?mi) (replicate 48 0 @ replicate ?k 0 @ replicate (nat n) 0 @ ?rest) =
      Inr (memory_info_bytes ?mi @ replicate ?k 0 @ replicate (nat n) 0 @ ?rest)"
    using poke_middle [of "[]" 0 "replicate 48 0" "memory_info_bytes ?mi"] by simp
  moreover have "poke 48 ?ss (memory_info_bytes ?mi @ replicate ?k 0 @ replicate (nat n) 0 @ ?rest) =
      Inr (memory_info_bytes ?mi @ ?ss @ replicate (nat n) 0 @ ?rest)"
    by (rule poke_middle) simp_all
  moreover have "prefix_of n (pkt_data pkt) = Inr ?d" using n by (simp add: prefix_of_def)
  moreover have "poke (48 + int ?k) ?d ((memory_info_bytes ?mi @ ?ss) @ replicate (nat n) 0 @ ?rest) =
      Inr ((memory_info_bytes ?mi @ ?ss) @ ?d @ ?rest)"
    by (rule poke_middle) (use n in simp_all)
  ultimately show ?thesis
    unfolding fill_frame_def Let_def off by (simp add: k prefix_of_all frame_bytes_def)
qed

definition data_len :: "'w dev_env \<Rightarrow> av_stream list \<Rightarrow> smem_enc_ctx \<Rightarrow> av_packet \<Rightarrow> int" where
  "data_len E streams cx pkt =
     (let st = streams ! nat (stream_index pkt)
      in if st_codec_type st = avm E AVMEDIA_TYPE_VIDEO \<and> st_codec_id st = avc E AV_CODEC_ID_RAWVIDEO
         then e_pic_size cx else pkt_size pkt)"

definition av_type :: "'w dev_env \<Rightarrow> av_stream \<Rightarrow> bool" where
  "av_type E st \<longleftrightarrow> st_codec_type st = avm E AVMEDIA_TYPE_AUDIO \<or> st_codec_type st = avm E AVMEDIA_TYPE_VIDEO"

lemma write_packet_frame:
  assumes "0 \<le> stream_index pkt" and "stream_index pkt < int (length streams)" and "av_type E (streams ! nat (stream_index pkt))"
  shows "ff_smem_write_packet E streams cx pkt w = write_frame E cx pkt (data_len E streams cx pkt) w"
  using assms by (auto simp: ff_smem_write_packet_def ff_smem_write_video_packet_def ff_smem_write_audio_packet_def
      data_len_def Let_def av_type_def)

text \<open>C34: when the server grants a segment and the kernel attaches it, a packet of an audio or video
  stream ends up in that segment as a header with its stream, time stamps, key flag and the
  sizes and offsets of the parts, the descriptions of all streams and its data, with the rest of
  the segment untouched; the segment is detached again and its id published on the channel.\<close>

theorem write_packet_publishes_frame:
  assumes ready: "enc_ready cx" "\<not> e_sctx_freed cx" "e_sctx cx = Some c" "rctx c = Some h" "ctype c = SMEM_CLIENT_TYPE_PRODUCER"
    and stream: "0 \<le> stream_index pkt" "stream_index pkt < int (length streams)" "av_type E (streams ! nat (stream_index pkt))"
    and n: "n = data_len E streams cx pkt" "0 \<le> n" "nat n \<le> length (pkt_data pkt)" "frame_size cx n < 2 ^ 31"
    and server: "command E h [''SMEMGET'', dec_int (frame_size cx n)] w = (Some (REDIS_REPLY_INTEGER i), w1)" "0 \<le> i" "i < 2 ^ 31"
    and kernel: "segs w1 i = Some b" "nat (frame_size cx n) \<le> length b" "\<not> shmat_denied E i w1" "\<And>w. \<not> shmdt_fails E i w"
  shows "ff_smem_write_packet E streams cx pkt w =
    Inr (0, cx, snd (command E h [''SMEMPUBLISH'', channel c, dec_int i]
      (w1\<lparr>segs := (segs w1)(i \<mapsto> frame_bytes cx pkt n i @ drop (nat (frame_size cx n)) b)\<rparr>)))"
proof -
  have pos: "0 < frame_size cx n" using n(2) ready(1) by (simp add: frame_size_def enc_ready_def)
  have msz: "c_int (48 + e_stream_info_size cx + n) = frame_size cx n"
    using n(4) pos by (simp add: frame_size_def c_int_id int_range_def)
  have get: "smemGetShareMemory (command E) (Some c) (frame_size cx n) w = (i, Some c, w1)"
    using pos server ready by (simp add: smemGetShareMemory_def smemProducerGetShareMemory_def c_int_id int_range_def)
  have cx: "cx\<lparr>e_sctx := Some c\<rparr> = cx" using ready(3) by simp
  show ?thesis
    using kernel server(2) ready(3)
    by (simp add: write_packet_frame [OF stream] n(1) [symmetric] write_frame_def live_ctx_def ready(2,4) msz get cx Let_def
        shmat_def fill_frame_bytes [OF ready(1) n(2,3,4) kernel(2)] shmdt_def store_seg_def smemPublish_def)
qed

definition demo_stream :: av_stream where
  "demo_stream =
     \<lparr>st_id = 7, st_codec_type = 1, st_codec_id = position (AV_CODEC_ID_NONE # map snd smem2av_codec_id_cases) AV_CODEC_ID_AAC,
      st_time_base = (1, 90000), st_sample_rate = 44100, st_channels = 2,
      st_sample_fmt = position (map snd smem2av_sample_fmt_cases) AV_SAMPLE_FMT_S16,
      st_width = 0, st_height = 0, st_pix_fmt = 0, st_extradata = [18, 16]\<rparr>"

definition demo_enc :: smem_enc_ctx where
  "demo_enc =
     \<lparr>e_sctx = Some (smemContext_calloc\<lparr>rctx := Some 3, channel := ''live''\<rparr>), e_sctx_freed = False, e_stream_number = 1,
      e_stream_infos = [zero_info\<lparr>s_codec_type := 1\<rparr>], e_stream_info_size = 280, e_pic_size = 0, e_width = 0, e_height = 0,
      e_path = None, e_port = 6379\<rparr>"

definition demo_packet :: av_packet where
  "demo_packet = \<lparr>stream_index = 0, pts = 3600, dts = 1800, key_flag = True, pkt_data = [1, 2, 3], pkt_size = 3\<rparr>"

theorem write_packet_publishes_frame_witness:
  "\<exists>w. ff_smem_write_packet demo_dev [demo_stream] demo_enc demo_packet demo_world = Inr (0, demo_enc, w) \<and>
     segs w 5 = Some (frame_bytes demo_enc demo_packet 3 5 @ replicate 69 1)"
proof -
  let ?w1 = "demo_world\<lparr>segs := [5 \<mapsto> replicate 400 1]\<rparr>"
  have "ff_smem_write_packet demo_dev [demo_stream] demo_enc demo_packet demo_world =
    Inr (0, demo_enc, snd (command demo_dev 3 [''SMEMPUBLISH'', channel (the (e_sctx demo_enc)), dec_int 5]
      (?w1\<lparr>segs := (segs ?w1)(5 \<mapsto> frame_bytes demo_enc demo_packet 3 5 @ drop (nat (frame_size demo_enc 3)) (replicate 400 1))\<rparr>)))"
    by (rule write_packet_publishes_frame)
      (simp_all add: demo_dev_def demo_enc_def demo_packet_def demo_stream_def demo_world_def smemContext_calloc_def enc_ready_def
        stream_info_ok_def zero_info_def int_range_def av_type_def media_value_def data_len_def frame_size_def)
  then show ?thesis by (simp add: demo_dev_def frame_size_def demo_enc_def)
qed

section \<open>The header\<close>

definition described :: "'w dev_env \<Rightarrow> int \<Rightarrow> av_stream \<Rightarrow> stream_info \<Rightarrow> bool" where
  "described E n st s \<longleftrightarrow>
     (if st_codec_type st = avm E AVMEDIA_TYPE_AUDIO then audio_info E n st = Inr s else video_info E n st = Inr s)"

definition supported :: "'w dev_env \<Rightarrow> av_stream \<Rightarrow> bool" where
  "supported E st \<longleftrightarrow> av_type E st \<and> length (st_extradata st) \<le> EXTRADATA_MAX"

lemma supported_described: "supported E st \<Longrightarrow> \<exists>s. described E n st s"
  by (auto simp: supported_def described_def audio_info_def video_info_def copy_extradata_def)

lemma describe_streams_ok:
  "\<forall>st\<in>set sts. supported E st \<Longrightarrow> length (e_stream_infos cx) = k + length sts \<Longrightarrow>
     \<exists>cx' ds. describe_streams E (int k) sts cx = Inr (True, cx') \<and> e_stream_infos cx' = take k (e_stream_infos cx) @ ds \<and>
       length ds = length sts \<and> (\<forall>j<length sts. described E (int (k + j)) (sts ! j) (ds ! j)) \<and>
       e_path cx' = e_path cx \<and> e_port cx' = e_port cx \<and> e_stream_number cx' = e_stream_number cx \<and>
       e_stream_info_size cx' = e_stream_info_size cx"
proof (induction sts arbitrary: k cx)
  case (Cons st sts)
  obtain s where s: "described E (int k) st s" using supported_described Cons.prems(1) by fastforce
  define cx1 where "cx1 = (if st_codec_type st = avm E AVMEDIA_TYPE_AUDIO then cx\<lparr>e_stream_infos := (e_stream_infos cx)[k := s]\<rparr>
    else cx\<lparr>e_width := st_width st, e_height := st_height st, e_stream_infos := (e_stream_infos cx)[k := s],
       e_pic_size := av_image_get_buffer_size E (st_pix_fmt st) (st_width st) (st_height st) 1\<rparr>)"
  have step: "describe_streams E (int k) (st # sts) cx = describe_streams E (int (Suc k)) sts cx1"
    using s Cons.prems(1) by (auto simp: described_def cx1_def supported_def av_type_def add.commute)
  have cx1: "e_stream_infos cx1 = (e_stream_infos cx)[k := s]" "e_path cx1 = e_path cx" "e_port cx1 = e_port cx"
    "e_stream_number cx1 = e_stream_number cx" "e_stream_info_size cx1 = e_stream_info_size cx"
    by (simp_all add: cx1_def)
  obtain cx' ds where IH: "describe_streams E (int (Suc k)) sts cx1 = Inr (True, cx')"
      "e_stream_infos cx' = take (Suc k) (e_stream_infos cx1) @ ds" "length ds = length sts"
      "\<forall>j<length sts. described E (int (Suc k + j)) (sts ! j) (ds ! j)"
      "e_path cx' = e_path cx1" "e_port cx' = e_port cx1" "e_stream_number cx' = e_stream_number cx1"
      "e_stream_info_size cx' = e_stream_info_size cx1"
    using Cons.IH [where k = "Suc k" and cx = cx1] Cons.prems cx1(1) by auto
  have "take (Suc k) (e_stream_infos cx1) = take k (e_stream_infos cx) @ [s]"
    using Cons.prems(2) by (simp add: cx1 take_Suc_conv_app_nth)
  moreover have "described E (int (k + j)) ((st # sts) ! j) ((s # ds) ! j)" if "j < Suc (length sts)" for j
    using s IH(4) that by (cases j) auto
  ultimately show ?case using IH cx1 unfolding step by (intro exI [of _ cx'] exI [of _ "s # ds"]) simp
qed simp

text \<open>The values of a stream that fit the structures.\<close>

definition stream_ok :: "av_stream \<Rightarrow> bool" where
  "stream_ok st \<longleftrightarrow>
     int_range (st_id st) \<and> int_range (fst (st_time_base st)) \<and> int_range (snd (st_time_base st)) \<and>
     int_range (st_sample_rate st) \<and> int_range (st_channels st) \<and> int_range (st_width st) \<and> int_range (st_height st)"

lemma switch_range:
  "int_range d \<Longrightarrow> \<forall>(x, y)\<in>set cs. int_range y \<Longrightarrow> int_range (switch cs d x)"
  by (auto simp: switch_def split: option.split dest: map_of_SomeD)

lemma codec_num_range: "int_range (codec_num c)"
  by (cases c) (simp_all add: codec_num_def SMemCodecID_values_def int_range_def)

lemma pix_num_range: "int_range (pix_num c)"
  by (cases c) (simp_all add: pix_num_def SMemPixelFormat_values_def int_range_def)

lemma sample_num_range: "int_range (sample_num c)"
  by (cases c) (simp_all add: sample_num_def SMemSampleFormat_values_def int_range_def)

lemma av2smem_range:
  "int_range (av2smem_codec_id f x)" "int_range (av2smem_pix_fmt g x)" "int_range (av2smem_sample_fmt h x)"
  unfolding av2smem_codec_id_def av2smem_pix_fmt_def av2smem_sample_fmt_def
  by (rule switch_range; auto simp: codec_num_range pix_num_range sample_num_range)+

lemma length_copy_extradata: "copy_extradata d = Inr x \<Longrightarrow> length x = EXTRADATA_MAX \<and> length d \<le> EXTRADATA_MAX \<and> take (length d) x = d"
  by (auto simp: copy_extradata_def split: if_splits)

lemma described_ok:
  assumes "described E n st s" and "stream_ok st" and "int_range n"
  shows "stream_info_ok s"
proof -
  have "int_range (media_num SMEM_MEDIA_TYPE_AUDIO)" "int_range (media_num SMEM_MEDIA_TYPE_VIDEO)"
    by (simp_all add: media_num_def SMemMediaType_values_def int_range_def)
  with assms show ?thesis
    by (auto simp: described_def audio_info_def video_info_def bindE_eq_Inr stream_info_ok_def stream_ok_def av2smem_range
        length_video_stream_info_bytes length_audio_stream_info_bytes dest!: length_copy_extradata split: if_splits)
qed

lemma write_header_run:
  assumes fname: "filename \<noteq> []" and sts: "\<forall>st\<in>set sts. supported E st \<and> stream_ok st"
    and num: "sts \<noteq> []" "280 * int (length sts) < 2 ^ 31" and mem: "av_malloc_ok E"
  shows "\<exists>cx'. ff_smem_write_header E filename sts cx w =
      bindE (case e_path cx of
               None \<Rightarrow> smemCreateProducer (connect_ip E) (redisFree E) (calloc_ok E) ''127.0.0.1'' (e_port cx) filename w
             | Some path \<Rightarrow> smemCreateProducerUnix (connect_unix E) (redisFree E) (calloc_ok E) path filename w) (\<lambda>(sctx, w1).
        case check_connection E sctx w1 of (freed, w2) \<Rightarrow> Inr (0, cx'\<lparr>e_sctx := sctx, e_sctx_freed := freed\<rparr>, w2)) \<and>
    enc_ready cx' \<and> length (e_stream_infos cx') = length sts \<and>
    (\<forall>j<length sts. described E (int j) (sts ! j) (e_stream_infos cx' ! j))"
proof -
  let ?n = "length sts"
  let ?cx = "cx\<lparr>e_pic_size := 0, e_stream_number := int ?n, e_stream_info_size := int ?n * 280, e_stream_infos := replicate ?n zero_info\<rparr>"
  have n: "c_int (int ?n) = int ?n" "c_int (int ?n * 280) = int ?n * 280" "0 < ?n"
    using num by (simp_all add: c_int_id int_range_def)
  obtain cx' where d: "describe_streams E 0 sts ?cx = Inr (True, cx')" "length (e_stream_infos cx') = ?n"
      "\<forall>j<?n. described E (int j) (sts ! j) (e_stream_infos cx' ! j)" "e_path cx' = e_path cx" "e_port cx' = e_port cx"
      "e_stream_number cx' = int ?n" "e_stream_info_size cx' = int ?n * 280"
    using describe_streams_ok [where k = 0 and cx = ?cx and sts = sts and E = E] sts by auto
  have "\<forall>j<?n. stream_info_ok (e_stream_infos cx' ! j)"
    using d(3) described_ok sts num(2) by (fastforce simp: int_range_def)
  then have ok: "\<forall>s\<in>set (e_stream_infos cx'). stream_info_ok s" using d(2) by (metis in_set_conv_nth)
  have "ff_smem_write_header E filename sts cx w =
      bindE (case e_path cx of
               None \<Rightarrow> smemCreateProducer (connect_ip E) (redisFree E) (calloc_ok E) ''127.0.0.1'' (e_port cx) filename w
             | Some path \<Rightarrow> smemCreateProducerUnix (connect_unix E) (redisFree E) (calloc_ok E) path filename w) (\<lambda>(sctx, w1).
        case check_connection E sctx w1 of (freed, w2) \<Rightarrow> Inr (0, cx'\<lparr>e_sctx := sctx, e_sctx_freed := freed\<rparr>, w2))"
    using fname num(1) mem by (simp add: ff_smem_write_header_def Let_def n(1,2) d(1,4,5) cong: option.case_cong)
  then show ?thesis using d ok by (auto simp: enc_ready_def)
qed

lemma enc_ready_sctx [simp]: "enc_ready (cx\<lparr>e_sctx := c, e_sctx_freed := f\<rparr>) = enc_ready cx"
  by (simp add: enc_ready_def)

lemma write_header_ready:
  assumes "filename \<noteq> []" "length filename < 128" "\<forall>st\<in>set sts. supported E st \<and> stream_ok st"
    and "sts \<noteq> []" "280 * int (length sts) < 2 ^ 31" "av_malloc_ok E" "calloc_ok E"
    and conn: "e_path cx = None" "connect_ip E ''127.0.0.1'' (e_port cx) w = (Some (h, False), w1)"
  shows "\<exists>cx' c. ff_smem_write_header E filename sts cx w = Inr (0, cx', w1) \<and> enc_ready cx' \<and> \<not> e_sctx_freed cx' \<and>
     e_sctx cx' = Some c \<and> rctx c = Some h \<and> ctype c = SMEM_CLIENT_TYPE_PRODUCER \<and> channel c = filename \<and>
     length (e_stream_infos cx') = length sts \<and> (\<forall>j<length sts. described E (int j) (sts ! j) (e_stream_infos cx' ! j))"
proof -
  have p: "smemCreateProducer (connect_ip E) (redisFree E) (calloc_ok E) ''127.0.0.1'' (e_port cx) filename w =
      Inr (Some (smemContext_calloc\<lparr>ctype := 0, connect_type := 0, url := ''127.0.0.1'', channel := filename, port := e_port cx, rctx := Some h\<rparr>), w1)"
    using assms(2,7) conn by (simp add: smemCreateProducer_def strcpy_buf_def smemCreateConnect_def)
  show ?thesis
    using write_header_run [OF assms(1,3,4,5,6), of cx w] conn(1)
    by (auto simp: p check_connection_def smemContext_calloc_def)
qed

text \<open>When the connection to the server fails, the muxer frees the context of the client library,
  keeps the pointer and reports success; the first packet and the close use the freed context.\<close>

theorem write_after_failed_connection:
  assumes "filename \<noteq> []" "length filename < 128" "\<forall>st\<in>set sts. supported E st \<and> stream_ok st"
    and "sts \<noteq> []" "280 * int (length sts) < 2 ^ 31" "av_malloc_ok E" "calloc_ok E"
    and conn: "e_path cx = None" "connect_ip E ''127.0.0.1'' (e_port cx) w = (None, w1)"
    and pkt: "0 \<le> stream_index pkt" "stream_index pkt < int (length sts)"
  shows "\<exists>cx' w'. ff_smem_write_header E filename sts cx w = Inr (0, cx', w') \<and>
     ff_smem_write_packet E sts cx' pkt v = Inl UseAfterFree \<and> ff_smem_write_close E cx' v = Inl UseAfterFree"
proof -
  have p: "smemCreateProducer (connect_ip E) (redisFree E) (calloc_ok E) ''127.0.0.1'' (e_port cx) filename w =
      Inr (Some (smemContext_calloc\<lparr>ctype := 0, connect_type := 0, url := ''127.0.0.1'', channel := filename, port := e_port cx, err := -1\<rparr>), w1)"
    using assms(2,7) conn by (simp add: smemCreateProducer_def strcpy_buf_def smemCreateConnect_def)
  have "av_type E (sts ! nat (stream_index pkt))"
    using pkt assms(3) by (metis nat_less_iff nth_mem supported_def)
  from write_packet_frame [OF pkt this] show ?thesis
    using write_header_run [OF assms(1,3,4,5,6), of cx w] conn(1)
    by (auto simp: p check_connection_def write_frame_def live_ctx_def ff_smem_write_close_def)
qed

theorem write_after_failed_connection_witness:
  "\<exists>cx' w'. ff_smem_write_header (demo_dev\<lparr>connect_ip := \<lambda>ip p w. (None, w)\<rparr>) ''live'' [demo_stream] demo_enc demo_world = Inr (0, cx', w') \<and>
     ff_smem_write_packet (demo_dev\<lparr>connect_ip := \<lambda>ip p w. (None, w)\<rparr>) [demo_stream] cx' demo_packet demo_world = Inl UseAfterFree \<and>
     ff_smem_write_close (demo_dev\<lparr>connect_ip := \<lambda>ip p w. (None, w)\<rparr>) cx' demo_world = Inl UseAfterFree"
  by (rule write_after_failed_connection)
    (simp_all add: demo_dev_def demo_stream_def demo_enc_def demo_packet_def supported_def av_type_def media_value_def stream_ok_def int_range_def)

end
