(* ===== verification/Smem_Demux.thy ===== *)
theory Smem_Demux
  imports Smem_Device
begin

text \<open>
  The demuxer \<open>smem_dec.c\<close>: it learns the streams from the first frame that arrives, and then
  for every packet takes an id from the queue of the client library, attaches the segment,
  rebuilds the time stamps, skips raw video frames when the queue is half full, and hands
  out the data in place; the buffer gives the segment back when FFmpeg releases it.
\<close>

section \<open>State\<close>

abbreviation (input) "SMEM_MAX_STREAM \<equiv> (64 :: int)"
abbreviation (input) "SMEM_TIME_BASE \<equiv> (1000000 :: int)"
abbreviation (input) "SMEM_TIME_BASE_Q \<equiv> (1 :: int, 1000000 :: int)"

record smem_dec_ctx =
  d_sctx :: "smemContext option"
  d_sctx_freed :: bool
  d_stream_number :: int
  d_stream_infos :: "stream_info list"
  d_stream_info_size :: int
  base_stream_start :: int
  last_out_ts :: "int list"
  last_in_ts :: "int list"
  first_in_ts :: "int list"
  should_duration :: "int list"
  in_timebase :: "(int \<times> int) list"
  has_encoded_video_stream :: int
  timeout :: int
  d_path :: "string option"
  d_port :: int
  free_cnt :: "int list"

text \<open>Beside what both devices call, the demuxer reads a clock, sleeps, and allocates:
  \<open>alloc_ok k\<close> says whether the \<open>k\<close>-th allocation for a packet succeeds. \<open>new_stream\<close> is what
  \<open>avformat_new_stream\<close> returns. \<open>arrivals\<close> is what the subscriber thread of the client library
  has done to the context since the demuxer looked at it last.\<close>

record 'w dec_env =
  dev :: "'w dev_env"
  now :: "'w shm_world \<Rightarrow> int"
  av_usleep :: "int \<Rightarrow> 'w shm_world \<Rightarrow> 'w shm_world"
  alloc_ok :: "nat \<Rightarrow> bool"
  new_stream :: "av_stream option"
  arrivals :: "smemContext \<Rightarrow> 'w shm_world \<Rightarrow> smemContext \<times> 'w shm_world"

definition SMEM_NUM_IN_RANGE :: "int \<Rightarrow> int \<Rightarrow> int \<Rightarrow> int" where
  "SMEM_NUM_IN_RANGE n lo hi = (if n > hi then hi else if n < lo then lo else n)"

definition SMEM_NUM_IF_OUT_RANGE :: "int \<Rightarrow> int \<Rightarrow> int \<Rightarrow> bool" where
  "SMEM_NUM_IF_OUT_RANGE n lo hi \<longleftrightarrow> n > hi \<or> n < lo"

text \<open>Taking an id: the subscriber thread may have pushed ids before the pop.\<close>

definition take_id ::
    "'w dec_env \<Rightarrow> smem_dec_ctx \<Rightarrow> 'w shm_world \<Rightarrow> c_fault + int \<times> smem_dec_ctx \<times> 'w shm_world" where
  "take_id D cx w =
     bindE (live_ctx (d_sctx_freed cx)) (\<lambda>_.
       let (sctx, w1) = (case d_sctx cx of None \<Rightarrow> (None, w) | Some c \<Rightarrow> apfst Some (arrivals D c w))
       in case smemGetShareMemory (command (dev D)) sctx 0 w1 of
            (mem_id, sctx', w2) \<Rightarrow> Inr (mem_id, cx\<lparr>d_sctx := sctx'\<rparr>, w2))"

definition free_id :: "'w dec_env \<Rightarrow> smem_dec_ctx \<Rightarrow> int \<Rightarrow> 'w shm_world \<Rightarrow> 'w shm_world" where
  "free_id D cx mem_id w = smemFreeShareMemory (command (dev D)) (d_sctx cx) mem_id w"

definition timed_out :: "'w dec_env \<Rightarrow> smem_dec_ctx \<Rightarrow> int \<Rightarrow> 'w shm_world \<Rightarrow> bool" where
  \<comment> \<open>the product is computed as an \<open>int\<close>\<close>
  "timed_out D cx last_time w \<longleftrightarrow> now D w - last_time > c_int (timeout cx * 1000000)"

section \<open>The header\<close>

definition copy_stream_infos :: "block \<Rightarrow> memory_info \<Rightarrow> smem_dec_ctx \<Rightarrow> c_fault + smem_dec_ctx" where
  "copy_stream_infos b mi cx =
     (let sz = c_int (stream_info_number mi * int sizeof_stream_info)
      in if sz < 0 then Inl BufferOverflow
         else bindE (peek (stream_info_offset mi) (nat sz) b) (\<lambda>bs.
           Inr (cx\<lparr>d_stream_number := stream_info_number mi, d_stream_info_size := sz,
                   d_stream_infos := stream_infos_of (nat sz div sizeof_stream_info) bs\<rparr>)))"

fun get_stream_info ::
    "'w dec_env \<Rightarrow> int \<Rightarrow> nat \<Rightarrow> smem_dec_ctx \<Rightarrow> 'w shm_world \<Rightarrow> (c_fault + int \<times> smem_dec_ctx \<times> 'w shm_world) option" where
  "get_stream_info D last_time 0 cx w = None"
| "get_stream_info D last_time (Suc fuel) cx w =
     (case take_id D cx w of
        Inl e \<Rightarrow> Some (Inl e)
      | Inr (mem_id, cx1, w1) \<Rightarrow>
          if mem_id \<noteq> -1 then
            (case shmat (dev D) mem_id w1 of
               (None, w2) \<Rightarrow> Some (Inr (-1, cx1, free_id D cx1 mem_id w2))
             | (Some b, w2) \<Rightarrow>
                 Some (bindE (memory_info_at b) (\<lambda>mi.
                   if \<not> av_malloc_ok (dev D) then Inl NullDeref
                   else bindE (copy_stream_infos b mi cx1) (\<lambda>cx2.
                     case shmdt (dev D) mem_id w2 of
                       (r, w3) \<Rightarrow>
                         if r < 0 then Inr (-1, cx2, w3)
                         else Inr (0, cx2, free_id D cx2 mem_id w3)))))
          else
            (let w2 = av_usleep D 40000 w1
             in if timed_out D cx1 last_time w2 then Some (Inr (-1, cx1, w2))
                else get_stream_info D last_time fuel cx1 w2))"

text \<open>The stream that is announced to FFmpeg for a description. \<open>st\<close> is the new, empty stream.\<close>

definition take_extradata :: "int \<Rightarrow> block \<Rightarrow> c_fault + block" where
  "take_extradata sz x = (if sz > 0 then prefix_of sz x else Inr [])"

definition video_stream :: "'w dev_env \<Rightarrow> stream_info \<Rightarrow> av_stream \<Rightarrow> c_fault + av_stream" where
  "video_stream E si st =
     (let v = video_stream_info_of (s_info si)
      in bindE (take_extradata (v_extradata_size v) (v_extradata v)) (\<lambda>x.
         Inr (st\<lparr>st_id := s_stream_id si, st_codec_type := avm E AVMEDIA_TYPE_VIDEO,
                 st_codec_id := smem2av_codec_id (avc E) (s_codec_id si), st_time_base := SMEM_TIME_BASE_Q,
                 st_pix_fmt := smem2av_pix_fmt (avp E) (v_pix_fmt v), st_width := v_width v, st_height := v_height v,
                 st_extradata := x\<rparr>)))"

definition audio_stream :: "'w dev_env \<Rightarrow> stream_info \<Rightarrow> av_stream \<Rightarrow> c_fault + av_stream" where
  "audio_stream E si st =
     (let a = audio_stream_info_of (s_info si)
      in bindE (take_extradata (a_extradata_size a) (a_extradata a)) (\<lambda>x.
         Inr (st\<lparr>st_id := s_stream_id si, st_codec_type := avm E AVMEDIA_TYPE_AUDIO,
                 st_codec_id := smem2av_codec_id (avc E) (s_codec_id si), st_time_base := SMEM_TIME_BASE_Q,
                 st_sample_rate := a_sample_rate a, st_channels := a_channels a,
                 st_sample_fmt := smem2av_sample_fmt (avs E) (a_sample_fmt a), st_extradata := x\<rparr>)))"

text \<open>The bookkeeping for a stream; the arrays have 64 entries.\<close>

definition start_stream :: "nat \<Rightarrow> int \<Rightarrow> int \<times> int \<Rightarrow> smem_dec_ctx \<Rightarrow> c_fault + smem_dec_ctx" where
  "start_stream i dur tb cx =
     (if int i \<ge> SMEM_MAX_STREAM then Inl BufferOverflow
      else Inr (cx\<lparr>should_duration := (should_duration cx)[i := dur], in_timebase := (in_timebase cx)[i := tb],
                   last_in_ts := (last_in_ts cx)[i := 0], last_out_ts := (last_out_ts cx)[i := 0],
                   first_in_ts := (first_in_ts cx)[i := 0]\<rparr>))"

definition audio_duration :: "int \<Rightarrow> int" where
  "audio_duration rate = (SMEM_TIME_BASE * 1024) div SMEM_NUM_IN_RANGE rate 11025 48000"

definition video_duration :: int where
  "video_duration = SMEM_TIME_BASE div SMEM_NUM_IN_RANGE 25 1 60"

text \<open>The loop over the descriptions; it returns the streams it has created. A negative result is
  the jump to the error label.\<close>

fun create_streams ::
    "'w dec_env \<Rightarrow> nat \<Rightarrow> nat \<Rightarrow> smem_dec_ctx \<Rightarrow> av_stream list \<Rightarrow> c_fault + bool \<times> smem_dec_ctx \<times> av_stream list" where
  "create_streams D i 0 cx acc = Inr (True, cx, acc)"
| "create_streams D i (Suc n) cx acc =
     (if length (d_stream_infos cx) \<le> i then Inl BufferOverflow
      else
        (let si = d_stream_infos cx ! i
         in if s_codec_type si = media_num SMEM_MEDIA_TYPE_VIDEO then
              (case new_stream D of
                 None \<Rightarrow> Inr (False, cx, acc)
               | Some st \<Rightarrow>
                   (let cx1 = (if s_codec_id si \<noteq> codec_num SMEM_CODEC_ID_RAWVIDEO
                               then cx\<lparr>has_encoded_video_stream := 1\<rparr> else cx)
                    in bindE (video_stream (dev D) si st) (\<lambda>st1.
                       bindE (start_stream i video_duration (s_time_base si) cx1) (\<lambda>cx2.
                       create_streams D (i + 1) n cx2 (acc @ [st1])))))
            else if s_codec_type si = media_num SMEM_MEDIA_TYPE_AUDIO then
              (case new_stream D of
                 None \<Rightarrow> Inr (False, cx, acc)
               | Some st \<Rightarrow>
                   bindE (audio_stream (dev D) si st) (\<lambda>st1.
                   bindE (start_stream i (audio_duration (st_sample_rate st1)) (s_time_base si) cx) (\<lambda>cx2.
                   create_streams D (i + 1) n cx2 (acc @ [st1]))))
            else create_streams D (i + 1) n cx acc))"

definition ff_smem_read_header ::
    "'w dec_env \<Rightarrow> nat \<Rightarrow> string \<Rightarrow> smem_dec_ctx \<Rightarrow> 'w shm_world \<Rightarrow>
     (c_fault + int \<times> smem_dec_ctx \<times> av_stream list \<times> 'w shm_world) option" where
  "ff_smem_read_header D fuel filename cx w =
     (if length filename \<le> 0 then Some (Inr (averror_eio (dev D), cx, [], w))
      else
        (case (case d_path cx of
                 None \<Rightarrow> smemCreateConsumer (connect_ip (dev D)) (redisFree (dev D)) (calloc_ok (dev D)) ''127.0.0.1'' (d_port cx) filename w
               | Some path \<Rightarrow> smemCreateConsumerUnix (connect_unix (dev D)) (redisFree (dev D)) (calloc_ok (dev D)) path filename w) of
           Inl e \<Rightarrow> Some (Inl e)
         | Inr (sctx, w1) \<Rightarrow>
             (case check_connection (dev D) sctx w1 of
                (freed, w2) \<Rightarrow>
                  (case get_stream_info D (now D w2) fuel (cx\<lparr>d_sctx := sctx, d_sctx_freed := freed\<rparr>) w2 of
                     None \<Rightarrow> None
                   | Some (Inl e) \<Rightarrow> Some (Inl e)
                   | Some (Inr (_, cx1, w3)) \<Rightarrow>
                       Some (bindE (create_streams D 0 (nat (d_stream_number cx1)) cx1 []) (\<lambda>(ok, cx2, sts).
                         Inr (if ok then 0 else averror_eio (dev D), cx2, sts, w3)))))))"

section \<open>Time stamps\<close>

text \<open>64-bit arithmetic; the durations are \<open>int\<close>s. The function returns its result, the two
  time stamps and the context; the time stamps have no meaning when the result is \<open>-1\<close>.\<close>

definition set_last :: "nat \<Rightarrow> int \<Rightarrow> int \<Rightarrow> smem_dec_ctx \<Rightarrow> smem_dec_ctx" where
  "set_last i d out cx = cx\<lparr>last_in_ts := (last_in_ts cx)[i := d], last_out_ts := (last_out_ts cx)[i := out]\<rparr>"

definition rebuild_timestamp ::
    "'w dev_env \<Rightarrow> smem_dec_ctx \<Rightarrow> memory_info \<Rightarrow> c_fault + int \<times> int \<times> int \<times> smem_dec_ctx" where
  "rebuild_timestamp E cx mi =
     (if index mi < 0 \<or> index mi \<ge> SMEM_MAX_STREAM then Inl BufferOverflow
      else
        (let i = nat (index mi);
             p = av_rescale_q E (m_pts mi) (in_timebase cx ! i) SMEM_TIME_BASE_Q;
             d = av_rescale_q E (m_dts mi) (in_timebase cx ! i) SMEM_TIME_BASE_Q;
             dur = should_duration cx ! i;
             step = c_llong (d - last_in_ts cx ! i);
             follow = c_llong (last_out_ts cx ! i + step);
             outp = (\<lambda>out. c_llong (c_llong (out + c_llong (p - d)) + c_int (2 * dur)))
         in if index mi = 0 then
              (if SMEM_NUM_IF_OUT_RANGE step 0 (c_int (5 * dur)) then
                 (let out = c_llong (last_out_ts cx ! i + dur);
                      cx1 = cx\<lparr>first_in_ts := (first_in_ts cx)[i := d], base_stream_start := 1\<rparr>
                  in Inr (0, outp out, out, set_last i d out cx1))
               else Inr (0, outp follow, follow, set_last i d follow (cx\<lparr>base_stream_start := 1\<rparr>)))
            else if base_stream_start cx \<noteq> 1 then Inr (-1, 0, 0, cx)
            else if SMEM_NUM_IF_OUT_RANGE step 0 (c_int (5 * dur)) then
              (let cx1 = cx\<lparr>first_in_ts := (first_in_ts cx)[i := d]\<rparr>
               in if d < first_in_ts cx ! 0 then Inr (-1, 0, 0, cx1)
                  else
                    (let dt = c_llong (d - first_in_ts cx ! 0);
                         out = c_llong (last_out_ts cx ! 0 + SMEM_NUM_IN_RANGE dt dur (c_int (10 * dur)))
                     in if out < last_out_ts cx ! i then Inr (-1, 0, 0, cx1)
                        else Inr (0, outp out, out, set_last i d out cx1)))
            else Inr (0, outp follow, follow, set_last i d follow cx)))"

section \<open>Packets\<close>

definition if_free_frame :: "smem_dec_ctx \<Rightarrow> memory_info \<Rightarrow> c_fault + bool \<times> smem_dec_ctx" where
  "if_free_frame cx mi =
     (if index mi < d_stream_number cx then
        (if index mi < 0 \<or> int (length (d_stream_infos cx)) \<le> index mi then Inl BufferOverflow
         else
           (let i = nat (index mi);
                si = d_stream_infos cx ! i
            in if s_codec_type si = media_num SMEM_MEDIA_TYPE_VIDEO \<and> s_codec_id si = codec_num SMEM_CODEC_ID_RAWVIDEO then
                 (case d_sctx cx of
                    None \<Rightarrow> Inl NullDeref
                  | Some c \<Rightarrow>
                      if smem_queue_size c \<ge> SMEM_MAX_QUEUE_LENGTH div 2 then
                        (if free_cnt cx ! i \<ge> 0 \<and> free_cnt cx ! i < 1
                         then Inr (True, cx\<lparr>free_cnt := (free_cnt cx)[i := free_cnt cx ! i + 1]\<rparr>)
                         else Inr (False, cx\<lparr>free_cnt := (free_cnt cx)[i := 0]\<rparr>))
                      else Inr (False, cx))
               else Inr (False, cx)))
      else Inr (False, cx))"

text \<open>The buffer of a packet is the segment itself, named by the id it was attached under.
  \<open>segs\<close> keeps a segment while it is attached. The id that is freed is read from the segment.\<close>

definition ff_smem_av_buffer_free ::
    "'w dec_env \<Rightarrow> smem_dec_ctx \<Rightarrow> int \<Rightarrow> 'w shm_world \<Rightarrow> c_fault + 'w shm_world" where
  "ff_smem_av_buffer_free D cx seg w =
     (case segs w seg of
        None \<Rightarrow> Inl NullDeref
      | Some b \<Rightarrow>
          bindE (memory_info_at b) (\<lambda>mi.
            case shmdt (dev D) seg w of
              (r, w1) \<Rightarrow>
                if r < 0 then Inr w1
                else bindE (live_ctx (d_sctx_freed cx)) (\<lambda>_. Inr (free_id D cx (m_id mi) w1))))"

definition release :: "'w dec_env \<Rightarrow> smem_dec_ctx \<Rightarrow> int \<Rightarrow> 'w shm_world \<Rightarrow> 'w shm_world" where
  "release D cx mem_id w = free_id D cx mem_id (snd (shmdt (dev D) mem_id w))"

definition make_packet :: "memory_info \<Rightarrow> int \<Rightarrow> int \<Rightarrow> block \<Rightarrow> av_packet" where
  "make_packet mi p d b =
     \<lparr>stream_index = index mi, pts = p, dts = d, key_flag = (is_key mi \<noteq> 0),
      pkt_data = take (nat (data_size mi)) (drop (nat (data_offset mi)) b), pkt_size = data_size mi\<rparr>"

fun read_loop ::
    "'w dec_env \<Rightarrow> int \<Rightarrow> nat \<Rightarrow> smem_dec_ctx \<Rightarrow> 'w shm_world \<Rightarrow>
     (c_fault + int \<times> (av_packet \<times> int) option \<times> smem_dec_ctx \<times> 'w shm_world) option" where
  "read_loop D last_time 0 cx w = None"
| "read_loop D last_time (Suc fuel) cx w =
     (case take_id D cx w of
        Inl e \<Rightarrow> Some (Inl e)
      | Inr (mem_id, cx1, w1) \<Rightarrow>
          if mem_id \<noteq> -1 then
            (case shmat (dev D) mem_id w1 of
               (None, w2) \<Rightarrow> read_loop D last_time fuel cx1 (av_usleep D 10000 (free_id D cx1 mem_id w2))
             | (Some b, w2) \<Rightarrow>
                 (case bindE (memory_info_at b) (\<lambda>mi. bindE (rebuild_timestamp (dev D) cx1 mi) (\<lambda>r. Inr (mi, r))) of
                    Inl e \<Rightarrow> Some (Inl e)
                  | Inr (mi, ret, p, d, cx2) \<Rightarrow>
                      if ret < 0 then read_loop D last_time fuel cx2 (release D cx2 mem_id w2)
                      else
                        (case if_free_frame cx2 mi of
                           Inl e \<Rightarrow> Some (Inl e)
                         | Inr (skip, cx3) \<Rightarrow>
                             if skip then read_loop D last_time fuel cx3 (release D cx3 mem_id w2)
                             else if \<not> alloc_ok D 0 \<or> \<not> alloc_ok D 1 \<or> \<not> alloc_ok D 2
                             then Some (Inr (-1, None, cx3, w2))
                             else Some (Inr (0, Some (make_packet mi p d b, mem_id), cx3, w2)))))
          else
            (let w2 = av_usleep D 20000 w1
             in if timed_out D cx1 last_time w2 then Some (Inr (-1, None, cx1, w2))
                else read_loop D last_time fuel cx1 w2))"

text \<open>The function reads \<open>avctx->streams[0]\<close> first; without streams the array is NULL.\<close>

definition ff_smem_read_packet ::
    "'w dec_env \<Rightarrow> nat \<Rightarrow> av_stream list \<Rightarrow> smem_dec_ctx \<Rightarrow> 'w shm_world \<Rightarrow>
     (c_fault + int \<times> (av_packet \<times> int) option \<times> smem_dec_ctx \<times> 'w shm_world) option" where
  "ff_smem_read_packet D fuel streams cx w =
     (if streams = [] then Some (Inl NullDeref) else read_loop D (now D w) fuel cx w)"

definition ff_smem_read_close ::
    "'w dec_env \<Rightarrow> smem_dec_ctx \<Rightarrow> 'w shm_world \<Rightarrow> c_fault + int \<times> 'w shm_world" where
  "ff_smem_read_close D cx w =
     (case d_sctx cx of
        None \<Rightarrow> Inr (0, w)
      | Some c \<Rightarrow> bindE (live_ctx (d_sctx_freed cx)) (\<lambda>_. Inr (0, free_ctx (dev D) (Some c) w)))"

section \<open>Decoding time stamps never go back\<close>

definition ts_inv :: "int \<Rightarrow> smem_dec_ctx \<Rightarrow> bool" where
  "ts_inv B cx \<longleftrightarrow>
     length (last_out_ts cx) = 64 \<and> length (last_in_ts cx) = 64 \<and> length (first_in_ts cx) = 64 \<and>
     length (should_duration cx) = 64 \<and> length (in_timebase cx) = 64 \<and>
     (\<forall>i<64. 0 \<le> last_out_ts cx ! i \<and> last_out_ts cx ! i \<le> B \<and> \<bar>last_in_ts cx ! i\<bar> \<le> 2 ^ 61 \<and>
        \<bar>first_in_ts cx ! i\<bar> \<le> 2 ^ 61 \<and> 0 \<le> should_duration cx ! i \<and> should_duration cx ! i \<le> 100000)"

text \<open>A packet whose stream number and time stamp the demuxer can handle.\<close>

definition ts_sane :: "'w dev_env \<Rightarrow> memory_info \<Rightarrow> bool" where
  "ts_sane E mi \<longleftrightarrow> 0 \<le> index mi \<and> index mi < SMEM_MAX_STREAM \<and>
     (\<forall>tb. \<bar>av_rescale_q E (m_dts mi) tb SMEM_TIME_BASE_Q\<bar> \<le> 2 ^ 61)"

lemma c_llong_diff: "\<bar>a\<bar> \<le> 2 ^ 61 \<Longrightarrow> \<bar>b\<bar> \<le> 2 ^ 61 \<Longrightarrow> c_llong (a - b) = a - b"
  by (rule c_llong_id) (simp add: llong_range_def abs_le_iff)

lemma c_llong_sum: "0 \<le> a \<Longrightarrow> a \<le> 2 ^ 61 \<Longrightarrow> 0 \<le> b \<Longrightarrow> b \<le> 1000000 \<Longrightarrow> c_llong (a + b) = a + b"
  by (rule c_llong_id) (simp add: llong_range_def)

lemma c_int_times: "0 \<le> x \<Longrightarrow> x \<le> 100000 \<Longrightarrow> c_int (5 * x) = 5 * x \<and> c_int (10 * x) = 10 * x"
  by (simp add: c_int_id int_range_def)

lemma in_range_bounds: "lo \<le> hi \<Longrightarrow> lo \<le> SMEM_NUM_IN_RANGE n lo hi \<and> SMEM_NUM_IN_RANGE n lo hi \<le> hi"
  by (simp add: SMEM_NUM_IN_RANGE_def)

lemma ts_inv_set_last:
  "ts_inv B cx \<Longrightarrow> B \<le> B' \<Longrightarrow> i < 64 \<Longrightarrow> \<bar>d\<bar> \<le> 2 ^ 61 \<Longrightarrow> 0 \<le> out \<Longrightarrow> out \<le> B' \<Longrightarrow> ts_inv B' (set_last i d out cx)"
  unfolding ts_inv_def set_last_def by (auto simp: nth_list_update intro: order_trans)

lemma ts_inv_first:
  "ts_inv B cx \<Longrightarrow> i < 64 \<Longrightarrow> \<bar>d\<bar> \<le> 2 ^ 61 \<Longrightarrow> ts_inv B (cx\<lparr>first_in_ts := (first_in_ts cx)[i := d]\<rparr>)"
  unfolding ts_inv_def by (auto simp: nth_list_update)

lemma ts_inv_start [simp]: "ts_inv B (cx\<lparr>base_stream_start := x\<rparr>) = ts_inv B cx"
  by (simp add: ts_inv_def)

lemma ts_inv_mono: "ts_inv B cx \<Longrightarrow> B \<le> B' \<Longrightarrow> ts_inv B' cx"
  unfolding ts_inv_def by fastforce

lemma last_out_set_last: "i < length (last_out_ts cx) \<Longrightarrow> last_out_ts (set_last i d out cx) = (last_out_ts cx)[i := out]"
  by (simp add: set_last_def)

text \<open>What one frame does to the time stamps: it is placed at or after the last one of its stream, or skipped.\<close>

definition rebuilt :: "'w dev_env \<Rightarrow> int \<Rightarrow> smem_dec_ctx \<Rightarrow> memory_info \<Rightarrow> bool" where
  "rebuilt E B cx mi \<longleftrightarrow>
     (\<exists>ret p out cx'. rebuild_timestamp E cx mi = Inr (ret, p, out, cx') \<and> ts_inv (B + 1000000) cx' \<and>
       (ret = 0 \<and> last_out_ts cx ! nat (index mi) \<le> out \<and> last_out_ts cx' = (last_out_ts cx)[nat (index mi) := out] \<or>
        ret = -1 \<and> last_out_ts cx' = last_out_ts cx))"

abbreviation rescaled :: "'w dev_env \<Rightarrow> smem_dec_ctx \<Rightarrow> memory_info \<Rightarrow> int" where
  "rescaled E cx mi \<equiv> av_rescale_q E (m_dts mi) (in_timebase cx ! nat (index mi)) SMEM_TIME_BASE_Q"

abbreviation jumps :: "'w dev_env \<Rightarrow> smem_dec_ctx \<Rightarrow> memory_info \<Rightarrow> bool" where
  "jumps E cx mi \<equiv> SMEM_NUM_IF_OUT_RANGE (rescaled E cx mi - last_in_ts cx ! nat (index mi)) 0 (5 * should_duration cx ! nat (index mi))"

abbreviation clamped_gap :: "smem_dec_ctx \<Rightarrow> memory_info \<Rightarrow> int \<Rightarrow> int" where
  "clamped_gap cx mi x \<equiv> SMEM_NUM_IN_RANGE x (should_duration cx ! nat (index mi)) (10 * should_duration cx ! nat (index mi))"

lemma ts_inv_at:
  assumes "ts_inv B cx" "j < 64"
  shows "0 \<le> last_out_ts cx ! j" "last_out_ts cx ! j \<le> B" "\<bar>last_in_ts cx ! j\<bar> \<le> 2 ^ 61" "\<bar>first_in_ts cx ! j\<bar> \<le> 2 ^ 61"
    "0 \<le> should_duration cx ! j" "should_duration cx ! j \<le> 100000"
  using assms by (auto simp: ts_inv_def)

text \<open>No addition or subtraction of the rebuilding wraps around, and its results stay in bounds.\<close>

lemma rebuild_exact:
  assumes inv: "ts_inv B cx" and B: "B \<le> 2 ^ 61" and sane: "ts_sane E mi"
  defines "i \<equiv> nat (index mi)" and "d \<equiv> rescaled E cx mi"
  shows "c_llong (d - last_in_ts cx ! i) = d - last_in_ts cx ! i" "c_llong (d - first_in_ts cx ! 0) = d - first_in_ts cx ! 0"
    "c_llong (last_out_ts cx ! i + should_duration cx ! i) = last_out_ts cx ! i + should_duration cx ! i"
    "c_int (5 * should_duration cx ! i) = 5 * should_duration cx ! i" "c_int (10 * should_duration cx ! i) = 10 * should_duration cx ! i"
    "\<not> jumps E cx mi \<Longrightarrow> c_llong (last_out_ts cx ! i + (d - last_in_ts cx ! i)) = last_out_ts cx ! i + (d - last_in_ts cx ! i)"
    "c_llong (last_out_ts cx ! 0 + clamped_gap cx mi x) = last_out_ts cx ! 0 + clamped_gap cx mi x"
proof -
  have i: "i < 64" using sane by (auto simp: ts_sane_def i_def)
  have d: "\<bar>d\<bar> \<le> 2 ^ 61" using sane unfolding ts_sane_def d_def by blast
  note ati = ts_inv_at [OF inv i] and at0 = ts_inv_at [OF inv, of 0, OF zero_less_numeral]
  show "c_llong (d - last_in_ts cx ! i) = d - last_in_ts cx ! i" "c_llong (d - first_in_ts cx ! 0) = d - first_in_ts cx ! 0"
    "c_llong (last_out_ts cx ! i + should_duration cx ! i) = last_out_ts cx ! i + should_duration cx ! i"
    "c_int (5 * should_duration cx ! i) = 5 * should_duration cx ! i" "c_int (10 * should_duration cx ! i) = 10 * should_duration cx ! i"
    using c_llong_diff [OF d ati(3)] c_llong_diff [OF d at0(4)] c_int_times [OF ati(5,6)]
      c_llong_sum [OF ati(1) order_trans [OF ati(2) B] ati(5) order_trans [OF ati(6)]] by simp_all
  show "c_llong (last_out_ts cx ! i + (d - last_in_ts cx ! i)) = last_out_ts cx ! i + (d - last_in_ts cx ! i)" if "\<not> jumps E cx mi"
    by (rule c_llong_sum) (use that ati B in \<open>simp_all add: SMEM_NUM_IF_OUT_RANGE_def i_def d_def\<close>)
  show "c_llong (last_out_ts cx ! 0 + clamped_gap cx mi x) = last_out_ts cx ! 0 + clamped_gap cx mi x"
    using in_range_bounds [of "should_duration cx ! i" "10 * should_duration cx ! i" x] ati at0 B unfolding i_def by (intro c_llong_sum) linarith+
qed

lemma rebuild_bounds:
  assumes inv: "ts_inv B cx" and sane: "ts_sane E mi"
  defines "i \<equiv> nat (index mi)" and "d \<equiv> rescaled E cx mi"
  shows "0 \<le> last_out_ts cx ! i + should_duration cx ! i" "last_out_ts cx ! i + should_duration cx ! i \<le> B + 1000000"
    "\<not> jumps E cx mi \<Longrightarrow> 0 \<le> last_out_ts cx ! i + (d - last_in_ts cx ! i)"
    "\<not> jumps E cx mi \<Longrightarrow> last_out_ts cx ! i + (d - last_in_ts cx ! i) \<le> B + 1000000"
    "\<not> jumps E cx mi \<Longrightarrow> last_in_ts cx ! i \<le> d"
    "0 \<le> last_out_ts cx ! 0 + clamped_gap cx mi x" "last_out_ts cx ! 0 + clamped_gap cx mi x \<le> B + 1000000"
proof -
  have i: "i < 64" using sane unfolding ts_sane_def i_def by auto
  note ati = ts_inv_at [OF inv i] and at0 = ts_inv_at [OF inv, of 0, OF zero_less_numeral]
  show "0 \<le> last_out_ts cx ! i + should_duration cx ! i" "last_out_ts cx ! i + should_duration cx ! i \<le> B + 1000000"
    "\<not> jumps E cx mi \<Longrightarrow> 0 \<le> last_out_ts cx ! i + (d - last_in_ts cx ! i)"
    "\<not> jumps E cx mi \<Longrightarrow> last_out_ts cx ! i + (d - last_in_ts cx ! i) \<le> B + 1000000"
    "\<not> jumps E cx mi \<Longrightarrow> last_in_ts cx ! i \<le> d"
    using ati by (auto simp: SMEM_NUM_IF_OUT_RANGE_def i_def d_def)
  show "0 \<le> last_out_ts cx ! 0 + clamped_gap cx mi x" "last_out_ts cx ! 0 + clamped_gap cx mi x \<le> B + 1000000"
    using in_range_bounds [of "should_duration cx ! i" "10 * should_duration cx ! i" x] ati at0 unfolding i_def by linarith+
qed

lemma rebuild_keeps:
  assumes inv: "ts_inv B cx" and sane: "ts_sane E mi"
  defines "i \<equiv> nat (index mi)" and "d \<equiv> rescaled E cx mi"
  shows "i < 64" "\<not> (index mi < 0 \<or> SMEM_MAX_STREAM \<le> index mi)" "i < length (last_out_ts cx)"
    "ts_inv (B + 1000000) cx" "ts_inv (B + 1000000) (cx\<lparr>first_in_ts := (first_in_ts cx)[i := d]\<rparr>)"
    "ts_inv (B + 1000000) cx1 \<Longrightarrow> 0 \<le> out \<Longrightarrow> out \<le> B + 1000000 \<Longrightarrow> ts_inv (B + 1000000) (set_last i d out cx1)"
proof -
  have d: "\<bar>d\<bar> \<le> 2 ^ 61" using sane unfolding ts_sane_def d_def by blast
  show i: "i < 64" and "\<not> (index mi < 0 \<or> SMEM_MAX_STREAM \<le> index mi)" using sane by (auto simp: ts_sane_def i_def)
  show "i < length (last_out_ts cx)" using inv i by (simp add: ts_inv_def)
  show "ts_inv (B + 1000000) cx" "ts_inv (B + 1000000) (cx\<lparr>first_in_ts := (first_in_ts cx)[i := d]\<rparr>)"
    using ts_inv_mono [OF inv] ts_inv_mono [OF ts_inv_first [OF inv i d]] by simp_all
  show "ts_inv (B + 1000000) (set_last i d out cx1)" if "ts_inv (B + 1000000) cx1" "0 \<le> out" "out \<le> B + 1000000"
    by (rule ts_inv_set_last [OF that(1) _ i d that(2,3)]) simp
qed

lemma rebuild_base:
  assumes "ts_inv B cx" and "B \<le> 2 ^ 61" and "ts_sane E mi" and base: "index mi = 0"
  shows "rebuilt E B cx mi"
proof -
  note exact = rebuild_exact [OF assms(1-3)] and bounds = rebuild_bounds [OF assms(1,3)] and keeps = rebuild_keeps [OF assms(1,3)]
  have s: "0 \<le> should_duration cx ! nat (index mi)" by (rule ts_inv_at(5) [OF assms(1) keeps(1)])
  show ?thesis
    using exact bounds keeps base s last_out_set_last by (cases "jumps E cx mi") (simp_all add: rebuilt_def rebuild_timestamp_def Let_def)
qed

lemma rebuild_jump:
  assumes "ts_inv B cx" and "B \<le> 2 ^ 61" and "ts_sane E mi" and other: "index mi \<noteq> 0" and jump: "jumps E cx mi"
  shows "rebuilt E B cx mi"
proof -
  note exact = rebuild_exact [OF assms(1-3)] and bounds = rebuild_bounds [OF assms(1,3)] and keeps = rebuild_keeps [OF assms(1,3)]
  let ?i = "nat (index mi)" and ?d = "rescaled E cx mi"
  let ?cx1 = "cx\<lparr>first_in_ts := (first_in_ts cx)[?i := ?d]\<rparr>" and ?o = "last_out_ts cx ! 0 + clamped_gap cx mi (?d - first_in_ts cx ! 0)"
  note unf = rebuild_timestamp_def Let_def other keeps(1,2) if_False if_True jump exact(1-5,7)
  consider "base_stream_start cx \<noteq> 1" | "base_stream_start cx = 1" "?d < first_in_ts cx ! 0 \<or> ?o < last_out_ts cx ! ?i"
    | "base_stream_start cx = 1" "\<not> ?d < first_in_ts cx ! 0" "\<not> ?o < last_out_ts cx ! ?i" by blast
  then show ?thesis
  proof cases
    case 1
    then have "rebuild_timestamp E cx mi = Inr (-1, 0, 0, cx)" by (simp only: unf simp_thms)
    with keeps(4) show ?thesis by (simp add: rebuilt_def)
  next
    case 2
    then have "rebuild_timestamp E cx mi = Inr (-1, 0, 0, ?cx1)"
      by (simp only: unf simp_thms) (simp only: if_True if_cancel split: if_split, blast)
    with keeps(5) show ?thesis by (simp add: rebuilt_def)
  next
    case 3
    then have "\<exists>p. rebuild_timestamp E cx mi = Inr (0, p, ?o, set_last ?i ?d ?o ?cx1)" by (simp only: unf simp_thms) blast
    moreover have "last_out_ts (set_last ?i ?d ?o ?cx1) = (last_out_ts cx)[?i := ?o]" using keeps(3) by (simp add: set_last_def)
    ultimately show ?thesis using keeps(6) [OF keeps(5) bounds(6,7)] 3(3) unfolding rebuilt_def by (metis not_less)
  qed
qed

lemma rebuild_follow:
  assumes "ts_inv B cx" and "B \<le> 2 ^ 61" and "ts_sane E mi" and other: "index mi \<noteq> 0" and jump: "\<not> jumps E cx mi"
  shows "rebuilt E B cx mi"
proof -
  note exact = rebuild_exact [OF assms(1-3)] and bounds = rebuild_bounds [OF assms(1,3)] and keeps = rebuild_keeps [OF assms(1,3)]
  let ?i = "nat (index mi)" and ?d = "rescaled E cx mi"
  let ?o = "last_out_ts cx ! ?i + (?d - last_in_ts cx ! ?i)"
  note unf = rebuild_timestamp_def Let_def other keeps(1,2) if_False if_True jump exact(1-5) exact(6) [OF jump]
  show ?thesis
  proof (cases "base_stream_start cx = 1")
    case True
    then have "\<exists>p. rebuild_timestamp E cx mi = Inr (0, p, ?o, set_last ?i ?d ?o cx)" by (simp only: unf simp_thms) blast
    moreover have "last_out_ts (set_last ?i ?d ?o cx) = (last_out_ts cx)[?i := ?o]" using keeps(3) by (simp add: set_last_def)
    moreover have "last_out_ts cx ! ?i \<le> ?o" using bounds(5) [OF jump] by simp
    ultimately show ?thesis using keeps(6) [OF keeps(4) bounds(3,4) [OF jump]] unfolding rebuilt_def by metis
  next
    case False
    then have "rebuild_timestamp E cx mi = Inr (-1, 0, 0, cx)" by (simp only: unf simp_thms)
    with keeps(4) show ?thesis by (simp add: rebuilt_def)
  qed
qed

lemma rebuild_step:
  assumes "ts_inv B cx" and "B \<le> 2 ^ 61" and "ts_sane E mi"
  shows "\<exists>ret p out cx'. rebuild_timestamp E cx mi = Inr (ret, p, out, cx') \<and> ts_inv (B + 1000000) cx' \<and>
     (ret = 0 \<and> last_out_ts cx ! nat (index mi) \<le> out \<and> last_out_ts cx' = (last_out_ts cx)[nat (index mi) := out] \<or>
      ret = -1 \<and> last_out_ts cx' = last_out_ts cx)"
  using rebuild_base [OF assms] rebuild_jump [OF assms] rebuild_follow [OF assms] unfolding rebuilt_def by blast

text \<open>A run over the frames of a channel: the stream and decoding time stamp of each frame that is
  not skipped.\<close>

fun rebuild_all :: "'w dev_env \<Rightarrow> memory_info list \<Rightarrow> smem_dec_ctx \<Rightarrow> c_fault + (int \<times> int) list \<times> smem_dec_ctx" where
  "rebuild_all E [] cx = Inr ([], cx)"
| "rebuild_all E (mi # mis) cx =
     bindE (rebuild_timestamp E cx mi) (\<lambda>(ret, p, out, cx1).
       bindE (rebuild_all E mis cx1) (\<lambda>(outs, cx2).
         Inr (if ret < 0 then outs else (index mi, out) # outs, cx2)))"

abbreviation of_stream :: "int \<Rightarrow> (int \<times> 'a) list \<Rightarrow> 'a list" where
  "of_stream k outs \<equiv> map snd (filter (\<lambda>x. fst x = k) outs)"

lemma rebuild_all_sorted:
  "ts_inv B cx \<Longrightarrow> B + int (length mis) * 1000000 \<le> 2 ^ 61 \<Longrightarrow> \<forall>mi\<in>set mis. ts_sane E mi \<Longrightarrow>
     \<exists>outs cx'. rebuild_all E mis cx = Inr (outs, cx') \<and>
       (\<forall>k. 0 \<le> k \<longrightarrow> k < 64 \<longrightarrow> sorted (of_stream k outs) \<and> (\<forall>t\<in>set (of_stream k outs). last_out_ts cx ! nat k \<le> t))"
proof (induction mis arbitrary: cx B)
  case (Cons mi mis)
  have B: "B \<le> 2 ^ 61" and sane: "ts_sane E mi" using Cons.prems(2,3) by simp_all
  obtain ret p out cx1 where r: "rebuild_timestamp E cx mi = Inr (ret, p, out, cx1)" "ts_inv (B + 1000000) cx1"
      "ret = 0 \<and> last_out_ts cx ! nat (index mi) \<le> out \<and> last_out_ts cx1 = (last_out_ts cx)[nat (index mi) := out] \<or>
       ret = -1 \<and> last_out_ts cx1 = last_out_ts cx"
    using rebuild_step [OF Cons.prems(1) B sane] by blast
  have rest: "B + 1000000 + int (length mis) * 1000000 \<le> 2 ^ 61" "\<forall>mi\<in>set mis. ts_sane E mi"
    using Cons.prems(2,3) by simp_all
  obtain outs cx2 where IH: "rebuild_all E mis cx1 = Inr (outs, cx2)"
      "\<And>k. 0 \<le> k \<Longrightarrow> k < 64 \<Longrightarrow> sorted (of_stream k outs) \<and> (\<forall>t\<in>set (of_stream k outs). last_out_ts cx1 ! nat k \<le> t)"
    using Cons.IH [OF r(2)] rest by blast
  have idx: "0 \<le> index mi" "index mi < 64" using Cons.prems(3) by (auto simp: ts_sane_def)
  have len: "length (last_out_ts cx) = 64" using Cons.prems(1) by (simp add: ts_inv_def)
  define outs' where "outs' = (if ret < 0 then outs else (index mi, out) # outs)"
  have "sorted (of_stream k outs') \<and> (\<forall>t\<in>set (of_stream k outs'). last_out_ts cx ! nat k \<le> t)" if k: "0 \<le> k" "k < 64" for k
  proof (cases "ret < 0 \<or> k \<noteq> index mi")
    case True
    then have "of_stream k outs' = of_stream k outs" "last_out_ts cx1 ! nat k = last_out_ts cx ! nat k"
      using r(3) k idx by (auto simp: outs'_def)
    with IH(2) [OF k] show ?thesis by simp
  next
    case False
    then have "of_stream k outs' = out # of_stream k outs" "last_out_ts cx1 ! nat k = out" "last_out_ts cx ! nat k \<le> out"
      using r(3) k len by (auto simp: outs'_def)
    with IH(2) [OF k] show ?thesis by auto
  qed
  then show ?case using r(1) IH(1) by (simp add: outs'_def)
qed simp


definition blank_dec :: smem_dec_ctx where
  "blank_dec =
     \<lparr>d_sctx = None, d_sctx_freed = False, d_stream_number = 0, d_stream_infos = [], d_stream_info_size = 0,
      base_stream_start = 0, last_out_ts = replicate 64 0, last_in_ts = replicate 64 0, first_in_ts = replicate 64 0,
      should_duration = replicate 64 0, in_timebase = replicate 64 (0, 0), has_encoded_video_stream = 0, timeout = 10,
      d_path = None, d_port = 6379, free_cnt = replicate 64 0\<rparr>"

definition demo_frame :: "int \<Rightarrow> memory_info" where
  "demo_frame t =
     \<lparr>index = 0, m_pts = t, m_dts = t, stream_info_offset = 48, stream_info_number = 0, data_offset = 48, data_size = 0,
      is_key = 1, m_id = 5\<rparr>"

lemma ts_inv_blank: "ts_inv 0 blank_dec"
  by (simp add: ts_inv_def blank_dec_def)


section \<open>Skipped frames\<close>

text \<open>A run of the decision, each time with the queue of the client library as it is then.\<close>

fun skip_run :: "(smemContext \<times> memory_info) list \<Rightarrow> smem_dec_ctx \<Rightarrow> c_fault + (int \<times> bool) list \<times> smem_dec_ctx" where
  "skip_run [] cx = Inr ([], cx)"
| "skip_run ((c, mi) # xs) cx =
     bindE (if_free_frame (cx\<lparr>d_sctx := Some c\<rparr>) mi) (\<lambda>(b, cx1).
       bindE (skip_run xs cx1) (\<lambda>(bs, cx2). Inr ((index mi, b) # bs, cx2)))"

definition raw_video :: "smem_dec_ctx \<Rightarrow> int \<Rightarrow> bool" where
  "raw_video cx i \<longleftrightarrow> 0 \<le> i \<and> i < d_stream_number cx \<and>
     s_codec_type (d_stream_infos cx ! nat i) = media_num SMEM_MEDIA_TYPE_VIDEO \<and>
     s_codec_id (d_stream_infos cx ! nat i) = codec_num SMEM_CODEC_ID_RAWVIDEO"

definition skip_inv :: "smem_dec_ctx \<Rightarrow> bool" where
  "skip_inv cx \<longleftrightarrow> d_stream_number cx = int (length (d_stream_infos cx)) \<and> length (free_cnt cx) = 64 \<and>
     length (d_stream_infos cx) \<le> 64 \<and> (\<forall>i<64. free_cnt cx ! i = 0 \<or> free_cnt cx ! i = 1)"

lemma if_free_frame_step:
  assumes "skip_inv cx" and "0 \<le> index mi"
  shows "\<exists>b cx'. if_free_frame (cx\<lparr>d_sctx := Some c\<rparr>) mi = Inr (b, cx') \<and> skip_inv cx' \<and>
     d_stream_number cx' = d_stream_number cx \<and> d_stream_infos cx' = d_stream_infos cx \<and>
     (b \<longrightarrow> raw_video cx (index mi) \<and> 128 \<le> smem_queue_size c \<and> free_cnt cx ! nat (index mi) = 0 \<and> free_cnt cx' ! nat (index mi) = 1) \<and>
     (\<forall>k. k \<noteq> nat (index mi) \<longrightarrow> free_cnt cx' ! k = free_cnt cx ! k)"
  using assms
  by (auto simp: if_free_frame_def skip_inv_def raw_video_def Let_def nth_list_update)

lemma skip_run_alternates:
  "skip_inv cx \<Longrightarrow> \<forall>(c, mi)\<in>set xs. 0 \<le> index mi \<Longrightarrow>
     \<exists>bs cx'. skip_run xs cx = Inr (bs, cx') \<and>
       (\<forall>k\<ge>0. successively (\<lambda>a b. \<not> (a \<and> b)) (of_stream k bs) \<and>
          (free_cnt cx ! nat k = 1 \<longrightarrow> of_stream k bs \<noteq> [] \<longrightarrow> \<not> hd (of_stream k bs)) \<and>
          (True \<in> set (of_stream k bs) \<longrightarrow> raw_video cx k))"
proof (induction xs arbitrary: cx)
  case (Cons x xs)
  obtain c mi where x: "x = (c, mi)" by (cases x)
  have idx: "0 \<le> index mi" using Cons.prems(2) x by auto
  obtain b cx1 where s: "if_free_frame (cx\<lparr>d_sctx := Some c\<rparr>) mi = Inr (b, cx1)" "skip_inv cx1"
      "d_stream_number cx1 = d_stream_number cx" "d_stream_infos cx1 = d_stream_infos cx"
      "b \<longrightarrow> raw_video cx (index mi) \<and> 128 \<le> smem_queue_size c \<and> free_cnt cx ! nat (index mi) = 0 \<and> free_cnt cx1 ! nat (index mi) = 1"
      "\<forall>k. k \<noteq> nat (index mi) \<longrightarrow> free_cnt cx1 ! k = free_cnt cx ! k"
    using if_free_frame_step [OF Cons.prems(1) idx, of c] by blast
  have raw: "raw_video cx1 k = raw_video cx k" for k using s(3,4) by (simp add: raw_video_def)
  obtain bs cx2 where IH: "skip_run xs cx1 = Inr (bs, cx2)"
      "\<And>k. k \<ge> 0 \<Longrightarrow> successively (\<lambda>a b. \<not> (a \<and> b)) (of_stream k bs) \<and>
          (free_cnt cx1 ! nat k = 1 \<longrightarrow> of_stream k bs \<noteq> [] \<longrightarrow> \<not> hd (of_stream k bs)) \<and>
          (True \<in> set (of_stream k bs) \<longrightarrow> raw_video cx k)"
    using Cons.IH [OF s(2)] Cons.prems(2) raw by auto
  have "successively (\<lambda>a b. \<not> (a \<and> b)) (of_stream k ((index mi, b) # bs)) \<and>
      (free_cnt cx ! nat k = 1 \<longrightarrow> of_stream k ((index mi, b) # bs) \<noteq> [] \<longrightarrow> \<not> hd (of_stream k ((index mi, b) # bs))) \<and>
      (True \<in> set (of_stream k ((index mi, b) # bs)) \<longrightarrow> raw_video cx k)" if "k \<ge> 0" for k
  proof (cases "k = index mi")
    case True
    then have "of_stream k ((index mi, b) # bs) = b # of_stream k bs" by simp
    then show ?thesis using IH(2) [OF that] s(5) True by (auto simp: successively_Cons)
  next
    case False
    then have "of_stream k ((index mi, b) # bs) = of_stream k bs" "free_cnt cx1 ! nat k = free_cnt cx ! nat k"
      using s(6) that idx by auto
    then show ?thesis using IH(2) [OF that] by simp
  qed
  moreover have "skip_run (x # xs) cx = Inr ((index mi, b) # bs, cx2)" using s(1) IH(1) by (simp add: x)
  ultimately show ?case by blast
qed simp

text \<open>The demuxer never skips two frames of a stream in a row, however full the queue stays, and it
  skips frames of raw video streams only.\<close>

theorem never_skips_twice:
  assumes "skip_inv cx" and "\<forall>(c, mi)\<in>set xs. 0 \<le> index mi"
  shows "\<exists>bs cx'. skip_run xs cx = Inr (bs, cx') \<and>
     (\<forall>k\<ge>0. successively (\<lambda>a b. \<not> (a \<and> b)) (of_stream k bs) \<and> (True \<in> set (of_stream k bs) \<longrightarrow> raw_video cx k))"
  using skip_run_alternates [OF assms] by blast

definition full_ctx :: smemContext where
  "full_ctx = smemContext_calloc\<lparr>ctype := 1, rctx := Some 3, queue_end := 200\<rparr>"

theorem never_skips_twice_witness:
  "\<exists>bs cx'. skip_run [(full_ctx, demo_frame 1), (full_ctx, demo_frame 2)]
       (blank_dec\<lparr>d_stream_number := 1, d_stream_infos := [\<lparr>s_index = 0, s_codec_type = 0, s_codec_id = 7, s_stream_id = 0, s_time_base = (1, 25), s_info = []\<rparr>]\<rparr>) = Inr (bs, cx') \<and>
     (\<forall>k\<ge>0. successively (\<lambda>a b. \<not> (a \<and> b)) (of_stream k bs) \<and> (True \<in> set (of_stream k bs) \<longrightarrow>
        raw_video (blank_dec\<lparr>d_stream_number := 1, d_stream_infos := [\<lparr>s_index = 0, s_codec_type = 0, s_codec_id = 7, s_stream_id = 0, s_time_base = (1, 25), s_info = []\<rparr>]\<rparr>) k))"
  by (rule never_skips_twice) (simp_all add: skip_inv_def blank_dec_def demo_frame_def)

section \<open>Waiting\<close>

text \<open>A connected consumer whose queue is empty and stays so.\<close>

definition idle :: "'w dec_env \<Rightarrow> smem_dec_ctx \<Rightarrow> bool" where
  "idle D cx \<longleftrightarrow> \<not> d_sctx_freed cx \<and>
     (\<exists>c. d_sctx cx = Some c \<and> rctx c \<noteq> None \<and> ctype c = SMEM_CLIENT_TYPE_CONSUMER \<and> queue_empty c) \<and>
     (\<forall>c w. arrivals D c w = (c, w))"

definition clock_runs :: "'w dec_env \<Rightarrow> bool" where
  "clock_runs D \<longleftrightarrow> (\<forall>n w. 0 \<le> n \<longrightarrow> now D w + n \<le> now D (av_usleep D n w))"

lemma take_id_idle: "idle D cx \<Longrightarrow> take_id D cx w = Inr (-1, cx, w)"
  by (auto simp: idle_def take_id_def live_ctx_def smemGetShareMemory_def smemConsumerGetShareMemory_def smem_queue_pop_def)

lemma timeout_limit: "0 \<le> timeout cx \<Longrightarrow> timeout cx \<le> 2147 \<Longrightarrow> c_int (timeout cx * 1000000) = timeout cx * 1000000"
  by (simp add: c_int_id int_range_def)

text \<open>Either loop ends on an idle context: every round sleeps for a fixed time.\<close>

lemma read_loop_idle:
  assumes "idle D cx" and "clock_runs D" and "0 \<le> timeout cx" and "timeout cx \<le> 2147"
  shows "now D w - t \<le> timeout cx * 1000000 \<Longrightarrow> timeout cx * 1000000 - (now D w - t) < 20000 * int fuel \<Longrightarrow>
    \<exists>w'. read_loop D t fuel cx w = Some (Inr (-1, None, cx, w'))"
proof (induction fuel arbitrary: w)
  case (Suc fuel)
  have nap: "now D w + 20000 \<le> now D (av_usleep D 20000 w)" using assms(2) by (simp add: clock_runs_def)
  show ?case
  proof (cases "timed_out D cx t (av_usleep D 20000 w)")
    case True
    then show ?thesis by (simp add: take_id_idle [OF assms(1)] Let_def)
  next
    case False
    then have "now D (av_usleep D 20000 w) - t \<le> timeout cx * 1000000" by (simp add: timed_out_def timeout_limit [OF assms(3,4)])
    then have "\<exists>w'. read_loop D t fuel cx (av_usleep D 20000 w) = Some (Inr (-1, None, cx, w'))"
      by (rule Suc.IH) (use nap Suc.prems(2) in \<open>simp add: algebra_simps\<close>)
    with False show ?thesis by (simp add: take_id_idle [OF assms(1)] Let_def)
  qed
qed simp

lemma get_stream_info_idle:
  assumes "idle D cx" and "clock_runs D" and "0 \<le> timeout cx" and "timeout cx \<le> 2147"
  shows "now D w - t \<le> timeout cx * 1000000 \<Longrightarrow> timeout cx * 1000000 - (now D w - t) < 40000 * int fuel \<Longrightarrow>
    \<exists>w'. get_stream_info D t fuel cx w = Some (Inr (-1, cx, w'))"
proof (induction fuel arbitrary: w)
  case (Suc fuel)
  have nap: "now D w + 40000 \<le> now D (av_usleep D 40000 w)" using assms(2) by (simp add: clock_runs_def)
  show ?case
  proof (cases "timed_out D cx t (av_usleep D 40000 w)")
    case True
    then show ?thesis by (simp add: take_id_idle [OF assms(1)] Let_def)
  next
    case False
    then have "now D (av_usleep D 40000 w) - t \<le> timeout cx * 1000000" by (simp add: timed_out_def timeout_limit [OF assms(3,4)])
    then have "\<exists>w'. get_stream_info D t fuel cx (av_usleep D 40000 w) = Some (Inr (-1, cx, w'))"
      by (rule Suc.IH) (use nap Suc.prems(2) in \<open>simp add: algebra_simps\<close>)
    with False show ?thesis by (simp add: take_id_idle [OF assms(1)] Let_def)
  qed
qed simp

text \<open>C37: when no frame arrives, reading a packet ends with \<open>-1\<close> after at most fifty rounds per second
  of the configured time, for every time limit up to 2147 seconds, the largest the \<open>int\<close>
  product of the check can hold.\<close>

theorem read_packet_times_out:
  assumes "idle D cx" and "clock_runs D" and "0 \<le> timeout cx" and "timeout cx \<le> 2147" and "streams \<noteq> []"
    and "timeout cx * 50 < int fuel"
  shows "\<exists>w'. ff_smem_read_packet D fuel streams cx w = Some (Inr (-1, None, cx, w'))"
  using read_loop_idle [OF assms(1-4), of w "now D w" fuel] assms(3,5,6) by (simp add: ff_smem_read_packet_def)

text \<open>A clock for the witnesses: it shows the time slept so far.\<close>

definition demo_dec_env :: "int dec_env" where
  "demo_dec_env =
     \<lparr>dev = \<lparr>avm = media_value, avc = position (AV_CODEC_ID_NONE # map snd smem2av_codec_id_cases),
         avp = position (map snd smem2av_pix_fmt_cases), avs = position (map snd smem2av_sample_fmt_cases),
         averror_eio = -5, av_image_get_buffer_size = (\<lambda>f x y a. x * y), av_rescale_q = (\<lambda>t p q. t),
         av_malloc_ok = True, calloc_ok = True, command = (\<lambda>h args w. (Some (REDIS_REPLY_INTEGER 1), w)),
         connect_ip = (\<lambda>ip p w. (Some (3, False), w)), connect_unix = (\<lambda>p w. (Some (3, False), w)),
         redisFree = (\<lambda>h w. w), shmat_denied = (\<lambda>i w. False), shmdt_fails = (\<lambda>i w. False)\<rparr>,
      now = outside, av_usleep = (\<lambda>n w. w\<lparr>outside := outside w + n\<rparr>), alloc_ok = (\<lambda>_. True),
      new_stream = Some \<lparr>st_id = 0, st_codec_type = -1, st_codec_id = 0, st_time_base = (0, 1), st_sample_rate = 0,
         st_channels = 0, st_sample_fmt = -1, st_width = 0, st_height = 0, st_pix_fmt = -1, st_extradata = []\<rparr>,
      arrivals = Pair\<rparr>"

definition idle_dec :: smem_dec_ctx where
  "idle_dec = blank_dec\<lparr>d_sctx := Some (smemContext_calloc\<lparr>ctype := 1, rctx := Some 3, rctx2 := Some 3\<rparr>)\<rparr>"

definition clock_world :: "int shm_world" where
  "clock_world = \<lparr>segs = Map.empty, attached = (\<lambda>_. 0), outside = 0\<rparr>"

lemma clock_runs_demo: "clock_runs demo_dec_env"
  by (simp add: clock_runs_def demo_dec_env_def)

theorem read_packet_times_out_witness:
  "\<exists>w'. ff_smem_read_packet demo_dec_env 501 [the (new_stream demo_dec_env)] idle_dec clock_world = Some (Inr (-1, None, idle_dec, w'))"
  by (rule read_packet_times_out [OF _ clock_runs_demo])
    (simp_all add: idle_def idle_dec_def blank_dec_def demo_dec_env_def smemContext_calloc_def queue_empty_def)

text \<open>When no frame arrives while the header is read, the demuxer reports success without any stream,
  and the next packet request dereferences the missing array of streams.\<close>

theorem read_header_without_frames:
  assumes fname: "filename \<noteq> []" "length filename < 128" and mem: "calloc_ok (dev D)"
    and conn: "d_path cx = None" "connect_ip (dev D) ''127.0.0.1'' (d_port cx) w = (Some (h, False), w1)"
      "connect_ip (dev D) ''127.0.0.1'' (d_port cx) w1 = (Some (h2, False), w2)"
    and quiet: "\<forall>c w. arrivals D c w = (c, w)" "clock_runs D" "0 \<le> timeout cx" "timeout cx \<le> 2147"
    and fresh: "d_stream_number cx = 0" and fuel: "timeout cx * 25 < int fuel"
  shows "\<exists>cx' w'. ff_smem_read_header D fuel filename cx w = Some (Inr (0, cx', [], w')) \<and>
     ff_smem_read_packet D fuel [] cx' w' = Some (Inl NullDeref)"
proof -
  obtain c where c: "smemCreateConsumer (connect_ip (dev D)) (redisFree (dev D)) (calloc_ok (dev D)) ''127.0.0.1'' (d_port cx) filename w =
        Inr (Some c, w2)" "rctx c \<noteq> None" "ctype c = 1" "queue_empty c" "\<not> err c < 0"
    using fname(2) mem conn(2,3)
    by (simp add: smemCreateConsumer_def smemCreateConsumerWithName_def strcpy_buf_def smemCreateConnect_def queue_empty_def smemContext_calloc_def)
  let ?cx = "cx\<lparr>d_sctx := Some c, d_sctx_freed := False\<rparr>"
  have "idle D ?cx" using c quiet(1) by (simp add: idle_def)
  then obtain w' where g: "get_stream_info D (now D w2) fuel ?cx w2 = Some (Inr (-1, ?cx, w'))"
    using get_stream_info_idle [of D ?cx w2 "now D w2" fuel] quiet fuel by auto
  show ?thesis using fname(1) conn(1) c(1,5) g fresh
    by (simp add: ff_smem_read_header_def check_connection_def ff_smem_read_packet_def)
qed

theorem read_header_without_frames_witness:
  "\<exists>cx' w'. ff_smem_read_header demo_dec_env 251 ''live'' blank_dec clock_world = Some (Inr (0, cx', [], w')) \<and>
     ff_smem_read_packet demo_dec_env 251 [] cx' w' = Some (Inl NullDeref)"
  by (rule read_header_without_frames [OF _ _ _ _ _ _ _ clock_runs_demo])
    (simp_all add: demo_dec_env_def blank_dec_def)

end
