(* ===== verification/Smem_Transport.thy ===== *)
theory Smem_Transport
  imports Smem_Mux Smem_Demux
begin

text \<open>
  The muxer and the demuxer together: what \<open>smem_enc.c\<close> writes into a segment is what
  \<open>smem_dec.c\<close> reads from it, the descriptions of the streams as well as the packets.
\<close>

section \<open>The parts of a frame\<close>

definition packet_ok :: "av_packet \<Rightarrow> bool" where
  "packet_ok pkt \<longleftrightarrow> int_range (stream_index pkt) \<and> llong_range (pts pkt) \<and> llong_range (dts pkt)"

definition frame_ok :: "smem_enc_ctx \<Rightarrow> av_packet \<Rightarrow> int \<Rightarrow> int \<Rightarrow> bool" where
  "frame_ok ecx pkt n i \<longleftrightarrow> enc_ready ecx \<and> packet_ok pkt \<and> 0 \<le> n \<and> nat n \<le> length (pkt_data pkt) \<and>
     frame_size ecx n < 2 ^ 31 \<and> 0 \<le> i \<and> i < 2 ^ 31"

lemma frame_offsets:
  assumes "frame_ok ecx pkt n i"
  shows "data_offset (frame_info ecx pkt n i) = 48 + int (length (stream_infos_bytes (e_stream_infos ecx)))"
    and "280 * int (length (e_stream_infos ecx)) < 2 ^ 31"
    and "length (stream_infos_bytes (e_stream_infos ecx)) = 280 * length (e_stream_infos ecx)"
proof -
  have r: "enc_ready ecx" "0 \<le> n" "frame_size ecx n < 2 ^ 31" using assms by (simp_all add: frame_ok_def)
  have k: "e_stream_info_size ecx = int (length (stream_infos_bytes (e_stream_infos ecx)))" using enc_ready_bytes [OF r(1)] by simp
  show "data_offset (frame_info ecx pkt n i) = 48 + int (length (stream_infos_bytes (e_stream_infos ecx)))"
    using r(2,3) by (simp add: frame_info_def frame_size_def k c_int_id int_range_def)
  show "280 * int (length (e_stream_infos ecx)) < 2 ^ 31" using r by (simp add: frame_size_def enc_ready_def)
  show "length (stream_infos_bytes (e_stream_infos ecx)) = 280 * length (e_stream_infos ecx)"
    using r(1) by (subst length_stream_infos_bytes) (simp_all add: enc_ready_def stream_info_ok_def)
qed

lemma frame_memory_info:
  assumes "frame_ok ecx pkt n i"
  shows "memory_info_at (frame_bytes ecx pkt n i @ r) = Inr (frame_info ecx pkt n i)"
proof -
  have "memory_info_ok (frame_info ecx pkt n i)"
    using assms frame_offsets [OF assms]
    by (auto simp: memory_info_ok_def frame_ok_def packet_ok_def frame_info_def frame_size_def enc_ready_def int_range_def)
  then show ?thesis by (simp add: frame_bytes_def memory_info_roundtrip)
qed

lemma frame_stream_infos:
  assumes f: "frame_ok ecx pkt n i"
  shows "copy_stream_infos (frame_bytes ecx pkt n i @ r) (frame_info ecx pkt n i) cx =
    Inr (cx\<lparr>d_stream_number := int (length (e_stream_infos ecx)), d_stream_info_size := 280 * int (length (e_stream_infos ecx)),
            d_stream_infos := e_stream_infos ecx\<rparr>)"
proof -
  let ?m = "length (e_stream_infos ecx)"
  have ready: "enc_ready ecx" using f by (simp add: frame_ok_def)
  have mi: "stream_info_number (frame_info ecx pkt n i) = int ?m" "stream_info_offset (frame_info ecx pkt n i) = 48"
    using ready by (simp_all add: frame_info_def enc_ready_def)
  have sz: "c_int (int ?m * 280) = 280 * int ?m" "nat (280 * int ?m) = 280 * ?m"
    using frame_offsets(2) [OF f] by (simp_all add: c_int_id int_range_def nat_mult_distrib)
  have "peek 48 (280 * ?m) (frame_bytes ecx pkt n i @ r) = Inr (stream_infos_bytes (e_stream_infos ecx))"
    using frame_offsets(3) [OF f] by (simp add: peek_def frame_bytes_def)
  moreover have "stream_infos_of ?m (stream_infos_bytes (e_stream_infos ecx)) = e_stream_infos ecx"
    using stream_infos_roundtrip [of "e_stream_infos ecx" "[]"] ready by (simp add: enc_ready_def)
  ultimately show ?thesis by (simp add: copy_stream_infos_def Let_def mi sz)
qed

lemma frame_packet:
  assumes f: "frame_ok ecx pkt n i"
  shows "make_packet (frame_info ecx pkt n i) p d (frame_bytes ecx pkt n i @ r) =
    \<lparr>stream_index = stream_index pkt, pts = p, dts = d, key_flag = key_flag pkt, pkt_data = take (nat n) (pkt_data pkt), pkt_size = n\<rparr>"
proof -
  have "take (nat n) (drop (nat (data_offset (frame_info ecx pkt n i))) (frame_bytes ecx pkt n i @ r)) = take (nat n) (pkt_data pkt)"
    using f by (simp add: frame_offsets(1) [OF f] frame_bytes_def nat_add_distrib frame_ok_def)
  then show ?thesis by (simp add: make_packet_def) (simp add: frame_info_def)
qed

section \<open>Streams\<close>

text \<open>The stream the demuxer announces for a stream of the muxer, from the new stream \<open>st0\<close>: the
  description is kept, the time base becomes microseconds.\<close>

definition announce :: "'w dev_env \<Rightarrow> av_stream \<Rightarrow> av_stream \<Rightarrow> av_stream" where
  "announce E st0 st =
     (let st1 = st0\<lparr>st_id := st_id st, st_codec_type := st_codec_type st, st_codec_id := st_codec_id st,
                    st_time_base := SMEM_TIME_BASE_Q, st_extradata := st_extradata st\<rparr>
      in if st_codec_type st = avm E AVMEDIA_TYPE_AUDIO
         then st1\<lparr>st_sample_rate := st_sample_rate st, st_channels := st_channels st, st_sample_fmt := st_sample_fmt st\<rparr>
         else st1\<lparr>st_pix_fmt := st_pix_fmt st, st_width := st_width st, st_height := st_height st\<rparr>)"

text \<open>A stream whose codec and format the conversion tables know.\<close>

definition known :: "'w dev_env \<Rightarrow> av_stream \<Rightarrow> bool" where
  "known E st \<longleftrightarrow> st_codec_id st \<in> avc E ` snd ` set smem2av_codec_id_cases \<and>
     (st_codec_type st = avm E AVMEDIA_TYPE_AUDIO \<longrightarrow> st_sample_fmt st \<in> avs E ` snd ` set smem2av_sample_fmt_cases) \<and>
     (st_codec_type st = avm E AVMEDIA_TYPE_VIDEO \<longrightarrow> st_pix_fmt st \<in> avp E ` snd ` set smem2av_pix_fmt_cases)"

definition constants_differ :: "'w dev_env \<Rightarrow> bool" where
  "constants_differ E \<longleftrightarrow> inj (avc E) \<and> inj (avp E) \<and> inj (avs E) \<and> avm E AVMEDIA_TYPE_AUDIO \<noteq> avm E AVMEDIA_TYPE_VIDEO"

lemma codec_back: "inj av \<Longrightarrow> x \<in> av ` snd ` set smem2av_codec_id_cases \<Longrightarrow> smem2av_codec_id av (av2smem_codec_id av x) = x"
  unfolding smem2av_codec_id_def av2smem_codec_id_def using codecs.forward codecs.backward by fastforce

lemma pix_back: "inj av \<Longrightarrow> x \<in> av ` snd ` set smem2av_pix_fmt_cases \<Longrightarrow> smem2av_pix_fmt av (av2smem_pix_fmt av x) = x"
  unfolding smem2av_pix_fmt_def av2smem_pix_fmt_def using pix.forward pix.backward by fastforce

lemma sample_back: "inj av \<Longrightarrow> x \<in> av ` snd ` set smem2av_sample_fmt_cases \<Longrightarrow> smem2av_sample_fmt av (av2smem_sample_fmt av x) = x"
  unfolding smem2av_sample_fmt_def av2smem_sample_fmt_def using samples.forward samples.backward by fastforce

lemma take_copied: "copy_extradata d = Inr x \<Longrightarrow> take_extradata (int (length d)) x = Inr d"
  by (auto simp: take_extradata_def prefix_of_def copy_extradata_def split: if_splits)

lemma audio_described:
  assumes d: "described E n st s" and ok: "stream_ok st" "known E st" "constants_differ E" and a: "st_codec_type st = avm E AVMEDIA_TYPE_AUDIO"
  shows "s_codec_type s = media_num SMEM_MEDIA_TYPE_AUDIO" and "audio_stream E s st0 = Inr (announce E st0 st)"
proof -
  obtain x where x: "copy_extradata (st_extradata st) = Inr x" and s: "audio_info E n st = Inr s"
    using d a by (auto simp: described_def audio_info_def bindE_eq_Inr)
  show "s_codec_type s = media_num SMEM_MEDIA_TYPE_AUDIO" using s x by (auto simp: audio_info_def)
  let ?a = "\<lparr>a_sample_rate = st_sample_rate st, a_channels = st_channels st, a_sample_fmt = av2smem_sample_fmt (avs E) (st_sample_fmt st),
     a_extradata_size = int (length (st_extradata st)), a_extradata = x\<rparr>"
  have "audio_stream_info_ok ?a"
    using length_copy_extradata [OF x] ok(1) by (simp add: audio_stream_info_ok_def stream_ok_def av2smem_range int_range_def [of "int _"])
  then have "audio_stream_info_of (s_info s) = ?a" using s x audio_stream_info_roundtrip [of ?a] by (auto simp: audio_info_def)
  moreover have "smem2av_codec_id (avc E) (av2smem_codec_id (avc E) (st_codec_id st)) = st_codec_id st"
    "smem2av_sample_fmt (avs E) (av2smem_sample_fmt (avs E) (st_sample_fmt st)) = st_sample_fmt st"
    using ok(2,3) a by (simp_all add: known_def constants_differ_def codec_back sample_back)
  ultimately show "audio_stream E s st0 = Inr (announce E st0 st)"
    using s x a take_copied [OF x] by (auto simp: audio_stream_def Let_def announce_def audio_info_def)
qed

lemma video_described:
  assumes d: "described E n st s" and ok: "stream_ok st" "known E st" "constants_differ E" and v: "st_codec_type st = avm E AVMEDIA_TYPE_VIDEO"
  shows "s_codec_type s = media_num SMEM_MEDIA_TYPE_VIDEO" and "video_stream E s st0 = Inr (announce E st0 st)"
proof -
  obtain x where x: "copy_extradata (st_extradata st) = Inr x" and s: "video_info E n st = Inr s"
    using d v ok(3) by (auto simp: described_def video_info_def bindE_eq_Inr constants_differ_def)
  show "s_codec_type s = media_num SMEM_MEDIA_TYPE_VIDEO" using s x by (auto simp: video_info_def)
  let ?v = "\<lparr>v_width = st_width st, v_height = st_height st, v_pix_fmt = av2smem_pix_fmt (avp E) (st_pix_fmt st),
     v_extradata_size = int (length (st_extradata st)), v_extradata = x\<rparr>"
  have "video_stream_info_ok ?v"
    using length_copy_extradata [OF x] ok(1) by (simp add: video_stream_info_ok_def stream_ok_def av2smem_range int_range_def [of "int _"])
  then have "video_stream_info_of (s_info s) = ?v" using s x video_stream_info_roundtrip [of ?v] by (auto simp: video_info_def)
  moreover have "smem2av_codec_id (avc E) (av2smem_codec_id (avc E) (st_codec_id st)) = st_codec_id st"
    "smem2av_pix_fmt (avp E) (av2smem_pix_fmt (avp E) (st_pix_fmt st)) = st_pix_fmt st"
    using ok(2,3) v by (simp_all add: known_def constants_differ_def codec_back pix_back)
  moreover have "st_codec_type st \<noteq> avm E AVMEDIA_TYPE_AUDIO" using ok(3) v by (simp add: constants_differ_def)
  ultimately show "video_stream E s st0 = Inr (announce E st0 st)"
    using s x v take_copied [OF x] by (auto simp: video_stream_def Let_def announce_def video_info_def)
qed

lemma media_nums: "media_num SMEM_MEDIA_TYPE_AUDIO \<noteq> media_num SMEM_MEDIA_TYPE_VIDEO"
  by (simp add: media_num_def SMemMediaType_values_def)

lemma create_streams_announces:
  assumes E: "constants_differ (dev D)" "new_stream D = Some st0"
  shows "\<forall>j<length sts. described (dev D) (int (k + j)) (sts ! j) (d_stream_infos cx ! (k + j)) \<Longrightarrow>
     \<forall>st\<in>set sts. av_type (dev D) st \<and> stream_ok st \<and> known (dev D) st \<Longrightarrow>
     k + length sts \<le> 64 \<Longrightarrow> k + length sts \<le> length (d_stream_infos cx) \<Longrightarrow>
     \<exists>cx'. create_streams D k (length sts) cx acc = Inr (True, cx', acc @ map (announce (dev D) st0) sts) \<and> d_stream_infos cx' = d_stream_infos cx"
proof (induction sts arbitrary: k cx acc)
  case (Cons st sts)
  let ?s = "d_stream_infos cx ! k" and ?a = "announce (dev D) st0 st"
  have d: "described (dev D) (int k) st ?s" using Cons.prems(1) by (metis add.right_neutral length_greater_0_conv list.distinct(1) nth_Cons_0)
  have st: "av_type (dev D) st" "stream_ok st" "known (dev D) st" using Cons.prems(2) by simp_all
  have tail: "\<forall>j<length sts. described (dev D) (int (k + 1 + j)) (sts ! j) (d_stream_infos cx ! (k + 1 + j))"
    using Cons.prems(1) by (metis add.assoc add_Suc_right length_Cons not_less_eq nth_Cons_Suc plus_1_eq_Suc)
  obtain cx2 where step: "create_streams D k (length (st # sts)) cx acc = create_streams D (k + 1) (length sts) cx2 (acc @ [?a])"
      "d_stream_infos cx2 = d_stream_infos cx"
  proof (cases "st_codec_type st = avm (dev D) AVMEDIA_TYPE_AUDIO")
    case True
    with audio_described(1) [OF d st(2,3) E(1) True] audio_described(2) [OF d st(2,3) E(1) True, of st0] Cons.prems(3,4) E(2) media_nums that show ?thesis
      by (auto simp: start_stream_def Let_def)
  next
    case False
    then have v: "st_codec_type st = avm (dev D) AVMEDIA_TYPE_VIDEO" using st(1) by (simp add: av_type_def)
    with video_described(1) [OF d st(2,3) E(1) v] video_described(2) [OF d st(2,3) E(1) v, of st0] Cons.prems(3,4) E(2) that show ?thesis
      by (auto simp: start_stream_def Let_def)
  qed
  have "\<exists>cx'. create_streams D (k + 1) (length sts) cx2 (acc @ [?a]) = Inr (True, cx', (acc @ [?a]) @ map (announce (dev D) st0) sts) \<and> d_stream_infos cx' = d_stream_infos cx2"
    by (rule Cons.IH) (use tail step(2) Cons.prems(2,3,4) in simp_all)
  with step show ?case by simp
qed simp

section \<open>Round trips\<close>

text \<open>A segment that holds a frame of the muxer reaches the demuxer: the subscriber thread has queued
  its id and the kernel attaches and detaches it.\<close>

definition frame_arrives ::
    "'w dec_env \<Rightarrow> smemContext \<Rightarrow> smemContext \<Rightarrow> int \<Rightarrow> block \<Rightarrow> 'w shm_world \<Rightarrow> 'w shm_world \<Rightarrow> bool" where
  "frame_arrives D c c' i b w w' \<longleftrightarrow>
     (\<exists>c1. arrivals D c w = (c1, w') \<and> rctx c1 \<noteq> None \<and> ctype c1 = SMEM_CLIENT_TYPE_CONSUMER \<and> smem_queue_pop c1 (-1) = (1, i, c')) \<and>
     segs w' i = Some b \<and> \<not> shmat_denied (dev D) i w' \<and> (\<forall>v. \<not> shmdt_fails (dev D) i v)"

lemma take_id_frame:
  assumes "frame_arrives D c c' i b w w'" and "d_sctx cx = Some c" and "\<not> d_sctx_freed cx"
  shows "take_id D cx w = Inr (i, cx\<lparr>d_sctx := Some c'\<rparr>, w')"
    and "shmat (dev D) i w' = (Some b, w'\<lparr>attached := (attached w')(i := attached w' i + 1)\<rparr>)"
proof -
  obtain c1 where c1: "arrivals D c w = (c1, w')" "rctx c1 \<noteq> None" "ctype c1 = SMEM_CLIENT_TYPE_CONSUMER" "smem_queue_pop c1 (-1) = (1, i, c')"
    using assms(1) unfolding frame_arrives_def by blast
  then show "take_id D cx w = Inr (i, cx\<lparr>d_sctx := Some c'\<rparr>, w')"
    using assms(2,3) by (auto simp: take_id_def live_ctx_def smemGetShareMemory_def smemConsumerGetShareMemory_def)
  show "shmat (dev D) i w' = (Some b, w'\<lparr>attached := (attached w')(i := attached w' i + 1)\<rparr>)"
    using assms(1) by (simp add: frame_arrives_def shmat_def)
qed

text \<open>C2: the demuxer announces the streams the muxer was given: when the header of the muxer has been
  written for audio and video streams with known codecs and formats, and any frame it wrote
  arrives while the demuxer reads its header, the demuxer reports success and announces the same
  streams in the same order, with their ids, codecs, formats, sizes, rates, channels and extradata.\<close>

theorem streams_roundtrip:
  assumes enc: "\<forall>st\<in>set sts. supported (dev D) st \<and> stream_ok st \<and> known (dev D) st" "constants_differ (dev D)"
      "length (e_stream_infos ecx) = length sts" "\<forall>j<length sts. described (dev D) (int j) (sts ! j) (e_stream_infos ecx ! j)"
      "length sts \<le> 64" "frame_ok ecx pkt n i"
    and dec: "filename \<noteq> []" "length filename < 128" "calloc_ok (dev D)" "av_malloc_ok (dev D)" "d_path cx = None" "new_stream D = Some st0"
      "connect_ip (dev D) ''127.0.0.1'' (d_port cx) w = (Some (h, False), w1)"
      "connect_ip (dev D) ''127.0.0.1'' (d_port cx) w1 = (Some (h2, False), w2)"
    and frame: "\<And>c. rctx c = Some h \<Longrightarrow> ctype c = SMEM_CLIENT_TYPE_CONSUMER \<Longrightarrow> \<exists>c'. frame_arrives D c c' i (frame_bytes ecx pkt n i @ r) w2 w3"
  shows "\<exists>cx' w'. ff_smem_read_header D (Suc fuel) filename cx w = Some (Inr (0, cx', map (announce (dev D) st0) sts, w')) \<and>
     d_stream_infos cx' = e_stream_infos ecx"
proof -
  let ?b = "frame_bytes ecx pkt n i @ r" and ?mi = "frame_info ecx pkt n i" and ?m = "length sts"
  obtain c where c: "smemCreateConsumer (connect_ip (dev D)) (redisFree (dev D)) (calloc_ok (dev D)) ''127.0.0.1'' (d_port cx) filename w =
        Inr (Some c, w2)" "rctx c = Some h" "ctype c = SMEM_CLIENT_TYPE_CONSUMER" "\<not> err c < 0"
    using dec by (simp add: smemCreateConsumer_def smemCreateConsumerWithName_def strcpy_buf_def smemCreateConnect_def smemContext_calloc_def)
  obtain c' where f: "frame_arrives D c c' i ?b w2 w3" using frame [OF c(2,3)] by blast
  let ?cx = "cx\<lparr>d_sctx := Some c, d_sctx_freed := False\<rparr>"
  let ?cx1 = "?cx\<lparr>d_sctx := Some c', d_stream_number := int ?m, d_stream_info_size := 280 * int ?m, d_stream_infos := e_stream_infos ecx\<rparr>"
  have i: "i \<noteq> -1" using enc(6) by (simp add: frame_ok_def)
  have "\<exists>w'. get_stream_info D t (Suc fuel) ?cx w2 = Some (Inr (0, ?cx1, w'))" for t
    using take_id_frame(1) [OF f, of ?cx] take_id_frame(2) [OF f, of ?cx] f i dec(4) frame_memory_info [OF enc(6), of r]
      frame_stream_infos [OF enc(6), of r "?cx\<lparr>d_sctx := Some c'\<rparr>"] enc(3)
    by (simp add: shmdt_def frame_arrives_def)
  then obtain w' where g: "get_stream_info D (now D w2) (Suc fuel) ?cx w2 = Some (Inr (0, ?cx1, w'))" by blast
  have "\<exists>cx'. create_streams D 0 ?m ?cx1 [] = Inr (True, cx', [] @ map (announce (dev D) st0) sts) \<and> d_stream_infos cx' = d_stream_infos ?cx1"
    by (rule create_streams_announces [OF enc(2) dec(6)]) (use enc in \<open>simp_all add: supported_def\<close>)
  then show ?thesis using dec(1,5) c(1,4) g by (auto simp: ff_smem_read_header_def check_connection_def simp del: get_stream_info.simps)
qed

text \<open>A server that delivers the demonstration frame to every consumer.\<close>

definition demo_info :: stream_info where
  "demo_info = projr (audio_info (dev demo_dec_env) 0 demo_stream)"

definition demo_ecx :: smem_enc_ctx where
  "demo_ecx = demo_enc\<lparr>e_stream_infos := [demo_info]\<rparr>"

definition demo_delivery :: "int dec_env" where
  "demo_delivery = demo_dec_env\<lparr>arrivals := \<lambda>c w.
     (c\<lparr>queue := [5], queue_head := 0, queue_end := 1\<rparr>, w\<lparr>segs := (segs w)(5 \<mapsto> frame_bytes demo_ecx demo_packet 3 5)\<rparr>)\<rparr>"

lemma demo_delivery_dev [simp]: "dev demo_delivery = dev demo_dec_env"
  by (simp add: demo_delivery_def)

lemma demo_described: "described (dev demo_dec_env) 0 demo_stream demo_info"
  by (simp add: described_def demo_info_def audio_info_def copy_extradata_def demo_stream_def demo_dec_env_def media_value_def)

lemma demo_stream_good:
  "supported (dev demo_dec_env) demo_stream" "stream_ok demo_stream" "known (dev demo_dec_env) demo_stream" "constants_differ (dev demo_dec_env)"
proof -
  show "supported (dev demo_dec_env) demo_stream" "stream_ok demo_stream"
    by (simp_all add: supported_def av_type_def stream_ok_def demo_stream_def demo_dec_env_def media_value_def int_range_def)
  have "AV_CODEC_ID_AAC \<in> snd ` set smem2av_codec_id_cases" "AV_SAMPLE_FMT_S16 \<in> snd ` set smem2av_sample_fmt_cases"
    by (simp_all add: smem2av_codec_id_cases_def smem2av_sample_fmt_cases_def)
  then show "known (dev demo_dec_env) demo_stream"
    by (simp add: known_def demo_stream_def demo_dec_env_def media_value_def)
  show "constants_differ (dev demo_dec_env)"
    using inj_position [OF all_codecs] inj_position [OF all_pix] inj_position [OF all_samples]
    by (simp add: constants_differ_def demo_dec_env_def media_value_def)
qed

lemma demo_frame_ok: "frame_ok demo_ecx demo_packet 3 5"
  using described_ok [OF demo_described demo_stream_good(2)]
  by (simp add: frame_ok_def demo_ecx_def demo_enc_def demo_packet_def enc_ready_def packet_ok_def frame_size_def int_range_def llong_range_def)

lemma demo_frame_arrives:
  "rctx c = Some h \<Longrightarrow> ctype c = SMEM_CLIENT_TYPE_CONSUMER \<Longrightarrow>
     frame_arrives demo_delivery c (c\<lparr>queue := [5], queue_head := 1, queue_end := 1\<rparr>) 5 (frame_bytes demo_ecx demo_packet 3 5 @ []) w
       (w\<lparr>segs := (segs w)(5 \<mapsto> frame_bytes demo_ecx demo_packet 3 5)\<rparr>)"
  by (simp add: frame_arrives_def demo_delivery_def demo_dec_env_def smem_queue_pop_def queue_empty_def smod_nonneg)

theorem streams_roundtrip_witness:
  "\<exists>cx' w'. ff_smem_read_header demo_delivery 1 ''live'' blank_dec clock_world =
      Some (Inr (0, cx', map (announce (dev demo_delivery) (the (new_stream demo_dec_env))) [demo_stream], w')) \<and>
     d_stream_infos cx' = e_stream_infos demo_ecx"
  unfolding One_nat_def
  by (rule streams_roundtrip [where n = 3 and i = 5 and pkt = demo_packet and r = "[]" and h = 3])
    (use demo_stream_good demo_described demo_frame_ok demo_frame_arrives in
      \<open>auto simp: demo_ecx_def blank_dec_def demo_dec_env_def demo_delivery_def\<close>)

text \<open>C1: a packet survives the transport: when a frame the muxer wrote reaches the demuxer, is not held
  back by the time stamp rules and not skipped, the demuxer hands out a packet of the same stream
  with the same key flag and exactly the bytes of the data, without copying them; when the packet
  is released, the segment is detached and its id returned to the server.\<close>

theorem packet_roundtrip:
  assumes f: "frame_ok ecx pkt n i" and a: "frame_arrives D c c' i (frame_bytes ecx pkt n i @ r) w w1"
    and cx: "d_sctx cx = Some c" "\<not> d_sctx_freed cx" "rctx c' = Some h" and "streams \<noteq> []" and "\<forall>k. alloc_ok D k"
    and ts: "rebuild_timestamp (dev D) (cx\<lparr>d_sctx := Some c'\<rparr>) (frame_info ecx pkt n i) = Inr (0, p, d, cx1)"
    and keep: "if_free_frame cx1 (frame_info ecx pkt n i) = Inr (False, cx2)" "d_sctx cx2 = Some c'" "\<not> d_sctx_freed cx2"
  shows "\<exists>w2. ff_smem_read_packet D (Suc fuel) streams cx w =
      Some (Inr (0, Some (\<lparr>stream_index = stream_index pkt, pts = p, dts = d, key_flag = key_flag pkt,
                           pkt_data = take (nat n) (pkt_data pkt), pkt_size = n\<rparr>, i), cx2, w2)) \<and>
      attached w2 i = attached w1 i + 1 \<and>
      ff_smem_av_buffer_free D cx2 i w2 = Inr (snd (command (dev D) h [''SMEMFREE'', dec_int i] w1))"
proof -
  let ?b = "frame_bytes ecx pkt n i @ r" and ?w2 = "w1\<lparr>attached := (attached w1)(i := attached w1 i + 1)\<rparr>"
  have i: "0 \<le> i" "i \<noteq> -1" using f by (auto simp: frame_ok_def)
  note t = take_id_frame [OF a cx(1,2)]
  have "ff_smem_read_packet D (Suc fuel) streams cx w = Some (Inr (0, Some (make_packet (frame_info ecx pkt n i) p d ?b, i), cx2, ?w2))"
    using assms(6,7) i t ts keep(1) frame_memory_info [OF f, of r] by (simp add: ff_smem_read_packet_def)
  moreover have "ff_smem_av_buffer_free D cx2 i ?w2 = Inr (snd (command (dev D) h [''SMEMFREE'', dec_int i] w1))"
    using a i keep(2,3) cx(3) frame_memory_info [OF f, of r]
    by (simp add: ff_smem_av_buffer_free_def frame_arrives_def shmdt_def live_ctx_def free_id_def smemFreeShareMemory_def) (simp add: frame_info_def)
  ultimately show ?thesis by (simp add: frame_packet [OF f])
qed

definition demo_after :: smem_dec_ctx where
  "demo_after = set_last 0 1800 0
     (idle_dec\<lparr>d_sctx := Some (the (d_sctx idle_dec)\<lparr>queue := [5], queue_head := 1, queue_end := 1\<rparr>),
               first_in_ts := (first_in_ts idle_dec)[0 := 1800], base_stream_start := 1\<rparr>)"

theorem packet_roundtrip_witness:
  "\<exists>w2. ff_smem_read_packet demo_delivery (Suc 0) [demo_stream] idle_dec clock_world =
      Some (Inr (0, Some (\<lparr>stream_index = stream_index demo_packet, pts = 1800, dts = 0, key_flag = key_flag demo_packet,
        pkt_data = take (nat 3) (pkt_data demo_packet), pkt_size = 3\<rparr>, 5), demo_after, w2)) \<and>
      attached w2 5 = attached (clock_world\<lparr>segs := (segs clock_world)(5 \<mapsto> frame_bytes demo_ecx demo_packet 3 5)\<rparr>) 5 + 1 \<and>
      ff_smem_av_buffer_free demo_delivery demo_after 5 w2 =
        Inr (snd (command (dev demo_delivery) 3 [''SMEMFREE'', dec_int 5] (clock_world\<lparr>segs := (segs clock_world)(5 \<mapsto> frame_bytes demo_ecx demo_packet 3 5)\<rparr>)))"
proof -
  let ?c = "the (d_sctx idle_dec)"
  have a: "frame_arrives demo_delivery ?c (?c\<lparr>queue := [5], queue_head := 1, queue_end := 1\<rparr>) 5 (frame_bytes demo_ecx demo_packet 3 5 @ [])
      clock_world (clock_world\<lparr>segs := (segs clock_world)(5 \<mapsto> frame_bytes demo_ecx demo_packet 3 5)\<rparr>)"
    by (rule demo_frame_arrives [where h = 3]) (simp_all add: idle_dec_def blank_dec_def smemContext_calloc_def)
  have ts: "rebuild_timestamp (dev demo_delivery) (idle_dec\<lparr>d_sctx := Some (?c\<lparr>queue := [5], queue_head := 1, queue_end := 1\<rparr>)\<rparr>)
      (frame_info demo_ecx demo_packet 3 5) = Inr (0, 1800, 0, demo_after)"
    by (simp add: rebuild_timestamp_def Let_def frame_info_def demo_packet_def demo_dec_env_def idle_dec_def blank_dec_def demo_after_def
        SMEM_NUM_IF_OUT_RANGE_def c_llong_def c_int_def set_last_def)
  have keep: "if_free_frame demo_after (frame_info demo_ecx demo_packet 3 5) = Inr (False, demo_after)"
    by (simp add: if_free_frame_def frame_info_def demo_packet_def demo_after_def set_last_def idle_dec_def blank_dec_def)
  show ?thesis
    by (rule packet_roundtrip [OF demo_frame_ok a _ _ _ _ _ ts keep])
      (simp_all add: idle_dec_def blank_dec_def smemContext_calloc_def demo_after_def set_last_def demo_delivery_def demo_dec_env_def)
qed

end
