(* ===== verification/Spec2Isabelle.thy ===== *)
theory Spec2Isabelle
  imports Redis_List Redis_Events Redis_Cron Redis_Expire Redis_Process Hiredis_Async Smem_Transport
begin

text \<open>
  Verification of the share memory media transport of this repository.

  \<^bold>\<open>The program.\<close> Encoded or raw media travels between processes of one machine in System V share memory. A modified
  Redis server (\<open>redis/src\<close>) owns the segments: a producer asks it for a buffer (\<open>SMEMGET\<close>), fills the
  segment and publishes its id on a channel (\<open>SMEMPUBLISH\<close>); the server sends the id to the subscribers of the channel
  (\<open>SMEMSUBSCRIBE\<close>) and counts one reference per receiver, which each of them gives back (\<open>SMEMFREE\<close>). Idle buffers
  are kept for reuse and removed by a periodic sweep; \<open>SMEMSWITCH\<close> moves a named subscriber to another channel. The
  client side is a small library (\<open>redis/test/smem_client.c\<close>) with a subscriber thread and a ring buffer of ids, used by
  an FFmpeg muxer and demuxer (\<open>ffmpeg-device-add/src/ffmpeg-3.0.2/libavdevice/smem_enc.c\<close>, \<open>smem_dec.c\<close>).

  \<^bold>\<open>Theories and sources.\<close>
  \<^item> \<open>Prelude\<close>: C integer conversions, decimal notation, generic lemmas.
  \<^item> \<open>Smem_Client\<close>: \<open>smem_client.c\<close>: context, ring buffer, requests, constructors, subscriber thread and callback.
    \<open>Hiredis_Async\<close>: the asynchronous connection of that thread (\<open>redis/deps/hiredis/async.c\<close>, as modified for the transport).
  \<^item> \<open>Smem_Shm\<close>: \<open>smem.c\<close>: creating, removing and listing segments. \<open>Smem_Store\<close>: the buffer pool of \<open>smem4redis.c\<close>
    (get, free, remove, sweep). \<open>Smem_Pubsub\<close>: its subscriptions, publishing and switching. \<open>Redis_List\<close>: its surgery on
    doubly linked lists, on an explicit store of nodes.
  \<^item> \<open>Redis_State\<close>: \<open>struct client\<close>, \<open>struct smem_t\<close> and the fields of \<open>struct redisServer\<close> that the code uses (\<open>server.h\<close>).
  \<^item> \<open>Redis_Reply\<close>, \<open>Redis_Write\<close>, \<open>Redis_Proto\<close>, \<open>Redis_Clients\<close>, \<open>Redis_Sessions\<close>, \<open>Redis_Admin\<close>: \<open>networking.c\<close>: queueing
    replies, writing them to the socket, parsing requests, creating and freeing clients, sequences of operations,
    accepting connections, pausing, and the \<open>CLIENT\<close> command with its list of clients.
  \<^item> \<open>Redis_Commands\<close>, \<open>Redis_Server\<close>, \<open>Redis_Cron\<close>: \<open>server.c\<close>: the command table and its lookup, \<open>processCommand\<close>, \<open>call\<close>
    and the commands without a data base, and the periodic work. \<open>Redis_Evict\<close>, \<open>Redis_Expire\<close>: its work on the data bases:
    the memory limit with the pool of eviction candidates, expiring keys, resizing tables. \<open>Redis_Process\<close>: its limit of open
    files, listening sockets and shutdown.
  \<^item> \<open>Redis_Dispatch\<close>, \<open>Redis_Wire\<close>, \<open>Redis_Events\<close>: what the processor guarantees, the requests of the client library from the
    bytes in the query buffer to the tables of the server, and the handlers of read and write events (\<open>networking.c\<close>) around them.
  \<^item> \<open>Smem_Media\<close>, \<open>Smem_Layout\<close>: the constants of the transport and the bytes of a segment (\<open>smem.h\<close>, \<open>smem_com.c\<close>).
    \<open>Smem_Device\<close>, \<open>Smem_Mux\<close>, \<open>Smem_Demux\<close>, \<open>Smem_Transport\<close>: the two devices, and both together.
  \<^item> This theory: the way of an id from the publisher through the server and the connection to the queue of a consumer.

  Structures are records, tables are maps, Redis lists are lists of values, a pointer to a client is a number with a set
  of allocated ones, \<open>size_t\<close> and flag words are machine words, and other integers are \<open>int\<close> with the conversions of the
  code written out. Failed assertions, crashes (\<open>c_fault\<close>) and error returns are values. What the code calls of FFmpeg,
  of the rest of hiredis, the kernel and the Redis files that are not in this tree is a field of an environment record; what is relied on
  is a named predicate of it (\<open>shm_contract\<close>, \<open>decodes\<close>, \<open>env_ok\<close>, \<open>plain_env\<close>, \<open>params_keep\<close>, \<open>reads_lengths\<close>, ...), and the witnesses
  instantiate it.

  \<^bold>\<open>Interfaces.\<close> The locales state the contracts between parts: \<open>bounded_fifo\<close> (the ring between the threads of a client),
  \<open>buffer_store\<close> (what publishing and freeing rely on of the pool), \<open>reply_sink\<close> (the functions that queue replies),
  \<open>conversion\<close> (tables of constants), \<open>candidate_pool\<close> (a sorted pool of eviction candidates) and \<open>server_command\<close> (what the command processor relies on of a command). Each is
  interpreted on the definitions that implement it.

  \<^bold>\<open>What is shown.\<close>
  \<^item> End to end: a packet and the stream descriptions survive the way from muxer to demuxer; the requests of the subscriber
    thread name and subscribe the client, and what is published on the channels it is moved to reaches its queue; a published id reaches every subscriber once; a buffer is never handed out while
    somebody holds it, and abandoned buffers are reclaimed by the cron.
  \<^item> Invariants: the accounting of the pool (\<open>store_inv\<close>), the two-sided subscription tables (\<open>subs_ok\<close>) and the lists that
    refer to clients (\<open>net_inv\<close>) are kept by every modelled operation, also by \<open>CLIENT KILL\<close>, accepting connections and
    \<open>serverCron\<close>; nothing refers to a freed client.
  \<^item> Parsing and replying: requests split in any way are parsed to their arguments, the loops end, replies are
    queued and written in order and in full; refused requests change nothing; a lost connection settles every callback of a subscriber once; the list of clients can be taken apart again.
  \<^item> Memory: the eviction pool is the sixteen idlest candidates of a sorted list, freeing memory ends and fails only when nothing
    may be evicted, and expiring takes only keys whose time is up.
  \<^item> Refinements: the ring buffer is a queue, also when the two threads interleave at every shared access; the pointer
    surgery computes the list operations; \<open>time_independent_strcmp\<close> is equality.
  \<^item> Defects, as theorems about the code as it is: stale list nodes after \<open>SMEMSWITCH\<close>, dead buffers after \<open>SMEMRM\<close>, the
    wrap-around of \<open>share_memory_size\<close>, the second entry in the queue of unblocked clients after a pause, subscribers that can
    run no share memory command, the request \<open>SETNAME\<close>, clients dropped in the middle of a long argument during a pause, the
    wrap-around of \<open>maxclients\<close> and of the counted memory, and smaller ones.

  \<^bold>\<open>Loops.\<close> Loops over lists are folds or structural recursion. These loops have fuel: the input loop, for which one round per
  buffered byte and one more suffice; the deferred frees, one round per queued client and one more (\<open>serverCron\<close> computes that number);
  disconnecting slaves; freeing memory, one round per key and one more, and the search for a key in it, one round more than the number of
  samples of which one is not empty; expiring, one round per key with an expiry time and one more; and the packet loop of the demuxer, which is bounded by fifty rounds per second of its time limit.

  \<^bold>\<open>Not modelled.\<close> Logging, socket options, the event loop itself, the allocator except for sizes, latency samples and the
  slow log; the commands on keys, persistence, replication, cluster and scripting, whose files are not in this tree; \<open>INFO\<close>, the
  default configuration, option parsing, signals, daemonizing and supervision in \<open>server.c\<close>, which format text or set up the
  process; \<open>redis-cli.c\<close>, the superseded \<open>smem4redis_old.c\<close> and the demuxer of the 3.0.1 tree; vendored OpenSSH
  sources; the NVENC example and the unrelated experiments in the other directories. The data bases are not part of the
  state of the command processor, so \<open>processCommand\<close> and \<open>serverCron\<close> take \<open>freeMemoryIfNeeded\<close> and \<open>databasesCron\<close>
  as arguments; both are modelled on a state of their own. Counters of type \<open>int\<close> and \<open>long long\<close> that only grow
  (\<open>cronloops\<close>, statistics) are unbounded.
\<close>

section \<open>From the publisher to the queue of a consumer\<close>

text \<open>The reader of replies is part of hiredis that is not in this tree. What is relied on is that it reads the encoding of an array of
  strings of moderate length as that array.\<close>

definition decodes :: "(string \<Rightarrow> redisReply list) \<Rightarrow> bool" where
  "decodes reader \<longleftrightarrow> (\<forall>args. request_ok args \<longrightarrow> length (mbulk args) \<le> 64 * 1024 \<longrightarrow>
     reader (mbulk args) = [REDIS_REPLY_ARRAY (map REDIS_REPLY_STRING args)])"

lemma message_bytes_mbulk: "message_bytes ch m = mbulk [''message'', ch, m]"
proof -
  have "dec_nat (length [''message'', ch, m]) = ''3''" "dec_nat (length ''message'') = ''7''" by code_simp+
  then show ?thesis by (simp only: message_bytes_def mbulk_def bulk_def list.map concat.simps) simp
qed

lemma decodes_message:
  assumes "decodes reader" "length ch < 128" "int_range i"
  shows "reader (message_bytes ch (dec_int i)) = [id_message (ch, i)]"
proof -
  have d: "length (dec_nat n) \<le> 10" if "n \<le> 2 ^ 31" for n using that by (intro length_dec_nat) simp_all
  have "nat \<bar>i\<bar> \<le> 2 ^ 31" using assms(3) by (auto simp: int_range_def nat_le_iff abs_if)
  from d [OF this] have i: "length (dec_int i) \<le> 11" by (cases "i < 0") (simp_all add: dec_int_def)
  have "length (bulk x) \<le> 15 + length x" if "length x < 128" for x using d [of "length x"] that by (simp add: bulk_def)
  from this [of ch] this [of "dec_int i"] this [of "''message''"] i assms(2) d [of "Suc (Suc (Suc 0))"]
  have "length (mbulk [''message'', ch, dec_int i]) \<le> 64 * 1024" by (simp add: mbulk_def)
  moreover have "request_ok [''message'', ch, dec_int i]" using i assms(2) by (simp add: request_ok_def)
  ultimately show ?thesis
    using assms(1) unfolding decodes_def message_bytes_mbulk id_message_def push_reply_def by simp
qed

text \<open>The parser of the server reads what it is relied on here to be read.\<close>

definition parser_reader :: "string \<Rightarrow> redisReply list" where
  "parser_reader b =
     (case processMultibulkBuffer parse_dec (demo_reader\<lparr>querybuf := b\<rparr>) of
        (POk, cl) \<Rightarrow> [REDIS_REPLY_ARRAY (map REDIS_REPLY_STRING (argv cl))]
      | _ \<Rightarrow> [])"

lemma parser_reader_decodes: "decodes parser_reader"
  unfolding decodes_def
proof (intro allI impI)
  fix args assume a: "request_ok args" "length (mbulk args) \<le> 64 * 1024"
  let ?c = "demo_reader\<lparr>querybuf := mbulk args\<rparr>"
  obtain st cl where r: "processMultibulkBuffer parse_dec ?c = (st, cl)" by fastforce
  have "awaits ?c [] args []" by (simp add: awaits_def demo_reader_def blank_client_def)
  moreover have "room ?c 0" using a(2) by (simp add: room_def)
  ultimately have "st = POk \<and> argv cl = args" using process_good [OF reads_lengths_parse_dec _ _ a(1) r] by blast
  with r show "parser_reader (mbulk args) = [REDIS_REPLY_ARRAY (map REDIS_REPLY_STRING args)]" by (simp add: parser_reader_def)
qed

text \<open>C3: from one end to the other across a switch: when \<open>SMEMSWITCH\<close> has moved a subscriber to another channel and a producer publishes a
  buffer there, the server appends exactly one message to what the subscriber is sent, and the read event that delivers it puts
  the id of the buffer at the end of the consumer's queue, although the consumer never asked for that channel.\<close>

theorem switched_consumer_receives:
  assumes inv: "store_inv (live k) s" "shm_contract (kernel E) live" "subs_ok s"
    and args: "argv (clients s c) = [cm, pub, nm]" "c \<noteq> x" "pub \<noteq> ch" "length pub < 128"
    and x: "client_channels (clients s x) = {ch}" "smempubsub_channels s ch = Some l" "obuf_wf (clients s x)" "writable (clients s x)"
    and only: "\<And>ch' l' d. smempubsub_channels s ch' = Some l' \<Longrightarrow> d \<in> set l' \<Longrightarrow> has_name s d nm \<longleftrightarrow> d = x"
    and order: "order = o1 @ ch # o2" "ch \<notin> set o1" "ch \<notin> set o2"
    and p: "smempubsubPublishMessage E pub (dec_int i) (smemswitchCommand A c order s) k = (n, s', k')" "0 < i" "int_range i"
    and cons: "decodes reader" "listening SubCallback ac" "iterates ord" "queue_wf cx" "length (queue_contents cx) < 255"
  shows "\<exists>b ac' cx'. pending (clients s' x) = pending (clients s x) @ b \<and>
    redisAsyncHandleRead (consumer_run redisCommand) ord SockOk (Some (True, reader b)) (ac, cx, w) = Inr (ac', cx', w) \<and>
    alive ac' \<and> queue_contents cx' = queue_contents cx @ [i]"
proof -
  let ?t = "switched x ch pub l s" and ?l = "x # (case smempubsub_channels s pub of None \<Rightarrow> [] | Some l' \<Rightarrow> l')"
  define s1 where "s1 = smemswitchCommand A c order s"
  have s1: "s1 = addReplyLongLong A c 0 ?t" unfolding s1_def by (rule switch_result [OF inv(3) args(1) x(1,2) _ order args(3)]) (rule only)
  have fr: "out_frame ?t s1" unfolding s1 by (rule addReplyLongLong_frame)
  have ok: "subs_ok s1" using switched_subs_ok [OF inv(3) x(1,2) args(3)] subs_ok_out_frame [OF fr] by simp
  have si: "store_inv (live k) s1" using inv(1) store_inv_out_frame [OF fr] by (simp add: switched_def store_frame_channels)
  have l: "smempubsub_channels s1 pub = Some ?l" using out_frame_simps(4) [OF fr] by (simp add: switched_def)
  have "clients s1 x = clients ?t x" using addReplyLongLong_appends [where c = c and s = ?t and A = A and ll = 0] args(2) unfolding s1 appends_def by simp
  then have cl: "pending (clients s1 x) = pending (clients s x)" "obuf_wf (clients s1 x)" "writable (clients s1 x)"
    using x(3,4) by (simp_all add: switched_def add_channel_def drop_channel_def obuf_wf_def writable_def accepts_def pending_def out_bytes_def)
  have "pending (clients s' x) = pending (clients s1 x) @ message_bytes pub (dec_int i)"
    using publish_cases(7) [OF si inv(2) p(1) [folded s1_def], of ?l x] l subs_okD(2) [OF ok l] cl by simp
  moreover obtain cx' where "process_replies (consumer_run redisCommand) ord True (map id_message [(pub, i)]) None (ready ac, cx, w) = Inr (ready ac, cx', w)"
    "queue_contents cx' = queue_contents cx @ map snd [(pub, i)]"
    using messages_are_queued [of "ready ac" ord cx "[(pub, i)]" redisCommand None w] cons p(2,3) by auto
  moreover have "alive (ready ac)" using cons(2) ready_simps(1) [of SubCallback ac] by (simp add: listening_def)
  ultimately show ?thesis
    using cl(1) decodes_message [OF cons(1) args(4) p(3)] by (auto simp: handle_read simp del: process_replies.simps)
qed

theorem switched_consumer_receives_witness:
  "\<exists>b ac ac' cx'. start_subscriber (Some False) (smemContext_calloc\<lparr>channel := ''cam''\<rparr>) = Inr (Some ac) \<and>
    pending (clients (fst (snd (smempubsubPublishMessage demo_env ''new'' (dec_int 7) (smemswitchCommand blank_alloc 3 [''cam''] demo_names) [7, 9]))) 2) =
      pending (clients demo_names 2) @ b \<and>
    redisAsyncHandleRead (consumer_run (\<lambda>h r w. (None, w))) rev SockOk (Some (True, parser_reader b)) (ac, smemContext_calloc, ()) = Inr (ac', cx', ()) \<and>
    queue_contents cx' = [7]"
proof -
  let ?r = "smempubsubPublishMessage demo_env ''new'' (dec_int 7) (smemswitchCommand blank_alloc 3 [''cam''] demo_names) [7, 9]"
  have r: "?r = (fst ?r, fst (snd ?r), snd (snd ?r))" by simp
  let ?cx = "smemContext_calloc\<lparr>channel := ''cam''\<rparr>"
  have "cname ?cx = []" "length (channel ?cx) < 2 ^ 31" by (simp_all add: smemContext_calloc_def)
  then obtain ac where ac: "start_subscriber (Some False) ?cx = Inr (Some ac)" "replies ac = []" "listening SubCallback (ac\<lparr>replies := []\<rparr>)"
    using start_subscriber_context [where cx = ?cx, OF _ prod.collapse [symmetric], of 4] by metis
  have "ac\<lparr>replies := []\<rparr> = ac" using ac(2) by (cases ac) simp
  with ac(3) have l: "listening SubCallback ac" by simp
  have q: "queue_wf smemContext_calloc" "queue_contents smemContext_calloc = []"
    by (simp_all add: queue_wf_def queue_contents_def ring_list_def ring_len_def smemContext_calloc_def)
  have d: "obuf_wf (clients demo_names 2)" "writable (clients demo_names 2)" "store_inv (set [7, 9]) demo_names" "iterates rev"
      "shm_contract (kernel demo_env) set"
    using demo_subs_inv list_kernel_contract
    by (simp_all add: demo_names_def store_inv_update_client iterates_def)
      (simp_all add: with_args_def demo_subs_def add_channel_def demo_server_def blank_server_def blank_client_def obuf_wf_def writable_def accepts_def out_bytes_def)
  from switched_consumer_receives [where live = set and s = demo_names and c = 3 and x = 2 and ch = "''cam''" and l = "[1, 2]" and ?o1.0 = "[]" and ?o2.0 = "[]"
      and order = "[''cam'']" and nm = "''tv''" and pub = "''new''" and A = blank_alloc and cm = "''smemswitch''" and i = 7 and reader = parser_reader and ord = rev
      and ac = ac and cx = smemContext_calloc and redisCommand = "\<lambda>h r w. (None, w)" and w = "()" and n = "fst ?r" and s' = "fst (snd ?r)" and k' = "snd (snd ?r)",
      OF d(3,5) demo_names_ok _ _ _ _ _ _ d(1,2) _ _ _ _ r _ _ parser_reader_decodes l d(4) q(1)]
  show ?thesis using ac(1) by (auto simp: q(2) int_range_def)
qed

end
